(* ===== verification/Prelude.thy ===== *)
theory Prelude
  imports Main "HOL-Library.Word" "HOL-Library.Char_ord" "HOL-Library.List_Lexorder"
    "HOL-Library.Sublist" "HOL-Library.Multiset"
begin

text \<open>
  Shared vocabulary of the development: bytes and Go strings, the error values that the
  packages pass to each other, contexts, readers, 64-bit signed wrap-around, and the generic
  lemmas on lists and association lists that the component theories use.
\<close>

unbundle bit_operations_syntax

named_theorems go_simps \<open>unfolding rules of the modelled Go library\<close>

section \<open>Bytes, strings and machine integers\<close>

text \<open>
  A Go \<^verbatim>\<open>string\<close> is an immutable byte sequence and is modelled by \<^typ>\<open>string\<close>, whose
  characters are bytes. A \<^verbatim>\<open>[]byte\<close> is modelled by \<open>bytes\<close>. The conversions
  \<^verbatim>\<open>[]byte(s)\<close> and \<^verbatim>\<open>string(b)\<close> are \<open>bytes_of\<close> and \<open>string_of\<close>.
\<close>

type_synonym byte = "8 word"
type_synonym bytes = "byte list"

abbreviation code :: "char \<Rightarrow> nat" where
  "code c \<equiv> of_char c"

definition bytes_of :: "string \<Rightarrow> bytes" where
  "bytes_of s = map (\<lambda>c. of_nat (code c)) s"

definition string_of :: "bytes \<Rightarrow> string" where
  "string_of b = map (\<lambda>w. char_of (unat w)) b"

lemma length_bytes_of [simp]: "length (bytes_of s) = length s"
  by (simp add: bytes_of_def)

lemma length_string_of [simp]: "length (string_of b) = length b"
  by (simp add: string_of_def)

lemma unat_of_char_byte [simp]: "unat (of_nat (code c) :: byte) = code c"
  by (simp add: unat_of_nat)

lemma string_of_bytes_of [simp]: "string_of (bytes_of s) = s"
  by (simp add: bytes_of_def string_of_def comp_def)

text \<open>Go's \<^verbatim>\<open>int64\<close> values are integers; \<open>int64\<close> is the wrap-around of their arithmetic.\<close>

definition MaxInt64 :: int where
  "MaxInt64 = 9223372036854775807"

definition int64 :: "int \<Rightarrow> int" where
  "int64 x = (x + 9223372036854775808) mod 18446744073709551616 - 9223372036854775808"

definition is_int64 :: "int \<Rightarrow> bool" where
  "is_int64 x \<longleftrightarrow> - MaxInt64 - 1 \<le> x \<and> x \<le> MaxInt64"

lemma int64_id [simp]: "is_int64 x \<Longrightarrow> int64 x = x"
  by (simp add: int64_def is_int64_def MaxInt64_def)

lemma is_int64_int64 [simp]: "is_int64 (int64 x)"
proof -
  have "0 \<le> (x + 9223372036854775808) mod 18446744073709551616"
    and "(x + 9223372036854775808) mod 18446744073709551616 < 18446744073709551616"
    by simp_all
  then show ?thesis by (simp add: int64_def is_int64_def MaxInt64_def)
qed

lemma unat_SucD:
  assumes "unat a = Suc (unat b)"
  shows "(a :: 'a::len word) = b + 1"
proof -
  have "a = of_nat (unat a)" by simp
  also have "\<dots> = b + 1" unfolding assms by simp
  finally show ?thesis .
qed

section \<open>Errors\<close>

text \<open>
  Go errors are compared with \<^verbatim>\<open>errors.Is\<close>, so an error value is modelled by the sentinel
  that its wrapping chain carries; the text that \<^verbatim>\<open>fmt.Errorf\<close> puts around it is dropped. An
  error without a sentinel keeps its text (\<open>ErrMsg\<close>). \<open>ErrJoin\<close> is an error that wraps two
  errors (\<^verbatim>\<open>errors.Join\<close>, or a format with two \<^verbatim>\<open>%w\<close> verbs).
\<close>

datatype err =
    ErrMsg string
  | ErrJoin err err
  | ErrCanceled
  | ErrDeadlineExceeded
  | ErrUnexpectedEOF
  | ErrEOF
  \<comment> \<open>package shard\<close>
  | ErrInvalidPath
  | ErrInvalidPathPolicy
  | ErrReservedTopLevel
  | ErrInvalidShardCount
  | ErrMissingParser
  \<comment> \<open>package storage\<close>
  | ErrNotFound
  | ErrAlreadyExists
  | ErrPreconditionFailed
  | ErrConditionalConflict
  | ErrConditionalUnsupported
  | ErrConsistencyUnsupported
  | ErrInvalidRange
  | ErrInvalidKey
  | ErrMultipartUnsupported
  | ErrInvalidMultipart
  \<comment> \<open>package authz\<close>
  | ErrDenied
  | ErrPolicyNotFound
  \<comment> \<open>package gitpack\<close>
  | ErrInvalid
  | ErrLimit
  | ErrObjectNotFound
  | ErrClosed
  \<comment> \<open>package repository\<close>
  | RepoErrInvalid
  | RepoErrNotFound
  | RepoErrAlreadyExists
  | RepoErrCorrupt
  | RepoErrLimit
  | RepoErrConflict
  | RepoErrForbidden
  | ErrMaintenanceBusy
  | ErrLFSMissing
  | ErrLFSHashMismatch
  | ErrLFSQuota

fun errors_Is :: "err \<Rightarrow> err \<Rightarrow> bool" where
  "errors_Is (ErrJoin a b) t \<longleftrightarrow> ErrJoin a b = t \<or> errors_Is a t \<or> errors_Is b t"
| "errors_Is e t \<longleftrightarrow> e = t"

lemma errors_Is_refl [simp]: "errors_Is e e"
  by (cases e) auto

type_synonym 'a result = "err + 'a"

text \<open>
  A context, by what \<^verbatim>\<open>ctx.Err()\<close> returns while an operation runs.
\<close>

datatype ctx = Background | Canceled | DeadlineExceeded

fun ctx_Err :: "ctx \<Rightarrow> err option" where
  "ctx_Err Background = None"
| "ctx_Err Canceled = Some ErrCanceled"
| "ctx_Err DeadlineExceeded = Some ErrDeadlineExceeded"

lemma ctx_Err_None [simp]: "ctx_Err ctx = None \<longleftrightarrow> ctx = Background"
  by (cases ctx) simp_all

lemma ctx_Err_Some: "ctx_Err ctx = Some e \<Longrightarrow> e = ErrCanceled \<or> e = ErrDeadlineExceeded"
  by (cases ctx) auto

section \<open>Control flow\<close>

text \<open>A step that may return an error, and the first error of a sequence of checks.\<close>

definition rbind :: "'a result \<Rightarrow> ('a \<Rightarrow> 'b result) \<Rightarrow> 'b result" where
  "rbind r f = (case r of Inl e \<Rightarrow> Inl e | Inr x \<Rightarrow> f x)"

definition require :: "bool \<Rightarrow> string \<Rightarrow> err option" where
  "require ok msg = (if ok then None else Some (ErrMsg msg))"

fun firstErr :: "err option list \<Rightarrow> err option" where
  "firstErr [] = None"
| "firstErr (None # es) = firstErr es"
| "firstErr (Some e # es) = Some e"

lemma rbind_Inr: "rbind r f = Inr y \<longleftrightarrow> (\<exists>x. r = Inr x \<and> f x = Inr y)"
  by (cases r) (simp_all add: rbind_def)

lemma require_None [simp]: "require ok msg = None \<longleftrightarrow> ok"
  by (simp add: require_def)

lemma firstErr_None: "firstErr es = None \<longleftrightarrow> (\<forall>e \<in> set es. e = None)"
  by (induction es rule: firstErr.induct) simp_all

section \<open>Decimal numbers\<close>

text \<open>\<^verbatim>\<open>strconv.FormatUint(n, 10)\<close>.\<close>

fun FormatUint :: "nat \<Rightarrow> string" where
  "FormatUint n = (if n < 10 then [char_of (48 + n)] else FormatUint (n div 10) @ [char_of (48 + n mod 10)])"

declare FormatUint.simps [simp del]

fun decimalValue :: "string \<Rightarrow> nat" where
  "decimalValue s = foldl (\<lambda>n c. 10 * n + (code c - 48)) 0 s"

lemma decimalValue_FormatUint: "decimalValue (FormatUint n) = n"
proof (induction n rule: FormatUint.induct)
  case (1 n)
  show ?case
  proof (cases "n < 10")
    case True
    then show ?thesis by (subst FormatUint.simps) (simp add: of_char_of take_bit_nat_eq_self)
  next
    case False
    with 1 show ?thesis
      by (subst FormatUint.simps) (simp add: of_char_of take_bit_nat_eq_self)
  qed
qed

lemma FormatUint_inj: "FormatUint m = FormatUint n \<longleftrightarrow> m = n"
  by (metis decimalValue_FormatUint)

lemma FormatUint_nonempty [simp]: "FormatUint n \<noteq> []"
  by (subst FormatUint.simps) simp

text \<open>\<^verbatim>\<open>strconv.FormatInt(n, 10)\<close>.\<close>

definition FormatInt :: "int \<Rightarrow> string" where
  "FormatInt n = (if n < 0 then CHR ''-'' # FormatUint (nat (- n)) else FormatUint (nat n))"

definition is_digit :: "char \<Rightarrow> bool" where
  "is_digit c \<longleftrightarrow> 48 \<le> code c \<and> code c \<le> 57"

text \<open>\<^verbatim>\<open>strconv.ParseUint(s, 10, 64)\<close> and \<^verbatim>\<open>strconv.ParseInt(s, 10, 64)\<close>; \<open>None\<close> is their error.\<close>

definition ParseUint :: "string \<Rightarrow> nat option" where
  "ParseUint s =
     (if s \<noteq> [] \<and> list_all is_digit s \<and> decimalValue s < 2 ^ 64 then Some (decimalValue s) else None)"

definition ParseInt :: "string \<Rightarrow> int option" where
  "ParseInt s =
     (let neg = (s \<noteq> [] \<and> hd s = CHR ''-'');
          digits = (if s \<noteq> [] \<and> (hd s = CHR ''-'' \<or> hd s = CHR ''+'') then tl s else s)
      in if digits = [] \<or> \<not> list_all is_digit digits then None
         else (let n = (if neg then - int (decimalValue digits) else int (decimalValue digits))
               in if is_int64 n then Some n else None))"

lemma FormatUint_digits: "list_all is_digit (FormatUint n)"
proof (induction n rule: FormatUint.induct)
  case (1 n)
  then show ?case
    by (subst FormatUint.simps) (auto simp: is_digit_def [abs_def] of_char_of take_bit_nat_eq_self)
qed

lemma ParseUint_FormatUint [simp]: "n < 2 ^ 64 \<Longrightarrow> ParseUint (FormatUint n) = Some n"
  by (simp add: ParseUint_def FormatUint_digits decimalValue_FormatUint del: decimalValue.simps)

lemma FormatUint_hd: "is_digit (hd (FormatUint n))"
  using FormatUint_digits [of n] by (cases "FormatUint n") auto

lemma FormatUint_hd_sign: "hd (FormatUint n) \<noteq> CHR ''-''" "hd (FormatUint n) \<noteq> CHR ''+''"
  using FormatUint_hd [of n] by (auto simp: is_digit_def)

lemma ParseInt_FormatInt [simp]: "is_int64 n \<Longrightarrow> ParseInt (FormatInt n) = Some n"
  by (auto simp: ParseInt_def FormatInt_def Let_def FormatUint_digits FormatUint_hd_sign
      decimalValue_FormatUint simp del: decimalValue.simps)

lemma FormatUint_leading: "n \<noteq> 0 \<Longrightarrow> hd (FormatUint n) \<noteq> CHR ''0''"
proof (induction n rule: FormatUint.induct)
  case (1 n)
  show ?case
  proof (cases "n < 10")
    case True
    with 1 show ?thesis
      by (subst FormatUint.simps) (simp add: char_of_eq_iff take_bit_nat_eq_self)
  next
    case False
    with 1 show ?thesis by (subst FormatUint.simps) simp
  qed
qed

section \<open>Association lists with distinct keys\<close>

text \<open>
  A Go map whose iteration order is visible to the code is an association list with distinct
  keys in an arbitrary order: the theorems hold for every order.
\<close>

fun al_put :: "'k \<Rightarrow> 'v \<Rightarrow> ('k \<times> 'v) list \<Rightarrow> ('k \<times> 'v) list" where
  "al_put k v [] = [(k, v)]"
| "al_put k v ((k', v') # xs) = (if k' = k then (k, v) # xs else (k', v') # al_put k v xs)"

definition al_del :: "'k \<Rightarrow> ('k \<times> 'v) list \<Rightarrow> ('k \<times> 'v) list" where
  "al_del k xs = filter (\<lambda>p. fst p \<noteq> k) xs"

definition al_wf :: "('k \<times> 'v) list \<Rightarrow> bool" where
  "al_wf xs \<longleftrightarrow> distinct (map fst xs)"

lemma map_of_al_put [simp]: "map_of (al_put k v xs) = (map_of xs)(k \<mapsto> v)"
  by (induction xs) auto

lemma map_of_al_del [simp]: "map_of (al_del k xs) = (map_of xs)(k := None)"
  by (induction xs) (auto simp: al_del_def)

lemma dom_al_put [simp]: "fst ` set (al_put k v xs) = insert k (fst ` set xs)"
  by (metis dom_fun_upd dom_map_of_conv_image_fst map_of_al_put option.distinct(1))

lemma set_al_del [simp]: "set (al_del k xs) = {p \<in> set xs. fst p \<noteq> k}"
  by (auto simp: al_del_def)

lemma al_wf_Nil [simp]: "al_wf []"
  by (simp add: al_wf_def)

lemma al_wf_put [simp]: "al_wf xs \<Longrightarrow> al_wf (al_put k v xs)"
proof (induction xs)
  case Nil
  then show ?case by (simp add: al_wf_def)
next
  case (Cons p xs)
  obtain k' v' where p: "p = (k', v')" by (cases p)
  have "fst ` set (al_put k v xs) = insert k (fst ` set xs)" by simp
  with Cons show ?case unfolding p al_wf_def by (auto simp: image_iff)
qed

lemma al_put_snd: "p \<in> set (al_put k v xs) \<Longrightarrow> p = (k, v) \<or> p \<in> set xs"
  by (induction xs) (auto split: if_splits)

lemma al_put_new: "map_of xs k = None \<Longrightarrow> al_put k v xs = xs @ [(k, v)]"
  by (induction xs) (auto split: if_splits)

lemma al_wf_del [simp]: "al_wf xs \<Longrightarrow> al_wf (al_del k xs)"
  by (auto simp: al_wf_def al_del_def distinct_map inj_on_def)

lemma al_wf_map_of: "al_wf xs \<Longrightarrow> (k, v) \<in> set xs \<longleftrightarrow> map_of xs k = Some v"
  by (simp add: al_wf_def)

section \<open>Fixed-size chunks of a list\<close>

lemma drop_eq_ConsD: "drop i xs = y # ys \<Longrightarrow> i < length xs \<and> xs ! i = y \<and> drop (Suc i) xs = ys"
  by (metis Cons_nth_drop_Suc drop_all leI list.distinct(1) list.inject)

text \<open>The full chunks of \<open>k\<close> elements at the front of a list; the remainder is left out.\<close>

definition chunks :: "nat \<Rightarrow> 'a list \<Rightarrow> 'a list list" where
  "chunks k xs = map (\<lambda>i. take k (drop (i * k) xs)) [0..<length xs div k]"

lemma chunks_short: "length xs < k \<Longrightarrow> chunks k xs = []"
  by (simp add: chunks_def)

lemma chunks_step:
  assumes "0 < k" and "k \<le> length xs"
  shows "chunks k xs = take k xs # chunks k (drop k xs)"
proof -
  have "length xs div k = Suc ((length xs - k) div k)"
    using assms by (simp add: le_div_geq)
  moreover have "[0..<Suc n] = 0 # map Suc [0..<n]" for n
    by (simp add: map_Suc_upt upt_conv_Cons)
  ultimately show ?thesis
    by (simp add: chunks_def add.commute)
qed

lemma drop_full_step:
  assumes "0 < k" and "k \<le> length xs"
  shows "drop (k * (length (drop k xs) div k)) (drop k xs) = drop (k * (length xs div k)) xs"
proof -
  have "length xs div k = Suc ((length xs - k) div k)"
    using assms by (simp add: le_div_geq)
  then show ?thesis by (simp add: algebra_simps)
qed

section \<open>Sorted lists\<close>

lemma insort_split:
  assumes "sorted L" and "x \<notin> set L"
  shows "insort x L = takeWhile (\<lambda>k. k < x) L @ x # dropWhile (\<lambda>k. k < x) L"
  using assms by (induction L) (auto simp: less_le takeWhile_eq_Nil_iff)

lemma takeWhile_take: "takeWhile P (take n xs) = take n (takeWhile P xs)"
  by (induction xs arbitrary: n) (auto simp: take_Cons split: nat.splits)

lemma sort_snoc: "sort (xs @ [x]) = insort x (sort xs)"
  by (rule properties_for_sort) (simp_all add: sorted_insort)

lemma insort_key_map: "insort_key f (g x) (map g xs) = map g (insort_key (\<lambda>x. f (g x)) x xs)"
  by (induction xs) auto

lemma sort_key_map: "sort_key f (map g xs) = map g (sort_key (\<lambda>x. f (g x)) xs)"
  by (induction xs) (simp_all add: insort_key_map)

lemma sorted_last_ge: "sorted xs \<Longrightarrow> k \<in> set xs \<Longrightarrow> k \<le> last xs"
  by (induction xs) auto

lemma filter_greater_last_take:
  assumes "sorted_wrt (<) R" and "0 < n" and "n \<le> length R"
  shows "filter (\<lambda>k. last (take n R) < k) R = drop n (R :: 'a::linorder list)"
proof -
  have tk: "take n R \<noteq> []" using assms by auto
  have sw: "sorted_wrt (<) (take n R @ drop n R)" using assms(1) by simp
  have "\<not> last (take n R) < k" if "k \<in> set (take n R)" for k
  proof -
    have "sorted (take n R)" using sw by (simp add: sorted_wrt_append strict_sorted_imp_sorted)
    then have "k \<le> last (take n R)" using that by (rule sorted_last_ge)
    then show ?thesis by simp
  qed
  moreover have "last (take n R) < k" if "k \<in> set (drop n R)" for k
    using sw that last_in_set [OF tk] unfolding sorted_wrt_append by blast
  ultimately have "filter (\<lambda>k. last (take n R) < k) (take n R @ drop n R) = drop n R"
    by (simp only: filter_append) (simp add: filter_empty_conv filter_id_conv)
  then show ?thesis by simp
qed

end
