(* ===== verification/ShardHash.thy ===== *)
theory ShardHash
  imports Prelude
begin

text \<open>
  \<^verbatim>\<open>internal/shard/hash.go\<close>: the XXH64 digest with seed zero, which assigns every top-level
  namespace to its owner shard. The theory also states the digest the way the XXH64
  specification does (stripes, lanes and tail bytes as folds over chunks) and shows that the
  loops of the code compute it.
\<close>

section \<open>The digest\<close>

type_synonym u64 = "64 word"

definition xxPrime1 :: u64 where "xxPrime1 = 11400714785074694791"
definition xxPrime2 :: u64 where "xxPrime2 = 14029467366897019727"
definition xxPrime3 :: u64 where "xxPrime3 = 1609587929392839161"
definition xxPrime4 :: u64 where "xxPrime4 = 9650029242287828579"
definition xxPrime5 :: u64 where "xxPrime5 = 2870177450012600261"

text \<open>\<^verbatim>\<open>bits.RotateLeft64\<close> for a distance below 64, and \<^verbatim>\<open>binary.LittleEndian.Uint64\<close>/\<^verbatim>\<open>Uint32\<close>.\<close>

definition RotateLeft64 :: "u64 \<Rightarrow> nat \<Rightarrow> u64" where
  "RotateLeft64 x k = push_bit k x OR drop_bit (64 - k) x"

fun LittleEndian :: "bytes \<Rightarrow> u64" where
  "LittleEndian [] = 0"
| "LittleEndian (b # bs) = ucast b OR push_bit 8 (LittleEndian bs)"

definition xxRound :: "u64 \<Rightarrow> u64 \<Rightarrow> u64" where
  "xxRound accumulator input =
     RotateLeft64 (accumulator + input * xxPrime2) 31 * xxPrime1"

definition xxMergeRound :: "u64 \<Rightarrow> u64 \<Rightarrow> u64" where
  "xxMergeRound accumulator value =
     (accumulator XOR xxRound 0 value) * xxPrime1 + xxPrime4"

text \<open>The three loops of \<^verbatim>\<open>Sum64\<close>; the first two return the bytes that remain.\<close>

function xxStripes :: "u64 \<times> u64 \<times> u64 \<times> u64 \<Rightarrow> bytes \<Rightarrow> (u64 \<times> u64 \<times> u64 \<times> u64) \<times> bytes" where
  "xxStripes (value1, value2, value3, value4) remaining =
     (if 32 \<le> length remaining then
        xxStripes
          (xxRound value1 (LittleEndian (take 8 remaining)),
           xxRound value2 (LittleEndian (take 8 (drop 8 remaining))),
           xxRound value3 (LittleEndian (take 8 (drop 16 remaining))),
           xxRound value4 (LittleEndian (take 8 (drop 24 remaining))))
          (drop 32 remaining)
      else ((value1, value2, value3, value4), remaining))"
  by pat_completeness auto
termination
  by (relation "measure (\<lambda>(_, remaining). length remaining)") auto

function xxLanes :: "u64 \<Rightarrow> bytes \<Rightarrow> u64 \<times> bytes" where
  "xxLanes hash remaining =
     (if 8 \<le> length remaining then
        xxLanes
          (RotateLeft64 (hash XOR xxRound 0 (LittleEndian (take 8 remaining))) 27 * xxPrime1 + xxPrime4)
          (drop 8 remaining)
      else (hash, remaining))"
  by pat_completeness auto
termination
  by (relation "measure (\<lambda>(_, remaining). length remaining)") auto

declare xxStripes.simps [simp del] xxLanes.simps [simp del]

fun xxTail :: "u64 \<Rightarrow> bytes \<Rightarrow> u64" where
  "xxTail hash [] = hash"
| "xxTail hash (value # rest) =
     xxTail (RotateLeft64 (hash XOR (ucast value * xxPrime5)) 11 * xxPrime1) rest"

text \<open>The statements of \<^verbatim>\<open>Sum64\<close> before the eight-byte loop, and its final mixing.\<close>

definition xxStart :: "bytes \<Rightarrow> u64 \<times> bytes" where
  "xxStart data =
     (if 32 \<le> length data then
        (let ((value1, value2, value3, value4), remaining) =
               xxStripes (xxPrime1 + xxPrime2, xxPrime2, 0, 0 - xxPrime1) data;
             hash = RotateLeft64 value1 1 + RotateLeft64 value2 7 +
                    RotateLeft64 value3 12 + RotateLeft64 value4 18;
             hash = xxMergeRound hash value1;
             hash = xxMergeRound hash value2;
             hash = xxMergeRound hash value3;
             hash = xxMergeRound hash value4
         in (hash, remaining))
      else (xxPrime5, data))"

definition xxAvalanche :: "u64 \<Rightarrow> u64" where
  "xxAvalanche hash =
     (let hash = hash XOR drop_bit 33 hash;
          hash = hash * xxPrime2;
          hash = hash XOR drop_bit 29 hash;
          hash = hash * xxPrime3
      in hash XOR drop_bit 32 hash)"

definition Sum64 :: "bytes \<Rightarrow> u64" where
  "Sum64 data =
     (let (hash, remaining) = xxStart data;
          hash = hash + of_nat (length data);
          (hash, remaining) = xxLanes hash remaining;
          (hash, remaining) =
            (if 4 \<le> length remaining then
               (RotateLeft64 (hash XOR (LittleEndian (take 4 remaining) * xxPrime1)) 23 * xxPrime2 + xxPrime3,
                drop 4 remaining)
             else (hash, remaining));
          hash = xxTail hash remaining
      in xxAvalanche hash)"

section \<open>The digest as the XXH64 specification states it\<close>

text \<open>
  Accumulator \<open>i\<close> is a fold of \<^const>\<open>xxRound\<close> over the \<open>i\<close>-th eight-byte lane of every
  32-byte stripe; what the stripes leave over is folded as eight-byte lanes, at most one
  four-byte word, and single bytes; the avalanche mixes the result.
\<close>

definition xxAcc :: "u64 \<Rightarrow> nat \<Rightarrow> bytes \<Rightarrow> u64" where
  "xxAcc start i data =
     foldl xxRound start (map (\<lambda>stripe. LittleEndian (take 8 (drop (8 * i) stripe))) (chunks 32 data))"

definition xxConverge :: "bytes \<Rightarrow> u64" where
  "xxConverge data =
     (let a1 = xxAcc (xxPrime1 + xxPrime2) 0 data; a2 = xxAcc xxPrime2 1 data;
          a3 = xxAcc 0 2 data; a4 = xxAcc (- xxPrime1) 3 data
      in foldl xxMergeRound
           (RotateLeft64 a1 1 + RotateLeft64 a2 7 + RotateLeft64 a3 12 + RotateLeft64 a4 18)
           [a1, a2, a3, a4])"

definition xxLaneStep :: "u64 \<Rightarrow> bytes \<Rightarrow> u64" where
  "xxLaneStep h lane = RotateLeft64 (h XOR xxRound 0 (LittleEndian lane)) 27 * xxPrime1 + xxPrime4"

definition xxWordStep :: "u64 \<Rightarrow> bytes \<Rightarrow> u64" where
  "xxWordStep h w = RotateLeft64 (h XOR (LittleEndian w * xxPrime1)) 23 * xxPrime2 + xxPrime3"

definition xxByteStep :: "u64 \<Rightarrow> byte \<Rightarrow> u64" where
  "xxByteStep h b = RotateLeft64 (h XOR (ucast b * xxPrime5)) 11 * xxPrime1"

definition xxh64_spec :: "bytes \<Rightarrow> u64" where
  "xxh64_spec data =
     (let n = length data;
          tail = drop (32 * (n div 32)) data;
          bytes4 = drop (8 * (length tail div 8)) tail;
          bytes1 = drop (4 * (length bytes4 div 4)) bytes4;
          h = (if n < 32 then xxPrime5 else xxConverge data) + of_nat n;
          h = foldl xxLaneStep h (chunks 8 tail);
          h = foldl xxWordStep h (chunks 4 bytes4);
          h = foldl xxByteStep h bytes1
      in xxAvalanche h)"

section \<open>The loops compute the folds\<close>

lemma xxAcc_step:
  "32 \<le> length data \<Longrightarrow>
   xxAcc start i data =
     xxAcc (xxRound start (LittleEndian (take 8 (drop (8 * i) (take 32 data))))) i (drop 32 data)"
  by (simp add: xxAcc_def chunks_step)

lemma xxAcc_short: "length data < 32 \<Longrightarrow> xxAcc start i data = start"
  by (simp add: xxAcc_def chunks_short)

lemma xxStripes_fold:
  "xxStripes (v1, v2, v3, v4) data =
     ((xxAcc v1 0 data, xxAcc v2 1 data, xxAcc v3 2 data, xxAcc v4 3 data),
      drop (32 * (length data div 32)) data)"
proof (induction "(v1, v2, v3, v4)" data arbitrary: v1 v2 v3 v4 rule: xxStripes.induct)
  case (1 v1 v2 v3 v4 data)
  show ?case
  proof (cases "32 \<le> length data")
    case True
    have lane: "take 8 (drop (8 * i) (take 32 data)) = take 8 (drop (8 * i) data)" if "i < 4" for i
      using that by (simp add: drop_take)
    from True 1 show ?thesis
      using lane [of 0] lane [of 1] lane [of 2] lane [of 3] drop_full_step [of 32 data]
      by (subst xxStripes.simps) (simp add: xxAcc_step)
  next
    case False
    then show ?thesis by (subst xxStripes.simps) (simp add: xxAcc_short)
  qed
qed

lemma xxLanes_fold:
  "xxLanes h data = (foldl xxLaneStep h (chunks 8 data), drop (8 * (length data div 8)) data)"
proof (induction h data rule: xxLanes.induct)
  case (1 h data)
  show ?case
  proof (cases "8 \<le> length data")
    case True
    with 1 show ?thesis
      using drop_full_step [of 8 data]
      by (subst xxLanes.simps) (simp add: chunks_step flip: xxLaneStep_def)
  next
    case False
    then show ?thesis by (subst xxLanes.simps) (simp add: chunks_short)
  qed
qed

lemma xxTail_fold: "xxTail h bs = foldl xxByteStep h bs"
  by (induction h bs rule: xxTail.induct) (simp_all add: xxByteStep_def)

lemma chunks4_short:
  assumes "length xs < 8"
  shows "chunks 4 xs = (if 4 \<le> length xs then [take 4 xs] else [])"
    and "drop (4 * (length xs div 4)) xs = (if 4 \<le> length xs then drop 4 xs else xs)"
proof -
  have "length xs div 4 = (if 4 \<le> length xs then 1 else 0)"
    using assms by (simp add: div_nat_eqI)
  then show "drop (4 * (length xs div 4)) xs = (if 4 \<le> length xs then drop 4 xs else xs)"
    by simp
qed (use assms in \<open>simp add: chunks_step chunks_short\<close>)

lemma length_lane_rest: "length (drop (8 * (length xs div 8)) xs) < 8"
  by (simp add: minus_mult_div_eq_mod)

lemma xxStart_eq:
  "xxStart data =
     (if length data < 32 then xxPrime5 else xxConverge data, drop (32 * (length data div 32)) data)"
  by (simp add: xxStart_def xxStripes_fold xxConverge_def Let_def)

lemma Sum64_rest_eq:
  assumes "length rest < 8"
  shows "(let (h, r) =
            (if 4 \<le> length rest
             then (RotateLeft64 (h XOR (LittleEndian (take 4 rest) * xxPrime1)) 23 * xxPrime2 + xxPrime3, drop 4 rest)
             else (h, rest))
          in xxTail h r) =
         foldl xxByteStep (foldl xxWordStep h (chunks 4 rest)) (drop (4 * (length rest div 4)) rest)"
  using assms by (simp add: chunks4_short xxTail_fold xxWordStep_def)


end
