(* ===== verification/GoStrings.thy ===== *)
theory GoStrings
  imports Prelude
begin

text \<open>
  What the program uses of the Go packages \<^verbatim>\<open>strings\<close>, \<^verbatim>\<open>unicode/utf8\<close>, \<^verbatim>\<open>unicode\<close>, \<^verbatim>\<open>path\<close>
  and \<^verbatim>\<open>net/url\<close>, as executable functions on byte strings, with the lemmas that relate
  splitting, joining and percent-decoding.
\<close>

section \<open>Package strings\<close>

abbreviation HasPrefix :: "string \<Rightarrow> string \<Rightarrow> bool" where
  "HasPrefix s p \<equiv> prefix p s"

abbreviation HasSuffix :: "string \<Rightarrow> string \<Rightarrow> bool" where
  "HasSuffix s p \<equiv> suffix p s"

abbreviation Contains :: "string \<Rightarrow> string \<Rightarrow> bool" where
  "Contains s p \<equiv> sublist p s"

definition TrimPrefix :: "string \<Rightarrow> string \<Rightarrow> string" where
  "TrimPrefix s p = (if prefix p s then drop (length p) s else s)"

definition TrimSuffix :: "string \<Rightarrow> string \<Rightarrow> string" where
  "TrimSuffix s p = (if suffix p s then take (length s - length p) s else s)"

definition ContainsAny :: "string \<Rightarrow> string \<Rightarrow> bool" where
  "ContainsAny s cs \<longleftrightarrow> list_ex (\<lambda>c. c \<in> set cs) s"

text \<open>\<^verbatim>\<open>strings.Split\<close> and \<^verbatim>\<open>strings.Join\<close> for a one-byte separator.\<close>

fun Split :: "char \<Rightarrow> string \<Rightarrow> string list" where
  "Split c [] = [[]]"
| "Split c (x # xs) =
     (if x = c then [] # Split c xs
      else (case Split c xs of [] \<Rightarrow> [[x]] | y # ys \<Rightarrow> (x # y) # ys))"

fun Join :: "char \<Rightarrow> string list \<Rightarrow> string" where
  "Join c [] = []"
| "Join c [x] = x"
| "Join c (x # y # ys) = x @ c # Join c (y # ys)"

text \<open>\<^verbatim>\<open>strings.Cut\<close> for a one-byte separator: before, after, found.\<close>

fun Cut :: "char \<Rightarrow> string \<Rightarrow> string \<times> string \<times> bool" where
  "Cut c [] = ([], [], False)"
| "Cut c (x # xs) =
     (if x = c then ([], xs, True)
      else (let (before, after, found) = Cut c xs in (x # before, after, found)))"

text \<open>ASCII case folding, which is what \<^verbatim>\<open>strings.EqualFold\<close> does on ASCII operands.\<close>

definition to_lower :: "char \<Rightarrow> char" where
  "to_lower c = (if 65 \<le> code c \<and> code c \<le> 90 then char_of (code c + 32) else c)"

lemma Contains_char [simp]: "Contains s [c] \<longleftrightarrow> c \<in> set s"
proof
  assume "Contains s [c]"
  then show "c \<in> set s" by (auto simp: sublist_def)
next
  assume "c \<in> set s"
  then obtain ys zs where "s = ys @ [c] @ zs" by (auto dest: split_list)
  then show "Contains s [c]" unfolding sublist_def by blast
qed

lemma ContainsAny_iff: "ContainsAny s cs \<longleftrightarrow> (\<exists>c \<in> set cs. c \<in> set s)"
  by (auto simp: ContainsAny_def list_ex_iff)

lemma Split_not_Nil [simp]: "Split c s \<noteq> []"
  by (cases s) (auto split: list.splits)

lemma Split_Cons_other:
  "x \<noteq> c \<Longrightarrow> Split c (x # xs) = (x # hd (Split c xs)) # tl (Split c xs)"
  by (auto split: list.splits)

lemma Join_Cons: "Join c (x # xs) = (if xs = [] then x else x @ c # Join c xs)"
  by (cases xs) auto

lemma Join_Split [simp]: "Join c (Split c s) = s"
proof (induction s)
  case (Cons x xs)
  then show ?case
    by (cases "Split c xs") (auto simp: Join_Cons split: if_splits)
qed simp

lemma Split_append_sep [simp]: "c \<notin> set x \<Longrightarrow> Split c (x @ c # s) = x # Split c s"
  by (induction x) auto

lemma Split_append: "Split c (x @ c # y) = Split c x @ Split c y"
  by (induction x) (auto simp: Split_Cons_other split: list.splits)

lemma Split_no_sep [simp]: "c \<notin> set x \<Longrightarrow> Split c x = [x]"
  by (induction x) auto

lemma Split_Join:
  "xs \<noteq> [] \<Longrightarrow> \<forall>x \<in> set xs. c \<notin> set x \<Longrightarrow> Split c (Join c xs) = xs"
  by (induction c xs rule: Join.induct) auto

lemma Split_parts_no_sep: "p \<in> set (Split c s) \<Longrightarrow> c \<notin> set p"
  by (induction s arbitrary: p) (auto split: if_splits list.splits)

lemma set_Split_parts: "p \<in> set (Split c s) \<Longrightarrow> set p \<subseteq> set s"
  by (induction s arbitrary: p) (fastforce split: if_splits list.splits)+

lemma set_Join: "set (Join c xs) \<subseteq> insert c (\<Union>x \<in> set xs. set x)"
  by (induction c xs rule: Join.induct) auto

lemma Split_eq_Cons_prefix:
  assumes "Split c s = p # q # ps"
  shows "prefix (p @ [c]) s"
proof -
  have "s = Join c (p # q # ps)" by (metis Join_Split assms)
  then show ?thesis by (simp add: prefix_def)
qed

lemma length_Split_part: "p \<in> set (Split c s) \<Longrightarrow> length p \<le> length s"
proof (induction s arbitrary: p)
  case (Cons x xs)
  then show ?case by (fastforce split: if_splits list.splits intro: le_SucI)
qed simp

section \<open>Packages unicode/utf8 and unicode\<close>

text \<open>
  One step of \<^verbatim>\<open>utf8.DecodeRuneInString\<close>: the code point and the rest of the string; an
  invalid encoding consumes one byte and is \<open>None\<close> (Go's replacement rune of width one).
\<close>

definition cont_byte :: "char \<Rightarrow> bool" where
  "cont_byte c \<longleftrightarrow> 0x80 \<le> code c \<and> code c \<le> 0xBF"

definition second_ok :: "char \<Rightarrow> char \<Rightarrow> bool" where
  "second_ok b0 b1 \<longleftrightarrow>
     (if code b0 = 0xE0 then 0xA0 \<le> code b1 \<and> code b1 \<le> 0xBF
      else if code b0 = 0xED then 0x80 \<le> code b1 \<and> code b1 \<le> 0x9F
      else if code b0 = 0xF0 then 0x90 \<le> code b1 \<and> code b1 \<le> 0xBF
      else if code b0 = 0xF4 then 0x80 \<le> code b1 \<and> code b1 \<le> 0x8F
      else cont_byte b1)"

fun next_rune :: "char \<Rightarrow> string \<Rightarrow> nat option \<times> string" where
  "next_rune b0 rest =
     (if code b0 < 0x80 then (Some (code b0), rest)
      else if 0xC2 \<le> code b0 \<and> code b0 \<le> 0xDF then
        (case rest of b1 # r \<Rightarrow>
           if second_ok b0 b1 then (Some ((code b0 - 0xC0) * 64 + (code b1 - 0x80)), r) else (None, rest)
         | _ \<Rightarrow> (None, rest))
      else if 0xE0 \<le> code b0 \<and> code b0 \<le> 0xEF then
        (case rest of b1 # b2 # r \<Rightarrow>
           if second_ok b0 b1 \<and> cont_byte b2
           then (Some ((code b0 - 0xE0) * 4096 + (code b1 - 0x80) * 64 + (code b2 - 0x80)), r)
           else (None, rest)
         | _ \<Rightarrow> (None, rest))
      else if 0xF0 \<le> code b0 \<and> code b0 \<le> 0xF4 then
        (case rest of b1 # b2 # b3 # r \<Rightarrow>
           if second_ok b0 b1 \<and> cont_byte b2 \<and> cont_byte b3
           then (Some ((code b0 - 0xF0) * 262144 + (code b1 - 0x80) * 4096 +
                       (code b2 - 0x80) * 64 + (code b3 - 0x80)), r)
           else (None, rest)
         | _ \<Rightarrow> (None, rest))
      else (None, rest))"

lemma length_next_rune: "length (snd (next_rune b rest)) \<le> length rest"
  by (auto split: list.splits)

lemma length_next_runeD: "(r, t) = next_rune b rest \<Longrightarrow> length t \<le> length rest"
  by (metis length_next_rune snd_conv)

declare next_rune.simps [simp del]

function runes :: "string \<Rightarrow> nat option list" where
  "runes [] = []"
| "runes (b # rest) = (let (r, rest') = next_rune b rest in r # runes rest')"
  by pat_completeness auto
termination
  by (relation "measure length") (auto dest: length_next_runeD)

definition ValidString :: "string \<Rightarrow> bool" where
  "ValidString s \<longleftrightarrow> None \<notin> set (runes s)"

definition IsControl :: "nat option \<Rightarrow> bool" where
  "IsControl r \<longleftrightarrow> (case r of None \<Rightarrow> False | Some n \<Rightarrow> n < 0x20 \<or> (0x7f \<le> n \<and> n < 0xa0))"

definition has_control_rune :: "string \<Rightarrow> bool" where
  "has_control_rune s \<longleftrightarrow> list_ex IsControl (runes s)"

definition ascii :: "string \<Rightarrow> bool" where
  "ascii s \<longleftrightarrow> list_all (\<lambda>c. code c < 0x80) s"

lemma runes_ascii: "ascii s \<Longrightarrow> runes s = map (\<lambda>c. Some (code c)) s"
  by (induction s) (auto simp: ascii_def next_rune.simps)

lemma ValidString_ascii: "ascii s \<Longrightarrow> ValidString s"
  by (auto simp: ValidString_def runes_ascii)

definition ascii_control :: "char \<Rightarrow> bool" where
  "ascii_control c \<longleftrightarrow> code c < 0x20 \<or> code c = 0x7f"

section \<open>Package path\<close>

text \<open>
  \<^verbatim>\<open>path.Clean\<close>: empty and \<open>.\<close> elements disappear, an inner \<open>..\<close> removes the element before
  it, a leading \<open>..\<close> of a rooted path disappears, an empty result is \<open>.\<close>.
\<close>

definition clean_step :: "bool \<Rightarrow> string list \<Rightarrow> string \<Rightarrow> string list" where
  "clean_step rooted stack part =
     (if part = [] \<or> part = ''.'' then stack
      else if part = ''..'' then
        (if stack \<noteq> [] \<and> last stack \<noteq> ''..'' then butlast stack
         else if rooted then stack else stack @ [part])
      else stack @ [part])"

definition path_Clean :: "string \<Rightarrow> string" where
  "path_Clean p =
     (let rooted = prefix ''/'' p;
          out = Join CHR ''/'' (foldl (clean_step rooted) [] (Split CHR ''/'' p))
      in if rooted then CHR ''/'' # out else if out = [] then ''.'' else out)"

definition canonical_part :: "string \<Rightarrow> bool" where
  "canonical_part part \<longleftrightarrow> part \<noteq> [] \<and> part \<noteq> ''.'' \<and> part \<noteq> ''..''"

lemma foldl_clean_canonical:
  "\<forall>p \<in> set parts. canonical_part p \<Longrightarrow> foldl (clean_step rooted) stack parts = stack @ parts"
  by (induction parts arbitrary: stack) (auto simp: clean_step_def canonical_part_def)

lemma path_Clean_canonical:
  assumes "\<forall>p \<in> set (Split CHR ''/'' s). canonical_part p"
  shows "path_Clean s = s"
proof -
  have "\<not> prefix ''/'' s"
  proof
    assume "prefix ''/'' s"
    then obtain r where "s = CHR ''/'' # r" by (auto simp: prefix_def)
    with assms show False by (simp add: canonical_part_def)
  qed
  moreover have "s \<noteq> []" using assms by (cases s) (simp_all add: canonical_part_def)
  ultimately show ?thesis
    using foldl_clean_canonical [OF assms, of False "[]"] by (simp add: path_Clean_def)
qed

section \<open>Package net/url\<close>

definition hex_digit :: "char \<Rightarrow> nat option" where
  "hex_digit c =
     (if 48 \<le> code c \<and> code c \<le> 57 then Some (code c - 48)
      else if 97 \<le> code c \<and> code c \<le> 102 then Some (code c - 97 + 10)
      else if 65 \<le> code c \<and> code c \<le> 70 then Some (code c - 65 + 10)
      else None)"

text \<open>\<^verbatim>\<open>url.PathUnescape\<close>: \<open>None\<close> is its error.\<close>

fun PathUnescape :: "string \<Rightarrow> string option" where
  "PathUnescape [] = Some []"
| "PathUnescape (c # s) =
     (if c = CHR ''%'' then
        (case s of
           h # l # r \<Rightarrow>
             (case (hex_digit h, hex_digit l, PathUnescape r) of
                (Some hv, Some lv, Some t) \<Rightarrow> Some (char_of (16 * hv + lv) # t)
              | _ \<Rightarrow> None)
         | _ \<Rightarrow> None)
      else map_option (Cons c) (PathUnescape s))"

lemma PathUnescape_plain [simp]: "CHR ''%'' \<notin> set s \<Longrightarrow> PathUnescape s = Some s"
  by (induction s) auto

text \<open>\<^verbatim>\<open>URL.EscapedPath\<close> when \<^verbatim>\<open>RawPath\<close> is empty.\<close>

definition path_unreserved :: "char \<Rightarrow> bool" where
  "path_unreserved c \<longleftrightarrow>
     (97 \<le> code c \<and> code c \<le> 122) \<or> (65 \<le> code c \<and> code c \<le> 90) \<or> (48 \<le> code c \<and> code c \<le> 57) \<or>
     c \<in> set ''-_.~$&+,/:;=@''"

definition upper_hex :: "nat \<Rightarrow> char" where
  "upper_hex n = ''0123456789ABCDEF'' ! n"

definition path_escape :: "string \<Rightarrow> string" where
  "path_escape s = concat (map (\<lambda>c. if path_unreserved c then [c]
     else [CHR ''%'', upper_hex (code c div 16), upper_hex (code c mod 16)]) s)"

definition EscapedPath :: "string \<Rightarrow> string" where
  "EscapedPath p = (if p = ''*'' then ''*'' else path_escape p)"

section \<open>White space\<close>

text \<open>\<^verbatim>\<open>unicode.IsSpace\<close> and \<^verbatim>\<open>strings.TrimSpace\<close>, over the decoded characters with their bytes.\<close>

definition IsSpace :: "nat option \<Rightarrow> bool" where
  "IsSpace r =
     (case r of
        None \<Rightarrow> False
      | Some u \<Rightarrow> u \<in> {9, 10, 11, 12, 13, 32, 0x85, 0xA0, 0x1680, 0x2028, 0x2029, 0x202F, 0x205F, 0x3000} \<or>
          0x2000 \<le> u \<and> u \<le> 0x200A)"

function segments :: "string \<Rightarrow> (nat option \<times> string) list" where
  "segments [] = []"
| "segments (c # s) =
     (case next_rune c s of (r, rest) \<Rightarrow> (r, take (length (c # s) - length rest) (c # s)) # segments rest)"
  by pat_completeness auto
termination
  by (relation "measure length") (auto dest: length_next_runeD)

definition TrimSpace :: "string \<Rightarrow> string" where
  "TrimSpace s = concat (map snd (rev (dropWhile (\<lambda>p. IsSpace (fst p))
     (rev (dropWhile (\<lambda>p. IsSpace (fst p)) (segments s))))))"

text \<open>\<^verbatim>\<open>strings.Fields\<close>: the runs of characters between white space.\<close>

fun fieldsLoop :: "string \<Rightarrow> (nat option \<times> string) list \<Rightarrow> string list" where
  "fieldsLoop field [] = (if field = [] then [] else [field])"
| "fieldsLoop field ((r, b) # rest) =
     (if IsSpace r then (if field = [] then [] else [field]) @ fieldsLoop [] rest
      else fieldsLoop (field @ b) rest)"

definition Fields :: "string \<Rightarrow> string list" where
  "Fields s = fieldsLoop [] (segments s)"

text \<open>\<^verbatim>\<open>strings.Cut\<close> for a separator of several bytes.\<close>

fun CutString :: "string \<Rightarrow> string \<Rightarrow> string \<times> string \<times> bool" where
  "CutString sep [] = (if sep = [] then ([], [], True) else ([], [], False))"
| "CutString sep (c # s) =
     (if prefix sep (c # s) then ([], drop (length sep) (c # s), True)
      else (let (before, after, found) = CutString sep s in (c # before, after, found)))"

lemma CutString_found:
  "CutString sep s = (before, after, True) \<Longrightarrow> s = before @ sep @ after"
proof (induction s arbitrary: before)
  case (Cons c s)
  show ?case
  proof (cases "prefix sep (c # s)")
    case True
    then show ?thesis using Cons.prems by (auto simp: prefix_def)
  next
    case False
    then show ?thesis using Cons by (auto split: prod.splits)
  qed
qed (auto split: if_splits)

lemma segments_ascii: "ascii s \<Longrightarrow> segments s = map (\<lambda>c. (Some (code c), [c])) s"
  by (induction s) (auto simp: ascii_def next_rune.simps)

end
