(* ===== verification/ShardPath.thy ===== *)
theory ShardPath
  imports GoStrings
begin

text \<open>
  \<^verbatim>\<open>internal/shard/path.go\<close>: the request-path policy and its parser. A function of the code that
  returns only an \<^verbatim>\<open>error\<close> is modelled by a function into \<^typ>\<open>err option\<close> (\<open>None\<close> is \<^verbatim>\<open>nil\<close>). The
  request is the part of \<^verbatim>\<open>http.Request\<close> that the parser reads.
\<close>

section \<open>Policy and requests\<close>

record PathPolicy =
  MaxTopLevelLength :: int
  MaxComponentLength :: int
  MaxPathDepth :: int
  ReservedNames :: "string list"

definition DefaultPathPolicy :: PathPolicy where
  "DefaultPathPolicy = \<lparr>MaxTopLevelLength = 63, MaxComponentLength = 255, MaxPathDepth = 32,
     ReservedNames = [''api'', ''gitone'', ''system'']\<rparr>"

definition maxProtocolTailDepth :: nat where
  "maxProtocolTailDepth = 16"

record RequestPath =
  TopLevel :: string
  Repository :: string

record Parser =
  maxTopLevelLength :: int
  maxComponentLength :: int
  maxPathDepth :: int
  reservedNames :: "string set"

record URL =
  Opaque :: string
  Path :: string
  RawPath :: string

record Request =
  RequestURI :: string
  RequestURL :: "URL option"

section \<open>Validation\<close>

definition topLevelByteBad :: "string \<Rightarrow> nat \<Rightarrow> bool" where
  "topLevelByteBad name index =
     (let value = code (name ! index);
          isLetter = (97 \<le> value \<and> value \<le> 122);
          isDigit = (48 \<le> value \<and> value \<le> 57);
          isHyphen = (value = 45)
      in (\<not> isLetter \<and> \<not> isDigit \<and> \<not> isHyphen) \<or>
         (isHyphen \<and> (index = 0 \<or> index = length name - 1)))"

definition validateTopLevel :: "string \<Rightarrow> int \<Rightarrow> err option" where
  "validateTopLevel name maxLength =
     (if name = [] \<or> int (length name) > maxLength then Some ErrInvalidPath
      else if list_ex (topLevelByteBad name) [0..<length name] then Some ErrInvalidPath
      else None)"

fun addReserved :: "string list \<Rightarrow> int \<Rightarrow> string set \<Rightarrow> string set result" where
  "addReserved [] maxLength names = Inr names"
| "addReserved (name # rest) maxLength names =
     (case validateTopLevel name maxLength of
        Some e \<Rightarrow> Inl (ErrJoin ErrInvalidPathPolicy e)
      | None \<Rightarrow> addReserved rest maxLength (insert name names))"

definition NewParser :: "PathPolicy \<Rightarrow> Parser result" where
  "NewParser policy =
     (if MaxTopLevelLength policy \<le> 0 then Inl ErrInvalidPathPolicy
      else if MaxComponentLength policy \<le> 0 then Inl ErrInvalidPathPolicy
      else if MaxPathDepth policy < 2 then Inl ErrInvalidPathPolicy
      else if MaxTopLevelLength policy > MaxComponentLength policy then Inl ErrInvalidPathPolicy
      else case addReserved (ReservedNames policy) (MaxTopLevelLength policy) {} of
             Inl e \<Rightarrow> Inl e
           | Inr names \<Rightarrow> Inr \<lparr>maxTopLevelLength = MaxTopLevelLength policy,
               maxComponentLength = MaxComponentLength policy,
               maxPathDepth = MaxPathDepth policy, reservedNames = names\<rparr>)"

definition requestEscapedPaths :: "Request \<Rightarrow> URL \<Rightarrow> string list result" where
  "requestEscapedPaths request url =
     (let fromURI =
        (if RequestURI request \<noteq> [] then
           (let (path, _, _) = Cut CHR ''?'' (RequestURI request)
            in if \<not> HasPrefix path ''/'' \<or> Contains path ''#'' then Inl ErrInvalidPath
               else Inr [path])
         else Inr [])
      in case fromURI of
           Inl e \<Rightarrow> Inl e
         | Inr escapedPaths \<Rightarrow>
             (let escapedPaths =
                (if RawPath url \<noteq> [] then escapedPaths @ [RawPath url] else escapedPaths)
              in Inr (if escapedPaths = [] then [EscapedPath (Path url)] else escapedPaths)))"

text \<open>\<^verbatim>\<open>decodeHexByte\<close>: the digits are below 16, so \<^verbatim>\<open>high<<4 | low\<close> is \<open>16 * high + low\<close>.\<close>

definition decodeHexDigit :: "char \<Rightarrow> nat option" where
  "decodeHexDigit value =
     (if 48 \<le> code value \<and> code value \<le> 57 then Some (code value - 48)
      else if 97 \<le> code value \<and> code value \<le> 102 then Some (code value - 97 + 10)
      else if 65 \<le> code value \<and> code value \<le> 70 then Some (code value - 65 + 10)
      else None)"

definition decodeHexByte :: "char \<Rightarrow> char \<Rightarrow> nat option" where
  "decodeHexByte high low =
     (case (decodeHexDigit high, decodeHexDigit low) of
        (Some highValue, Some lowValue) \<Rightarrow> Some (16 * highValue + lowValue)
      | _ \<Rightarrow> None)"

fun validateEscapes :: "string \<Rightarrow> err option" where
  "validateEscapes [] = None"
| "validateEscapes (c # s) =
     (if c \<noteq> CHR ''%'' then validateEscapes s
      else (case s of
        h # l # rest \<Rightarrow>
          (case decodeHexByte h l of
             None \<Rightarrow> Some ErrInvalidPath
           | Some value \<Rightarrow>
               if value = code CHR ''/'' \<or> value = 0x5C \<or> value = code CHR ''.'' \<or> value = 0 \<or> value = 0x7f
               then Some ErrInvalidPath
               else if value < 0x20 then Some ErrInvalidPath
               else validateEscapes rest)
      | _ \<Rightarrow> Some ErrInvalidPath))"

definition validateEscapedPath :: "string \<Rightarrow> string \<Rightarrow> err option" where
  "validateEscapedPath escapedPath decodedPath =
     (if \<not> HasPrefix escapedPath ''/'' then Some ErrInvalidPath
      else case validateEscapes escapedPath of
        Some e \<Rightarrow> Some e
      | None \<Rightarrow>
          (case PathUnescape escapedPath of
             None \<Rightarrow> Some ErrInvalidPath
           | Some unescapedPath \<Rightarrow>
               if unescapedPath \<noteq> decodedPath then Some ErrInvalidPath
               else (let rawComponents = Split CHR ''/'' (TrimPrefix escapedPath ''/'')
                     in if rawComponents = [] \<or> Contains (hd rawComponents) ''%''
                        then Some ErrInvalidPath else None)))"

definition componentError :: "int \<Rightarrow> string \<Rightarrow> bool" where
  "componentError maxLength component \<longleftrightarrow>
     (component = [] \<or> component = ''.'' \<or> component = ''..'') \<or>
     ContainsAny component [CHR 0x5C, CHR ''%''] \<or>
     has_control_rune component \<or>
     int (length component) > maxLength"

definition splitDecodedPath :: "string \<Rightarrow> int \<Rightarrow> string list result" where
  "splitDecodedPath path maxLength =
     (if \<not> ValidString path \<or> \<not> HasPrefix path ''/'' then Inl ErrInvalidPath
      else (let components = Split CHR ''/'' (TrimPrefix path ''/'')
            in if components = [] then Inl ErrInvalidPath
               else if list_ex (componentError maxLength) components then Inl ErrInvalidPath
               else Inr components))"

text \<open>
  The loop of \<^verbatim>\<open>canonicalRepository\<close> over \<open>index\<close>, with the repository and depth found so far.
\<close>

fun canonicalLoop :: "string list \<Rightarrow> nat \<Rightarrow> string list \<Rightarrow> string \<Rightarrow> nat \<Rightarrow> (string \<times> nat) result" where
  "canonicalLoop components index [] repository repositoryDepth = Inr (repository, repositoryDepth)"
| "canonicalLoop components index (component # rest) repository repositoryDepth =
     (if length component < 4 then
        canonicalLoop components (Suc index) rest repository repositoryDepth
      else (let suff = drop (length component - 4) component
        in if map to_lower suff \<noteq> ''.git'' then
             canonicalLoop components (Suc index) rest repository repositoryDepth
           else if suff \<noteq> ''.git'' \<or> index = 0 \<or> repository \<noteq> [] then Inl ErrInvalidPath
           else (let name = TrimSuffix component ''.git''
             in if name = [] \<or> name = ''.'' \<or> name = ''..'' \<or> HasSuffix name ''.git'' then Inl ErrInvalidPath
                else canonicalLoop components (Suc index) rest
                       (Join CHR ''/'' (take index components @ [name])) (index + 1))))"

definition canonicalRepository :: "string list \<Rightarrow> (string \<times> nat) result" where
  "canonicalRepository components = canonicalLoop components 0 components [] 0"

fun firstError :: "('a \<Rightarrow> err option) \<Rightarrow> 'a list \<Rightarrow> err option" where
  "firstError f [] = None"
| "firstError f (x # xs) = (case f x of Some e \<Rightarrow> Some e | None \<Rightarrow> firstError f xs)"

definition namespaceDepth :: "nat \<Rightarrow> string list \<Rightarrow> nat" where
  "namespaceDepth repositoryDepth components =
     (if repositoryDepth > 0 then repositoryDepth else length components)"

definition protocolTailDepth :: "nat \<Rightarrow> string list \<Rightarrow> nat" where
  "protocolTailDepth repositoryDepth components =
     (if repositoryDepth > 0 then length components - repositoryDepth else 0)"

text \<open>\<^verbatim>\<open>Parser.Parse\<close>; \<open>None\<close> is a nil request.\<close>

definition Parse :: "Parser \<Rightarrow> Request option \<Rightarrow> RequestPath result" where
  "Parse p req =
     (case req of None \<Rightarrow> Inl ErrInvalidPath | Some request \<Rightarrow>
      (case RequestURL request of None \<Rightarrow> Inl ErrInvalidPath | Some url \<Rightarrow>
       if Opaque url \<noteq> [] then Inl ErrInvalidPath
       else (case requestEscapedPaths request url of Inl e \<Rightarrow> Inl e | Inr escapedPaths \<Rightarrow>
        (case firstError (\<lambda>escapedPath. validateEscapedPath escapedPath (Path url)) escapedPaths of
           Some e \<Rightarrow> Inl e
         | None \<Rightarrow>
        (case splitDecodedPath (Path url) (maxComponentLength p) of Inl e \<Rightarrow> Inl e | Inr components \<Rightarrow>
        (case validateTopLevel (hd components) (maxTopLevelLength p) of Some e \<Rightarrow> Inl e | None \<Rightarrow>
         if hd components \<in> reservedNames p then Inl ErrReservedTopLevel
         else (case canonicalRepository components of Inl e \<Rightarrow> Inl e | Inr (repository, repositoryDepth) \<Rightarrow>
           if int (namespaceDepth repositoryDepth components) > maxPathDepth p then Inl ErrInvalidPath
           else if protocolTailDepth repositoryDepth components > maxProtocolTailDepth then Inl ErrInvalidPath
           else Inr \<lparr>TopLevel = hd components, Repository = repository\<rparr>)))))))"

section \<open>Percent escapes never change the component structure\<close>

lemma decodeHexDigit_eq: "decodeHexDigit = hex_digit"
  by (simp add: fun_eq_iff decodeHexDigit_def hex_digit_def)

lemma hex_digit_Some:
  assumes "hex_digit c = Some v"
  shows "v < 16" and "c \<noteq> CHR ''/''" and "c \<noteq> CHR ''%''"
  using assms by (auto simp: hex_digit_def split: if_splits)

lemma decodeHexByte_Some:
  assumes "decodeHexByte h l = Some v"
  obtains hv lv where "hex_digit h = Some hv" "hex_digit l = Some lv" "v = 16 * hv + lv" "v < 256"
proof -
  from assms obtain hv lv where *: "hex_digit h = Some hv" "hex_digit l = Some lv" "v = 16 * hv + lv"
    by (auto simp: decodeHexByte_def decodeHexDigit_eq split: option.splits)
  then have "v < 256" using hex_digit_Some(1) [OF *(1)] hex_digit_Some(1) [OF *(2)] by simp
  with * that show thesis by blast
qed

lemma Split_hd_tl: "Split c s = hd (Split c s) # tl (Split c s)"
  by simp

lemma validateEscapes_components:
  "validateEscapes s = None \<Longrightarrow>
   \<exists>t. PathUnescape s = Some t \<and> map PathUnescape (Split CHR ''/'' s) = map Some (Split CHR ''/'' t)"
proof (induction s rule: validateEscapes.induct)
  case (2 c s)
  show ?case
  proof (cases "c = CHR ''%''")
    case False
    with 2 obtain t where t: "PathUnescape s = Some t"
      "map PathUnescape (Split CHR ''/'' s) = map Some (Split CHR ''/'' t)"
      by auto
    then have "PathUnescape (hd (Split CHR ''/'' s)) = Some (hd (Split CHR ''/'' t))"
      and "map PathUnescape (tl (Split CHR ''/'' s)) = map Some (tl (Split CHR ''/'' t))"
      by (metis Split_not_Nil hd_map, metis map_tl)
    with False t show ?thesis
      by (cases "c = CHR ''/''") (simp_all add: Split_Cons_other del: Split.simps(2) add: Split.simps(2) [of "CHR ''/''" "CHR ''/''"])
  next
    case True
    with 2 obtain h l rest v where s: "s = h # l # rest"
      and byte: "decodeHexByte h l = Some v"
      and notsep: "v \<noteq> code CHR ''/''"
      and others: "v \<noteq> 0x5C \<and> v \<noteq> code CHR ''.'' \<and> v \<noteq> 0 \<and> v \<noteq> 0x7f" "\<not> v < 0x20"
      and rest: "validateEscapes rest = None"
      by (auto split: list.splits option.splits if_splits)
    from byte obtain hv lv where hex: "hex_digit h = Some hv" "hex_digit l = Some lv"
      "v = 16 * hv + lv" "v < 256"
      by (rule decodeHexByte_Some)
    obtain t where t: "PathUnescape rest = Some t"
      "map PathUnescape (Split CHR ''/'' rest) = map Some (Split CHR ''/'' t)"
      using "2.IH"(2) [OF _ s refl byte] True notsep others rest by auto
    then have hdtl: "PathUnescape (hd (Split CHR ''/'' rest)) = Some (hd (Split CHR ''/'' t))"
      "map PathUnescape (tl (Split CHR ''/'' rest)) = map Some (tl (Split CHR ''/'' t))"
      by (metis Split_not_Nil hd_map, metis map_tl)
    have ne: "h \<noteq> CHR ''/''" "l \<noteq> CHR ''/''" "char_of v \<noteq> CHR ''/''"
      using hex_digit_Some(2) [OF hex(1)] hex_digit_Some(2) [OF hex(2)] notsep hex(4)
      by (auto simp: char_of_eq_iff take_bit_nat_eq_self)
    have split: "Split CHR ''/'' (CHR ''%'' # h # l # rest) =
        (CHR ''%'' # h # l # hd (Split CHR ''/'' rest)) # tl (Split CHR ''/'' rest)"
      using ne by (simp add: Split_Cons_other del: Split.simps)
    show ?thesis
      using t hdtl hex ne by (simp add: True s split Split_Cons_other del: Split.simps)
  qed
qed simp

text \<open>
  C9. An accepted escaped path decodes component by component: percent-decoding each raw
  component gives exactly the components of the decoded path, so an escape can neither create nor
  hide a path separator, and the first component is not escaped at all.
\<close>

theorem validateEscapedPath_components:
  assumes "validateEscapedPath escapedPath decodedPath = None"
  shows "map PathUnescape (Split CHR ''/'' escapedPath) = map Some (Split CHR ''/'' decodedPath) \<and>
    hd (tl (Split CHR ''/'' escapedPath)) = hd (tl (Split CHR ''/'' decodedPath))"
proof -
  from assms have esc: "validateEscapes escapedPath = None"
    and dec: "PathUnescape escapedPath = Some decodedPath"
    by (auto simp: validateEscapedPath_def split: if_splits option.splits)
  from validateEscapes_components [OF esc] dec
  have eq: "map PathUnescape (Split CHR ''/'' escapedPath) = map Some (Split CHR ''/'' decodedPath)"
    by simp
  obtain r where r: "escapedPath = CHR ''/'' # r"
    using assms by (auto simp: validateEscapedPath_def prefix_def split: if_splits)
  from dec r obtain d where d: "decodedPath = CHR ''/'' # d" by auto
  have "CHR ''%'' \<notin> set (hd (Split CHR ''/'' r))"
    using assms by (auto simp: validateEscapedPath_def r TrimPrefix_def split: if_splits option.splits)
  then have "Some (hd (Split CHR ''/'' r)) = hd (map PathUnescape (Split CHR ''/'' r))"
    by (simp add: hd_map)
  also have "\<dots> = Some (hd (Split CHR ''/'' d))"
    using eq by (simp add: r d hd_map)
  finally show ?thesis using eq by (simp add: r d)
qed

theorem validateEscapedPath_components_witness:
  "map PathUnescape (Split CHR ''/'' ''/acme/app%2dx.git'') = map Some (Split CHR ''/'' ''/acme/app-x.git'')"
proof -
  have "validateEscapedPath ''/acme/app%2dx.git'' ''/acme/app-x.git'' = None" by code_simp
  from validateEscapedPath_components [OF this] show ?thesis by blast
qed

section \<open>Canonical top-level names\<close>

text \<open>What the loop of \<^const>\<open>validateTopLevel\<close> accepts, without indices.\<close>

definition canonicalTopLevel :: "string \<Rightarrow> bool" where
  "canonicalTopLevel name \<longleftrightarrow>
     name \<noteq> [] \<and>
     (\<forall>c \<in> set name. (97 \<le> code c \<and> code c \<le> 122) \<or> (48 \<le> code c \<and> code c \<le> 57) \<or> c = CHR ''-'') \<and>
     hd name \<noteq> CHR ''-'' \<and> last name \<noteq> CHR ''-''"

lemma code_hyphen: "code c = 45 \<longleftrightarrow> c = CHR ''-''"
  using of_char_eq_iff [of c "CHR ''-''", where ?'a = nat] by simp

lemma validateTopLevel_iff:
  "validateTopLevel name n = None \<longleftrightarrow> canonicalTopLevel name \<and> int (length name) \<le> n"
proof (cases "name = []")
  case False
  have hd: "hd name = name ! 0" and last: "last name = name ! (length name - 1)"
    using False by (simp_all add: hd_conv_nth last_conv_nth)
  have "\<not> list_ex (topLevelByteBad name) [0..<length name] \<longleftrightarrow> canonicalTopLevel name"
    using False
    by (auto simp: list_ex_iff topLevelByteBad_def Let_def canonicalTopLevel_def hd last all_set_conv_all_nth code_hyphen intro!: gr0I)
  with False show ?thesis by (auto simp: validateTopLevel_def)
qed (simp add: validateTopLevel_def canonicalTopLevel_def)

section \<open>The repository component\<close>

definition gitLike :: "string \<Rightarrow> bool" where
  "gitLike component \<longleftrightarrow>
     4 \<le> length component \<and> map to_lower (drop (length component - 4) component) = ''.git''"

text \<open>
  \<open>repositoryAt components r k\<close>: component \<open>k - 1\<close>, not the first one, is \<open>name.git\<close>, it is the only
  component with a \<open>.git\<close> suffix in any case, and \<open>r\<close> is the path up to \<open>name\<close>.
\<close>

definition repositoryAt :: "string list \<Rightarrow> string \<Rightarrow> nat \<Rightarrow> bool" where
  "repositoryAt components r k \<longleftrightarrow>
     (\<exists>j name. 0 < j \<and> j < length components \<and> k = Suc j \<and>
        components ! j = name @ ''.git'' \<and> canonical_part name \<and> \<not> suffix ''.git'' name \<and>
        r = Join CHR ''/'' (take j components @ [name]) \<and>
        filter gitLike components = [components ! j])"

definition loopState :: "string list \<Rightarrow> nat \<Rightarrow> string \<Rightarrow> nat \<Rightarrow> bool" where
  "loopState components i r k \<longleftrightarrow>
     (r = [] \<and> k = 0 \<and> filter gitLike (take i components) = []) \<or>
     (\<exists>j name. 0 < j \<and> j < i \<and> k = Suc j \<and>
        components ! j = name @ ''.git'' \<and> canonical_part name \<and> \<not> suffix ''.git'' name \<and>
        r = Join CHR ''/'' (take j components @ [name]) \<and>
        filter gitLike (take i components) = [components ! j])"

lemma Join_snoc_nonempty: "name \<noteq> [] \<Longrightarrow> Join c (xs @ [name]) \<noteq> []"
  by (induction xs) (auto simp: Join_Cons)

lemma loopState_repository: "loopState components i r k \<Longrightarrow> r = [] \<longleftrightarrow> k = 0"
  by (auto simp: loopState_def Join_snoc_nonempty canonical_part_def)

lemma suffix_drop4: "drop (length c - 4) c = ''.git'' \<Longrightarrow> c = TrimSuffix c ''.git'' @ ''.git''"
  by (metis TrimSuffix_def append_take_drop_id suffix_drop suffix_length_le length_drop diff_diff_cancel
      le_add_diff_inverse2)

lemma canonicalLoop_sound:
  assumes "canonicalLoop components i rest r k = Inr (r', k')"
    and "rest = drop i components" and "i \<le> length components" and "loopState components i r k"
  shows "loopState components (length components) r' k'"
  using assms
proof (induction rest arbitrary: i r k)
  case (Cons c rest)
  have i: "i < length components" and ci: "components ! i = c" and rest: "rest = drop (Suc i) components"
    using drop_eq_ConsD [OF Cons.prems(2) [symmetric]] by simp_all
  have takeS: "take (Suc i) components = take i components @ [c]"
    using i ci by (simp add: take_Suc_conv_app_nth)
  show ?case
  proof (cases "gitLike c")
    case False
    then have "canonicalLoop components (Suc i) rest r k = Inr (r', k')"
      using Cons.prems(1) by (auto simp: gitLike_def Let_def split: if_splits)
    moreover have "loopState components (Suc i) r k"
      using Cons.prems(4) False by (auto simp: loopState_def takeS)
    ultimately show ?thesis using Cons.IH rest i by simp
  next
    case True
    define name where "name = TrimSuffix c ''.git''"
    from True Cons.prems(1) have suff: "drop (length c - 4) c = ''.git''"
      and facts: "i \<noteq> 0" "r = []" "canonical_part name" "\<not> suffix ''.git'' name"
      and cont: "canonicalLoop components (Suc i) rest
        (Join CHR ''/'' (take i components @ [name])) (Suc i) = Inr (r', k')"
      by (auto simp: gitLike_def Let_def name_def canonical_part_def split: if_splits)
    have "loopState components (Suc i) (Join CHR ''/'' (take i components @ [name])) (Suc i)"
      unfolding loopState_def
    proof (rule disjI2, intro exI conjI)
      show "components ! i = name @ ''.git''"
        using suffix_drop4 [OF suff] ci by (simp add: name_def)
      show "filter gitLike (take (Suc i) components) = [components ! i]"
        using Cons.prems(4) facts(2) True ci loopState_repository [OF Cons.prems(4)]
        by (auto simp: loopState_def takeS)
    qed (use facts in auto)
    with cont show ?thesis using Cons.IH rest i by simp
  qed
qed simp

lemma canonicalRepository_sound:
  assumes "canonicalRepository components = Inr (r, k)"
  shows "(r = [] \<and> k = 0 \<and> filter gitLike components = []) \<or> repositoryAt components r k"
  using canonicalLoop_sound [OF assms [unfolded canonicalRepository_def]]
  by (auto simp: loopState_def repositoryAt_def)

section \<open>What the parser accepts\<close>

lemma componentError_iff:
  "\<not> componentError n c \<longleftrightarrow> canonical_part c \<and> CHR 0x5C \<notin> set c \<and> CHR ''%'' \<notin> set c \<and>
     \<not> has_control_rune c \<and> int (length c) \<le> n"
  by (simp add: componentError_def canonical_part_def ContainsAny_iff not_less)

lemma splitDecodedPath_Inr:
  assumes "splitDecodedPath path n = Inr components"
  shows "path = CHR ''/'' # Join CHR ''/'' components" and "components \<noteq> []"
    and "\<forall>c \<in> set components. \<not> componentError n c \<and> CHR ''/'' \<notin> set c"
proof -
  from assms obtain r where r: "path = CHR ''/'' # r" and c: "components = Split CHR ''/'' r"
    and ok: "\<not> list_ex (componentError n) components"
    by (auto simp: splitDecodedPath_def TrimPrefix_def prefix_def Let_def split: if_splits)
  show "path = CHR ''/'' # Join CHR ''/'' components" "components \<noteq> []"
    using r c by simp_all
  show "\<forall>c \<in> set components. \<not> componentError n c \<and> CHR ''/'' \<notin> set c"
    using ok c by (auto simp: list_ex_iff dest: Split_parts_no_sep)
qed

definition accepted :: "Parser \<Rightarrow> URL \<Rightarrow> string list \<Rightarrow> string \<Rightarrow> nat \<Rightarrow> bool" where
  "accepted p url components r k \<longleftrightarrow>
    splitDecodedPath (Path url) (maxComponentLength p) = Inr components \<and>
    validateTopLevel (hd components) (maxTopLevelLength p) = None \<and>
    hd components \<notin> reservedNames p \<and>
    canonicalRepository components = Inr (r, k) \<and>
    int (namespaceDepth k components) \<le> maxPathDepth p \<and>
    protocolTailDepth k components \<le> maxProtocolTailDepth"

lemma Parse_Inr:
  assumes "Parse p req = Inr path"
  obtains request url components r k where "req = Some request" "RequestURL request = Some url"
    "accepted p url components r k" "path = \<lparr>TopLevel = hd components, Repository = r\<rparr>"
  using assms unfolding accepted_def
  by (auto simp: Parse_def not_less split: option.splits sum.splits if_splits prod.splits)

text \<open>
  C8. Every path that the parser accepts is canonical: it is the slash-joined list of non-empty
  components without dot segments, the top-level name is lowercase ASCII within the policy length
  and not reserved, and the repository, if any, is the path up to the single component that ends in
  \<open>.git\<close> (in no other spelling), not the first one, within the policy depth and with a bounded
  protocol suffix behind it.
\<close>

theorem Parse_sound:
  assumes "Parse p (Some request) = Inr path"
  shows "\<exists>url components. RequestURL request = Some url \<and>
    Path url = CHR ''/'' # Join CHR ''/'' components \<and>
    (\<forall>c \<in> set components. canonical_part c \<and> CHR ''/'' \<notin> set c \<and> CHR ''%'' \<notin> set c \<and>
       \<not> has_control_rune c \<and> int (length c) \<le> maxComponentLength p) \<and>
    TopLevel path = hd components \<and> canonicalTopLevel (TopLevel path) \<and>
    int (length (TopLevel path)) \<le> maxTopLevelLength p \<and> TopLevel path \<notin> reservedNames p \<and>
    ((Repository path = [] \<and> filter gitLike components = [] \<and> int (length components) \<le> maxPathDepth p) \<or>
     (\<exists>k. repositoryAt components (Repository path) k \<and> int k \<le> maxPathDepth p \<and>
        length components \<le> k + maxProtocolTailDepth))"
proof -
  from assms obtain request' url components r k where "Some request = Some request'"
    "RequestURL request' = Some url" and acc: "accepted p url components r k"
    and path: "path = \<lparr>TopLevel = hd components, Repository = r\<rparr>"
    by (rule Parse_Inr)
  then have u: "RequestURL request = Some url" by simp
  from acc have split: "splitDecodedPath (Path url) (maxComponentLength p) = Inr components"
    and top: "validateTopLevel (hd components) (maxTopLevelLength p) = None"
    and res: "hd components \<notin> reservedNames p"
    and repo: "canonicalRepository components = Inr (r, k)"
    and depth: "int (namespaceDepth k components) \<le> maxPathDepth p"
      "protocolTailDepth k components \<le> maxProtocolTailDepth"
    by (simp_all add: accepted_def)
  have parts: "\<forall>c \<in> set components. canonical_part c \<and> CHR ''/'' \<notin> set c \<and> CHR ''%'' \<notin> set c \<and>
       \<not> has_control_rune c \<and> int (length c) \<le> maxComponentLength p"
    using splitDecodedPath_Inr(3) [OF split] componentError_iff by blast
  have "(r = [] \<and> filter gitLike components = [] \<and> int (length components) \<le> maxPathDepth p) \<or>
     (\<exists>k. repositoryAt components r k \<and> int k \<le> maxPathDepth p \<and> length components \<le> k + maxProtocolTailDepth)"
    using canonicalRepository_sound [OF repo]
  proof
    assume at: "repositoryAt components r k"
    then have "0 < k" by (auto simp: repositoryAt_def)
    with at depth show ?thesis by (auto simp: namespaceDepth_def protocolTailDepth_def)
  qed (use depth in \<open>simp add: namespaceDepth_def\<close>)
  with u split parts top res path show ?thesis
    using splitDecodedPath_Inr(1) [OF split] by (auto simp: validateTopLevel_iff)
qed

text \<open>The parser of the default policy, and a request for a path.\<close>

definition demoParser :: Parser where
  "demoParser = \<lparr>maxTopLevelLength = 63, maxComponentLength = 255, maxPathDepth = 32,
     reservedNames = {''system'', ''gitone'', ''api''}\<rparr>"

lemma demoParser_new: "NewParser DefaultPathPolicy = Inr demoParser"
proof -
  have "validateTopLevel ''api'' 63 = None" "validateTopLevel ''gitone'' 63 = None" "validateTopLevel ''system'' 63 = None"
    by code_simp+
  then show ?thesis by (simp add: NewParser_def DefaultPathPolicy_def demoParser_def)
qed

definition demoRequest :: "string \<Rightarrow> Request" where
  "demoRequest path = \<lparr>RequestURI = path, RequestURL = Some \<lparr>Opaque = [], Path = path, RawPath = []\<rparr>\<rparr>"

theorem Parse_sound_witness:
  "\<exists>components k. ''/acme/team/app.git/info/refs'' = CHR ''/'' # Join CHR ''/'' components \<and>
     repositoryAt components ''acme/team/app'' k \<and> int k \<le> 32"
proof -
  have "Parse demoParser (Some (demoRequest ''/acme/team/app.git/info/refs'')) =
      Inr \<lparr>TopLevel = ''acme'', Repository = ''acme/team/app''\<rparr>" by code_simp
  from Parse_sound [OF this] obtain url components where
    "RequestURL (demoRequest ''/acme/team/app.git/info/refs'') = Some url"
    "Path url = CHR ''/'' # Join CHR ''/'' components"
    "\<exists>k. repositoryAt components ''acme/team/app'' k \<and> int k \<le> maxPathDepth demoParser"
    by auto
  then show ?thesis by (auto simp: demoRequest_def demoParser_def)
qed

lemma Parse_repository_prefix:
  assumes "Parse p req = Inr path" and "Repository path \<noteq> []"
  shows "hd (Split CHR ''/'' (Repository path)) = TopLevel path"
proof -
  from assms(1) obtain request url components r k where "req = Some request"
    "RequestURL request = Some url" and acc: "accepted p url components r k"
    and path: "path = \<lparr>TopLevel = hd components, Repository = r\<rparr>"
    by (rule Parse_Inr)
  from acc have split: "splitDecodedPath (Path url) (maxComponentLength p) = Inr components"
    and repo: "canonicalRepository components = Inr (r, k)"
    by (simp_all add: accepted_def)
  from canonicalRepository_sound [OF repo] assms(2) path obtain j name where
    j: "0 < j" "j < length components" and cj: "components ! j = name @ ''.git''"
    and r: "r = Join CHR ''/'' (take j components @ [name])"
    by (auto simp: repositoryAt_def)
  have nosep: "\<forall>c \<in> set components. CHR ''/'' \<notin> set c"
    using splitDecodedPath_Inr(3) [OF split] by simp
  with cj j have "CHR ''/'' \<notin> set name" by (metis nth_mem Un_iff set_append)
  with nosep have "Split CHR ''/'' r = take j components @ [name]"
    unfolding r by (intro Split_Join) (auto dest: in_set_takeD)
  with j path show ?thesis by (cases components; cases j) auto
qed

end
