(* ===== verification/ShardRouter.thy ===== *)
theory ShardRouter
  imports ShardHash ShardPath
begin

text \<open>
  \<^verbatim>\<open>internal/shard/router.go\<close>: the router that maps a request to its owner shard. A shard id is a
  32-bit word, as in the code.
\<close>

type_synonym ShardID = "32 word"

record Route =
  RouteOwner :: ShardID
  RoutePath :: RequestPath

record Router =
  shardCount :: "32 word"
  parser :: Parser

definition NewRouter :: "32 word \<Rightarrow> Parser option \<Rightarrow> Router result" where
  "NewRouter cnt p =
     (if cnt = 0 then Inl ErrInvalidShardCount
      else case p of
        None \<Rightarrow> Inl ErrMissingParser
      | Some parser' \<Rightarrow> Inr \<lparr>shardCount = cnt, parser = parser'\<rparr>)"

definition ShardCount :: "Router \<Rightarrow> 32 word" where
  "ShardCount r = shardCount r"

definition Owner :: "Router \<Rightarrow> string \<Rightarrow> ShardID result" where
  "Owner r topLevel =
     (case validateTopLevel topLevel (maxTopLevelLength (parser r)) of
        Some e \<Rightarrow> Inl e
      | None \<Rightarrow>
          if topLevel \<in> reservedNames (parser r) then Inl ErrReservedTopLevel
          else Inr (ucast (Sum64 (bytes_of topLevel) mod ucast (shardCount r))))"

definition Resolve :: "Router \<Rightarrow> Request option \<Rightarrow> Route result" where
  "Resolve r request =
     (case Parse (parser r) request of
        Inl e \<Rightarrow> Inl e
      | Inr path \<Rightarrow>
          (case Owner r (TopLevel path) of
             Inl e \<Rightarrow> Inl e
           | Inr owner \<Rightarrow> Inr \<lparr>RouteOwner = owner, RoutePath = path\<rparr>))"

lemma Parse_Owner_ok:
  assumes "Parse (parser r) request = Inr path"
  shows "Owner r (TopLevel path) = Inr (ucast (Sum64 (bytes_of (TopLevel path)) mod ucast (shardCount r)))"
  using assms by (rule Parse_Inr) (simp add: Owner_def accepted_def)

lemma Resolve_eq:
  "Resolve r request =
     (case Parse (parser r) request of
        Inl e \<Rightarrow> Inl e
      | Inr path \<Rightarrow>
          Inr \<lparr>RouteOwner = ucast (Sum64 (bytes_of (TopLevel path)) mod ucast (shardCount r)), RoutePath = path\<rparr>)"
  by (auto simp: Resolve_def Parse_Owner_ok split: sum.splits)

lemma ucast_mod_bound:
  fixes h :: "64 word" and n :: "32 word"
  assumes "n \<noteq> 0"
  shows "unat (ucast (h mod ucast n) :: 32 word) = unat h mod unat n"
proof -
  have lt: "unat n < 2 ^ 32" using unsigned_less [of n, where ?'a = nat] by simp
  then have n: "take_bit 64 (unat n) = unat n" by (simp add: take_bit_nat_eq_self)
  have "unat h mod unat n < unat n"
    using assms by (simp add: unat_gt_0)
  also note lt
  finally show ?thesis
    by (simp add: unsigned_ucast_eq unat_mod n take_bit_nat_eq_self)
qed

text \<open>
  The router serves exactly the requests that its parser accepts, and the owner is the digest of
  the top-level name modulo the shard count, computed on 64 bits and always below the shard count:
  narrowing it to a 32-bit shard id loses nothing.
\<close>

theorem Resolve_owner:
  assumes "NewRouter cnt (Some p) = Inr r"
  shows "Resolve r request =
     (case Parse p request of
        Inl e \<Rightarrow> Inl e
      | Inr path \<Rightarrow> Inr \<lparr>RouteOwner = of_nat (unat (Sum64 (bytes_of (TopLevel path))) mod unat cnt),
          RoutePath = path\<rparr>) \<and>
    (\<forall>route. Resolve r request = Inr route \<longrightarrow> RouteOwner route < cnt)"
proof -
  from assms have r: "r = \<lparr>shardCount = cnt, parser = p\<rparr>" and c: "cnt \<noteq> 0"
    by (auto simp: NewRouter_def split: if_splits)
  have owner: "ucast (h mod ucast cnt :: 64 word) = (of_nat (unat h mod unat cnt) :: 32 word)" for h
  proof -
    have "of_nat (unat (ucast (h mod ucast cnt :: 64 word) :: 32 word)) = (ucast (h mod ucast cnt :: 64 word) :: 32 word)"
      by simp
    then show ?thesis by (simp only: ucast_mod_bound [OF c])
  qed
  have "unat (ucast (h mod ucast cnt :: 64 word) :: 32 word) < unat cnt" for h
    using ucast_mod_bound [OF c, of h] c by (simp add: unat_gt_0)
  then have "ucast (h mod ucast cnt :: 64 word) < cnt" for h
    by (simp add: word_less_nat_alt)
  then show ?thesis
    by (auto simp: Resolve_eq r owner split: sum.splits)
qed

theorem Resolve_owner_witness:
  "\<exists>r. NewRouter 8 (Some demoParser) = Inr r \<and>
     Resolve r (Some (demoRequest ''/acme/app.git'')) =
       Inr \<lparr>RouteOwner = of_nat (unat (Sum64 (bytes_of ''acme'')) mod 8),
            RoutePath = \<lparr>TopLevel = ''acme'', Repository = ''acme/app''\<rparr>\<rparr>"
proof -
  have p: "Parse demoParser (Some (demoRequest ''/acme/app.git'')) =
      Inr \<lparr>TopLevel = ''acme'', Repository = ''acme/app''\<rparr>" by code_simp
  have r: "NewRouter 8 (Some demoParser) = Inr \<lparr>shardCount = 8, parser = demoParser\<rparr>" by (simp add: NewRouter_def)
  from Resolve_owner [OF r] p r show ?thesis by simp
qed

text \<open>
  C10. Requests for one repository are always routed to one shard: whatever the spelling of the
  request, its escapes or its protocol suffix, two accepted requests with the same canonical
  repository have the same owner.
\<close>

theorem Resolve_same_repository:
  assumes "Resolve r request1 = Inr route1" and "Resolve r request2 = Inr route2"
    and "Repository (RoutePath route1) = Repository (RoutePath route2)"
    and "Repository (RoutePath route1) \<noteq> []"
  shows "RouteOwner route1 = RouteOwner route2"
proof -
  from assms(1,2) obtain path1 path2 where
    p: "Parse (parser r) request1 = Inr path1" "Parse (parser r) request2 = Inr path2"
    and routes: "route1 = \<lparr>RouteOwner = ucast (Sum64 (bytes_of (TopLevel path1)) mod ucast (shardCount r)), RoutePath = path1\<rparr>"
      "route2 = \<lparr>RouteOwner = ucast (Sum64 (bytes_of (TopLevel path2)) mod ucast (shardCount r)), RoutePath = path2\<rparr>"
    by (auto simp: Resolve_eq split: sum.splits)
  have "TopLevel path1 = TopLevel path2"
    using Parse_repository_prefix [OF p(1)] Parse_repository_prefix [OF p(2)] assms(3,4) routes by simp
  then show ?thesis by (simp add: routes)
qed

theorem Resolve_same_repository_witness:
  "\<exists>route1 route2. Resolve \<lparr>shardCount = 8, parser = demoParser\<rparr> (Some (demoRequest ''/acme/app.git/info/refs'')) = Inr route1 \<and>
     Resolve \<lparr>shardCount = 8, parser = demoParser\<rparr> (Some (demoRequest ''/acme/app.git/git-upload-pack'')) = Inr route2 \<and>
     RouteOwner route1 = RouteOwner route2"
proof -
  define r where "r = \<lparr>shardCount = 8, parser = demoParser\<rparr>"
  obtain route1 route2 where
    r1: "Resolve r (Some (demoRequest ''/acme/app.git/info/refs'')) = Inr route1" "Repository (RoutePath route1) = ''acme/app''" and
    r2: "Resolve r (Some (demoRequest ''/acme/app.git/git-upload-pack'')) = Inr route2" "Repository (RoutePath route2) = ''acme/app''"
  proof -
    have "case Resolve \<lparr>shardCount = 8, parser = demoParser\<rparr> (Some (demoRequest ''/acme/app.git/info/refs'')) of
        Inl _ \<Rightarrow> False | Inr route \<Rightarrow> Repository (RoutePath route) = ''acme/app''"
      "case Resolve \<lparr>shardCount = 8, parser = demoParser\<rparr> (Some (demoRequest ''/acme/app.git/git-upload-pack'')) of
        Inl _ \<Rightarrow> False | Inr route \<Rightarrow> Repository (RoutePath route) = ''acme/app''"
      by code_simp+
    then show thesis using that unfolding r_def by (auto split: sum.splits)
  qed
  have "RouteOwner route1 = RouteOwner route2"
    by (rule Resolve_same_repository [OF r1(1) r2(1)]) (simp_all add: r1(2) r2(2))
  with r1 r2 show ?thesis unfolding r_def by blast
qed

end
