(* ===== verification/ObjectKey.thy ===== *)
theory ObjectKey
  imports GoStrings
begin

text \<open>
  \<^verbatim>\<open>internal/storage/key.go\<close>: which object keys, prefixes and page requests the stores accept.
\<close>

definition MaxListPageSize :: int where
  "MaxListPageSize = 1000"

definition validateKey :: "string \<Rightarrow> err option" where
  "validateKey key =
     (if key = [] \<or> length key > 1024 \<or> \<not> ValidString key \<or>
         HasPrefix key ''/'' \<or> Contains key [CHR 0x5C] then Some ErrInvalidKey
      else if path_Clean key \<noteq> key then Some ErrInvalidKey
      else if list_ex ascii_control key then Some ErrInvalidKey
      else if list_ex (\<lambda>part. part = [] \<or> part = ''.'' \<or> part = ''..'') (Split CHR ''/'' key)
        then Some ErrInvalidKey
      else None)"

definition ValidateKey :: "string \<Rightarrow> err option" where
  "ValidateKey key = validateKey key"

definition ValidatePrefix :: "string \<Rightarrow> err option" where
  "ValidatePrefix pre = validateKey (TrimSuffix pre ''/'')"

definition ValidateListPage :: "string \<Rightarrow> string \<Rightarrow> int \<Rightarrow> err option" where
  "ValidateListPage pre after limit =
     (case ValidatePrefix pre of
        Some e \<Rightarrow> Some e
      | None \<Rightarrow>
          if limit < 1 \<or> limit > MaxListPageSize then Some (ErrMsg ''page size must be between 1 and 1000'')
          else if after = [] then None
          else (case ValidateKey after of
            Some e \<Rightarrow> Some e
          | None \<Rightarrow>
              if \<not> HasPrefix after pre then Some (ErrMsg ''page cursor is outside the requested prefix'')
              else None))"

text \<open>The key language, without the redundant tests of the code.\<close>

lemma validateKey_iff:
  "validateKey key = None \<longleftrightarrow>
     length key \<le> 1024 \<and> ValidString key \<and> CHR 0x5C \<notin> set key \<and>
     (\<forall>c \<in> set key. \<not> ascii_control c) \<and>
     (\<forall>part \<in> set (Split CHR ''/'' key). canonical_part part)"
proof -
  have "\<not> HasPrefix key ''/''" if "\<forall>part \<in> set (Split CHR ''/'' key). canonical_part part"
  proof
    assume "HasPrefix key ''/''"
    then obtain r where "key = CHR ''/'' # r" by (auto simp: prefix_def)
    with that show False by (simp add: canonical_part_def)
  qed
  moreover have "key \<noteq> []" if "\<forall>part \<in> set (Split CHR ''/'' key). canonical_part part"
    using that by (cases key) (simp_all add: canonical_part_def)
  moreover have "list_ex (\<lambda>part. part = [] \<or> part = ''.'' \<or> part = ''..'') (Split CHR ''/'' key) \<longleftrightarrow>
      \<not> (\<forall>part \<in> set (Split CHR ''/'' key). canonical_part part)"
    by (simp add: list_ex_iff canonical_part_def)
  moreover have "list_ex ascii_control key \<longleftrightarrow> \<not> (\<forall>c \<in> set key. \<not> ascii_control c)"
    by (simp add: list_ex_iff)
  ultimately show ?thesis
    using path_Clean_canonical [of key] by (simp add: validateKey_def) (metis not_less)
qed

lemma validateKey_TrimSuffix: "validateKey key = None \<Longrightarrow> TrimSuffix key ''/'' = key"
proof -
  assume "validateKey key = None"
  then have "[] \<notin> set (Split CHR ''/'' key)" by (auto simp: validateKey_iff canonical_part_def)
  then have "\<not> suffix ''/'' key" by (auto simp: suffix_def Split_append)
  then show "TrimSuffix key ''/'' = key" by (simp add: TrimSuffix_def)
qed

lemma validateKey_ErrInvalidKey: "validateKey key = Some e \<Longrightarrow> e = ErrInvalidKey"
  by (auto simp: validateKey_def split: if_splits)

text \<open>
  A key is accepted exactly when it is valid UTF-8 of at most 1024 bytes without control bytes
  or backslashes and each of its slash-separated parts is non-empty and no dot segment: the
  \<^verbatim>\<open>path.Clean\<close> and leading-slash tests of the code accept nothing less and reject nothing more.
\<close>

theorem validateKey_canonical:
  "validateKey key = None \<longleftrightarrow>
     length key \<le> 1024 \<and> ValidString key \<and> CHR 0x5C \<notin> set key \<and>
     (\<forall>c \<in> set key. \<not> ascii_control c) \<and>
     (\<forall>part \<in> set (Split CHR ''/'' key). canonical_part part)"
  by (rule validateKey_iff)

theorem validateKey_canonical_witness:
  "validateKey ''repos/r1/state'' = None \<and> canonical_part ''r1'' \<and> validateKey ''repos/../state'' \<noteq> None"
proof -
  have "validateKey ''repos/r1/state'' = None" "Split CHR ''/'' ''repos/r1/state'' = [''repos'', ''r1'', ''state'']"
    "validateKey ''repos/../state'' \<noteq> None" by code_simp+
  then show ?thesis using validateKey_canonical [of "''repos/r1/state''"] by simp
qed

end
