(* ===== verification/MemoryStore.thy ===== *)
theory MemoryStore
  imports ObjectKey
begin

text \<open>
  \<^verbatim>\<open>internal/storage/object.go\<close> and \<^verbatim>\<open>internal/storage/memory.go\<close>: object metadata, the conditional
  write options and the in-memory object store. Each operation runs under the store's mutex, so it
  is one function from the state before to its result and the state after. The Go map is an
  association list in an arbitrary order, which is the order a \<^verbatim>\<open>range\<close> loop visits it in. The field
  \<open>clock\<close> is what \<^verbatim>\<open>time.Now()\<close> returns.
\<close>

section \<open>Data\<close>

type_synonym Version = string
type_synonym time = int

record ObjectInfo =
  Key :: string
  Size :: int
  InfoVersion :: Version
  LastModified :: time

record ObjectPage =
  Objects :: "ObjectInfo list"
  NextAfter :: string

record PutOptions =
  IfMatch :: Version
  IfNoneMatch :: bool

record memoryObject =
  data :: bytes
  version :: Version
  lastModified :: time

record MultipartPart =
  Number :: int
  ETag :: string
  PartSize :: int

record memoryPart =
  part_info :: MultipartPart
  part_data :: bytes

record memoryUpload =
  upload_key :: string
  parts :: "(int \<times> memoryPart) list"

record MemoryStore =
  objects :: "(string \<times> memoryObject) list"
  uploads :: "(string \<times> memoryUpload) list"
  next_version :: "64 word"
  clock :: time

definition NewMemoryStore :: "time \<Rightarrow> MemoryStore" where
  "NewMemoryStore now = \<lparr>objects = [], uploads = [], next_version = 0, clock = now\<rparr>"

text \<open>A reader delivers its bytes and then end-of-file, or fails with an error.\<close>

record Reader =
  rd_data :: bytes
  rd_err :: "err option"

definition bytes_NewReader :: "bytes \<Rightarrow> Reader" where
  "bytes_NewReader b = \<lparr>rd_data = b, rd_err = None\<rparr>"

section \<open>Operations\<close>

definition objectInfo :: "string \<Rightarrow> memoryObject \<Rightarrow> ObjectInfo" where
  "objectInfo key object =
     \<lparr>Key = key, Size = int (length (data object)), InfoVersion = version object,
      LastModified = lastModified object\<rparr>"

text \<open>
  \<^verbatim>\<open>readExactly\<close> with its \<^verbatim>\<open>contextReader\<close>: the body is read up to one byte past the size, a context
  error or a read error within that range fails, and so does any other length.
\<close>

definition readExactly :: "ctx \<Rightarrow> Reader \<Rightarrow> int \<Rightarrow> bytes result" where
  "readExactly ctx body sz =
     (case ctx_Err ctx of Some e \<Rightarrow> Inl e | None \<Rightarrow>
       (let limited = take (nat (sz + 1)) (rd_data body)
        in if length limited < nat (sz + 1) \<and> rd_err body \<noteq> None then Inl (the (rd_err body))
           else if int (length limited) \<noteq> sz then Inl (ErrMsg ''body size differs'')
           else Inr limited))"

definition Put :: "ctx \<Rightarrow> string \<Rightarrow> Reader option \<Rightarrow> int \<Rightarrow> PutOptions \<Rightarrow> MemoryStore
    \<Rightarrow> ObjectInfo result \<times> MemoryStore" where
  "Put ctx key body sz opts s =
     (case body of
        None \<Rightarrow> (Inl (ErrMsg ''body is required''), s)
      | Some body \<Rightarrow>
     (case validateKey key of
        Some e \<Rightarrow> (Inl e, s)
      | None \<Rightarrow>
        if sz < 0 then (Inl (ErrMsg ''negative size''), s)
        else if IfMatch opts \<noteq> [] \<and> IfNoneMatch opts then (Inl (ErrMsg ''conflicting preconditions''), s)
        else (case readExactly ctx body sz of
          Inl e \<Rightarrow> (Inl e, s)
        | Inr content \<Rightarrow>
            (let current = map_of (objects s) key
             in if IfNoneMatch opts \<and> current \<noteq> None then (Inl ErrAlreadyExists, s)
                else if IfMatch opts \<noteq> [] \<and> (current = None \<or> version (the current) \<noteq> IfMatch opts)
                  then (Inl ErrPreconditionFailed, s)
                else (let s = s\<lparr>next_version := next_version s + 1\<rparr>;
                          object = \<lparr>data = content, version = FormatUint (unat (next_version s)),
                                    lastModified = clock s\<rparr>
                      in (Inr (objectInfo key object), s\<lparr>objects := al_put key object (objects s)\<rparr>))))))"

definition Get :: "ctx \<Rightarrow> string \<Rightarrow> MemoryStore \<Rightarrow> (bytes \<times> ObjectInfo) result" where
  "Get ctx key s =
     (case ctx_Err ctx of Some e \<Rightarrow> Inl e | None \<Rightarrow>
     (case validateKey key of Some e \<Rightarrow> Inl e | None \<Rightarrow>
     (case map_of (objects s) key of
        None \<Rightarrow> Inl ErrNotFound
      | Some object \<Rightarrow> Inr (data object, objectInfo key object))))"

definition GetRange :: "ctx \<Rightarrow> string \<Rightarrow> int \<Rightarrow> int \<Rightarrow> MemoryStore \<Rightarrow> (bytes \<times> ObjectInfo) result" where
  "GetRange ctx key offset len s =
     (case ctx_Err ctx of Some e \<Rightarrow> Inl e | None \<Rightarrow>
     (case validateKey key of Some e \<Rightarrow> Inl e | None \<Rightarrow>
      if offset < 0 \<or> len \<le> 0 then Inl ErrInvalidRange
      else (case map_of (objects s) key of
        None \<Rightarrow> Inl ErrNotFound
      | Some object \<Rightarrow>
          if offset \<ge> int (length (data object)) then Inl ErrInvalidRange
          else (let stop = int (length (data object));
                    stop = (if len < stop - offset then offset + len else stop)
                in Inr (take (nat (stop - offset)) (drop (nat offset) (data object)),
                        objectInfo key object)))))"

definition Head :: "ctx \<Rightarrow> string \<Rightarrow> MemoryStore \<Rightarrow> ObjectInfo result" where
  "Head ctx key s =
     (case ctx_Err ctx of Some e \<Rightarrow> Inl e | None \<Rightarrow>
     (case validateKey key of Some e \<Rightarrow> Inl e | None \<Rightarrow>
     (case map_of (objects s) key of
        None \<Rightarrow> Inl ErrNotFound
      | Some object \<Rightarrow> Inr (objectInfo key object))))"

definition Delete :: "ctx \<Rightarrow> string \<Rightarrow> Version \<Rightarrow> MemoryStore \<Rightarrow> err option \<times> MemoryStore" where
  "Delete ctx key ifMatch s =
     (case ctx_Err ctx of Some e \<Rightarrow> (Some e, s) | None \<Rightarrow>
     (case validateKey key of Some e \<Rightarrow> (Some e, s) | None \<Rightarrow>
     (case map_of (objects s) key of
        None \<Rightarrow> (Some ErrNotFound, s)
      | Some current \<Rightarrow>
          if ifMatch \<noteq> [] \<and> version current \<noteq> ifMatch then (Some ErrPreconditionFailed, s)
          else (None, s\<lparr>objects := al_del key (objects s)\<rparr>))))"

definition List :: "ctx \<Rightarrow> string \<Rightarrow> MemoryStore \<Rightarrow> ObjectInfo list result" where
  "List ctx pre s =
     (case ctx_Err ctx of Some e \<Rightarrow> Inl e | None \<Rightarrow>
     (case ValidatePrefix pre of Some e \<Rightarrow> Inl ErrInvalidKey | None \<Rightarrow>
      Inr (sort_key Key
        (map (\<lambda>(key, object). objectInfo key object)
          (filter (\<lambda>(key, object). HasPrefix key pre) (objects s))))))"

text \<open>
  The loop of \<^verbatim>\<open>ListPage\<close>: \<open>pageInsert\<close> is the body after the filter, with \<^verbatim>\<open>slices.BinarySearch\<close> as
  the insertion position in the sorted slice, and the shifted copy that drops the last key once
  the slice holds \<open>limit + 1\<close> keys.
\<close>

definition pageInsert :: "nat \<Rightarrow> string list \<Rightarrow> string \<Rightarrow> string list" where
  "pageInsert limit keys key =
     (let position = length (takeWhile (\<lambda>k. k < key) keys)
      in if position > limit then keys
         else (let n = (if length keys < limit + 1 then length keys + 1 else length keys)
               in take position keys @ [key] @ take (n - position - 1) (drop position keys)))"

definition pageKeys :: "nat \<Rightarrow> string \<Rightarrow> string \<Rightarrow> string list \<Rightarrow> string list" where
  "pageKeys limit pre after allKeys =
     foldl (\<lambda>keys key. if key \<le> after \<or> \<not> HasPrefix key pre then keys else pageInsert limit keys key)
       [] allKeys"

definition ListPage :: "ctx \<Rightarrow> string \<Rightarrow> string \<Rightarrow> int \<Rightarrow> MemoryStore \<Rightarrow> ObjectPage result" where
  "ListPage ctx pre after limit s =
     (case ctx_Err ctx of Some e \<Rightarrow> Inl e | None \<Rightarrow>
     (case ValidateListPage pre after limit of Some e \<Rightarrow> Inl e | None \<Rightarrow>
      (let keys = pageKeys (nat limit) pre after (map fst (objects s));
           full = length keys > nat limit;
           keys = (if full then take (nat limit) keys else keys)
       in Inr \<lparr>Objects = map (\<lambda>key. objectInfo key (the (map_of (objects s) key))) keys,
               NextAfter = (if full then last keys else [])\<rparr>)))"

section \<open>Invariant\<close>

text \<open>
  The store is well formed when its index has distinct valid keys and every stored version is the
  decimal form of a counter value that was already handed out, no two objects sharing one.
\<close>

definition issued :: "MemoryStore \<Rightarrow> Version \<Rightarrow> bool" where
  "issued s v \<longleftrightarrow> (\<exists>n. 0 < n \<and> n \<le> unat (next_version s) \<and> v = FormatUint n)"

definition store_wf :: "MemoryStore \<Rightarrow> bool" where
  "store_wf s \<longleftrightarrow> al_wf (objects s) \<and>
     (\<forall>key object. map_of (objects s) key = Some object \<longrightarrow> validateKey key = None \<and> issued s (version object)) \<and>
     (\<forall>key1 key2 object1 object2. map_of (objects s) key1 = Some object1 \<longrightarrow>
        map_of (objects s) key2 = Some object2 \<longrightarrow> version object1 = version object2 \<longrightarrow> key1 = key2)"

text \<open>\<open>has_room n s\<close>: the 64-bit version counter does not wrap around in the next \<open>n\<close> writes.\<close>

definition has_room :: "nat \<Rightarrow> MemoryStore \<Rightarrow> bool" where
  "has_room n s \<longleftrightarrow> unat (next_version s) + n < 2 ^ 64"

lemma unat_next: "has_room (Suc n) s \<Longrightarrow> unat (next_version s + 1) = Suc (unat (next_version s))"
  using unat_add_lem [of "next_version s" 1] by (simp add: has_room_def)

lemma store_wf_New: "store_wf (NewMemoryStore now)"
  by (simp add: store_wf_def NewMemoryStore_def)

text \<open>The cases of a successful write and of a refused one.\<close>

definition stored :: "bytes \<Rightarrow> MemoryStore \<Rightarrow> memoryObject" where
  "stored content s =
     \<lparr>data = content, version = FormatUint (unat (next_version s + 1)), lastModified = clock s\<rparr>"

lemma readExactly_Inr:
  "readExactly ctx body sz = Inr content \<Longrightarrow>
     ctx = Background \<and> int (length content) = sz \<and> content = take (length content) (rd_data body) \<and>
     length (rd_data body) = length content"
  by (auto simp: readExactly_def Let_def split: option.splits if_splits)

lemma readExactly_bytes [simp]:
  "readExactly Background (bytes_NewReader b) (int (length b)) = Inr b"
  by (simp add: readExactly_def bytes_NewReader_def Let_def)

lemma Put_Inr:
  assumes "Put ctx key body sz opts s = (Inr info, s')"
  obtains body' content where "body = Some body'" "rd_data body' = content" "int (length content) = sz"
    "ctx = Background" "validateKey key = None"
    "IfNoneMatch opts \<Longrightarrow> map_of (objects s) key = None"
    "IfMatch opts \<noteq> [] \<Longrightarrow> \<exists>object. map_of (objects s) key = Some object \<and> version object = IfMatch opts"
    "info = objectInfo key (stored content s)"
    "s' = s\<lparr>next_version := next_version s + 1, objects := al_put key (stored content s) (objects s)\<rparr>"
  using assms
  by (auto simp: Put_def Let_def stored_def split: option.splits sum.splits if_splits dest!: readExactly_Inr)

lemma Put_Inl: "Put ctx key body sz opts s = (Inl e, s') \<Longrightarrow> s' = s"
  by (auto simp: Put_def Let_def split: option.splits sum.splits if_splits)

lemma Put_bytes:
  assumes "validateKey key = None" and "\<not> (IfMatch opts \<noteq> [] \<and> IfNoneMatch opts)"
  shows "Put Background key (Some (bytes_NewReader b)) (int (length b)) opts s =
    (if IfNoneMatch opts \<and> map_of (objects s) key \<noteq> None then (Inl ErrAlreadyExists, s)
     else if IfMatch opts \<noteq> [] \<and> map_option version (map_of (objects s) key) \<noteq> Some (IfMatch opts)
       then (Inl ErrPreconditionFailed, s)
     else (Inr (objectInfo key (stored b s)),
           s\<lparr>next_version := next_version s + 1, objects := al_put key (stored b s) (objects s)\<rparr>))"
  using assms by (auto simp: Put_def Let_def stored_def)

lemma issued_mono: "has_room (Suc n) s \<Longrightarrow> issued s v \<Longrightarrow>
    issued (s\<lparr>next_version := next_version s + 1, objects := os\<rparr>) v"
  by (auto simp: issued_def unat_next)

lemma stored_issued: "has_room (Suc n) s \<Longrightarrow>
    issued (s\<lparr>next_version := next_version s + 1, objects := os\<rparr>) (version (stored b s))"
  by (auto simp: issued_def stored_def unat_next)

lemma issued_put: "has_room (Suc n) s \<Longrightarrow>
    issued (s\<lparr>next_version := next_version s + 1, objects := os\<rparr>) v \<longleftrightarrow> v = version (stored b s) \<or> issued s v"
  by (auto simp: issued_def stored_def unat_next le_Suc_eq)

lemma stored_fresh: "has_room (Suc n) s \<Longrightarrow> \<not> issued s (version (stored b s))"
  by (auto simp: issued_def stored_def unat_next FormatUint_inj)

lemma store_wf_put:
  assumes "store_wf s" and "has_room (Suc n) s" and "validateKey key = None"
  shows "store_wf (s\<lparr>next_version := next_version s + 1, objects := al_put key (stored b s) (objects s)\<rparr>)"
proof -
  have "version object \<noteq> version (stored b s)" if "map_of (objects s) k = Some object" for k object
    using that assms stored_fresh [OF assms(2), of b] unfolding store_wf_def by metis
  with assms show ?thesis
    by (simp add: store_wf_def issued_mono stored_issued) metis
qed

lemma store_wf_delete: "store_wf s \<Longrightarrow> store_wf (s\<lparr>objects := al_del key (objects s)\<rparr>)"
  by (auto simp: store_wf_def issued_def split: if_splits)

text \<open>Stores that are filled by a sequence of unconditional writes.\<close>

definition filledStore :: "(string \<times> bytes) list \<Rightarrow> MemoryStore" where
  "filledStore kvs = fold (\<lambda>(key, b) s. snd (Put Background key (Some (bytes_NewReader b)) (int (length b))
     \<lparr>IfMatch = [], IfNoneMatch = False\<rparr> s)) kvs (NewMemoryStore 0)"

lemma store_wf_Put:
  assumes "store_wf s" and "has_room (Suc n) s"
  shows "store_wf (snd (Put ctx key body sz opts s)) \<and> has_room n (snd (Put ctx key body sz opts s))"
proof (cases "Put ctx key body sz opts s")
  case (Pair r s')
  show ?thesis
  proof (cases r)
    case (Inl e)
    then show ?thesis using Pair Put_Inl assms by (fastforce simp: has_room_def)
  next
    case (Inr info)
    then obtain content where "validateKey key = None"
      "s' = s\<lparr>next_version := next_version s + 1, objects := al_put key (stored content s) (objects s)\<rparr>"
      using Pair Put_Inr by metis
    then show ?thesis
      using Pair store_wf_put [OF assms] unat_next [OF assms(2)] assms(2) by (simp add: has_room_def)
  qed
qed

lemma filledStore_ok: "length kvs + n < 2 ^ 64 \<Longrightarrow> store_wf (filledStore kvs) \<and> has_room n (filledStore kvs)"
proof (induction kvs arbitrary: n rule: rev_induct)
  case Nil
  then show ?case by (simp add: filledStore_def store_wf_New) (simp add: has_room_def NewMemoryStore_def)
next
  case (snoc kv kvs)
  then have "store_wf (filledStore kvs) \<and> has_room (Suc n) (filledStore kvs)" by (intro snoc.IH) simp
  then show ?case using store_wf_Put [of "filledStore kvs" n] by (cases kv) (simp add: filledStore_def)
qed

section \<open>Listings\<close>

lemma pageInsert_take:
  assumes "sorted L" and "x \<notin> set L"
  shows "pageInsert limit (take (limit + 1) L) x = take (limit + 1) (insort x L)"
proof -
  define P where "P = takeWhile (\<lambda>k. k < x) L"
  define D where "D = dropWhile (\<lambda>k. k < x) L"
  have L: "L = P @ D" by (simp add: P_def D_def)
  have ins: "insort x L = P @ x # D"
    using insort_split [OF assms] by (simp add: P_def D_def)
  have "takeWhile (\<lambda>k. k < x) (take (limit + 1) L) = take (limit + 1) P"
    by (simp add: takeWhile_take P_def)
  then have pos: "length (takeWhile (\<lambda>k. k < x) (take (limit + 1) L)) = min (limit + 1) (length P)"
    by (simp add: min.commute)
  show ?thesis
  proof (cases "length P \<le> limit")
    case True
    then show ?thesis
      unfolding pageInsert_def Let_def pos ins 
      by (auto simp: min_def L take_Cons' not_less intro!: arg_cong2 [where f = take])
  next
    case False
    then show ?thesis unfolding pageInsert_def Let_def pos ins by (simp add: L)
  qed
qed

lemma pageKeys_eq:
  assumes "distinct allKeys"
  shows "pageKeys limit pre after allKeys =
    take (limit + 1) (sort (filter (\<lambda>k. after < k \<and> HasPrefix k pre) allKeys))"
  using assms
proof (induction allKeys rule: rev_induct)
  case Nil
  then show ?case by (simp add: pageKeys_def)
next
  case (snoc k ks)
  then have IH: "pageKeys limit pre after ks =
    take (limit + 1) (sort (filter (\<lambda>k. after < k \<and> HasPrefix k pre) ks))" by simp
  show ?case
  proof (cases "after < k \<and> HasPrefix k pre")
    case True
    have "pageKeys limit pre after (ks @ [k]) = pageInsert limit (pageKeys limit pre after ks) k"
      using True by (auto simp: pageKeys_def)
    also have "\<dots> = take (limit + 1) (insort k (sort (filter (\<lambda>k. after < k \<and> HasPrefix k pre) ks)))"
      unfolding IH by (rule pageInsert_take) (use snoc.prems in auto)
    finally show ?thesis using True by (simp add: sort_snoc)
  next
    case False
    then show ?thesis using IH by (auto simp: pageKeys_def not_le)
  qed
qed

definition infoOf :: "MemoryStore \<Rightarrow> string \<Rightarrow> ObjectInfo" where
  "infoOf s key = objectInfo key (the (map_of (objects s) key))"

definition keysUnder :: "MemoryStore \<Rightarrow> string \<Rightarrow> string list" where
  "keysUnder s pre = sort (filter (\<lambda>k. HasPrefix k pre) (map fst (objects s)))"

lemma Key_infoOf [simp]: "Key (infoOf s key) = key"
  by (simp add: infoOf_def objectInfo_def)

lemma List_eq:
  assumes "al_wf (objects s)" and "ValidatePrefix pre = None"
  shows "List Background pre s = Inr (map (infoOf s) (keysUnder s pre))"
proof -
  have "map (\<lambda>(key, object). objectInfo key object) (filter (\<lambda>(key, object). HasPrefix key pre) (objects s)) =
      map (infoOf s) (map fst (filter (\<lambda>(key, object). HasPrefix key pre) (objects s)))"
    using assms(1) by (auto simp: infoOf_def al_wf_def)
  also have "map fst (filter (\<lambda>(key, object). HasPrefix key pre) (objects s)) =
      filter (\<lambda>k. HasPrefix k pre) (map fst (objects s))"
    by (simp add: filter_map comp_def case_prod_unfold)
  finally show ?thesis
    using assms(2) by (simp add: List_def keysUnder_def sort_key_map)
qed

lemma keysUnder_strict: "al_wf (objects s) \<Longrightarrow> sorted_wrt (<) (keysUnder s pre)"
  by (simp add: keysUnder_def al_wf_def strict_sorted_iff)

lemma ListPage_eq:
  assumes "al_wf (objects s)" and "ValidateListPage pre after limit = None"
  defines "R \<equiv> filter (\<lambda>k. after < k) (keysUnder s pre)"
  shows "ListPage Background pre after limit s =
    Inr \<lparr>Objects = map (infoOf s) (take (nat limit) R),
         NextAfter = (if nat limit < length R then last (take (nat limit) R) else [])\<rparr>"
proof -
  have "sort (filter (\<lambda>k. after < k \<and> HasPrefix k pre) (map fst (objects s))) = R"
    by (simp add: R_def keysUnder_def filter_sort conj_commute)
  moreover have "distinct (map fst (objects s))" using assms(1) by (simp add: al_wf_def)
  ultimately have "pageKeys (nat limit) pre after (map fst (objects s)) = take (nat limit + 1) R"
    using pageKeys_eq by metis
  then show ?thesis
    using assms(2) by (simp add: ListPage_def Let_def infoOf_def [abs_def] min_def)
qed

text \<open>
  C12. Paging is exact for every iteration order of the map: one page returns the first \<open>limit\<close>
  objects of the full listing behind the cursor, and what follows the returned cursor is exactly
  the rest, so following the cursors visits every object once, in key order, and stops.
\<close>

theorem ListPage_partition:
  assumes "store_wf s" and "ListPage Background pre after limit s = Inr page" and "List Background pre s = Inr infos"
  shows "filter (\<lambda>info. after < Key info) infos =
      Objects page @ (if NextAfter page = [] then [] else filter (\<lambda>info. NextAfter page < Key info) infos) \<and>
    int (length (Objects page)) \<le> limit \<and> sorted_wrt (<) (map Key infos) \<and>
    (NextAfter page \<noteq> [] \<longrightarrow> Objects page \<noteq> [] \<and> NextAfter page = Key (last (Objects page)))"
proof -
  from assms(1) have wf: "al_wf (objects s)" by (simp add: store_wf_def)
  from assms(2) have ok: "ValidateListPage pre after limit = None"
    by (auto simp: ListPage_def split: option.splits)
  then have limit: "0 < limit" and pre: "ValidatePrefix pre = None"
    by (auto simp: ValidateListPage_def split: option.splits if_splits)
  define S where "S = keysUnder s pre"
  define R where "R = filter (\<lambda>k. after < k) S"
  have S: "sorted_wrt (<) S" and R: "sorted_wrt (<) R"
    using keysUnder_strict [OF wf] by (simp_all add: S_def R_def sorted_wrt_filter)
  have infos: "infos = map (infoOf s) S"
    using List_eq [OF wf pre] assms(3) by (simp add: S_def)
  have page: "page = \<lparr>Objects = map (infoOf s) (take (nat limit) R),
         NextAfter = (if nat limit < length R then last (take (nat limit) R) else [])\<rparr>"
    using ListPage_eq [OF wf ok] assms(2) by (simp add: S_def R_def)
  have rest: "filter (\<lambda>info. k < Key info) infos = map (infoOf s) (filter (\<lambda>x. k < x) S)" for k
    by (simp add: infos filter_map comp_def)
  show ?thesis
  proof (cases "nat limit < length R")
    case True
    have ne: "take (nat limit) R \<noteq> []" using True limit by auto
    define l where "l = last (take (nat limit) R)"
    have "l \<in> set R" using last_in_set [OF ne] by (auto simp: l_def dest: in_set_takeD)
    then have al: "after < l" by (simp add: R_def)
    then have "l \<noteq> []" by (cases l) auto
    have "filter (\<lambda>x. l < x) S = filter (\<lambda>x. l < x) R"
      using al by (auto simp: R_def intro!: filter_cong)
    also have "\<dots> = drop (nat limit) R"
      unfolding l_def by (rule filter_greater_last_take) (use R True limit in auto)
    finally have tail: "filter (\<lambda>x. l < x) S = drop (nat limit) R" .
    show ?thesis
      using True ne \<open>l \<noteq> []\<close> limit S
      by (simp add: page rest tail flip: l_def R_def)
        (simp add: infos last_map l_def comp_def flip: map_append)
  next
    case False
    then have "take (nat limit) R = R" and "int (length R) \<le> limit" using limit by simp_all
    with False show ?thesis using S by (simp add: page rest flip: R_def) (simp add: infos comp_def)
  qed
qed

theorem ListPage_partition_witness:
  "\<exists>page infos. ListPage Background ''a/'' [] 2 (filledStore [(''a/z'', []), (''b'', []), (''a/x'', []), (''a/y'', [])]) = Inr page \<and>
     List Background ''a/'' (filledStore [(''a/z'', []), (''b'', []), (''a/x'', []), (''a/y'', [])]) = Inr infos \<and>
     filter (\<lambda>info. [] < Key info) infos = Objects page @ filter (\<lambda>info. NextAfter page < Key info) infos"
proof -
  define s where "s = filledStore [(''a/z'', []), (''b'', []), (''a/x'', []), (''a/y'', [])]"
  have "(case ListPage Background ''a/'' [] 2 (filledStore [(''a/z'', []), (''b'', []), (''a/x'', []), (''a/y'', [])]) of
      Inl _ \<Rightarrow> False | Inr page \<Rightarrow> NextAfter page = ''a/y'')" by code_simp
  then obtain page where page: "ListPage Background ''a/'' [] 2 s = Inr page" "NextAfter page = ''a/y''"
    by (auto simp: s_def split: sum.splits)
  have "(case List Background ''a/'' (filledStore [(''a/z'', []), (''b'', []), (''a/x'', []), (''a/y'', [])]) of
      Inl _ \<Rightarrow> False | Inr _ \<Rightarrow> True)" by code_simp
  then obtain infos where infos: "List Background ''a/'' s = Inr infos" by (auto simp: s_def split: sum.splits)
  have wf: "store_wf s" unfolding s_def using filledStore_ok [of _ 0] by simp
  from ListPage_partition [OF wf page(1) infos] page infos show ?thesis unfolding s_def by simp
qed

end
