(* ===== verification/ObjectStore.thy ===== *)
theory ObjectStore
  imports MemoryStore
begin

text \<open>
  The interface \<^verbatim>\<open>storage.ObjectStore\<close> of \<^verbatim>\<open>internal/storage/object.go\<close>: a record of operations, and the
  contract its documentation states (atomic conditional writes and deletes, strongly consistent
  reads) as a locale over an abstract view of the stored objects. The components above the store are
  verified against the locale; the in-memory store is shown to satisfy it.
\<close>

section \<open>The interface\<close>

record 's ObjectStore =
  os_Put :: "ctx \<Rightarrow> string \<Rightarrow> Reader option \<Rightarrow> int \<Rightarrow> PutOptions \<Rightarrow> 's \<Rightarrow> ObjectInfo result \<times> 's"
  os_Get :: "ctx \<Rightarrow> string \<Rightarrow> 's \<Rightarrow> (bytes \<times> ObjectInfo) result"
  os_GetRange :: "ctx \<Rightarrow> string \<Rightarrow> int \<Rightarrow> int \<Rightarrow> 's \<Rightarrow> (bytes \<times> ObjectInfo) result"
  os_Head :: "ctx \<Rightarrow> string \<Rightarrow> 's \<Rightarrow> ObjectInfo result"
  os_Delete :: "ctx \<Rightarrow> string \<Rightarrow> Version \<Rightarrow> 's \<Rightarrow> err option \<times> 's"
  os_List :: "ctx \<Rightarrow> string \<Rightarrow> 's \<Rightarrow> ObjectInfo list result"
  os_ListPage :: "ctx \<Rightarrow> string \<Rightarrow> string \<Rightarrow> int \<Rightarrow> 's \<Rightarrow> ObjectPage result"

text \<open>A write of a byte slice, the way every client in the program writes.\<close>

definition put_bytes :: "'s ObjectStore \<Rightarrow> ctx \<Rightarrow> string \<Rightarrow> bytes \<Rightarrow> PutOptions \<Rightarrow> 's \<Rightarrow> ObjectInfo result \<times> 's" where
  "put_bytes ops ctx key b opts s =
     os_Put ops ctx key (Some (bytes_NewReader b)) (int (length b)) opts s"

abbreviation if_absent :: PutOptions where
  "if_absent \<equiv> \<lparr>IfMatch = [], IfNoneMatch = True\<rparr>"

abbreviation if_version :: "Version \<Rightarrow> PutOptions" where
  "if_version v \<equiv> \<lparr>IfMatch = v, IfNoneMatch = False\<rparr>"

text \<open>Whether the preconditions of a write hold for the current object of its key.\<close>

definition put_allowed :: "PutOptions \<Rightarrow> (bytes \<times> Version) option \<Rightarrow> bool" where
  "put_allowed opts current \<longleftrightarrow>
     (IfNoneMatch opts \<longrightarrow> current = None) \<and>
     (IfMatch opts \<noteq> [] \<longrightarrow> map_option snd current = Some (IfMatch opts))"

section \<open>The contract\<close>

text \<open>
  \<open>contents s key\<close> is the current object of a key with its version, \<open>seen s\<close> the versions that were
  ever handed out; \<open>room n s\<close> says that the provider still has version identifiers for \<open>n\<close> more
  writes.
\<close>

locale object_store =
  fixes ops :: "'s ObjectStore"
    and inv :: "'s \<Rightarrow> bool"
    and room :: "nat \<Rightarrow> 's \<Rightarrow> bool"
    and contents :: "'s \<Rightarrow> string \<Rightarrow> (bytes \<times> Version) option"
    and seen :: "'s \<Rightarrow> Version set"
  assumes put_ok: "inv s \<Longrightarrow> room (Suc n) s \<Longrightarrow> put_bytes ops ctx key b opts s = (Inr info, s') \<Longrightarrow>
      inv s' \<and> room n s' \<and> contents s' = (contents s)(key \<mapsto> (b, InfoVersion info)) \<and>
      InfoVersion info \<noteq> [] \<and> InfoVersion info \<notin> seen s \<and> seen s' = insert (InfoVersion info) (seen s) \<and>
      put_allowed opts (contents s key)"
    and put_error: "put_bytes ops ctx key b opts s = (Inl e, s') \<Longrightarrow> s' = s"
    and put_live: "inv s \<Longrightarrow> validateKey key = None \<Longrightarrow> \<not> (IfMatch opts \<noteq> [] \<and> IfNoneMatch opts) \<Longrightarrow>
      put_allowed opts (contents s key) \<Longrightarrow> \<exists>info s'. put_bytes ops Background key b opts s = (Inr info, s')"
    and put_exists: "inv s \<Longrightarrow> put_bytes ops ctx key b if_absent s = (Inl e, s') \<Longrightarrow>
      errors_Is e ErrAlreadyExists \<Longrightarrow> contents s key \<noteq> None"
    and put_conflict: "inv s \<Longrightarrow> contents s key \<noteq> None \<Longrightarrow>
      put_bytes ops Background key b if_absent s = (Inl ErrAlreadyExists, s)"
    and get_ok: "inv s \<Longrightarrow> os_Get ops ctx key s = Inr (b, info) \<Longrightarrow> contents s key = Some (b, InfoVersion info)"
    and get_missing: "inv s \<Longrightarrow> os_Get ops ctx key s = Inl e \<Longrightarrow> errors_Is e ErrNotFound \<Longrightarrow> contents s key = None"
    and get_live: "inv s \<Longrightarrow> contents s key = Some (b, v) \<Longrightarrow>
      \<exists>info. os_Get ops Background key s = Inr (b, info) \<and> InfoVersion info = v"
    and get_none: "inv s \<Longrightarrow> validateKey key = None \<Longrightarrow> contents s key = None \<Longrightarrow>
      os_Get ops Background key s = Inl ErrNotFound"
    and head_ok: "inv s \<Longrightarrow> os_Head ops ctx key s = Inr info \<Longrightarrow>
      \<exists>b. contents s key = Some (b, InfoVersion info)"
    and head_live: "inv s \<Longrightarrow> contents s key = Some (b, v) \<Longrightarrow> \<exists>info. os_Head ops Background key s = Inr info"
    and room_less: "room (Suc n) s \<Longrightarrow> room n s"
    and delete_room: "os_Delete ops ctx key v s = (None, s') \<Longrightarrow> room n s \<Longrightarrow> room n s' \<and> seen s' = seen s"
    and delete_ok: "inv s \<Longrightarrow> os_Delete ops ctx key v s = (None, s') \<Longrightarrow>
      inv s' \<and> contents s' = (contents s)(key := None) \<and>
      contents s key \<noteq> None \<and> (v \<noteq> [] \<longrightarrow> map_option snd (contents s key) = Some v)"
    and delete_error: "os_Delete ops ctx key v s = (Some e, s') \<Longrightarrow> s' = s"
    and delete_live: "inv s \<Longrightarrow> contents s key = Some (b, w) \<Longrightarrow> v = [] \<or> v = w \<Longrightarrow>
      \<exists>s'. os_Delete ops Background key v s = (None, s')"
    and version_seen: "inv s \<Longrightarrow> contents s key = Some (b, v) \<Longrightarrow> v \<noteq> [] \<and> v \<in> seen s"
begin

text \<open>An immutable write never replaces an object, whatever its outcome.\<close>

lemma put_if_absent_keeps:
  assumes "inv s" and "room (Suc n) s" and "put_bytes ops ctx key b if_absent s = (r, s')"
    and "contents s k = Some x"
  shows "contents s' k = Some x"
proof (cases r)
  case (Inl e)
  with assms(3,4) put_error show ?thesis by blast
next
  case (Inr info)
  with put_ok [OF assms(1,2)] assms(3)
  have "contents s' = (contents s)(key \<mapsto> (b, InfoVersion info))" and "put_allowed if_absent (contents s key)"
    by blast+
  with assms(4) show ?thesis by (auto simp: put_allowed_def)
qed

text \<open>The version a write returns identifies it: no object had it before.\<close>

lemma put_version_fresh:
  assumes "inv s" and "room (Suc n) s" and "put_bytes ops ctx key b opts s = (Inr info, s')"
    and "contents s k = Some (c, v)"
  shows "v \<noteq> InfoVersion info"
  using put_ok [OF assms(1-3)] version_seen [OF assms(1,4)] by auto

text \<open>Of two writers that expect the same version, the second one fails.\<close>

lemma put_same_version_once:
  assumes "inv s" and "room (Suc n) s" and "v \<noteq> []"
    and "put_bytes ops ctx key b (if_version v) s = (Inr info, s')" and "room (Suc m) s'"
  shows "\<not> (\<exists>info' s''. put_bytes ops ctx' key b' (if_version v) s' = (Inr info', s''))"
proof
  assume "\<exists>info' s''. put_bytes ops ctx' key b' (if_version v) s' = (Inr info', s'')"
  then obtain info' s'' where again: "put_bytes ops ctx' key b' (if_version v) s' = (Inr info', s'')"
    by blast
  note first = put_ok [OF assms(1,2,4)]
  have "inv s'" using first by blast
  note second = put_ok [OF this assms(5) again]
  have "contents s' key = Some (b, InfoVersion info)" using first by simp
  with second assms(3) have "InfoVersion info = v" by (simp add: put_allowed_def)
  moreover have "\<exists>c. contents s key = Some (c, v)"
    using first assms(3) by (auto simp: put_allowed_def)
  ultimately show False using put_version_fresh [OF assms(1,2,4)] by blast
qed

end

section \<open>The in-memory store satisfies the contract\<close>

definition memoryOps :: "MemoryStore ObjectStore" where
  "memoryOps = \<lparr>os_Put = Put, os_Get = Get, os_GetRange = GetRange, os_Head = Head,
     os_Delete = Delete, os_List = List, os_ListPage = ListPage\<rparr>"

definition contents :: "MemoryStore \<Rightarrow> string \<Rightarrow> (bytes \<times> Version) option" where
  "contents s key = map_option (\<lambda>object. (data object, version object)) (map_of (objects s) key)"

lemmas memory_simps = memoryOps_def put_bytes_def contents_def

lemma contents_put [simp]:
  "contents (s\<lparr>next_version := n, objects := al_put key object (objects s)\<rparr>) =
     (contents s)(key \<mapsto> (data object, version object))"
  by (auto simp: contents_def)

lemma contents_delete [simp]:
  "contents (s\<lparr>objects := al_del key (objects s)\<rparr>) = (contents s)(key := None)"
  by (auto simp: contents_def)

lemma contents_issued:
  "store_wf s \<Longrightarrow> contents s key = Some (b, v) \<Longrightarrow> issued s v \<and> validateKey key = None \<and> v \<noteq> []"
  by (auto simp: contents_def store_wf_def) (metis FormatUint_nonempty issued_def)

lemma memory_put_ok:
  assumes "store_wf s" and "has_room (Suc n) s" and "put_bytes memoryOps ctx key b opts s = (Inr info, s')"
  shows "store_wf s' \<and> has_room n s' \<and> contents s' = (contents s)(key \<mapsto> (b, InfoVersion info)) \<and>
    InfoVersion info \<noteq> [] \<and> InfoVersion info \<notin> Collect (issued s) \<and>
    Collect (issued s') = insert (InfoVersion info) (Collect (issued s)) \<and> put_allowed opts (contents s key)"
proof -
  from assms(3) have put: "Put ctx key (Some (bytes_NewReader b)) (int (length b)) opts s = (Inr info, s')"
    by (simp add: memory_simps)
  then obtain body content where body: "Some (bytes_NewReader b) = Some body" "rd_data body = content"
    and key: "validateKey key = None"
    and pre: "IfNoneMatch opts \<Longrightarrow> map_of (objects s) key = None"
      "IfMatch opts \<noteq> [] \<Longrightarrow> \<exists>object. map_of (objects s) key = Some object \<and> version object = IfMatch opts"
    and info: "info = objectInfo key (stored content s)"
    and s': "s' = s\<lparr>next_version := next_version s + 1, objects := al_put key (stored content s) (objects s)\<rparr>"
    by (rule Put_Inr) blast
  from body have c: "content = b" by (auto simp: bytes_NewReader_def)
  have "\<not> issued s (version (stored b s))"
    using stored_fresh [OF assms(2), of b] .
  moreover have "Collect (issued s') = insert (version (stored b s)) (Collect (issued s))"
    using issued_put [OF assms(2)] by (auto simp: s' c)
  moreover have "put_allowed opts (contents s key)"
    using pre by (auto simp: put_allowed_def contents_def)
  ultimately show ?thesis
    using store_wf_put [OF assms(1,2) key] unfolding s' info c using assms(2) unat_next [OF assms(2)]
    by (auto simp: objectInfo_def has_room_def stored_def)
qed

lemma memory_put_live:
  assumes "validateKey key = None" and "\<not> (IfMatch opts \<noteq> [] \<and> IfNoneMatch opts)"
    and "put_allowed opts (contents s key)"
  shows "\<exists>info s'. put_bytes memoryOps Background key b opts s = (Inr info, s')"
  using assms Put_bytes [OF assms(1,2), of b s]
  by (auto simp: memory_simps put_allowed_def option.map_comp comp_def)

lemma memory_get_ok: "Get ctx key s = Inr (b, info) \<Longrightarrow> contents s key = Some (b, InfoVersion info)"
  by (auto simp: Get_def contents_def objectInfo_def split: option.splits)

lemma memory_get_missing: "Get ctx key s = Inl e \<Longrightarrow> errors_Is e ErrNotFound \<Longrightarrow> contents s key = None"
  by (auto simp: Get_def contents_def dest: validateKey_ErrInvalidKey ctx_Err_Some split: option.splits)

lemma memory_get_live:
  "store_wf s \<Longrightarrow> contents s key = Some (b, v) \<Longrightarrow> \<exists>info. Get Background key s = Inr (b, info) \<and> InfoVersion info = v"
  using contents_issued [of s key b v] by (auto simp: Get_def contents_def objectInfo_def)

lemma memory_get_none:
  "validateKey key = None \<Longrightarrow> contents s key = None \<Longrightarrow> Get Background key s = Inl ErrNotFound"
  by (simp add: Get_def contents_def)

lemma memory_head_ok: "Head ctx key s = Inr info \<Longrightarrow> \<exists>b. contents s key = Some (b, InfoVersion info)"
  by (auto simp: Head_def contents_def objectInfo_def split: option.splits)

lemma memory_head_live:
  "store_wf s \<Longrightarrow> contents s key = Some (b, v) \<Longrightarrow> \<exists>info. Head Background key s = Inr info"
  using contents_issued [of s key b v] by (auto simp: Head_def contents_def)

lemma memory_delete:
  assumes "Delete ctx key v s = (e, s')"
  shows "e \<noteq> None \<Longrightarrow> s' = s" and "has_room n s \<Longrightarrow> has_room n s' \<and> Collect (issued s') = Collect (issued s)"
    and "store_wf s \<Longrightarrow> e = None \<Longrightarrow> store_wf s' \<and> contents s' = (contents s)(key := None) \<and>
      contents s key \<noteq> None \<and> (v \<noteq> [] \<longrightarrow> map_option snd (contents s key) = Some v)"
  using assms store_wf_delete [of s key]
  by (auto simp: Delete_def has_room_def issued_def contents_def [of s key] split: option.splits if_splits)

lemma memory_delete_live:
  "store_wf s \<Longrightarrow> contents s key = Some (b, w) \<Longrightarrow> v = [] \<or> v = w \<Longrightarrow> \<exists>s'. Delete Background key v s = (None, s')"
  using contents_issued [of s key b w] by (auto simp: Delete_def contents_def)

lemma memoryOps_sel [simp]:
  "os_Put memoryOps = Put" "os_Get memoryOps = Get" "os_GetRange memoryOps = GetRange" "os_Head memoryOps = Head"
  "os_Delete memoryOps = Delete" "os_List memoryOps = List" "os_ListPage memoryOps = ListPage"
  by (simp_all add: memoryOps_def)

lemma memory_put_error: "put_bytes memoryOps ctx key b opts s = (Inl e, s') \<Longrightarrow> s' = s"
  by (simp add: put_bytes_def Put_Inl)

lemma memory_put_exists:
  "put_bytes memoryOps ctx key b if_absent s = (Inl e, s') \<Longrightarrow> errors_Is e ErrAlreadyExists \<Longrightarrow> contents s key \<noteq> None"
  by (auto simp: memory_simps Put_def Let_def readExactly_def bytes_NewReader_def
      dest: validateKey_ErrInvalidKey ctx_Err_Some split: option.splits if_splits sum.splits)

lemma memory_put_conflict:
  assumes "store_wf s" and "contents s key \<noteq> None"
  shows "put_bytes memoryOps Background key b if_absent s = (Inl ErrAlreadyExists, s)"
proof -
  have "validateKey key = None" using assms contents_issued [OF assms(1)] by fastforce
  then show ?thesis using assms(2) by (simp add: memory_simps Put_bytes)
qed

lemma has_room_less: "has_room (Suc n) s \<Longrightarrow> has_room n s"
  by (simp add: has_room_def)

interpretation memory: object_store memoryOps store_wf has_room contents "\<lambda>s. Collect (issued s)"
  by (unfold_locales, unfold memoryOps_sel,
    erule (2) memory_put_ok, erule memory_put_error, erule (2) memory_put_live, erule (1) memory_put_exists,
    erule (1) memory_put_conflict,
    erule memory_get_ok, erule (1) memory_get_missing, erule (1) memory_get_live, erule (1) memory_get_none,
    erule memory_head_ok, erule (1) memory_head_live, erule has_room_less,
    erule (1) memory_delete(2), erule (1) memory_delete(3) [OF _ _ refl], erule memory_delete(1), simp,
    erule (2) memory_delete_live, drule (1) contents_issued, simp)

section \<open>Sizes and ranges\<close>

text \<open>What clients rely on besides: the reported size is that of the object, and a range read returns the bytes of the range that exist.\<close>

locale sized_store = object_store +
  assumes get_size: "inv s \<Longrightarrow> os_Get ops ctx key s = Inr (b, info) \<Longrightarrow> Size info = int (length b)"
    and head_size: "inv s \<Longrightarrow> os_Head ops ctx key s = Inr info \<Longrightarrow> contents s key = Some (b, v) \<Longrightarrow> Size info = int (length b)"
    and range_ok: "inv s \<Longrightarrow> os_GetRange ops ctx key off len s = Inr (b, info) \<Longrightarrow>
      \<exists>c v. contents s key = Some (c, v) \<and> b = take (nat len) (drop (nat off) c)"
    and range_live: "inv s \<Longrightarrow> contents s key = Some (b, v) \<Longrightarrow> 0 \<le> off \<Longrightarrow> 0 < len \<Longrightarrow> off < int (length b) \<Longrightarrow>
      \<exists>info. os_GetRange ops Background key off len s = Inr (take (nat len) (drop (nat off) b), info)"

lemma GetRange_take:
  "0 \<le> off \<Longrightarrow> off < int (length c) \<Longrightarrow>
     take (nat ((if len < int (length c) - off then off + len else int (length c)) - off)) (drop (nat off) c) = take (nat len) (drop (nat off) c)"
  by (auto simp: nat_diff_distrib)

interpretation memory: sized_store memoryOps store_wf has_room contents "\<lambda>s. Collect (issued s)"
proof unfold_locales
  fix s ctx key b info
  assume "os_Get memoryOps ctx key s = Inr (b, info)"
  then show "Size info = int (length b)" by (auto simp: memoryOps_def Get_def objectInfo_def split: option.splits)
next
  fix s ctx key info b v
  assume "os_Head memoryOps ctx key s = Inr info" "contents s key = Some (b, v)"
  then show "Size info = int (length b)" by (auto simp: memoryOps_def Head_def objectInfo_def contents_def split: option.splits)
next
  fix s ctx key b info and off len :: int
  assume "os_GetRange memoryOps ctx key off len s = Inr (b, info)"
  then show "\<exists>c v. contents s key = Some (c, v) \<and> b = take (nat len) (drop (nat off) c)"
    using GetRange_take [of off _ len]
    by (auto simp: memoryOps_def GetRange_def contents_def Let_def not_le split: option.splits if_splits)
next
  fix s key b v and off len :: int
  assume "store_wf s" "contents s key = Some (b, v)" "0 \<le> off" "0 < len" "off < int (length b)"
  then show "\<exists>info. os_GetRange memoryOps Background key off len s = Inr (take (nat len) (drop (nat off) b), info)"
    using GetRange_take [of off b len]
    by (auto simp: memoryOps_def GetRange_def contents_def Let_def store_wf_def split: option.splits)
qed

end
