(* ===== verification/Multipart.thy ===== *)
theory Multipart
  imports ObjectStore Digest
begin

text \<open>
  \<^verbatim>\<open>internal/storage/multipart.go\<close> and \<^verbatim>\<open>internal/storage/memory_multipart.go\<close>: the bounds of multipart
  uploads and their in-memory implementation. The random upload identifier of \<^verbatim>\<open>rand.Text()\<close> is an
  argument of \<open>CreateMultipart\<close>.
\<close>

section \<open>Bounds\<close>

definition MinMultipartPartSize :: int where "MinMultipartPartSize = 5 * 2 ^ 20"
definition MaxMultipartPartSize :: int where "MaxMultipartPartSize = 64 * 2 ^ 20"
definition MaxMultipartParts :: int where "MaxMultipartParts = 10000"

definition ValidateMultipart :: "string \<Rightarrow> string \<Rightarrow> err option" where
  "ValidateMultipart key uploadID =
     (case ValidateKey key of
        Some e \<Rightarrow> Some (ErrJoin ErrInvalidMultipart e)
      | None \<Rightarrow> if uploadID = [] \<or> length uploadID > 4096 then Some ErrInvalidMultipart else None)"

definition ValidateMultipartPart :: "int \<Rightarrow> int \<Rightarrow> err option" where
  "ValidateMultipartPart number sz =
     (if number < 1 \<or> number > MaxMultipartParts \<or> sz < 0 \<or> sz > MaxMultipartPartSize
      then Some ErrInvalidMultipart else None)"

text \<open>The loop of \<^verbatim>\<open>MultipartSize\<close>: \<open>i\<close> and \<open>sz\<close> are its index and running total on \<^verbatim>\<open>int64\<close>.\<close>

fun multipartSizeLoop :: "nat \<Rightarrow> nat \<Rightarrow> MultipartPart list \<Rightarrow> int \<Rightarrow> int result" where
  "multipartSizeLoop n i [] sz = Inr sz"
| "multipartSizeLoop n i (part # rest) sz =
     (case ValidateMultipartPart (Number part) (PartSize part) of
        Some e \<Rightarrow> Inl e
      | None \<Rightarrow>
          if Number part \<noteq> int i + 1 \<or> ETag part = [] \<or> length (ETag part) > 1024
          then Inl ErrInvalidMultipart
          else if int i < int n - 1 \<and> PartSize part < MinMultipartPartSize then Inl ErrInvalidMultipart
          else multipartSizeLoop n (Suc i) rest (int64 (sz + PartSize part)))"

definition MultipartSize :: "MultipartPart list \<Rightarrow> int result" where
  "MultipartSize ps =
     (if length ps = 0 \<or> int (length ps) > MaxMultipartParts then Inl ErrInvalidMultipart
      else multipartSizeLoop (length ps) 0 ps 0)"

section \<open>In-memory uploads\<close>

definition CreateMultipart :: "ctx \<Rightarrow> string \<Rightarrow> string \<Rightarrow> MemoryStore \<Rightarrow> string result \<times> MemoryStore" where
  "CreateMultipart ctx key random s =
     (case ctx_Err ctx of Some e \<Rightarrow> (Inl e, s) | None \<Rightarrow>
     (case ValidateKey key of
        Some e \<Rightarrow> (Inl (ErrJoin ErrInvalidMultipart e), s)
      | None \<Rightarrow> (Inr random, s\<lparr>uploads := al_put random \<lparr>upload_key = key, parts = []\<rparr> (uploads s)\<rparr>)))"

definition UploadPart :: "ctx \<Rightarrow> string \<Rightarrow> string \<Rightarrow> int \<Rightarrow> Reader option \<Rightarrow> int \<Rightarrow> MemoryStore
    \<Rightarrow> MultipartPart result \<times> MemoryStore" where
  "UploadPart ctx key uploadID number body sz s =
     (case ctx_Err ctx of Some e \<Rightarrow> (Inl e, s) | None \<Rightarrow>
     (case ValidateMultipart key uploadID of Some e \<Rightarrow> (Inl e, s) | None \<Rightarrow>
     (case ValidateMultipartPart number sz of Some e \<Rightarrow> (Inl e, s) | None \<Rightarrow>
     (case body of None \<Rightarrow> (Inl ErrInvalidMultipart, s) | Some body \<Rightarrow>
     (case readExactly ctx body sz of Inl e \<Rightarrow> (Inl e, s) | Inr content \<Rightarrow>
      (let part = \<lparr>Number = number, ETag = EncodeToString (Sum256 content), PartSize = sz\<rparr>
       in case map_of (uploads s) uploadID of
            None \<Rightarrow> (Inl ErrNotFound, s)
          | Some upload \<Rightarrow>
              if upload_key upload \<noteq> key then (Inl ErrNotFound, s)
              else (Inr part,
                s\<lparr>uploads := al_put uploadID
                    (upload\<lparr>parts := al_put number \<lparr>part_info = part, part_data = content\<rparr> (parts upload)\<rparr>)
                    (uploads s)\<rparr>)))))))"

definition partMatches :: "memoryUpload \<Rightarrow> MultipartPart \<Rightarrow> bool" where
  "partMatches upload part \<longleftrightarrow>
     (case map_of (parts upload) (Number part) of None \<Rightarrow> False | Some p \<Rightarrow> part_info p = part)"

definition partBytes :: "memoryUpload \<Rightarrow> MultipartPart \<Rightarrow> bytes" where
  "partBytes upload part = part_data (the (map_of (parts upload) (Number part)))"

definition CompleteMultipart :: "ctx \<Rightarrow> string \<Rightarrow> string \<Rightarrow> MultipartPart list \<Rightarrow> MemoryStore
    \<Rightarrow> ObjectInfo result \<times> MemoryStore" where
  "CompleteMultipart ctx key uploadID ps s =
     (case ctx_Err ctx of Some e \<Rightarrow> (Inl e, s) | None \<Rightarrow>
     (case ValidateMultipart key uploadID of Some e \<Rightarrow> (Inl e, s) | None \<Rightarrow>
     (case MultipartSize ps of Inl e \<Rightarrow> (Inl e, s) | Inr _ \<Rightarrow>
     (case map_of (uploads s) uploadID of None \<Rightarrow> (Inl ErrNotFound, s) | Some upload \<Rightarrow>
      if upload_key upload \<noteq> key then (Inl ErrNotFound, s)
      else if \<not> list_all (partMatches upload) ps then (Inl ErrInvalidMultipart, s)
      else (let content = concat (map (partBytes upload) ps);
                s = s\<lparr>next_version := next_version s + 1\<rparr>;
                object = \<lparr>data = content, version = FormatUint (unat (next_version s)), lastModified = clock s\<rparr>
            in (Inr (objectInfo key object),
                s\<lparr>objects := al_put key object (objects s), uploads := al_del uploadID (uploads s)\<rparr>))))))"

definition AbortMultipart :: "ctx \<Rightarrow> string \<Rightarrow> string \<Rightarrow> MemoryStore \<Rightarrow> err option \<times> MemoryStore" where
  "AbortMultipart ctx key uploadID s =
     (case ctx_Err ctx of Some e \<Rightarrow> (Some e, s) | None \<Rightarrow>
     (case ValidateMultipart key uploadID of Some e \<Rightarrow> (Some e, s) | None \<Rightarrow>
     (case map_of (uploads s) uploadID of
        None \<Rightarrow> (None, s)
      | Some upload \<Rightarrow>
          if upload_key upload \<noteq> key then (Some ErrNotFound, s)
          else (None, s\<lparr>uploads := al_del uploadID (uploads s)\<rparr>))))"

section \<open>Sizes\<close>

definition part_ok :: "nat \<Rightarrow> nat \<Rightarrow> MultipartPart \<Rightarrow> bool" where
  "part_ok n i part \<longleftrightarrow>
     Number part = int i + 1 \<and> 0 \<le> PartSize part \<and> PartSize part \<le> MaxMultipartPartSize \<and>
     ETag part \<noteq> [] \<and> length (ETag part) \<le> 1024 \<and>
     (Suc i < n \<longrightarrow> MinMultipartPartSize \<le> PartSize part)"

lemma sum_int64:
  assumes "0 \<le> sz" "sz \<le> int i * MaxMultipartPartSize" "0 \<le> x" "x \<le> MaxMultipartPartSize" "i < 10000"
  shows "int64 (sz + x) = sz + x" and "sz + x \<le> int (Suc i) * MaxMultipartPartSize"
proof -
  have "sz + x \<le> int (Suc i) * MaxMultipartPartSize"
    using assms by (simp add: algebra_simps)
  also have "\<dots> \<le> 10000 * MaxMultipartPartSize"
    using assms(5) by (intro mult_right_mono) (simp_all add: MaxMultipartPartSize_def)
  finally show "int64 (sz + x) = sz + x"
    using assms by (intro int64_id) (simp add: is_int64_def MaxInt64_def MaxMultipartPartSize_def)
  show "sz + x \<le> int (Suc i) * MaxMultipartPartSize" by fact
qed

lemma multipartSizeLoop_iff:
  assumes "i + length ps = n" "n \<le> 10000" "0 \<le> sz" "sz \<le> int i * MaxMultipartPartSize"
  shows "multipartSizeLoop n i ps sz = Inr tot \<longleftrightarrow>
    (\<forall>j < length ps. part_ok n (i + j) (ps ! j)) \<and> tot = sz + sum_list (map PartSize ps)"
  using assms
proof (induction ps arbitrary: i sz)
  case (Cons part rest)
  have i: "i < 10000" using Cons.prems by simp
  have all: "(\<forall>j < length (part # rest). part_ok n (i + j) ((part # rest) ! j)) \<longleftrightarrow>
      part_ok n i part \<and> (\<forall>j < length rest. part_ok n (Suc i + j) (rest ! j))"
    by (auto simp: less_Suc_eq_0_disj)
  show ?case
  proof (cases "part_ok n i part")
    case True
    then have x: "0 \<le> PartSize part" "PartSize part \<le> MaxMultipartPartSize"
      by (simp_all add: part_ok_def)
    note s = sum_int64 [OF Cons.prems(3,4) x i]
    have "multipartSizeLoop n i (part # rest) sz = multipartSizeLoop n (Suc i) rest (sz + PartSize part)"
      using True i s(1) Cons.prems(1) by (auto simp: part_ok_def ValidateMultipartPart_def MaxMultipartParts_def)
    with Cons.IH [of "Suc i" "sz + PartSize part"] Cons.prems x s(2) True show ?thesis
      unfolding all by auto
  next
    case False
    then have "multipartSizeLoop n i (part # rest) sz \<noteq> Inr tot"
      by (auto simp: part_ok_def ValidateMultipartPart_def not_less)
    with False show ?thesis unfolding all by simp
  qed
qed auto

lemma MultipartSize_Inr:
  "MultipartSize ps = Inr tot \<longleftrightarrow>
     ps \<noteq> [] \<and> length ps \<le> 10000 \<and> (\<forall>i < length ps. part_ok (length ps) i (ps ! i)) \<and>
     tot = sum_list (map PartSize ps)"
  using multipartSizeLoop_iff [of 0 ps "length ps" 0 tot]
  by (auto simp: MultipartSize_def MaxMultipartParts_def)

text \<open>
  A completion list is accepted exactly when it has between one and ten thousand consecutively
  numbered parts with valid ETags, each within the part bounds and only the last one below the
  minimum; the returned size is the exact sum of the part sizes, because the 64-bit total cannot
  overflow.
\<close>

theorem MultipartSize_iff:
  "MultipartSize ps = Inr tot \<longleftrightarrow>
     ps \<noteq> [] \<and> length ps \<le> 10000 \<and> (\<forall>i < length ps. part_ok (length ps) i (ps ! i)) \<and>
     tot = sum_list (map PartSize ps)"
  by (rule MultipartSize_Inr)

theorem MultipartSize_iff_witness:
  "MultipartSize [\<lparr>Number = 1, ETag = ''a'', PartSize = 5242880\<rparr>, \<lparr>Number = 2, ETag = ''b'', PartSize = 3\<rparr>] = Inr 5242883 \<and>
   MultipartSize [\<lparr>Number = 1, ETag = ''a'', PartSize = 3\<rparr>, \<lparr>Number = 2, ETag = ''b'', PartSize = 3\<rparr>] \<noteq> Inr 6"
  unfolding MultipartSize_iff
  by (simp add: part_ok_def less_Suc_eq MinMultipartPartSize_def MaxMultipartPartSize_def)

section \<open>Completion\<close>

text \<open>Every stored part carries the size and digest of its bytes.\<close>

definition uploads_wf :: "MemoryStore \<Rightarrow> bool" where
  "uploads_wf s \<longleftrightarrow>
     (\<forall>uploadID upload n p. map_of (uploads s) uploadID = Some upload \<longrightarrow> map_of (parts upload) n = Some p \<longrightarrow>
        part_info p = \<lparr>Number = n, ETag = EncodeToString (Sum256 (part_data p)),
                       PartSize = int (length (part_data p))\<rparr>)"

lemma CreateMultipart_keeps:
  assumes "CreateMultipart ctx key random s = (r, s')"
  shows "objects s' = objects s" and "uploads_wf s \<Longrightarrow> uploads_wf s'"
  using assms by (auto simp: CreateMultipart_def uploads_wf_def split: option.splits if_splits)

lemma UploadPart_keeps:
  assumes "UploadPart ctx key uploadID number body sz s = (r, s')"
  shows "objects s' = objects s" and "uploads_wf s \<Longrightarrow> uploads_wf s'"
proof -
  show "objects s' = objects s"
    using assms by (auto simp: UploadPart_def Let_def split: option.splits sum.splits if_splits)
  show "uploads_wf s'" if "uploads_wf s"
    using assms that
    by (auto simp: UploadPart_def Let_def uploads_wf_def split: option.splits sum.splits if_splits dest!: readExactly_Inr)
qed

lemma AbortMultipart_keeps:
  assumes "AbortMultipart ctx key uploadID s = (r, s')"
  shows "objects s' = objects s" and "uploads_wf s \<Longrightarrow> uploads_wf s'"
  using assms by (auto simp: AbortMultipart_def uploads_wf_def split: option.splits if_splits)

lemma partMatches_bytes:
  assumes "uploads_wf s" and "map_of (uploads s) uploadID = Some upload" and "partMatches upload part"
  shows "int (length (partBytes upload part)) = PartSize part"
    and "ETag part = EncodeToString (Sum256 (partBytes upload part))"
proof -
  from assms(3) obtain p where p: "map_of (parts upload) (Number part) = Some p" "part_info p = part"
    by (auto simp: partMatches_def split: option.splits)
  with assms(1,2) have "part = \<lparr>Number = Number part, ETag = EncodeToString (Sum256 (part_data p)),
      PartSize = int (length (part_data p))\<rparr>"
    unfolding uploads_wf_def by metis
  then show "int (length (partBytes upload part)) = PartSize part"
    "ETag part = EncodeToString (Sum256 (partBytes upload part))"
    by (simp_all add: partBytes_def p) (metis MultipartPart.select_convs)+
qed

lemma length_concat_parts:
  "\<forall>part \<in> set ps. int (length (f part)) = g part \<Longrightarrow>
   int (length (concat (map f ps))) = sum_list (map g ps)"
  by (induction ps) auto

text \<open>
  C13. Completing an upload publishes one object that is the concatenation of exactly the listed
  parts, whose ETags are the digests of those bytes and whose size is the validated multipart size;
  it ends the upload and touches no other object or upload. Until then nothing an upload does is
  visible.
\<close>

theorem CompleteMultipart_publishes:
  assumes "uploads_wf s" and "CompleteMultipart ctx key uploadID ps s = (Inr info, s')"
  shows "\<exists>upload content. map_of (uploads s) uploadID = Some upload \<and> upload_key upload = key \<and>
    content = concat (map (partBytes upload) ps) \<and>
    (\<forall>part \<in> set ps. ETag part = EncodeToString (Sum256 (partBytes upload part))) \<and>
    contents s' = (contents s)(key \<mapsto> (content, InfoVersion info)) \<and>
    MultipartSize ps = Inr (Size info) \<and> Size info = int (length content) \<and>
    map_of (uploads s') = (map_of (uploads s))(uploadID := None) \<and> uploads_wf s'"
proof -
  from assms(2) obtain upload tot where up: "map_of (uploads s) uploadID = Some upload" "upload_key upload = key"
    and tot: "MultipartSize ps = Inr tot" and ok: "\<forall>part \<in> set ps. partMatches upload part"
    and info: "info = objectInfo key (stored (concat (map (partBytes upload) ps)) s)"
    and s': "s' = s\<lparr>next_version := next_version s + 1,
        objects := al_put key (stored (concat (map (partBytes upload) ps)) s) (objects s),
        uploads := al_del uploadID (uploads s)\<rparr>"
    by (auto simp: CompleteMultipart_def Let_def stored_def list_all_iff
        split: option.splits sum.splits if_splits)
  note part = partMatches_bytes [OF assms(1) up(1)]
  have len: "int (length (concat (map (partBytes upload) ps))) = tot"
    using tot part(1) ok length_concat_parts [of ps "partBytes upload" PartSize]
    by (simp add: MultipartSize_Inr)
  have cont: "contents s' = (contents s)(key \<mapsto> (concat (map (partBytes upload) ps), InfoVersion info))"
    by (auto simp: s' info contents_def objectInfo_def stored_def)
  have "uploads_wf s'" using assms(1) by (auto simp: s' uploads_wf_def split: if_splits)
  with up part(2) ok cont len tot show ?thesis
    by (intro exI [of _ upload]) (auto simp: s' info objectInfo_def stored_def)
qed

definition partOf :: "bytes \<Rightarrow> MultipartPart" where
  "partOf b = \<lparr>Number = 1, ETag = EncodeToString (Sum256 b), PartSize = int (length b)\<rparr>"

definition uploadStore :: MemoryStore where
  "uploadStore = (NewMemoryStore 0)\<lparr>uploads := [(''u'', \<lparr>upload_key = ''k'',
     parts = [(1, \<lparr>part_info = partOf [7, 9], part_data = [7, 9]\<rparr>)]\<rparr>)]\<rparr>"

theorem CompleteMultipart_publishes_witness:
  "\<exists>info s'. CompleteMultipart Background ''k'' ''u'' [partOf [7, 9]] uploadStore = (Inr info, s') \<and>
     contents s' ''k'' = Some ([7, 9], InfoVersion info)"
proof -
  have "EncodeToString (Sum256 [7, 9]) \<noteq> []"
    using length_EncodeToString [of "Sum256 [7, 9]"] by (metis length_0_conv length_Sum256 mult_eq_0_iff numeral_eq_iff rel_simps(51,76) zero_neq_numeral)
  then have "MultipartSize [partOf [7, 9]] = Inr 2"
    unfolding MultipartSize_Inr by (simp add: part_ok_def partOf_def MaxMultipartPartSize_def)
  moreover have "ValidateMultipart ''k'' ''u'' = None" by code_simp
  ultimately obtain info s' where run: "CompleteMultipart Background ''k'' ''u'' [partOf [7, 9]] uploadStore = (Inr info, s')"
    by (simp add: CompleteMultipart_def Let_def uploadStore_def partMatches_def partOf_def)
  have wf: "uploads_wf uploadStore" by (simp add: uploads_wf_def uploadStore_def partOf_def)
  have "partBytes (the (map_of (uploads uploadStore) ''u'')) (partOf [7, 9]) = [7, 9]"
    by (simp add: uploadStore_def partBytes_def partOf_def)
  with CompleteMultipart_publishes [OF wf run] run show ?thesis by (auto simp: fun_upd_same)
qed

end
