(* ===== verification/Json.thy ===== *)
theory Json
  imports GoStrings
begin

text \<open>
  What the program uses of \<^verbatim>\<open>encoding/json\<close>: \<^verbatim>\<open>Marshal\<close> output of structs of strings, integers,
  booleans and string maps, and the strict decoding the code does everywhere (one value, unknown
  fields refused, nothing but white space behind it). The printer and the parser are executable;
  the last section shows that parsing what was printed gives the value back.
\<close>

section \<open>Values and printing\<close>

text \<open>A number keeps its literal, as the decoder does until it knows the field's type.\<close>

datatype json =
    JNull
  | JBool bool
  | JNum string
  | JStr string
  | JArr "json list"
  | JObj "(string \<times> json) list"

definition lower_hex :: "nat \<Rightarrow> char" where
  "lower_hex n = ''0123456789abcdef'' ! n"

definition u_escape :: "nat \<Rightarrow> string" where
  "u_escape r = [CHR 0x5C, CHR ''u'', lower_hex (r div 4096 mod 16), lower_hex (r div 256 mod 16),
     lower_hex (r div 16 mod 16), lower_hex (r mod 16)]"

definition esc_ascii :: "char \<Rightarrow> string" where
  "esc_ascii c =
     (if c = CHR 0x22 \<or> c = CHR 0x5C then [CHR 0x5C, c]
      else if code c = 8 then [CHR 0x5C, CHR ''b'']
      else if code c = 12 then [CHR 0x5C, CHR ''f'']
      else if code c = 10 then [CHR 0x5C, CHR ''n'']
      else if code c = 13 then [CHR 0x5C, CHR ''r'']
      else if code c = 9 then [CHR 0x5C, CHR ''t'']
      else if code c < 0x20 \<or> c = CHR ''<'' \<or> c = CHR ''>'' \<or> c = CHR 0x26 then u_escape (code c)
      else [c])"

function esc :: "string \<Rightarrow> string" where
  "esc [] = []"
| "esc (b # rest) =
     (if code b < 0x80 then esc_ascii b @ esc rest
      else (case next_rune b rest of
        (None, _) \<Rightarrow> u_escape 0xFFFD @ esc rest
      | (Some r, rest') \<Rightarrow>
          (if r = 0x2028 \<or> r = 0x2029 then u_escape r
           else b # take (length rest - length rest') rest) @ esc rest'))"
  by pat_completeness auto
termination
  by (relation "measure length") (auto dest: length_next_runeD)

definition quote :: "string \<Rightarrow> string" where
  "quote s = CHR 0x22 # esc s @ [CHR 0x22]"

fun print :: "json \<Rightarrow> string" and print_elems :: "json list \<Rightarrow> string"
  and print_members :: "(string \<times> json) list \<Rightarrow> string" where
  "print JNull = ''null''"
| "print (JBool b) = (if b then ''true'' else ''false'')"
| "print (JNum l) = l"
| "print (JStr s) = quote s"
| "print (JArr xs) = CHR 0x5B # print_elems xs @ [CHR 0x5D]"
| "print (JObj ms) = CHR 0x7B # print_members ms @ [CHR 0x7D]"
| "print_elems [] = []"
| "print_elems [x] = print x"
| "print_elems (x # y # ys) = print x @ CHR 0x2C # print_elems (y # ys)"
| "print_members [] = []"
| "print_members [(k, v)] = quote k @ CHR 0x3A # print v"
| "print_members ((k, v) # m # ms) = quote k @ CHR 0x3A # print v @ CHR 0x2C # print_members (m # ms)"

section \<open>Parsing\<close>

definition is_ws :: "char \<Rightarrow> bool" where
  "is_ws c \<longleftrightarrow> code c = 0x20 \<or> code c = 9 \<or> code c = 10 \<or> code c = 13"

definition skip_ws :: "string \<Rightarrow> string" where
  "skip_ws s = dropWhile is_ws s"

definition num_char :: "char \<Rightarrow> bool" where
  "num_char c \<longleftrightarrow> is_digit c \<or> c \<in> set ''+-.eE''"

text \<open>The number grammar of JSON.\<close>

definition valid_exp :: "string \<Rightarrow> bool" where
  "valid_exp s \<longleftrightarrow> (case s of [] \<Rightarrow> True
     | c # r \<Rightarrow> (c = CHR ''e'' \<or> c = CHR ''E'') \<and>
         (let r = (case r of d # t \<Rightarrow> if d = CHR ''+'' \<or> d = CHR ''-'' then t else r | [] \<Rightarrow> r)
          in r \<noteq> [] \<and> list_all is_digit r))"

definition valid_frac :: "string \<Rightarrow> bool" where
  "valid_frac s \<longleftrightarrow> (case s of [] \<Rightarrow> True
     | c # r \<Rightarrow> if c = CHR ''.'' then takeWhile is_digit r \<noteq> [] \<and> valid_exp (dropWhile is_digit r)
         else valid_exp s)"

definition valid_number :: "string \<Rightarrow> bool" where
  "valid_number s \<longleftrightarrow>
     (let t = (case s of c # r \<Rightarrow> if c = CHR ''-'' then r else s | [] \<Rightarrow> [])
      in case t of [] \<Rightarrow> False
         | d # r \<Rightarrow> is_digit d \<and> (if d = CHR ''0'' then valid_frac r else valid_frac (dropWhile is_digit r)))"

definition encode_rune :: "nat \<Rightarrow> string" where
  "encode_rune r =
     (if r < 0x80 then [char_of r]
      else if r < 0x800 then [char_of (0xC0 + r div 64), char_of (0x80 + r mod 64)]
      else if r < 0x10000 then
        [char_of (0xE0 + r div 4096), char_of (0x80 + r div 64 mod 64), char_of (0x80 + r mod 64)]
      else [char_of (0xF0 + r div 262144), char_of (0x80 + r div 4096 mod 64),
            char_of (0x80 + r div 64 mod 64), char_of (0x80 + r mod 64)])"

definition hex4 :: "string \<Rightarrow> (nat \<times> string) option" where
  "hex4 s = (case s of a # b # c # d # r \<Rightarrow>
       (case (hex_digit a, hex_digit b, hex_digit c, hex_digit d) of
          (Some a, Some b, Some c, Some d) \<Rightarrow> Some (4096 * a + 256 * b + 16 * c + d, r)
        | _ \<Rightarrow> None)
     | _ \<Rightarrow> None)"

text \<open>
  The rune of a \<open>\u\<close> escape: a surrogate pair is combined, a lone surrogate becomes the replacement
  character and the text behind it is read again.
\<close>

definition u_rune :: "string \<Rightarrow> (nat \<times> string) option" where
  "u_rune s = (case hex4 s of None \<Rightarrow> None | Some (r, rest) \<Rightarrow>
     if 0xD800 \<le> r \<and> r < 0xE000 then
       (case rest of b # u # rest2 \<Rightarrow>
          if b = CHR 0x5C \<and> u = CHR ''u'' then
            (case hex4 rest2 of
               Some (r2, rest3) \<Rightarrow>
                 if r < 0xDC00 \<and> 0xDC00 \<le> r2 \<and> r2 < 0xE000
                 then Some ((r - 0xD800) * 1024 + (r2 - 0xDC00) + 0x10000, rest3)
                 else Some (0xFFFD, rest)
             | None \<Rightarrow> Some (0xFFFD, rest))
          else Some (0xFFFD, rest)
        | _ \<Rightarrow> Some (0xFFFD, rest))
     else Some (r, rest))"

lemma length_hex4: "hex4 s = Some (r, t) \<Longrightarrow> length t < length s"
  by (auto simp: hex4_def split: list.splits option.splits)

lemma length_u_rune: "u_rune s = Some (r, t) \<Longrightarrow> length t < length s"
  by (auto simp: u_rune_def split: list.splits option.splits if_splits dest!: length_hex4)

definition simple_escape :: "char \<Rightarrow> char option" where
  "simple_escape c =
     (if c = CHR 0x22 \<or> c = CHR 0x5C \<or> c = CHR ''/'' then Some c
      else if c = CHR ''b'' then Some (char_of (8::nat)) else if c = CHR ''f'' then Some (char_of (12::nat))
      else if c = CHR ''n'' then Some (char_of (10::nat)) else if c = CHR ''r'' then Some (char_of (13::nat))
      else if c = CHR ''t'' then Some (char_of (9::nat)) else None)"

text \<open>The body of a string literal up to its closing quote, and the text behind the quote.\<close>

function parse_str :: "string \<Rightarrow> (string \<times> string) option" where
  "parse_str [] = None"
| "parse_str (c # s) =
     (if c = CHR 0x22 then Some ([], s)
      else if c = CHR 0x5C then
        (case s of [] \<Rightarrow> None
         | e # r \<Rightarrow>
             (case simple_escape e of
                Some x \<Rightarrow> map_option (\<lambda>(t, q). (x # t, q)) (parse_str r)
              | None \<Rightarrow>
                  if e = CHR ''u'' then
                    (case u_rune r of None \<Rightarrow> None
                     | Some (v, r') \<Rightarrow> map_option (\<lambda>(t, q). (encode_rune v @ t, q)) (parse_str r'))
                  else None))
      else if code c < 0x20 then None
      else if code c < 0x80 then map_option (\<lambda>(t, q). (c # t, q)) (parse_str s)
      else (case next_rune c s of
        (None, _) \<Rightarrow> map_option (\<lambda>(t, q). (encode_rune 0xFFFD @ t, q)) (parse_str s)
      | (Some v, s') \<Rightarrow>
          map_option (\<lambda>(t, q). (c # take (length s - length s') s @ t, q)) (parse_str s')))"
  by pat_completeness auto
termination
  by (relation "measure length") (auto dest: length_next_runeD dest!: length_u_rune)

declare parse_str.simps [simp del] esc.simps [simp del]

text \<open>Values; the fuel is more than the length of the input.\<close>

fun parse_value :: "nat \<Rightarrow> string \<Rightarrow> (json \<times> string) option"
  and parse_elems :: "nat \<Rightarrow> string \<Rightarrow> (json list \<times> string) option"
  and parse_members :: "nat \<Rightarrow> string \<Rightarrow> ((string \<times> json) list \<times> string) option" where
  "parse_value 0 s = None"
| "parse_value (Suc n) s =
     (case skip_ws s of [] \<Rightarrow> None
      | c # r \<Rightarrow>
          if c = CHR 0x22 then map_option (\<lambda>(t, q). (JStr t, q)) (parse_str r)
          else if c = CHR 0x7B then
            (case skip_ws r of [] \<Rightarrow> None
             | d # q \<Rightarrow> if d = CHR 0x7D then Some (JObj [], q)
                 else map_option (\<lambda>(ms, q). (JObj ms, q)) (parse_members n (d # q)))
          else if c = CHR 0x5B then
            (case skip_ws r of [] \<Rightarrow> None
             | d # q \<Rightarrow> if d = CHR 0x5D then Some (JArr [], q)
                 else map_option (\<lambda>(xs, q). (JArr xs, q)) (parse_elems n (d # q)))
          else if prefix ''true'' (c # r) then Some (JBool True, drop 4 (c # r))
          else if prefix ''false'' (c # r) then Some (JBool False, drop 5 (c # r))
          else if prefix ''null'' (c # r) then Some (JNull, drop 4 (c # r))
          else (let l = takeWhile num_char (c # r)
                in if valid_number l then Some (JNum l, dropWhile num_char (c # r)) else None))"
| "parse_elems 0 s = None"
| "parse_elems (Suc n) s =
     (case parse_value n s of None \<Rightarrow> None
      | Some (v, r) \<Rightarrow>
          (case skip_ws r of [] \<Rightarrow> None
           | d # q \<Rightarrow> if d = CHR 0x5D then Some ([v], q)
               else if d = CHR 0x2C then map_option (\<lambda>(vs, q). (v # vs, q)) (parse_elems n q)
               else None))"
| "parse_members 0 s = None"
| "parse_members (Suc n) s =
     (case skip_ws s of [] \<Rightarrow> None
      | c # r \<Rightarrow> if c \<noteq> CHR 0x22 then None
          else (case parse_str r of None \<Rightarrow> None
            | Some (k, r) \<Rightarrow>
                (case skip_ws r of [] \<Rightarrow> None
                 | d # q \<Rightarrow> if d \<noteq> CHR 0x3A then None
                     else (case parse_value n q of None \<Rightarrow> None
                       | Some (v, r) \<Rightarrow>
                           (case skip_ws r of [] \<Rightarrow> None
                            | d # q \<Rightarrow> if d = CHR 0x7D then Some ([(k, v)], q)
                                else if d = CHR 0x2C
                                  then map_option (\<lambda>(ms, q). ((k, v) # ms, q)) (parse_members n q)
                                else None)))))"

text \<open>
  \<^verbatim>\<open>decoder.Decode(&x)\<close> followed by the check that a second \<^verbatim>\<open>Decode\<close> reports end-of-file.
\<close>

definition decode_single :: "string \<Rightarrow> json option" where
  "decode_single s =
     (case parse_value (length s + 1) s of None \<Rightarrow> None
      | Some (v, r) \<Rightarrow> if skip_ws r = [] then Some v else None)"

section \<open>String literals read back\<close>

lemma code_eq_char_of: "code c = n \<Longrightarrow> c = char_of n"
  by auto

lemma next_rune_ascii [simp]: "code b < 0x80 \<Longrightarrow> next_rune b rest = (Some (code b), rest)"
  by (simp add: next_rune.simps)

lemma radix64: "z < 64 \<Longrightarrow> (a * 64 + z) div 64 = a \<and> (a * 64 + z) mod 64 = (z::nat)"
  by simp

lemma div_radix64: "r div 4096 = r div 64 div 64" "r div 262144 = r div 64 div 64 div (64::nat)" for r :: nat
  by (simp_all add: div_mult2_eq [symmetric])

lemma next_rune_multibyte:
  assumes "next_rune b rest = (Some r, rest')" and "0x80 \<le> code b"
  obtains pre where "rest = pre @ rest'" "\<And>q. next_rune b (pre @ q) = (Some r, q)" "b # pre = encode_rune r"
proof -
  consider b1 where "rest = b1 # rest'" "0xC2 \<le> code b" "code b \<le> 0xDF" "second_ok b b1"
      "r = (code b - 0xC0) * 64 + (code b1 - 0x80)"
    | b1 b2 where "rest = b1 # b2 # rest'" "0xE0 \<le> code b" "code b \<le> 0xEF" "second_ok b b1" "cont_byte b2"
      "r = (code b - 0xE0) * 4096 + (code b1 - 0x80) * 64 + (code b2 - 0x80)"
    | b1 b2 b3 where "rest = b1 # b2 # b3 # rest'" "0xF0 \<le> code b" "code b \<le> 0xF4" "second_ok b b1"
      "cont_byte b2" "cont_byte b3"
      "r = (code b - 0xF0) * 262144 + (code b1 - 0x80) * 4096 + (code b2 - 0x80) * 64 + (code b3 - 0x80)"
    using assms by (auto simp: next_rune.simps split: list.splits if_splits)
  then show thesis
  proof cases
    case (1 b1)
    then have b1: "0x80 \<le> code b1" "code b1 \<le> 0xBF"
      by (auto simp: second_ok_def cont_byte_def)
    define x y where "x = code b - 0xC0" and "y = code b1 - 0x80"
    have xy: "code b = 0xC0 + x" "code b1 = 0x80 + y" "2 \<le> x" "x < 32" "y < 64" "r = x * 64 + y"
      using 1 b1 by (simp_all add: x_def y_def)
    have "encode_rune r = [char_of (0xC0 + x), char_of (0x80 + y)]"
      using xy by (simp add: encode_rune_def)
    then have "b # [b1] = encode_rune r" using code_eq_char_of [OF xy(1)] code_eq_char_of [OF xy(2)] by simp
    then show thesis using 1 by (intro that [of "[b1]"]) (simp_all add: next_rune.simps)
  next
    case (2 b1 b2)
    then have b: "0x80 \<le> code b1" "code b1 \<le> 0xBF" "0x80 \<le> code b2" "code b2 \<le> 0xBF"
      and low: "code b = 0xE0 \<Longrightarrow> 0xA0 \<le> code b1"
      by (auto simp: second_ok_def cont_byte_def split: if_splits)
    define x y z where "x = code b - 0xE0" and "y = code b1 - 0x80" and "z = code b2 - 0x80"
    have xy: "code b = 0xE0 + x" "code b1 = 0x80 + y" "code b2 = 0x80 + z" "x < 16" "y < 64" "z < 64"
        "x = 0 \<Longrightarrow> 32 \<le> y" "r = x * 4096 + y * 64 + z"
      using 2 b low by (simp_all add: x_def y_def z_def)
    then have "0x800 \<le> r" "r < 0x10000" by (cases x; simp)+
    moreover have "r div 4096 = x" "r div 64 mod 64 = y" "r mod 64 = z"
      using radix64 [OF xy(5), of x] radix64 [OF xy(6), of "x * 64 + y"] xy(8)
      by (simp_all add: div_radix64 algebra_simps)
    ultimately have "encode_rune r = [char_of (0xE0 + x), char_of (0x80 + y), char_of (0x80 + z)]"
      by (simp add: encode_rune_def)
    then have "b # [b1, b2] = encode_rune r" using code_eq_char_of [OF xy(1)] code_eq_char_of [OF xy(2)] code_eq_char_of [OF xy(3)] by simp
    then show thesis using 2 by (intro that [of "[b1, b2]"]) (simp_all add: next_rune.simps)
  next
    case (3 b1 b2 b3)
    then have b: "0x80 \<le> code b1" "code b1 \<le> 0xBF" "0x80 \<le> code b2" "code b2 \<le> 0xBF"
        "0x80 \<le> code b3" "code b3 \<le> 0xBF"
      and low: "code b = 0xF0 \<Longrightarrow> 0x90 \<le> code b1"
      by (auto simp: second_ok_def cont_byte_def split: if_splits)
    define x y z w where "x = code b - 0xF0" and "y = code b1 - 0x80" and "z = code b2 - 0x80"
      and "w = code b3 - 0x80"
    have xy: "code b = 0xF0 + x" "code b1 = 0x80 + y" "code b2 = 0x80 + z" "code b3 = 0x80 + w"
        "x < 5" "y < 64" "z < 64" "w < 64"
        "x = 0 \<Longrightarrow> 16 \<le> y" "r = x * 262144 + y * 4096 + z * 64 + w"
      using 3 b low by (simp_all add: x_def y_def z_def w_def)
    then have "0x10000 \<le> r" by (cases x; simp)
    moreover have "r div 262144 = x" "r div 4096 mod 64 = y" "r div 64 mod 64 = z" "r mod 64 = w"
      using radix64 [OF xy(6), of x] radix64 [OF xy(7), of "x * 64 + y"]
        radix64 [OF xy(8), of "(x * 64 + y) * 64 + z"] xy(10)
      by (simp_all add: div_radix64 algebra_simps)
    ultimately have "encode_rune r =
        [char_of (0xF0 + x), char_of (0x80 + y), char_of (0x80 + z), char_of (0x80 + w)]"
      by (simp add: encode_rune_def)
    then have "b # [b1, b2, b3] = encode_rune r" using code_eq_char_of [OF xy(1)] code_eq_char_of [OF xy(2)] code_eq_char_of [OF xy(3)] code_eq_char_of [OF xy(4)] by simp
    then show thesis using 3 by (intro that [of "[b1, b2, b3]"]) (simp_all add: next_rune.simps)
  qed
qed

lemma hex_digit_lower_hex [simp]: "n < 16 \<Longrightarrow> hex_digit (lower_hex n) = Some n"
proof -
  assume "n < 16"
  then have "n \<in> set [0..<16]" by simp
  moreover have "list_all (\<lambda>n. hex_digit (lower_hex n) = Some n) [0..<16]"
    by code_simp
  ultimately show ?thesis by (simp add: list_all_iff del: set_upt)
qed

lemma hex4_u_escape:
  assumes "r < 0x10000"
  shows "hex4 (tl (tl (u_escape r)) @ q) = Some (r, q)"
proof -
  have "4096 * (r div 4096) + 256 * (r div 256 mod 16) + 16 * (r div 16 mod 16) + r mod 16 = r"
  proof -
    have "r div 16 div 16 = r div 256" "r div 256 div 16 = r div 4096" 
      by (simp_all add: div_mult2_eq [symmetric])
    then show ?thesis
      using div_mult_mod_eq [of r 16] div_mult_mod_eq [of "r div 16" 16] div_mult_mod_eq [of "r div 256" 16]
      by linarith
  qed
  moreover have "r div 4096 < 16" using assms by simp
  ultimately show ?thesis by (simp add: u_escape_def hex4_def)
qed

lemma u_escape_hd: "u_escape r = CHR 0x5C # CHR ''u'' # tl (tl (u_escape r))"
  by (simp add: u_escape_def)

lemma parse_str_u_escape:
  assumes "r < 0xD800 \<or> 0xE000 \<le> r" and "r < 0x10000"
  shows "parse_str (u_escape r @ q) = map_option (\<lambda>(t, z). (encode_rune r @ t, z)) (parse_str q)"
proof -
  have "u_rune (tl (tl (u_escape r)) @ q) = Some (r, q)"
    using assms by (auto simp: u_rune_def hex4_u_escape)
  then show ?thesis
    by (subst u_escape_hd) (simp add: parse_str.simps simple_escape_def)
qed

lemma parse_str_esc_ascii:
  assumes "code c < 0x80"
  shows "parse_str (esc_ascii c @ q) = map_option (\<lambda>(t, z). (c # t, z)) (parse_str q)"
proof -
  have u: "encode_rune (code c) = [c]" using assms by (simp add: encode_rune_def)
  show ?thesis
    using assms parse_str_u_escape [of "code c" q]
    by (auto simp: esc_ascii_def parse_str.simps simple_escape_def u dest: code_eq_char_of)
qed

lemma ValidString_Cons:
  "ValidString (b # rest) \<longleftrightarrow> (\<exists>r rest'. next_rune b rest = (Some r, rest') \<and> ValidString rest')"
  by (cases "next_rune b rest"; cases "fst (next_rune b rest)") (auto simp: ValidString_def)

lemma parse_str_esc: "ValidString s \<Longrightarrow> parse_str (esc s @ CHR 0x22 # q) = Some (s, q)"
proof (induction s rule: esc.induct)
  case 1
  then show ?case by (simp add: esc.simps parse_str.simps)
next
  case (2 b rest)
  then obtain r rest' where nr: "next_rune b rest = (Some r, rest')" and valid: "ValidString rest'"
    by (auto simp: ValidString_Cons)
  show ?case
  proof (cases "code b < 0x80")
    case True
    with 2 nr valid show ?thesis by (simp add: esc.simps parse_str_esc_ascii)
  next
    case False
    then obtain pre where pre: "rest = pre @ rest'" "\<And>q. next_rune b (pre @ q) = (Some r, q)"
      and enc: "b # pre = encode_rune r"
      using next_rune_multibyte [OF nr] by (metis not_less)
    have IH: "parse_str (esc rest' @ CHR 0x22 # q) = Some (rest', q)"
      using 2(3) [OF False nr [symmetric]] valid by simp
    show ?thesis
    proof (cases "r = 0x2028 \<or> r = 0x2029")
      case True
      then have "parse_str (u_escape r @ (esc rest' @ CHR 0x22 # q)) = Some ((b # pre) @ rest', q)"
        by (subst parse_str_u_escape) (auto simp: IH enc)
      with True False show ?thesis by (auto simp: esc.simps pre)
    next
      case r: False
      have "parse_str (b # pre @ (esc rest' @ CHR 0x22 # q)) = Some ((b # pre) @ rest', q)"
        using False by (subst parse_str.simps) (auto simp: pre(2) IH)
      with r False show ?thesis by (simp add: esc.simps pre)
    qed
  qed
qed

section \<open>Values read back\<close>

fun json_wf :: "json \<Rightarrow> bool" where
  "json_wf (JNum l) \<longleftrightarrow> valid_number l \<and> list_all num_char l"
| "json_wf (JStr s) \<longleftrightarrow> ValidString s"
| "json_wf (JArr xs) \<longleftrightarrow> list_all json_wf xs"
| "json_wf (JObj ms) \<longleftrightarrow> list_all (\<lambda>(k, v). ValidString k \<and> json_wf v) ms"
| "json_wf _ \<longleftrightarrow> True"

definition ends_number :: "string \<Rightarrow> bool" where
  "ends_number rest \<longleftrightarrow> (case rest of [] \<Rightarrow> True | c # _ \<Rightarrow> \<not> num_char c)"

lemma skip_ws_Cons [simp]: "\<not> is_ws c \<Longrightarrow> skip_ws (c # s) = c # s"
  by (simp add: skip_ws_def)

lemma takeWhile_number:
  "list_all num_char l \<Longrightarrow> ends_number rest \<Longrightarrow>
   takeWhile num_char (l @ rest) = l \<and> dropWhile num_char (l @ rest) = rest"
  by (induction l) (auto simp: ends_number_def split: list.splits)

lemma valid_number_hd:
  assumes "valid_number l"
  obtains c r where "l = c # r" "is_digit c \<or> c = CHR ''-''"
  using assms by (cases l) (auto simp: valid_number_def split: if_splits list.splits)

lemma number_start:
  assumes "is_digit c \<or> c = CHR ''-''"
  shows "\<not> is_ws c" "c \<noteq> CHR 0x22" "c \<noteq> CHR 0x7B" "c \<noteq> CHR 0x5B" "c \<noteq> CHR 0x5D"
    "\<not> prefix ''true'' (c # r)" "\<not> prefix ''false'' (c # r)" "\<not> prefix ''null'' (c # r)"
  using assms by (auto simp: is_digit_def is_ws_def)

lemma print_not_close:
  assumes "json_wf v"
  obtains c r where "print v = c # r" "\<not> is_ws c" "c \<noteq> CHR 0x5D"
proof (cases v)
  case (JNum l)
  with assms obtain c r where "l = c # r" "is_digit c \<or> c = CHR ''-''"
    by (auto elim: valid_number_hd)
  then show thesis using that [of c r] JNum number_start [of c] by simp
next
  case (JBool b)
  then show thesis using that by (cases b) (auto simp: is_ws_def)
qed (auto simp: quote_def is_ws_def intro: that)

lemma print_elems_hd:
  assumes "xs \<noteq> []" and "list_all json_wf xs"
  obtains c r where "print_elems xs = c # r" "\<not> is_ws c" "c \<noteq> CHR 0x5D"
proof -
  obtain x ys where xs: "xs = x # ys" using assms(1) by (cases xs) auto
  with assms obtain c r where "print x = c # r" "\<not> is_ws c" "c \<noteq> CHR 0x5D"
    by (auto elim: print_not_close)
  then show thesis using that xs by (cases ys) auto
qed

lemma print_members_hd: "ms \<noteq> [] \<Longrightarrow> \<exists>r. print_members ms = CHR 0x22 # r"
  by (cases ms rule: list.exhaust, simp, rename_tac m ms', case_tac m; case_tac ms') (auto simp: quote_def)

lemma seps [simp]: "\<not> is_ws CHR 0x22" "\<not> is_ws CHR 0x7B" "\<not> is_ws CHR 0x7D" "\<not> is_ws CHR 0x5B"
  "\<not> is_ws CHR 0x5D" "\<not> is_ws CHR 0x2C" "\<not> is_ws CHR 0x3A"
  "ends_number (CHR 0x7D # s)" "ends_number (CHR 0x5D # s)" "ends_number (CHR 0x2C # s)" "ends_number []"
  by (auto simp: is_ws_def ends_number_def num_char_def is_digit_def)

lemma parse_number:
  assumes "valid_number l" and "list_all num_char l" and "ends_number rest"
  shows "parse_value (Suc n) (l @ rest) = Some (JNum l, rest)"
proof -
  obtain c r where l: "l = c # r" and c: "is_digit c \<or> c = CHR ''-''"
    using assms(1) by (rule valid_number_hd)
  note tw = takeWhile_number [OF assms(2,3)]
  show ?thesis
    using tw assms(1) number_start [OF c] by (simp add: l Let_def)
qed

lemma parse_print:
  shows "json_wf v \<Longrightarrow> length (print v) < n \<Longrightarrow> ends_number rest \<Longrightarrow>
      parse_value n (print v @ rest) = Some (v, rest)"
    and "xs \<noteq> [] \<Longrightarrow> list_all json_wf xs \<Longrightarrow> length (print_elems xs) + 1 < n \<Longrightarrow>
      parse_elems n (print_elems xs @ CHR 0x5D # rest) = Some (xs, rest)"
    and "ms \<noteq> [] \<Longrightarrow> list_all (\<lambda>(k, v). ValidString k \<and> json_wf v) ms \<Longrightarrow> length (print_members ms) + 1 < n \<Longrightarrow>
      parse_members n (print_members ms @ CHR 0x7D # rest) = Some (ms, rest)"
proof (induction v and xs and ms arbitrary: n rest and n rest and n rest
    rule: print_print_elems_print_members.induct)
  case 1
  then show ?case by (cases n) (simp_all add: is_ws_def)
next
  case (2 b)
  then show ?case by (cases n; cases b) (simp_all add: is_ws_def)
next
  case (3 l)
  then show ?case by (cases n) (simp_all add: parse_number del: parse_value.simps)
next
  case (4 s)
  then show ?case by (cases n) (simp_all add: quote_def parse_str_esc)
next
  case (5 xs)
  then obtain m where n: "n = Suc m" by (cases n) auto
  show ?case
  proof (cases "xs = []")
    case False
    with 5 obtain c r where cr: "print_elems xs = c # r" "\<not> is_ws c" "c \<noteq> CHR 0x5D"
      by (auto elim: print_elems_hd)
    have "parse_elems m (print_elems xs @ CHR 0x5D # rest) = Some (xs, rest)"
      using 5 False n by simp
    with cr show ?thesis by (simp add: n)
  qed (simp add: n)
next
  case (6 ms)
  then obtain m where n: "n = Suc m" by (cases n) auto
  show ?case
  proof (cases "ms = []")
    case False
    then obtain r where r: "print_members ms = CHR 0x22 # r" using print_members_hd by blast
    have "parse_members m (print_members ms @ CHR 0x7D # rest) = Some (ms, rest)"
      using 6 False n by simp
    with r show ?thesis by (simp add: n)
  qed (simp add: n)
next
  case 7
  then show ?case by simp
next
  case (8 x)
  then show ?case by (cases n) simp_all
next
  case (9 x y ys)
  then show ?case by (cases n) simp_all
next
  case 10
  then show ?case by simp
next
  case (11 k v)
  then show ?case by (cases n) (simp_all add: quote_def parse_str_esc)
next
  case (12 k v m ms)
  then show ?case by (cases n) (simp_all add: quote_def parse_str_esc)
qed

theorem decode_print: "json_wf v \<Longrightarrow> decode_single (print v) = Some v"
  using parse_print(1) [of v "length (print v) + 1" "[]"]
  by (simp add: decode_single_def skip_ws_def)

text \<open>Escaping makes a string at most six times longer.\<close>

lemma length_esc: "length (esc s) \<le> 6 * length s"
proof (induction s rule: esc.induct)
  case (2 b rest)
  have "length (esc_ascii b) \<le> 6" by (simp add: esc_ascii_def u_escape_def)
  with 2 length_next_rune [of b rest] show ?case
    by (cases "next_rune b rest"; cases "fst (next_rune b rest)") (auto simp: esc.simps(2) u_escape_def)
qed (simp add: esc.simps)

lemma length_quote: "length (quote s) \<le> 6 * length s + 2"
  using length_esc [of s] by (simp add: quote_def)

end
