(* ===== verification/JsonStruct.thy ===== *)
theory JsonStruct
  imports Json
begin

text \<open>
  Decoding a JSON object into a struct the way \<^verbatim>\<open>encoding/json\<close> does with \<^verbatim>\<open>DisallowUnknownFields\<close>: the
  members are applied in their order, a member name matches a field exactly or under Unicode case
  folding, an unknown name or a value of the wrong type is an error, \<^verbatim>\<open>null\<close> leaves the field alone.
\<close>

section \<open>Field names\<close>

text \<open>\<^verbatim>\<open>foldName\<close>: upper case ASCII; the long s and the Kelvin sign fold to ASCII letters.\<close>

definition fold_rune :: "nat option \<Rightarrow> nat" where
  "fold_rune r = (case r of None \<Rightarrow> 0xFFFD
     | Some n \<Rightarrow> if 97 \<le> n \<and> n \<le> 122 then n - 32 else if n = 0x17F then 83 else if n = 0x212A then 75 else n)"

definition fold_name :: "string \<Rightarrow> nat list" where
  "fold_name s = map fold_rune (runes s)"

type_synonym 'r field = "string \<times> (json \<Rightarrow> 'r \<Rightarrow> 'r option)"

definition find_field :: "'r field list \<Rightarrow> string \<Rightarrow> (json \<Rightarrow> 'r \<Rightarrow> 'r option) option" where
  "find_field fields name =
     (case map_of fields name of
        Some f \<Rightarrow> Some f
      | None \<Rightarrow> map_option snd (List.find (\<lambda>(n, f). fold_name n = fold_name name) fields))"

fun set_members :: "'r field list \<Rightarrow> (string \<times> json) list \<Rightarrow> 'r \<Rightarrow> 'r option" where
  "set_members fields [] r = Some r"
| "set_members fields ((name, v) # ms) r =
     (case find_field fields name of
        None \<Rightarrow> None
      | Some f \<Rightarrow> (case f v r of None \<Rightarrow> None | Some r' \<Rightarrow> set_members fields ms r'))"

definition decode_struct :: "'r field list \<Rightarrow> json \<Rightarrow> 'r \<Rightarrow> 'r option" where
  "decode_struct fields v r =
     (case v of JObj ms \<Rightarrow> set_members fields ms r | JNull \<Rightarrow> Some r | _ \<Rightarrow> None)"

section \<open>Field types\<close>

definition string_field :: "(string \<Rightarrow> 'r \<Rightarrow> 'r) \<Rightarrow> json \<Rightarrow> 'r \<Rightarrow> 'r option" where
  "string_field upd v r = (case v of JStr s \<Rightarrow> Some (upd s r) | JNull \<Rightarrow> Some r | _ \<Rightarrow> None)"

definition int_field :: "(int \<Rightarrow> 'r \<Rightarrow> 'r) \<Rightarrow> json \<Rightarrow> 'r \<Rightarrow> 'r option" where
  "int_field upd v r =
     (case v of JNum l \<Rightarrow> (case ParseInt l of Some n \<Rightarrow> Some (upd n r) | None \<Rightarrow> None)
      | JNull \<Rightarrow> Some r | _ \<Rightarrow> None)"

definition uint64_field :: "(64 word \<Rightarrow> 'r \<Rightarrow> 'r) \<Rightarrow> json \<Rightarrow> 'r \<Rightarrow> 'r option" where
  "uint64_field upd v r =
     (case v of JNum l \<Rightarrow> (case ParseUint l of Some n \<Rightarrow> Some (upd (of_nat n) r) | None \<Rightarrow> None)
      | JNull \<Rightarrow> Some r | _ \<Rightarrow> None)"

definition bool_field :: "(bool \<Rightarrow> 'r \<Rightarrow> 'r) \<Rightarrow> json \<Rightarrow> 'r \<Rightarrow> 'r option" where
  "bool_field upd v r = (case v of JBool b \<Rightarrow> Some (upd b r) | JNull \<Rightarrow> Some r | _ \<Rightarrow> None)"

definition struct_field :: "'a field list \<Rightarrow> ('r \<Rightarrow> 'a) \<Rightarrow> ('a \<Rightarrow> 'r \<Rightarrow> 'r) \<Rightarrow> json \<Rightarrow> 'r \<Rightarrow> 'r option" where
  "struct_field fields sel upd v r =
     (case decode_struct fields v (sel r) of Some a \<Rightarrow> Some (upd a r) | None \<Rightarrow> None)"

lemmas field_simps_json = string_field_def int_field_def uint64_field_def bool_field_def struct_field_def
  decode_struct_def find_field_def

section \<open>Number literals that the encoder prints\<close>

lemma dropWhile_all: "list_all P xs \<Longrightarrow> dropWhile P xs = []"
  by (induction xs) auto

lemma valid_number_FormatUint [simp]: "valid_number (FormatUint n)"
proof (cases "n = 0")
  case True
  have "FormatUint 0 = ''0''" by (subst FormatUint.simps) (simp add: char_of_eq_iff)
  with True show ?thesis by (simp add: valid_number_def valid_frac_def is_digit_def)
next
  case False
  obtain d r where dr: "FormatUint n = d # r" using FormatUint_nonempty [of n] by (cases "FormatUint n") auto
  have "is_digit d" "list_all is_digit r" "d \<noteq> CHR ''-''" "d \<noteq> CHR ''0''"
    using FormatUint_digits [of n] FormatUint_hd_sign [of n] FormatUint_leading [OF False] dr by auto
  then show ?thesis by (simp add: dr valid_number_def dropWhile_all valid_frac_def)
qed

lemma num_char_FormatUint [simp]: "list_all num_char (FormatUint n)"
  using FormatUint_digits [of n] by (auto simp: list_all_iff num_char_def)

lemma json_wf_FormatUint [simp]: "json_wf (JNum (FormatUint n))"
  by simp

lemma json_wf_FormatInt [simp]: "json_wf (JNum (FormatInt n))"
proof (cases "n < 0")
  case True
  obtain d r where dr: "FormatUint (nat (- n)) = d # r"
    using FormatUint_nonempty [of "nat (- n)"] by (cases "FormatUint (nat (- n))") auto
  have "d \<noteq> CHR ''-''" using FormatUint_hd_sign [of "nat (- n)"] dr by auto
  moreover have "valid_number (FormatUint (nat (- n)))" by simp
  ultimately have "valid_number (CHR ''-'' # FormatUint (nat (- n)))"
    by (simp add: valid_number_def dr)
  then show ?thesis using True by (simp add: FormatInt_def num_char_def)
qed (simp add: FormatInt_def)

end
