(* ===== verification/RepositoryStore.thy ===== *)
theory RepositoryStore
  imports Multipart JsonStruct
begin

text \<open>
  \<^verbatim>\<open>internal/storage/repository.go\<close>: the publication of repository generations. Immutable artifacts and
  the state snapshot are durable before the one mutable object, \<^verbatim>\<open>repos/<id>/state\<close>, is replaced by a
  compare-and-swap on its version.
\<close>

section \<open>State and its encoding\<close>

definition repositoryStateSchema :: int where "repositoryStateSchema = 1"
definition maxRepositoryStateBytes :: nat where "maxRepositoryStateBytes = 1048576"

record RepositoryState =
  SchemaVersion :: int
  Generation :: "64 word"
  DefaultBranch :: string
  RefsSnapshot :: string
  PackManifest :: string

record stateEnvelope =
  EnvelopeSchema :: int
  Snapshot :: string
  State :: RepositoryState

definition zeroState :: RepositoryState where
  "zeroState = \<lparr>SchemaVersion = 0, Generation = 0, DefaultBranch = [], RefsSnapshot = [], PackManifest = []\<rparr>"

definition stateJson :: "RepositoryState \<Rightarrow> json" where
  "stateJson st = JObj
     [(''schema_version'', JNum (FormatInt (SchemaVersion st))),
      (''generation'', JNum (FormatUint (unat (Generation st)))),
      (''default_branch'', JStr (DefaultBranch st)),
      (''refs_snapshot'', JStr (RefsSnapshot st)),
      (''pack_manifest'', JStr (PackManifest st))]"

definition envelopeJson :: "stateEnvelope \<Rightarrow> json" where
  "envelopeJson env = JObj
     [(''schema_version'', JNum (FormatInt (EnvelopeSchema env))),
      (''snapshot'', JStr (Snapshot env)),
      (''state'', stateJson (State env))]"

definition stateFields :: "RepositoryState field list" where
  "stateFields =
     [(''schema_version'', int_field (\<lambda>x st. st\<lparr>SchemaVersion := x\<rparr>)),
      (''generation'', uint64_field (\<lambda>x st. st\<lparr>Generation := x\<rparr>)),
      (''default_branch'', string_field (\<lambda>x st. st\<lparr>DefaultBranch := x\<rparr>)),
      (''refs_snapshot'', string_field (\<lambda>x st. st\<lparr>RefsSnapshot := x\<rparr>)),
      (''pack_manifest'', string_field (\<lambda>x st. st\<lparr>PackManifest := x\<rparr>))]"

definition envelopeFields :: "stateEnvelope field list" where
  "envelopeFields =
     [(''schema_version'', int_field (\<lambda>x env. env\<lparr>EnvelopeSchema := x\<rparr>)),
      (''snapshot'', string_field (\<lambda>x env. env\<lparr>Snapshot := x\<rparr>)),
      (''state'', struct_field stateFields State (\<lambda>x env. env\<lparr>State := x\<rparr>))]"

definition marshal :: "json \<Rightarrow> bytes" where
  "marshal v = bytes_of (print v)"

definition decodeEnvelope :: "bytes \<Rightarrow> stateEnvelope option" where
  "decodeEnvelope b =
     (case decode_single (string_of b) of None \<Rightarrow> None
      | Some v \<Rightarrow> decode_struct envelopeFields v \<lparr>EnvelopeSchema = 0, Snapshot = [], State = zeroState\<rparr>)"

text \<open>\<^verbatim>\<open>marshalStateSnapshot\<close>, with the \<^verbatim>\<open>%020d\<close> format of the generation.\<close>

definition pad20 :: "nat \<Rightarrow> string" where
  "pad20 n = replicate (20 - length (FormatUint n)) CHR ''0'' @ FormatUint n"

definition marshalStateSnapshot :: "RepositoryState \<Rightarrow> bytes \<times> string" where
  "marshalStateSnapshot st =
     (let stateJSON = marshal (stateJson st)
      in (stateJSON, ''states/'' @ pad20 (unat (Generation st)) @ ''-state-'' @
            EncodeToString (Sum256 stateJSON) @ ''.json''))"

section \<open>Validation\<close>

text \<open>\<^verbatim>\<open>repositoryIDPattern\<close>: \<open>^[A-Za-z0-9][A-Za-z0-9_-]{0,127}$\<close>.\<close>

definition is_alnum :: "char \<Rightarrow> bool" where
  "is_alnum c \<longleftrightarrow> is_digit c \<or> (65 \<le> code c \<and> code c \<le> 90) \<or> (97 \<le> code c \<and> code c \<le> 122)"

definition repositoryIDPattern :: "string \<Rightarrow> bool" where
  "repositoryIDPattern s =
     (case s of [] \<Rightarrow> False
      | c # r \<Rightarrow> is_alnum c \<and> list_all (\<lambda>c. is_alnum c \<or> c = CHR ''_'' \<or> c = CHR ''-'') r \<and> length r \<le> 127)"

definition repositoryKey :: "string \<Rightarrow> string \<Rightarrow> string result" where
  "repositoryKey repositoryID relativeKey =
     (if \<not> repositoryIDPattern repositoryID then Inl (ErrMsg ''invalid repository ID'')
      else (let key = ''repos/'' @ repositoryID @ ''/'' @ relativeKey
            in case validateKey key of Some e \<Rightarrow> Inl e | None \<Rightarrow> Inr key))"

definition hasASCIIControl :: "string \<Rightarrow> bool" where
  "hasASCIIControl s = list_ex ascii_control s"

definition validGitRefName :: "string \<Rightarrow> bool" where
  "validGitRefName name \<longleftrightarrow>
     \<not> (name = [] \<or> name = ''@'' \<or> \<not> ValidString name) \<and>
     \<not> (HasPrefix name ''/'' \<or> HasSuffix name ''/'' \<or> HasSuffix name ''.'' \<or> Contains name ''//'' \<or>
        Contains name ''..'' \<or> Contains name [CHR ''@'', CHR 0x7B] \<or>
        ContainsAny name ('' ~^:?*['' @ [CHR 0x5C]) \<or> hasASCIIControl name) \<and>
     list_all (\<lambda>component. \<not> (HasPrefix component ''.'' \<or> HasSuffix component ''.lock'')) (Split CHR ''/'' name)"

definition validReference :: "string \<Rightarrow> string \<Rightarrow> bool" where
  "validReference repositoryID ref \<longleftrightarrow>
     ValidString ref \<and> \<not> hasASCIIControl ref \<and> HasPrefix ref ''states/'' \<and> path_Clean ref = ref \<and>
     (\<exists>key. repositoryKey repositoryID ref = Inr key)"

lemma validReference_code [code]:
  "validReference repositoryID ref \<longleftrightarrow>
     ValidString ref \<and> \<not> hasASCIIControl ref \<and> HasPrefix ref ''states/'' \<and> path_Clean ref = ref \<and>
     (case repositoryKey repositoryID ref of Inl _ \<Rightarrow> False | Inr _ \<Rightarrow> True)"
  by (auto simp: validReference_def split: sum.splits)

definition validateState :: "string \<Rightarrow> RepositoryState \<Rightarrow> err option" where
  "validateState repositoryID st =
     (if \<not> repositoryIDPattern repositoryID then Some (ErrMsg ''invalid repository ID'')
      else if SchemaVersion st \<noteq> repositoryStateSchema then Some (ErrMsg ''repository state schema must be 1'')
      else if Generation st = 0 then Some (ErrMsg ''repository generation must be positive'')
      else if \<not> HasPrefix (DefaultBranch st) ''refs/heads/'' \<or> \<not> validGitRefName (DefaultBranch st)
        then Some (ErrMsg ''default branch must be a valid refs/heads ref'')
      else if \<not> validReference repositoryID (RefsSnapshot st)
        then Some (ErrMsg ''refs snapshot must be a canonical states/ key'')
      else if \<not> validReference repositoryID (PackManifest st)
        then Some (ErrMsg ''pack manifest must be a canonical states/ key'')
      else None)"

section \<open>Operations\<close>

definition LoadState :: "'s ObjectStore \<Rightarrow> ctx \<Rightarrow> string \<Rightarrow> 's \<Rightarrow> (RepositoryState \<times> Version) result" where
  "LoadState ops ctx repositoryID s =
     (case repositoryKey repositoryID ''state'' of Inl e \<Rightarrow> Inl e | Inr key \<Rightarrow>
     (case os_Get ops ctx key s of Inl e \<Rightarrow> Inl e | Inr (body, info) \<Rightarrow>
      (let content = take (maxRepositoryStateBytes + 1) body
       in if length content > maxRepositoryStateBytes then Inl (ErrMsg ''repository state exceeds 1 MiB'')
          else if InfoVersion info = [] then Inl (ErrMsg ''repository state has no CAS version'')
          else (case decodeEnvelope content of
            None \<Rightarrow> Inl (ErrMsg ''decode repository state'')
          | Some envelope \<Rightarrow>
              if EnvelopeSchema envelope \<noteq> repositoryStateSchema
              then Inl (ErrMsg ''unsupported repository state schema'')
              else (case validateState repositoryID (State envelope) of
                Some e \<Rightarrow> Inl e
              | None \<Rightarrow>
                  if Snapshot envelope \<noteq> snd (marshalStateSnapshot (State envelope))
                  then Inl (ErrMsg ''repository state snapshot does not match embedded state'')
                  else Inr (State envelope, InfoVersion info))))))"

definition verifyImmutable :: "'s ObjectStore \<Rightarrow> ctx \<Rightarrow> string \<Rightarrow> bytes \<Rightarrow> 's \<Rightarrow> err option" where
  "verifyImmutable ops ctx key expected s =
     (case os_Get ops ctx key s of
        Inl e \<Rightarrow> Some e
      | Inr (body, _) \<Rightarrow> if take (length expected + 1) body \<noteq> expected then Some ErrAlreadyExists else None)"

definition validateTransition :: "'s ObjectStore \<Rightarrow> ctx \<Rightarrow> string \<Rightarrow> Version \<Rightarrow> 64 word \<Rightarrow> 's \<Rightarrow> err option" where
  "validateTransition ops ctx repositoryID expected nextGeneration s =
     (let loaded = LoadState ops ctx repositoryID s
      in if expected = [] then
           (case loaded of
              Inr _ \<Rightarrow> Some ErrPreconditionFailed
            | Inl e \<Rightarrow> if \<not> errors_Is e ErrNotFound then Some e
                else if nextGeneration \<noteq> 1 then Some (ErrMsg ''initial repository generation must be 1'')
                else None)
         else (case loaded of
              Inl e \<Rightarrow> Some e
            | Inr (current, currentVersion) \<Rightarrow>
                if currentVersion \<noteq> expected \<or> Generation current = - 1 \<or> nextGeneration \<noteq> Generation current + 1
                then Some ErrPreconditionFailed else None))"

fun requireKeys :: "'s ObjectStore \<Rightarrow> ctx \<Rightarrow> string \<Rightarrow> string list \<Rightarrow> 's \<Rightarrow> err option" where
  "requireKeys ops ctx repositoryID [] s = None"
| "requireKeys ops ctx repositoryID (relativeKey # rest) s =
     (case repositoryKey repositoryID relativeKey of Inl e \<Rightarrow> Some e | Inr key \<Rightarrow>
     (case os_Head ops ctx key s of Inl e \<Rightarrow> Some e | Inr _ \<Rightarrow> requireKeys ops ctx repositoryID rest s))"

definition requireDurableReferences :: "'s ObjectStore \<Rightarrow> ctx \<Rightarrow> string \<Rightarrow> RepositoryState \<Rightarrow> 's \<Rightarrow> err option" where
  "requireDurableReferences ops ctx repositoryID st s =
     requireKeys ops ctx repositoryID [RefsSnapshot st, PackManifest st] s"

definition withSchema :: "RepositoryState \<Rightarrow> RepositoryState" where
  "withSchema st = (if SchemaVersion st = 0 then st\<lparr>SchemaVersion := repositoryStateSchema\<rparr> else st)"

text \<open>The two writes of \<^verbatim>\<open>CompareAndSwapState\<close>: the immutable snapshot, then the publication point.\<close>

definition storeSnapshot :: "'s ObjectStore \<Rightarrow> ctx \<Rightarrow> string \<Rightarrow> bytes \<Rightarrow> 's \<Rightarrow> err option \<times> 's" where
  "storeSnapshot ops ctx snapshotKey stateJSON s =
     (case put_bytes ops ctx snapshotKey stateJSON if_absent s of
        (Inr _, s) \<Rightarrow> (None, s)
      | (Inl e, s) \<Rightarrow>
          if \<not> errors_Is e ErrAlreadyExists then (Some e, s)
          else (verifyImmutable ops ctx snapshotKey stateJSON s, s))"

definition publish :: "'s ObjectStore \<Rightarrow> ctx \<Rightarrow> string \<Rightarrow> Version \<Rightarrow> bytes \<Rightarrow> 's \<Rightarrow> err option \<times> 's" where
  "publish ops ctx stateKey expected envelopeJSON s =
     (case put_bytes ops ctx stateKey envelopeJSON \<lparr>IfMatch = expected, IfNoneMatch = (expected = [])\<rparr> s of
        (Inr _, s) \<Rightarrow> (None, s)
      | (Inl e, s) \<Rightarrow> if errors_Is e ErrAlreadyExists then (Some ErrPreconditionFailed, s) else (Some e, s))"

definition CompareAndSwapState :: "'s ObjectStore \<Rightarrow> ctx \<Rightarrow> string \<Rightarrow> Version \<Rightarrow> RepositoryState \<Rightarrow> 's
    \<Rightarrow> err option \<times> 's" where
  "CompareAndSwapState ops ctx repositoryID expected nextState s =
     (let nxt = withSchema nextState in
      case validateState repositoryID nxt of Some e \<Rightarrow> (Some e, s) | None \<Rightarrow>
      (let (stateJSON, snapshotName) = marshalStateSnapshot nxt;
           envelopeJSON = marshal (envelopeJson
             \<lparr>EnvelopeSchema = repositoryStateSchema, Snapshot = snapshotName, State = nxt\<rparr>)
       in if length envelopeJSON > maxRepositoryStateBytes then (Some (ErrMsg ''repository state exceeds 1 MiB''), s)
          else (case validateTransition ops ctx repositoryID expected (Generation nxt) s of Some e \<Rightarrow> (Some e, s) | None \<Rightarrow>
          (case requireDurableReferences ops ctx repositoryID nxt s of Some e \<Rightarrow> (Some e, s) | None \<Rightarrow>
          (case repositoryKey repositoryID snapshotName of Inl e \<Rightarrow> (Some e, s) | Inr snapshotKey \<Rightarrow>
          (case storeSnapshot ops ctx snapshotKey stateJSON s of
             (Some e, s) \<Rightarrow> (Some e, s)
           | (None, s) \<Rightarrow>
               (case repositoryKey repositoryID ''state'' of Inl e \<Rightarrow> (Some e, s) | Inr stateKey \<Rightarrow>
                publish ops ctx stateKey expected envelopeJSON s)))))))"

definition PutImmutable :: "'s ObjectStore \<Rightarrow> ctx \<Rightarrow> string \<Rightarrow> Reader option \<Rightarrow> int \<Rightarrow> 's \<Rightarrow> err option \<times> 's" where
  "PutImmutable ops ctx key body sz s =
     (case os_Put ops ctx key body sz if_absent s of (Inl e, s) \<Rightarrow> (Some e, s) | (Inr _, s) \<Rightarrow> (None, s))"

definition StoreGet :: "'s ObjectStore \<Rightarrow> ctx \<Rightarrow> string \<Rightarrow> 's \<Rightarrow> bytes result" where
  "StoreGet ops ctx key s = (case os_Get ops ctx key s of Inl e \<Rightarrow> Inl e | Inr (body, _) \<Rightarrow> Inr body)"

definition StoreGetRange :: "'s ObjectStore \<Rightarrow> ctx \<Rightarrow> string \<Rightarrow> int \<Rightarrow> int \<Rightarrow> 's \<Rightarrow> bytes result" where
  "StoreGetRange ops ctx key offset len s =
     (case os_GetRange ops ctx key offset len s of Inl e \<Rightarrow> Inl e | Inr (body, _) \<Rightarrow> Inr body)"

section \<open>The keys of a repository\<close>

definition plain_char :: "char \<Rightarrow> bool" where
  "plain_char c \<longleftrightarrow> is_alnum c \<or> c \<in> {CHR ''-'', CHR ''_'', CHR ''.''}"

lemma plain_char_code: "plain_char c \<Longrightarrow> code c < 0x80 \<and> 0x20 \<le> code c \<and> code c \<noteq> 0x7F \<and> code c \<noteq> 0x2F \<and> code c \<noteq> 0x5C"
  by (auto simp: plain_char_def is_alnum_def is_digit_def)

lemma plain_char_facts:
  assumes "plain_char c"
  shows "c \<noteq> CHR ''/''" "c \<noteq> CHR 0x5C" "\<not> ascii_control c" "code c < 0x80"
  using plain_char_code [OF assms] by (auto simp: ascii_control_def)

lemma runes_ascii_append: "ascii a \<Longrightarrow> runes (a @ b) = map (\<lambda>c. Some (code c)) a @ runes b"
  by (induction a) (simp_all add: ascii_def)

lemma ValidString_ascii_append: "ascii a \<Longrightarrow> ValidString (a @ b) \<longleftrightarrow> ValidString b"
  by (auto simp: ValidString_def runes_ascii_append)

lemma repositoryID_plain: "repositoryIDPattern i \<Longrightarrow> list_all plain_char i \<and> canonical_part i \<and> length i \<le> 128"
  by (auto simp: repositoryIDPattern_def plain_char_def canonical_part_def list_all_iff is_alnum_def is_digit_def
      split: list.splits)

lemma repositoryKey_iff:
  "repositoryKey i rel = Inr key \<longleftrightarrow>
     repositoryIDPattern i \<and> key = ''repos/'' @ i @ ''/'' @ rel \<and> length key \<le> 1024 \<and>
     ValidString rel \<and> CHR 0x5C \<notin> set rel \<and> (\<forall>c \<in> set rel. \<not> ascii_control c) \<and>
     (\<forall>part \<in> set (Split CHR ''/'' rel). canonical_part part)"
proof (cases "repositoryIDPattern i")
  case True
  then have plain: "\<forall>c \<in> set i. plain_char c" and can: "canonical_part i"
    using repositoryID_plain by (auto simp: list_all_iff)
  have asc: "ascii (''repos/'' @ i @ ''/'')"
    using plain plain_char_facts(4) by (auto simp: ascii_def list_all_iff)
  have valid: "ValidString (''repos/'' @ i @ ''/'' @ rel) \<longleftrightarrow> ValidString rel"
    using ValidString_ascii_append [OF asc, of rel] by simp
  have noslash: "CHR ''/'' \<notin> set i" using plain plain_char_facts(1) by blast
  have split: "Split CHR ''/'' (''repos/'' @ i @ ''/'' @ rel) = ''repos'' # i # Split CHR ''/'' rel"
    using Split_append_sep [of "CHR ''/''" "''repos''" "i @ CHR ''/'' # rel"] noslash by simp
  have ib: "CHR 0x5C \<notin> set i" and ic: "\<forall>c \<in> set i. \<not> ascii_control c"
    using plain plain_char_facts(2,3) by blast+
  have "\<forall>c \<in> set ''repos/''. \<not> ascii_control c" "\<not> ascii_control CHR ''/''" by (simp_all add: ascii_control_def)
  with ic have ctl: "(\<forall>c \<in> set (''repos/'' @ i @ ''/'' @ rel). \<not> ascii_control c) \<longleftrightarrow> (\<forall>c \<in> set rel. \<not> ascii_control c)"
    by (simp add: ball_Un)
  have bs: "CHR 0x5C \<notin> set (''repos/'' @ i @ ''/'' @ rel) \<longleftrightarrow> CHR 0x5C \<notin> set rel"
    using ib by simp
  have parts: "(\<forall>part \<in> set (Split CHR ''/'' (''repos/'' @ i @ ''/'' @ rel)). canonical_part part) \<longleftrightarrow>
      (\<forall>part \<in> set (Split CHR ''/'' rel). canonical_part part)"
    unfolding split using can by (simp add: canonical_part_def)
  define K where "K = ''repos/'' @ i @ ''/'' @ rel"
  have "repositoryKey i rel = Inr key \<longleftrightarrow> key = K \<and> validateKey K = None"
    using True unfolding repositoryKey_def Let_def K_def [symmetric] by (auto split: option.splits)
  then show ?thesis
    using True bs ctl parts valid unfolding K_def [symmetric] by (auto simp: validateKey_iff)
qed (simp add: repositoryKey_def)
lemma repositoryKey_state: "repositoryIDPattern i \<Longrightarrow> repositoryKey i ''state'' = Inr (''repos/'' @ i @ ''/state'')"
  using repositoryID_plain [of i]
  by (auto simp: repositoryKey_iff ValidString_ascii ascii_def ascii_control_def canonical_part_def)

lemma length_FormatUint: "n < 10 ^ Suc k \<Longrightarrow> length (FormatUint n) \<le> Suc k"
proof (induction k arbitrary: n)
  case (Suc k)
  then have "n div 10 < 10 ^ Suc k" by (simp add: div_less_iff_less_mult mult.commute)
  from Suc.IH [OF this] show ?case by (subst FormatUint.simps) simp
qed (subst FormatUint.simps, simp)

lemma length_FormatUint_word: "length (FormatUint (unat (n :: 64 word))) \<le> 20"
proof -
  have "unat n < 2 ^ 64" using unsigned_less [of n] by simp
  then have "unat n < 10 ^ Suc 19" by simp
  then show ?thesis using length_FormatUint [of "unat n" 19] by simp
qed

lemma snapshotName_shape:
  obtains name where "snd (marshalStateSnapshot st) = ''states/'' @ name"
    "list_all plain_char name" "length name = 96" "hd name \<noteq> CHR ''.''"
proof -
  define name where "name = pad20 (unat (Generation st)) @ ''-state-'' @
    EncodeToString (Sum256 (marshal (stateJson st))) @ ''.json''"
  have digit: "is_digit c \<Longrightarrow> plain_char c" for c by (simp add: plain_char_def is_alnum_def)
  have hex: "lower_hex_char c \<Longrightarrow> plain_char c" for c
    by (simp only: plain_char_def is_alnum_def is_digit_def lower_hex_char_def set_simps insert_iff empty_iff)
      (elim disjE FalseE; simp)
  have pad: "list_all is_digit (pad20 n)" for n
    using FormatUint_digits [of n] by (auto simp: pad20_def list_all_iff is_digit_def)
  have "length (pad20 (unat (Generation st))) = 20"
    using length_FormatUint_word [of "Generation st"] by (simp add: pad20_def)
  then have len: "length name = 96" by (simp add: name_def)
  have "pad20 n \<noteq> []" for n by (simp add: pad20_def)
  then have "is_digit (hd name)" using pad [of "unat (Generation st)"]
    by (simp add: name_def hd_append list_all_iff)
  then have "hd name \<noteq> CHR ''.''" by (auto simp: is_digit_def)
  moreover have "list_all plain_char ''-state-''" "list_all plain_char ''.json''"
    by (simp_all add: plain_char_def is_alnum_def is_digit_def)
  then have "list_all plain_char name"
    using list.pred_mono_strong [OF pad [of "unat (Generation st)"]] digit hex EncodeToString_chars
    unfolding name_def list_all_append by (simp only: list_all_iff) blast
  ultimately show thesis using that [of name] len
    by (simp add: marshalStateSnapshot_def Let_def name_def)
qed

lemma ValidString_plain: "list_all plain_char s \<Longrightarrow> ValidString s"
  by (rule ValidString_ascii) (auto simp: ascii_def list_all_iff plain_char_facts(4))

lemma snapshotName_facts:
  assumes "repositoryIDPattern i"
  shows "repositoryKey i (snd (marshalStateSnapshot st)) = Inr (''repos/'' @ i @ ''/'' @ snd (marshalStateSnapshot st))"
    and "ValidString (snd (marshalStateSnapshot st))"
proof -
  obtain name where name: "snd (marshalStateSnapshot st) = ''states/'' @ name"
    "list_all plain_char name" "length name = 96" "hd name \<noteq> CHR ''.''"
    by (rule snapshotName_shape)
  have pl: "\<forall>c \<in> set name. plain_char c" using name(2) by (simp add: list_all_iff)
  have "canonical_part name" using name(3,4) by (auto simp: canonical_part_def)
  moreover have ns: "CHR ''/'' \<notin> set name" using pl plain_char_facts(1) by blast
  then have "Split CHR ''/'' (''states/'' @ name) = [''states'', name]"
    using Split_append_sep [of "CHR ''/''" "''states''" name] by simp
  moreover have "CHR 0x5C \<notin> set (''states/'' @ name)" using pl plain_char_facts(2) by auto
  moreover have "\<forall>c \<in> set ''states/''. \<not> ascii_control c" by (simp add: ascii_control_def)
  then have "\<forall>c \<in> set (''states/'' @ name). \<not> ascii_control c"
    using pl plain_char_facts(3) unfolding set_append by blast
  moreover have "ascii ''states/''" by (simp add: ascii_def)
  then have v: "ValidString (''states/'' @ name)"
    using ValidString_plain [OF name(2)] by (simp only: ValidString_ascii_append)
  ultimately show "repositoryKey i (snd (marshalStateSnapshot st)) = Inr (''repos/'' @ i @ ''/'' @ snd (marshalStateSnapshot st))"
    unfolding repositoryKey_iff name(1) using assms repositoryID_plain [OF assms] name(3)
    by (simp add: canonical_part_def)
  show "ValidString (snd (marshalStateSnapshot st))" using v by (simp only: name(1))
qed

section \<open>Encoding\<close>

lemma decodeEnvelope_marshal:
  assumes "ValidString (Snapshot env)" and "ValidString (DefaultBranch (State env))"
    and "ValidString (RefsSnapshot (State env))" and "ValidString (PackManifest (State env))"
    and "is_int64 (EnvelopeSchema env)" and "is_int64 (SchemaVersion (State env))"
  shows "decodeEnvelope (marshal (envelopeJson env)) = Some env"
proof -
  have names: "list_all ValidString [''schema_version'', ''snapshot'', ''state'', ''generation'', ''default_branch'',
      ''refs_snapshot'', ''pack_manifest'']"
    by (simp add: ValidString_ascii ascii_def)
  have "json_wf (envelopeJson env)"
    using assms names by (simp add: envelopeJson_def stateJson_def del: json_wf.simps(1))
  from decode_print [OF this] show ?thesis
    using assms(5,6) unsigned_less [of "Generation (State env)", where ?'a = nat]
    by (simp add: decodeEnvelope_def marshal_def)
      (simp add: envelopeJson_def stateJson_def field_simps_json envelopeFields_def stateFields_def zeroState_def)
qed

end
