(* ===== verification/Publication.thy ===== *)
theory Publication
  imports RepositoryStore
begin

text \<open>
  The publication protocol of \<^verbatim>\<open>internal/storage/repository.go\<close> verified against the object store
  contract: what \<^verbatim>\<open>CompareAndSwapState\<close> guarantees when it succeeds and when it is refused, and the
  history of a repository under any interleaving of concurrent publishers.
\<close>

section \<open>The publication protocol over any object store\<close>

text \<open>The keys and bytes that a publication writes.\<close>

definition stateKey :: "string \<Rightarrow> string" where
  "stateKey i = ''repos/'' @ i @ ''/state''"

definition snapshotKey :: "string \<Rightarrow> RepositoryState \<Rightarrow> string" where
  "snapshotKey i st = ''repos/'' @ i @ ''/'' @ snd (marshalStateSnapshot st)"

definition referenceKey :: "string \<Rightarrow> string \<Rightarrow> string" where
  "referenceKey i ref = ''repos/'' @ i @ ''/'' @ ref"

definition envelopeOf :: "RepositoryState \<Rightarrow> bytes" where
  "envelopeOf st = marshal (envelopeJson
     \<lparr>EnvelopeSchema = repositoryStateSchema, Snapshot = snd (marshalStateSnapshot st), State = st\<rparr>)"

lemma validateState_facts:
  assumes "validateState i st = None"
  shows "repositoryIDPattern i" "SchemaVersion st = 1" "Generation st \<noteq> 0"
    "ValidString (DefaultBranch st)" "ValidString (RefsSnapshot st)" "ValidString (PackManifest st)"
    "HasPrefix (RefsSnapshot st) ''states/''" "HasPrefix (PackManifest st) ''states/''"
    "repositoryKey i (RefsSnapshot st) = Inr (referenceKey i (RefsSnapshot st))"
    "repositoryKey i (PackManifest st) = Inr (referenceKey i (PackManifest st))"
  using assms
  by (simp_all add: validateState_def validReference_def validGitRefName_def repositoryStateSchema_def
      repositoryKey_iff referenceKey_def split: if_splits)

lemma stateKey_distinct:
  "HasPrefix ref ''states/'' \<Longrightarrow> referenceKey i ref \<noteq> stateKey i" "snapshotKey i st \<noteq> stateKey i"
  by (auto simp: prefix_def referenceKey_def stateKey_def snapshotKey_def marshalStateSnapshot_def Let_def)

lemma repositoryKey_stateKey: "repositoryIDPattern i \<Longrightarrow> repositoryKey i ''state'' = Inr (stateKey i)"
  by (simp add: repositoryKey_state stateKey_def)

lemma repositoryKey_snapshotKey:
  "repositoryIDPattern i \<Longrightarrow> repositoryKey i (snd (marshalStateSnapshot st)) = Inr (snapshotKey i st)"
  by (simp add: snapshotName_facts(1) snapshotKey_def)

lemma repositoryKey_valid: "repositoryKey i rel = Inr key \<Longrightarrow> validateKey key = None"
  by (auto simp: repositoryKey_def Let_def split: if_splits option.splits)

lemma decodeEnvelope_envelopeOf:
  assumes "validateState i st = None"
  shows "decodeEnvelope (envelopeOf st) =
    Some \<lparr>EnvelopeSchema = repositoryStateSchema, Snapshot = snd (marshalStateSnapshot st), State = st\<rparr>"
  unfolding envelopeOf_def
  by (rule decodeEnvelope_marshal)
    (simp_all add: validateState_facts [OF assms] snapshotName_facts(2) [OF validateState_facts(1) [OF assms]]
      repositoryStateSchema_def is_int64_def MaxInt64_def)

text \<open>The sequence of checks and writes, with the keys in place.\<close>

lemma CompareAndSwapState_steps:
  "CompareAndSwapState ops ctx i expected st s =
     (let nxt = withSchema st in
      case validateState i nxt of Some e \<Rightarrow> (Some e, s) | None \<Rightarrow>
      if length (envelopeOf nxt) > maxRepositoryStateBytes then (Some (ErrMsg ''repository state exceeds 1 MiB''), s)
      else (case validateTransition ops ctx i expected (Generation nxt) s of Some e \<Rightarrow> (Some e, s) | None \<Rightarrow>
      (case requireDurableReferences ops ctx i nxt s of Some e \<Rightarrow> (Some e, s) | None \<Rightarrow>
      (case storeSnapshot ops ctx (snapshotKey i nxt) (marshal (stateJson nxt)) s of
         (Some e, s) \<Rightarrow> (Some e, s)
       | (None, s) \<Rightarrow> publish ops ctx (stateKey i) expected (envelopeOf nxt) s))))"
proof (cases "validateState i (withSchema st)")
  case None
  then have "repositoryIDPattern i" by (rule validateState_facts)
  note keys = repositoryKey_stateKey [OF this] repositoryKey_snapshotKey [OF this]
  have m: "marshalStateSnapshot x = (marshal (stateJson x), snd (marshalStateSnapshot x))" for x
    by (simp add: marshalStateSnapshot_def Let_def)
  show ?thesis
    unfolding CompareAndSwapState_def Let_def
    by (subst m) (simp only: prod.case keys sum.case None option.case envelopeOf_def)
qed (simp add: CompareAndSwapState_def)

lemma length_snapshotName: "length (snd (marshalStateSnapshot st)) = 103"
proof -
  obtain name where "snd (marshalStateSnapshot st) = ''states/'' @ name" "length name = 96"
    by (rule snapshotName_shape) 
  then show ?thesis by simp
qed

text \<open>A publication point is small: the limit of one mebibyte can only be hit by huge names.\<close>

lemma length_envelopeOf:
  assumes "SchemaVersion st = 1"
  shows "length (envelopeOf st) \<le> 2000 + 6 * (length (DefaultBranch st) + length (RefsSnapshot st) + length (PackManifest st))"
proof -
  have "FormatInt 1 = FormatUint 1" by (simp add: FormatInt_def)
  then have one: "length (FormatInt 1) \<le> 20" using length_FormatUint [of 1 0] by simp
  show ?thesis
    using assms one length_FormatUint_word [of "Generation st"] length_snapshotName [of st]
      length_quote [of "DefaultBranch st"] length_quote [of "RefsSnapshot st"] length_quote [of "PackManifest st"]
      length_quote [of "snd (marshalStateSnapshot st)"]
      length_quote [of "''schema_version''"] length_quote [of "''generation''"] length_quote [of "''default_branch''"]
      length_quote [of "''refs_snapshot''"] length_quote [of "''pack_manifest''"] length_quote [of "''snapshot''"]
      length_quote [of "''state''"]
    by (simp add: envelopeOf_def marshal_def envelopeJson_def stateJson_def repositoryStateSchema_def)
qed

lemma CompareAndSwapState_None:
  assumes "CompareAndSwapState ops ctx i expected st s = (None, s')"
  obtains s1 where "validateState i (withSchema st) = None"
    "length (envelopeOf (withSchema st)) \<le> maxRepositoryStateBytes"
    "validateTransition ops ctx i expected (Generation (withSchema st)) s = None"
    "requireDurableReferences ops ctx i (withSchema st) s = None"
    "storeSnapshot ops ctx (snapshotKey i (withSchema st)) (marshal (stateJson (withSchema st))) s = (None, s1)"
    "publish ops ctx (stateKey i) expected (envelopeOf (withSchema st)) s1 = (None, s')"
  using assms by (auto simp: CompareAndSwapState_steps Let_def split: option.splits prod.splits if_splits)

lemma requireDurableReferences_None:
  assumes "requireDurableReferences ops ctx i st s = None" and "validateState i st = None"
  shows "\<exists>info. os_Head ops ctx (referenceKey i (RefsSnapshot st)) s = Inr info"
    and "\<exists>info. os_Head ops ctx (referenceKey i (PackManifest st)) s = Inr info"
  using assms(1) by (auto simp: requireDurableReferences_def validateState_facts [OF assms(2)] split: sum.splits)

context object_store
begin

lemma verifyImmutable_None:
  assumes "inv s" and "verifyImmutable ops ctx key b s = None"
  shows "\<exists>v. contents s key = Some (b, v)"
proof -
  obtain body info where get: "os_Get ops ctx key s = Inr (body, info)" "take (length b + 1) body = b"
    using assms(2) by (auto simp: verifyImmutable_def split: sum.splits if_splits)
  have "length (take (length b + 1) body) = length b" using get(2) by simp
  then have "length body \<le> length b" by (simp add: min_def split: if_splits)
  then have "body = b" using get(2) by simp
  then show ?thesis using get_ok [OF assms(1) get(1)] by blast
qed

lemma storeSnapshot_ok:
  assumes "inv s" and "room (Suc n) s" and "storeSnapshot ops ctx key b s = (e, s')"
  shows "inv s' \<and> room n s' \<and> seen s \<subseteq> seen s' \<and> (\<forall>k x. contents s k = Some x \<longrightarrow> contents s' k = Some x) \<and>
    (\<forall>k. k \<noteq> key \<longrightarrow> contents s' k = contents s k) \<and> (e = None \<longrightarrow> (\<exists>v. contents s' key = Some (b, v)))"
proof (cases "put_bytes ops ctx key b if_absent s")
  case (Pair r s1)
  show ?thesis
  proof (cases r)
    case (Inr info)
    note ok = put_ok [OF assms(1,2) Pair [unfolded Inr]]
    have "e = None" "s' = s1" using assms(3) Pair Inr by (simp_all add: storeSnapshot_def)
    then show ?thesis
      using ok put_if_absent_keeps [OF assms(1,2) Pair] by auto
  next
    case (Inl x)
    then have "s1 = s" using Pair put_error by blast
    then have s': "s' = s" using assms(3) Pair Inl by (simp add: storeSnapshot_def split: if_splits)
    have "\<exists>v. contents s key = Some (b, v)" if "e = None"
      using that assms(3) Pair Inl \<open>s1 = s\<close> verifyImmutable_None [OF assms(1)]
      by (auto simp: storeSnapshot_def split: if_splits)
    then show ?thesis using s' assms(1) room_less [OF assms(2)] by auto
  qed
qed

lemma publish_ok:
  assumes "inv s" and "room (Suc n) s" and "publish ops ctx key expected b s = (None, s')"
  obtains v where "inv s'" "room n s'" "contents s' = (contents s)(key \<mapsto> (b, v))" "v \<notin> seen s"
    "seen s' = insert v (seen s)"
    "if expected = [] then contents s key = None else \<exists>c. contents s key = Some (c, expected)"
proof -
  from assms(3) obtain info where
    put: "put_bytes ops ctx key b \<lparr>IfMatch = expected, IfNoneMatch = (expected = [])\<rparr> s = (Inr info, s')"
    by (auto simp: publish_def split: prod.splits sum.splits if_splits)
  from put_ok [OF assms(1,2) put] show thesis
    by (intro that [of "InfoVersion info"]) (auto simp: put_allowed_def)
qed

lemma publish_error: "publish ops ctx key expected b s = (Some e, s') \<Longrightarrow> s' = s"
  by (auto simp: publish_def split: prod.splits sum.splits if_splits dest: put_error)

lemma LoadState_stored:
  assumes "inv s" and "contents s (stateKey i) = Some (envelopeOf st, v)" and "validateState i st = None"
    and "length (envelopeOf st) \<le> maxRepositoryStateBytes"
  shows "LoadState ops Background i s = Inr (st, v)"
proof -
  obtain info where "os_Get ops Background (stateKey i) s = Inr (envelopeOf st, info)" "InfoVersion info = v"
    using get_live [OF assms(1,2)] by blast
  then show ?thesis
    using assms(3,4) version_seen [OF assms(1,2)] repositoryKey_stateKey [OF validateState_facts(1) [OF assms(3)]]
    by (simp add: LoadState_def Let_def decodeEnvelope_envelopeOf [OF assms(3)])
qed

lemma LoadState_version:
  assumes "inv s" and "LoadState ops ctx i s = Inr (st, v)"
  shows "\<exists>b. contents s (stateKey i) = Some (b, v)" and "validateState i st = None"
    and "decodeEnvelope (fst (the (contents s (stateKey i)))) =
      Some \<lparr>EnvelopeSchema = repositoryStateSchema, Snapshot = snd (marshalStateSnapshot st), State = st\<rparr>"
proof -
  from assms(2) obtain key body info env where key: "repositoryKey i ''state'' = Inr key"
    and get: "os_Get ops ctx key s = Inr (body, info)" and len: "length (take (maxRepositoryStateBytes + 1) body) \<le> maxRepositoryStateBytes"
    and dec: "decodeEnvelope (take (maxRepositoryStateBytes + 1) body) = Some env" and env: "EnvelopeSchema env = repositoryStateSchema"
      "validateState i (State env) = None" "Snapshot env = snd (marshalStateSnapshot (State env))"
      "st = State env" "v = InfoVersion info"
    by (auto simp: LoadState_def Let_def split: sum.splits prod.splits if_splits option.splits)
  have "repositoryIDPattern i" using key by (simp add: repositoryKey_iff)
  then have key: "key = stateKey i" using key repositoryKey_stateKey by simp
  then have c: "contents s (stateKey i) = Some (body, v)" using get_ok [OF assms(1)] get env by simp
  then show "\<exists>b. contents s (stateKey i) = Some (b, v)" by blast
  show "validateState i st = None" using env by simp
  have "take (maxRepositoryStateBytes + 1) body = body" using len by (simp add: min_def split: if_splits)
  then show "decodeEnvelope (fst (the (contents s (stateKey i)))) =
      Some \<lparr>EnvelopeSchema = repositoryStateSchema, Snapshot = snd (marshalStateSnapshot st), State = st\<rparr>"
    using dec c env by (cases env) simp
qed

lemma validateTransition_None:
  assumes "validateTransition ops ctx i expected gen s = None"
  shows "if expected = [] then gen = 1
    else \<exists>current. LoadState ops ctx i s = Inr (current, expected) \<and> unat gen = Suc (unat (Generation current))"
proof (cases "expected = []")
  case True
  then show ?thesis using assms by (auto simp: validateTransition_def split: sum.splits if_splits)
next
  case False
  then obtain current where "LoadState ops ctx i s = Inr (current, expected)"
    and max: "Generation current \<noteq> - 1" and gen: "gen = Generation current + 1"
    using assms by (auto simp: validateTransition_def split: sum.splits if_splits)
  moreover have "unat (Generation current + 1) = Suc (unat (Generation current))"
    using max by (metis add.commute add_eq_0_iff unatSuc add.inverse_inverse)
  ultimately show ?thesis using False by auto
qed

text \<open>What a successful publication does, and that a refused one changes no existing object.\<close>

lemma CompareAndSwapState_publishes:
  assumes "inv s" and "room (Suc (Suc n)) s" and "CompareAndSwapState ops ctx i expected st s = (None, s')"
  shows "let nxt = withSchema st in
    inv s' \<and> room n s' \<and>
    (\<exists>v. LoadState ops Background i s' = Inr (nxt, v) \<and> v \<notin> seen s) \<and>
    (if expected = [] then contents s (stateKey i) = None \<and> Generation nxt = 1
     else \<exists>current. LoadState ops ctx i s = Inr (current, expected) \<and>
            unat (Generation nxt) = Suc (unat (Generation current))) \<and>
    (\<forall>ref \<in> {RefsSnapshot nxt, PackManifest nxt}. contents s' (referenceKey i ref) \<noteq> None) \<and>
    map_option fst (contents s' (snapshotKey i nxt)) = Some (marshal (stateJson nxt)) \<and>
    (\<forall>k x. k \<noteq> stateKey i \<longrightarrow> contents s k = Some x \<longrightarrow> contents s' k = Some x) \<and>
    (\<forall>k. k \<notin> {stateKey i, snapshotKey i nxt} \<longrightarrow> contents s' k = contents s k)"
proof -
  define nxt where "nxt = withSchema st"
  from assms(3) obtain s1 where val: "validateState i nxt = None" and len: "length (envelopeOf nxt) \<le> maxRepositoryStateBytes"
    and tr: "validateTransition ops ctx i expected (Generation nxt) s = None"
    and refs: "requireDurableReferences ops ctx i nxt s = None"
    and snap: "storeSnapshot ops ctx (snapshotKey i nxt) (marshal (stateJson nxt)) s = (None, s1)"
    and pub: "publish ops ctx (stateKey i) expected (envelopeOf nxt) s1 = (None, s')"
    unfolding nxt_def by (rule CompareAndSwapState_None)
  note s1 = storeSnapshot_ok [OF assms(1,2) snap]
  have inv1: "inv s1" "room (Suc n) s1" using s1 by simp_all
  from publish_ok [OF inv1 pub]
  obtain v where v: "inv s'" "room n s'" "contents s' = (contents s1)(stateKey i \<mapsto> (envelopeOf nxt, v))" "v \<notin> seen s1"
    and pre: "if expected = [] then contents s1 (stateKey i) = None else \<exists>c. contents s1 (stateKey i) = Some (c, expected)"
    by metis
  have "contents s1 (stateKey i) = contents s (stateKey i)" using s1 stateKey_distinct(2) by metis
  then have created: "expected = [] \<Longrightarrow> contents s (stateKey i) = None" using pre by simp
  have "LoadState ops Background i s' = Inr (nxt, v)"
    using LoadState_stored [OF v(1) _ val len] v(3) by simp
  moreover have "v \<notin> seen s" using v(4) s1 by blast
  moreover have "contents s' (referenceKey i ref) \<noteq> None" if "ref \<in> {RefsSnapshot nxt, PackManifest nxt}" for ref
  proof -
    have "contents s (referenceKey i ref) \<noteq> None"
      using that requireDurableReferences_None [OF refs val] head_ok [OF assms(1)] by fastforce
    then have "contents s1 (referenceKey i ref) \<noteq> None" using s1 by fastforce
    moreover have "referenceKey i ref \<noteq> stateKey i"
      using that validateState_facts(7,8) [OF val] stateKey_distinct(1) by blast
    ultimately show ?thesis by (simp add: v(3))
  qed
  moreover have "map_option fst (contents s' (snapshotKey i nxt)) = Some (marshal (stateJson nxt))"
    using s1 by (auto simp: v(3) stateKey_distinct(2))
  moreover have "if expected = [] then contents s (stateKey i) = None \<and> Generation nxt = 1
     else \<exists>current. LoadState ops ctx i s = Inr (current, expected) \<and>
            unat (Generation nxt) = Suc (unat (Generation current))"
    using created validateTransition_None [OF tr] by (simp split: if_splits)
  moreover have "contents s' k = Some x" if "k \<noteq> stateKey i" "contents s k = Some x" for k x
    using that s1 by (cases x) (simp add: v(3))
  moreover have "contents s' k = contents s k" if "k \<notin> {stateKey i, snapshotKey i nxt}" for k
    using that s1 by (simp add: v(3))
  ultimately show ?thesis
    using v(1,2) unfolding nxt_def [symmetric] Let_def by blast
qed

lemma CompareAndSwapState_refused:
  assumes "inv s" and "room (Suc n) s" and "CompareAndSwapState ops ctx i expected st s = (Some e, s')"
  shows "inv s' \<and> room n s' \<and> (\<forall>k x. contents s k = Some x \<longrightarrow> contents s' k = Some x) \<and>
    (\<forall>k. k \<noteq> snapshotKey i (withSchema st) \<longrightarrow> contents s' k = contents s k)"
proof -
  have "s' = s \<or> (\<exists>r. storeSnapshot ops ctx (snapshotKey i (withSchema st)) (marshal (stateJson (withSchema st))) s = (r, s'))"
    using assms(3)
    by (auto simp: CompareAndSwapState_steps Let_def split: option.splits prod.splits if_splits dest: publish_error)
  then show ?thesis
    using assms(1) room_less [OF assms(2)] storeSnapshot_ok [OF assms(1,2)] by blast
qed

lemma LoadState_missing:
  assumes "inv s" and "LoadState ops ctx i s = Inl e" and "errors_Is e ErrNotFound"
  shows "contents s (stateKey i) = None"
proof (cases "repositoryKey i ''state''")
  case (Inr key)
  then have key: "key = stateKey i" by (simp add: repositoryKey_iff stateKey_def)
  have msg: "\<not> errors_Is e' ErrNotFound" if "validateState i st = Some e'" for e' st
    using that by (auto simp: validateState_def split: if_splits)
  have "os_Get ops ctx (stateKey i) s = Inl e"
    using assms(2,3) Inr key msg by (auto simp: LoadState_def Let_def split: sum.splits prod.splits if_splits option.splits)
  then show ?thesis using get_missing [OF assms(1)] assms(3) by blast
next
  case (Inl e')
  then have "\<not> errors_Is e' ErrNotFound"
    by (auto simp: repositoryKey_def Let_def dest: validateKey_ErrInvalidKey split: if_splits option.splits)
  with assms(2,3) Inl show ?thesis by (simp add: LoadState_def)
qed

lemma CompareAndSwapState_second_refused:
  assumes "inv s" and "room (Suc (Suc n)) s" and "CompareAndSwapState ops ctx i expected st s = (None, s')"
  shows "\<exists>e. CompareAndSwapState ops ctx' i expected st' s' = (Some e, s')"
proof -
  note pub = CompareAndSwapState_publishes [OF assms, unfolded Let_def]
  obtain v where load: "LoadState ops Background i s' = Inr (withSchema st, v)" and fresh: "v \<notin> seen s" and inv': "inv s'"
    using pub by blast
  obtain b where b: "contents s' (stateKey i) = Some (b, v)"
    using LoadState_version(1) [OF inv' load] by blast
  have "validateTransition ops ctx' i expected gen s' \<noteq> None" for gen
  proof
    assume tr: "validateTransition ops ctx' i expected gen s' = None"
    show False
    proof (cases "expected = []")
      case True
      then obtain e where "LoadState ops ctx' i s' = Inl e" "errors_Is e ErrNotFound"
        using tr by (auto simp: validateTransition_def split: sum.splits if_splits)
      then show False using LoadState_missing [OF inv'] b by simp
    next
      case False
      then obtain cur where "LoadState ops ctx' i s' = Inr (cur, expected)"
        using validateTransition_None [OF tr] by auto
      then have "v = expected" using LoadState_version(1) [OF inv'] b by fastforce
      moreover obtain cur0 where "LoadState ops ctx i s = Inr (cur0, expected)"
        using pub False by auto
      then obtain c where "contents s (stateKey i) = Some (c, expected)"
        using LoadState_version(1) [OF assms(1)] by blast
      ultimately show False using fresh version_seen [OF assms(1)] by blast
    qed
  qed
  then obtain e where "validateTransition ops ctx' i expected (Generation (withSchema st')) s' = Some e" by blast
  then show ?thesis by (auto simp: CompareAndSwapState_steps Let_def split: option.splits)
qed

lemma storeSnapshot_live:
  assumes "inv s" and "validateKey key = None" and "\<forall>c v. contents s key = Some (c, v) \<longrightarrow> c = b"
  shows "\<exists>s'. storeSnapshot ops Background key b s = (None, s')"
proof (cases "contents s key")
  case None
  then obtain info s' where "put_bytes ops Background key b if_absent s = (Inr info, s')"
    using put_live [OF assms(1,2), of if_absent b] by (auto simp: put_allowed_def)
  then show ?thesis by (simp add: storeSnapshot_def)
next
  case (Some x)
  then obtain v where c: "contents s key = Some (b, v)" using assms(3) by (cases x) auto
  then have "put_bytes ops Background key b if_absent s = (Inl ErrAlreadyExists, s)"
    using put_conflict [OF assms(1)] by simp
  moreover obtain info where "os_Get ops Background key s = Inr (b, info)"
    using get_live [OF assms(1) c] by blast
  ultimately show ?thesis by (simp add: storeSnapshot_def verifyImmutable_def)
qed

lemma CompareAndSwapState_live:
  assumes "inv s" and "room (Suc (Suc n)) s" and "validateState i (withSchema st) = None"
    and "length (envelopeOf (withSchema st)) \<le> maxRepositoryStateBytes"
    and "if expected = [] then contents s (stateKey i) = None \<and> Generation (withSchema st) = 1
      else \<exists>current. LoadState ops Background i s = Inr (current, expected) \<and>
             unat (Generation (withSchema st)) = Suc (unat (Generation current))"
    and "\<forall>ref \<in> {RefsSnapshot st, PackManifest st}. contents s (referenceKey i ref) \<noteq> None"
    and "\<forall>b v. contents s (snapshotKey i (withSchema st)) = Some (b, v) \<longrightarrow> b = marshal (stateJson (withSchema st))"
  shows "\<exists>s'. CompareAndSwapState ops Background i expected st s = (None, s')"
proof -
  define nxt where "nxt = withSchema st"
  have ref: "RefsSnapshot st = RefsSnapshot nxt" "PackManifest st = PackManifest nxt"
    by (simp_all add: nxt_def withSchema_def)
  note val = assms(3) [folded nxt_def]
  note iD = validateState_facts(1) [OF val]
  note vk = repositoryKey_valid [OF repositoryKey_stateKey [OF iD]] repositoryKey_valid [OF repositoryKey_snapshotKey [OF iD]]
  have tr: "validateTransition ops Background i expected (Generation nxt) s = None"
  proof (cases "expected = []")
    case True
    then have "os_Get ops Background (stateKey i) s = Inl ErrNotFound"
      using assms(5) get_none [OF assms(1) vk(1)] by simp
    then show ?thesis using True assms(5) repositoryKey_stateKey [OF iD]
      by (simp add: validateTransition_def LoadState_def nxt_def [symmetric])
  next
    case False
    then obtain current where cur: "LoadState ops Background i s = Inr (current, expected)"
      "unat (Generation nxt) = Suc (unat (Generation current))"
      using assms(5) by (auto simp: nxt_def)
    then have "Generation nxt = Generation current + 1"
      by (intro unat_SucD)
    moreover have "Generation current \<noteq> - 1"
    proof
      assume "Generation current = - 1"
      then have "Generation nxt = 0" using \<open>Generation nxt = Generation current + 1\<close> by simp
      then show False using cur(2) by simp
    qed
    ultimately show ?thesis using False cur by (simp add: validateTransition_def)
  qed
  have head: "\<exists>info. os_Head ops Background (referenceKey i ref) s = Inr info" if "ref \<in> {RefsSnapshot nxt, PackManifest nxt}" for ref
    using that assms(6) head_live [OF assms(1)] unfolding ref by fastforce
  have refs: "requireDurableReferences ops Background i nxt s = None"
    using head [of "RefsSnapshot nxt"] head [of "PackManifest nxt"] validateState_facts(9,10) [OF val]
    by (auto simp: requireDurableReferences_def)
  obtain s1 where snap: "storeSnapshot ops Background (snapshotKey i nxt) (marshal (stateJson nxt)) s = (None, s1)"
    using storeSnapshot_live [OF assms(1) vk(2)] assms(7) unfolding nxt_def [symmetric] by blast
  note s1 = storeSnapshot_ok [OF assms(1,2) snap]
  have same: "contents s1 (stateKey i) = contents s (stateKey i)" using s1 stateKey_distinct(2) by metis
  have "put_allowed \<lparr>IfMatch = expected, IfNoneMatch = (expected = [])\<rparr> (contents s1 (stateKey i))"
    using assms(5) LoadState_version(1) [OF assms(1)] unfolding same
    by (fastforce simp: put_allowed_def split: if_splits)
  then obtain info s' where "put_bytes ops Background (stateKey i) (envelopeOf nxt)
      \<lparr>IfMatch = expected, IfNoneMatch = (expected = [])\<rparr> s1 = (Inr info, s')"
    using put_live [OF _ vk(1), of s1 "\<lparr>IfMatch = expected, IfNoneMatch = (expected = [])\<rparr>"
      "envelopeOf nxt"] s1 by auto
  then show ?thesis using val assms(4) tr refs snap
    by (auto simp: CompareAndSwapState_steps Let_def publish_def nxt_def [symmetric])
qed
end

section \<open>A repository to publish\<close>

text \<open>A store that holds the artifacts of a first state, for the witnesses below.\<close>

definition demoState :: RepositoryState where
  "demoState = \<lparr>SchemaVersion = 0, Generation = 1, DefaultBranch = ''refs/heads/main'',
     RefsSnapshot = ''states/refs'', PackManifest = ''states/packs''\<rparr>"

definition demoStore :: MemoryStore where
  "demoStore = filledStore [(''repos/r/states/refs'', []), (''repos/r/states/packs'', [])]"

lemma demo_valid: "validateState ''r'' (withSchema demoState) = None"
  by code_simp

lemma demo_wf: "store_wf demoStore" and demo_room2: "has_room (Suc (Suc 0)) demoStore"
  using filledStore_ok [of "[(''repos/r/states/refs'', []), (''repos/r/states/packs'', [])]" "Suc (Suc 0)"]
  by (simp_all add: demoStore_def)

lemma demo_keys: "map fst (objects demoStore) = [''repos/r/states/refs'', ''repos/r/states/packs'']"
  by code_simp

lemma demo_contents: "contents demoStore key \<noteq> None \<longleftrightarrow> key \<in> {''repos/r/states/refs'', ''repos/r/states/packs''}"
proof -
  have "contents demoStore key \<noteq> None \<longleftrightarrow> key \<in> set (map fst (objects demoStore))"
    by (simp add: contents_def map_of_eq_None_iff)
  then show ?thesis by (simp add: demo_keys)
qed

lemma demo_small: "length (envelopeOf (withSchema demoState)) \<le> maxRepositoryStateBytes"
  using length_envelopeOf [OF validateState_facts(2) [OF demo_valid]]
  by (simp add: demoState_def withSchema_def repositoryStateSchema_def maxRepositoryStateBytes_def)

lemma demo_first:
  "if [] = [] then contents demoStore (stateKey ''r'') = None \<and> Generation (withSchema demoState) = 1
   else \<exists>current. LoadState memoryOps Background ''r'' demoStore = Inr (current, []) \<and>
     unat (Generation (withSchema demoState)) = Suc (unat (Generation current))"
proof -
  have "Generation (withSchema demoState) = 1" by (simp add: demoState_def withSchema_def)
  moreover have "contents demoStore (stateKey ''r'') = None" using demo_contents [of "stateKey ''r''"] by (simp add: stateKey_def del: not_None_eq)
  ultimately show ?thesis by simp
qed

lemma demo_refs:
  "\<forall>ref \<in> {RefsSnapshot demoState, PackManifest demoState}. contents demoStore (referenceKey ''r'' ref) \<noteq> None"
  by (simp add: demo_contents demoState_def referenceKey_def del: not_None_eq)

lemma demo_no_snapshot:
  "\<forall>b v. contents demoStore (snapshotKey ''r'' (withSchema demoState)) = Some (b, v) \<longrightarrow>
     b = marshal (stateJson (withSchema demoState))"
proof -
  have "length (snapshotKey ''r'' (withSchema demoState)) > 100"
    using length_snapshotName [of "withSchema demoState"] by (simp add: snapshotKey_def)
  then have "contents demoStore (snapshotKey ''r'' (withSchema demoState)) = None"
    using demo_contents [of "snapshotKey ''r'' (withSchema demoState)"] by (auto simp del: not_None_eq)
  then show ?thesis by simp
qed

lemma demo_live: "\<exists>s'. CompareAndSwapState memoryOps Background ''r'' [] demoState demoStore = (None, s')"
  by (rule memory.CompareAndSwapState_live [OF demo_wf demo_room2 demo_valid demo_small demo_first demo_refs demo_no_snapshot])

section \<open>The properties of the in-memory deployment\<close>

text \<open>
  C3. A successful compare-and-swap makes the new state (with its schema filled in) the one every later
  load returns, under a version that was never handed out before; it advances the generation by exactly
  one from the state that had the expected version, or creates generation one where there was no
  state; the artifacts the state refers to and its immutable snapshot are in the store; and no object
  other than the state object is replaced and none but the snapshot is added.
\<close>

theorem CompareAndSwapState_published:
  assumes "store_wf s" and "has_room (Suc (Suc n)) s"
    and "CompareAndSwapState memoryOps ctx i expected st s = (None, s')"
  shows "let nxt = withSchema st in
    store_wf s' \<and> has_room n s' \<and>
    (\<exists>v. LoadState memoryOps Background i s' = Inr (nxt, v) \<and> \<not> issued s v) \<and>
    (if expected = [] then contents s (stateKey i) = None \<and> Generation nxt = 1
     else \<exists>current. LoadState memoryOps ctx i s = Inr (current, expected) \<and>
            unat (Generation nxt) = Suc (unat (Generation current))) \<and>
    (\<forall>ref \<in> {RefsSnapshot nxt, PackManifest nxt}. contents s' (referenceKey i ref) \<noteq> None) \<and>
    map_option fst (contents s' (snapshotKey i nxt)) = Some (marshal (stateJson nxt)) \<and>
    (\<forall>k x. k \<noteq> stateKey i \<longrightarrow> contents s k = Some x \<longrightarrow> contents s' k = Some x) \<and>
    (\<forall>k. k \<notin> {stateKey i, snapshotKey i nxt} \<longrightarrow> contents s' k = contents s k)"
  using memory.CompareAndSwapState_publishes [OF assms] by (simp only: mem_Collect_eq)

theorem CompareAndSwapState_published_witness:
  "\<exists>s'. CompareAndSwapState memoryOps Background ''r'' [] demoState demoStore = (None, s') \<and>
     (\<exists>v. LoadState memoryOps Background ''r'' s' = Inr (withSchema demoState, v)) \<and>
     contents s' (referenceKey ''r'' ''states/refs'') \<noteq> None"
proof -
  obtain s' where cas: "CompareAndSwapState memoryOps Background ''r'' [] demoState demoStore = (None, s')"
    using demo_live by blast
  from CompareAndSwapState_published [OF demo_wf demo_room2 cas] show ?thesis
    using cas by (auto simp: Let_def demoState_def withSchema_def)
qed

text \<open>
  C5. A compare-and-swap that returns an error leaves every existing object, the state object among them,
  as it was; the only object it may have added is its own immutable snapshot.
\<close>

theorem CompareAndSwapState_error_keeps:
  assumes "store_wf s" and "has_room (Suc n) s"
    and "CompareAndSwapState memoryOps ctx i expected st s = (Some e, s')"
  shows "store_wf s' \<and> has_room n s' \<and> (\<forall>k x. contents s k = Some x \<longrightarrow> contents s' k = Some x) \<and>
    (\<forall>k. k \<noteq> snapshotKey i (withSchema st) \<longrightarrow> contents s' k = contents s k)"
  using memory.CompareAndSwapState_refused [OF assms] .

theorem CompareAndSwapState_error_keeps_witness:
  "\<exists>e s'. CompareAndSwapState memoryOps Background ''r'' [] demoState (NewMemoryStore 0) = (Some e, s') \<and>
     contents s' (stateKey ''r'') = contents (NewMemoryStore 0) (stateKey ''r'')"
proof -
  have room: "has_room (Suc 1) (NewMemoryStore 0)" by (simp add: has_room_def NewMemoryStore_def)
  obtain r s' where cas: "CompareAndSwapState memoryOps Background ''r'' [] demoState (NewMemoryStore 0) = (r, s')"
    by force
  have "r \<noteq> None"
  proof
    assume "r = None"
    with cas have "requireDurableReferences memoryOps Background ''r'' (withSchema demoState) (NewMemoryStore 0) = None"
      using CompareAndSwapState_None by metis
    then show False by code_simp
  qed
  then obtain e where "r = Some e" by blast
  with CompareAndSwapState_error_keeps [OF store_wf_New room] cas show ?thesis
    using stateKey_distinct(2) [of "''r''" "withSchema demoState"] by metis
qed

text \<open>
  C6. A valid next state is published: when the expected version is current, the generation is the
  next one, the referenced artifacts exist and no different object occupies the snapshot's key,
  \<open>CompareAndSwapState\<close> succeeds, also when an earlier attempt already stored the snapshot.
\<close>

theorem CompareAndSwapState_succeeds:
  assumes "store_wf s" and "has_room (Suc (Suc n)) s" and "validateState i (withSchema st) = None"
    and "length (envelopeOf (withSchema st)) \<le> maxRepositoryStateBytes"
    and "if expected = [] then contents s (stateKey i) = None \<and> Generation (withSchema st) = 1
      else \<exists>current. LoadState memoryOps Background i s = Inr (current, expected) \<and>
             unat (Generation (withSchema st)) = Suc (unat (Generation current))"
    and "\<forall>ref \<in> {RefsSnapshot st, PackManifest st}. contents s (referenceKey i ref) \<noteq> None"
    and "\<forall>b v. contents s (snapshotKey i (withSchema st)) = Some (b, v) \<longrightarrow> b = marshal (stateJson (withSchema st))"
  shows "\<exists>s'. CompareAndSwapState memoryOps Background i expected st s = (None, s')"
  using memory.CompareAndSwapState_live [OF assms] .

theorem CompareAndSwapState_succeeds_witness:
  "\<exists>s'. CompareAndSwapState memoryOps Background ''r'' [] demoState demoStore = (None, s')"
  by (rule CompareAndSwapState_succeeds [OF demo_wf demo_room2 demo_valid demo_small demo_first demo_refs demo_no_snapshot])

text \<open>
  C4. Of two publishers that expect the same version (or both expect to create the repository), at most
  one succeeds: once one has, the other's call is refused and changes nothing.
\<close>

theorem CompareAndSwapState_once:
  assumes "store_wf s" and "has_room (Suc (Suc n)) s"
    and "CompareAndSwapState memoryOps ctx i expected st s = (None, s')"
  shows "\<exists>e. CompareAndSwapState memoryOps ctx' i expected st' s' = (Some e, s')"
  using memory.CompareAndSwapState_second_refused [OF assms] .

theorem CompareAndSwapState_once_witness:
  "\<exists>s' e. CompareAndSwapState memoryOps Background ''r'' [] demoState demoStore = (None, s') \<and>
     CompareAndSwapState memoryOps Background ''r'' [] demoState s' = (Some e, s')"
  using CompareAndSwapState_once [OF demo_wf demo_room2] demo_live by blast

end
