(* ===== verification/ConcurrentPublication.thy ===== *)
theory ConcurrentPublication
  imports Publication
begin

text \<open>
  Concurrent publishers of one repository: \<^verbatim>\<open>CompareAndSwapState\<close> as a state machine whose steps are its
  calls of the object store, an invariant of all interleavings, and the linear history it implies.
\<close>

section \<open>Concurrent publishers\<close>

text \<open>
  A publisher runs \<^verbatim>\<open>CompareAndSwapState\<close> in the phases between its calls of the object store, each of
  which is atomic; other publishers run in between. \<open>hist\<close> records the published states with their
  versions.
\<close>

datatype phase =
    Idle
  | Requiring Version RepositoryState "string list"
  | Recording Version RepositoryState
  | Verifying Version RepositoryState
  | Publishing Version RepositoryState

record 's world =
  store :: 's
  hist :: "(Version \<times> RepositoryState) list"
  phase_of :: "nat \<Rightarrow> phase"

inductive pub_step :: "'s ObjectStore \<Rightarrow> string \<Rightarrow> 's world \<Rightarrow> 's world \<Rightarrow> bool" for ops i where
  check: "phase_of w c = Idle \<Longrightarrow> validateState i nxt = None \<Longrightarrow> length (envelopeOf nxt) \<le> maxRepositoryStateBytes \<Longrightarrow>
    validateTransition ops ctx i expected (Generation nxt) (store w) = None \<Longrightarrow>
    pub_step ops i w (w\<lparr>phase_of := (phase_of w)(c := Requiring expected nxt [RefsSnapshot nxt, PackManifest nxt])\<rparr>)"
| require: "phase_of w c = Requiring expected nxt (ref # refs) \<Longrightarrow>
    os_Head ops ctx (referenceKey i ref) (store w) = Inr info \<Longrightarrow>
    pub_step ops i w (w\<lparr>phase_of := (phase_of w)(c := Requiring expected nxt refs)\<rparr>)"
| required: "phase_of w c = Requiring expected nxt [] \<Longrightarrow>
    pub_step ops i w (w\<lparr>phase_of := (phase_of w)(c := Recording expected nxt)\<rparr>)"
| record_new: "phase_of w c = Recording expected nxt \<Longrightarrow>
    put_bytes ops ctx (snapshotKey i nxt) (marshal (stateJson nxt)) if_absent (store w) = (Inr info, s') \<Longrightarrow>
    pub_step ops i w (w\<lparr>store := s', phase_of := (phase_of w)(c := Publishing expected nxt)\<rparr>)"
| record_old: "phase_of w c = Recording expected nxt \<Longrightarrow>
    put_bytes ops ctx (snapshotKey i nxt) (marshal (stateJson nxt)) if_absent (store w) = (Inl e, s') \<Longrightarrow>
    errors_Is e ErrAlreadyExists \<Longrightarrow>
    pub_step ops i w (w\<lparr>store := s', phase_of := (phase_of w)(c := Verifying expected nxt)\<rparr>)"
| verify: "phase_of w c = Verifying expected nxt \<Longrightarrow>
    verifyImmutable ops ctx (snapshotKey i nxt) (marshal (stateJson nxt)) (store w) = None \<Longrightarrow>
    pub_step ops i w (w\<lparr>phase_of := (phase_of w)(c := Publishing expected nxt)\<rparr>)"
| publish: "phase_of w c = Publishing expected nxt \<Longrightarrow>
    put_bytes ops ctx (stateKey i) (envelopeOf nxt) \<lparr>IfMatch = expected, IfNoneMatch = (expected = [])\<rparr> (store w) =
      (Inr info, s') \<Longrightarrow>
    pub_step ops i w (w\<lparr>store := s', hist := hist w @ [(InfoVersion info, nxt)], phase_of := (phase_of w)(c := Idle)\<rparr>)"
| give_up: "pub_step ops i w (w\<lparr>phase_of := (phase_of w)(c := Idle)\<rparr>)"
| upload: "put_bytes ops ctx key b if_absent (store w) = (Inr info, s') \<Longrightarrow> key \<noteq> stateKey i \<Longrightarrow>
    pub_step ops i w (w\<lparr>store := s'\<rparr>)"

inductive_cases pub_stepE: "pub_step ops i w w'"

text \<open>The history is linear: consecutive generations, distinct versions, all artifacts durable.\<close>

definition durable :: "('s \<Rightarrow> string \<Rightarrow> (bytes \<times> Version) option) \<Rightarrow> string \<Rightarrow> RepositoryState \<Rightarrow> 's \<Rightarrow> bool" where
  "durable view i st s \<longleftrightarrow>
     view s (referenceKey i (RefsSnapshot st)) \<noteq> None \<and> view s (referenceKey i (PackManifest st)) \<noteq> None"

definition snapped :: "('s \<Rightarrow> string \<Rightarrow> (bytes \<times> Version) option) \<Rightarrow> string \<Rightarrow> RepositoryState \<Rightarrow> 's \<Rightarrow> bool" where
  "snapped view i st s \<longleftrightarrow> map_option fst (view s (snapshotKey i st)) = Some (marshal (stateJson st))"

definition publishable :: "string \<Rightarrow> RepositoryState \<Rightarrow> bool" where
  "publishable i st \<longleftrightarrow> validateState i st = None \<and> length (envelopeOf st) \<le> maxRepositoryStateBytes"

definition follows :: "(Version \<times> RepositoryState) list \<Rightarrow> Version \<Rightarrow> RepositoryState \<Rightarrow> bool" where
  "follows h expected nxt \<longleftrightarrow>
     (if expected = [] then Generation nxt = 1
      else \<exists>current. (expected, current) \<in> set h \<and> unat (Generation nxt) = Suc (unat (Generation current)))"

fun phase_ok :: "('s \<Rightarrow> string \<Rightarrow> (bytes \<times> Version) option) \<Rightarrow> string \<Rightarrow> (Version \<times> RepositoryState) list \<Rightarrow> 's \<Rightarrow> phase \<Rightarrow> bool" where
  "phase_ok view i h s Idle \<longleftrightarrow> True"
| "phase_ok view i h s (Requiring v st refs) \<longleftrightarrow> publishable i st \<and> follows h v st \<and>
     (\<forall>ref \<in> {RefsSnapshot st, PackManifest st} - set refs. view s (referenceKey i ref) \<noteq> None)"
| "phase_ok view i h s (Recording v st) \<longleftrightarrow> publishable i st \<and> follows h v st \<and> durable view i st s"
| "phase_ok view i h s (Verifying v st) \<longleftrightarrow> publishable i st \<and> follows h v st \<and> durable view i st s"
| "phase_ok view i h s (Publishing v st) \<longleftrightarrow>
     publishable i st \<and> follows h v st \<and> durable view i st s \<and> snapped view i st s"

definition history_ok :: "('s \<Rightarrow> string \<Rightarrow> (bytes \<times> Version) option) \<Rightarrow> string \<Rightarrow> (Version \<times> RepositoryState) list \<Rightarrow> 's \<Rightarrow> bool" where
  "history_ok view i h s \<longleftrightarrow>
     map (\<lambda>(v, st). unat (Generation st)) h = [1..<Suc (length h)] \<and> distinct (map fst h) \<and>
     (\<forall>(v, st) \<in> set h. publishable i st \<and> durable view i st s \<and> snapped view i st s) \<and>
     view s (stateKey i) = (if h = [] then None else Some (envelopeOf (snd (last h)), fst (last h)))"

text \<open>What every phase relies on survives a write that replaces nothing but the state object.\<close>

definition grows :: "('s \<Rightarrow> string \<Rightarrow> (bytes \<times> Version) option) \<Rightarrow> string \<Rightarrow> 's \<Rightarrow> 's \<Rightarrow> bool" where
  "grows view i s s' \<longleftrightarrow> (\<forall>k x. k \<noteq> stateKey i \<longrightarrow> view s k = Some x \<longrightarrow> view s' k = Some x)"

lemma grows_refl [simp]: "grows view i s s"
  by (simp add: grows_def)

lemma grows_durable: "grows view i s s' \<Longrightarrow> publishable i st \<Longrightarrow> durable view i st s \<Longrightarrow> durable view i st s'"
  using validateState_facts(7,8) [of i st] stateKey_distinct(1)
  by (fastforce simp: grows_def durable_def publishable_def)

lemma grows_snapped: "grows view i s s' \<Longrightarrow> snapped view i st s \<Longrightarrow> snapped view i st s'"
  using stateKey_distinct(2) [of i st] by (fastforce simp: grows_def snapped_def)

lemma follows_mono: "set h \<subseteq> set h' \<Longrightarrow> follows h v st \<Longrightarrow> follows h' v st"
  by (auto simp: follows_def split: if_splits)

lemma grows_phase_ok:
  assumes "grows view i s s'" and "set h \<subseteq> set h'" and "phase_ok view i h s p"
  shows "phase_ok view i h' s' p"
proof (cases p)
  case (Requiring v st refs)
  have "view s' (referenceKey i ref) \<noteq> None"
    if "ref \<in> {RefsSnapshot st, PackManifest st}" "view s (referenceKey i ref) \<noteq> None" for ref
  proof -
    have "publishable i st" using assms(3) Requiring by simp
    then have "referenceKey i ref \<noteq> stateKey i"
      using that(1) validateState_facts(7,8) [of i st] stateKey_distinct(1) by (auto simp: publishable_def)
    then show ?thesis using that(2) assms(1) by (fastforce simp: grows_def)
  qed
  then show ?thesis using assms(3) follows_mono [OF assms(2)] Requiring by auto
qed (use assms grows_durable grows_snapped follows_mono in auto)

definition world_ok :: "('s \<Rightarrow> bool) \<Rightarrow> ('s \<Rightarrow> string \<Rightarrow> (bytes \<times> Version) option) \<Rightarrow> ('s \<Rightarrow> Version set) \<Rightarrow> string \<Rightarrow>
    's world \<Rightarrow> bool" where
  "world_ok good view seen i w \<longleftrightarrow>
     good (store w) \<and> history_ok view i (hist w) (store w) \<and> fst ` set (hist w) \<subseteq> seen (store w) \<and>
     (\<forall>c. phase_ok view i (hist w) (store w) (phase_of w c))"

lemma history_ok_store:
  assumes "history_ok view i h s" and "grows view i s s'" and "view s' (stateKey i) = view s (stateKey i)"
  shows "history_ok view i h s'"
  using assms grows_durable [OF assms(2)] grows_snapped [OF assms(2)] unfolding history_ok_def by fastforce

lemma world_ok_store:
  assumes "world_ok good view seen i w" and "good s'" and "grows view i (store w) s'"
    and "view s' (stateKey i) = view (store w) (stateKey i)" and "seen (store w) \<subseteq> seen s'"
    and "phase_ok view i (hist w) s' p"
  shows "world_ok good view seen i (w\<lparr>store := s', phase_of := (phase_of w)(c := p)\<rparr>)"
  using assms history_ok_store [OF _ assms(3,4)] grows_phase_ok [OF assms(3) subset_refl]
  unfolding world_ok_def by auto

lemma world_ok_phase:
  assumes "world_ok good view seen i w" and "phase_ok view i (hist w) (store w) p"
  shows "world_ok good view seen i (w\<lparr>phase_of := (phase_of w)(c := p)\<rparr>)"
  using assms unfolding world_ok_def by auto

lemma history_ok_snoc:
  assumes "history_ok view i h s" and "grows view i s s'" and "publishable i nxt" and "durable view i nxt s" and "snapped view i nxt s"
    and "view s' (stateKey i) = Some (envelopeOf nxt, v)" and "v \<notin> fst ` set h"
    and "unat (Generation nxt) = Suc (length h)"
  shows "history_ok view i (h @ [(v, nxt)]) s'"
  using assms grows_durable [OF assms(2)] grows_snapped [OF assms(2)] unfolding history_ok_def by auto

lemma history_generation:
  assumes "history_ok view i h s" and "h \<noteq> []"
  shows "unat (Generation (snd (last h))) = length h"
proof -
  have "last (map (\<lambda>(v, st). unat (Generation st)) h) = length h"
    using assms unfolding history_ok_def by (simp add: Suc_le_eq)
  then show ?thesis using assms(2) by (simp add: last_map case_prod_beta)
qed

lemma distinct_fst_unique: "distinct (map fst h) \<Longrightarrow> (v, a) \<in> set h \<Longrightarrow> (v, b) \<in> set h \<Longrightarrow> a = b"
  by (metis eq_key_imp_eq_value)

context object_store
begin

lemma put_if_absent_grows:
  assumes "inv s" and "room (Suc n) s" and "put_bytes ops ctx key b if_absent s = (r, s')" and "key \<noteq> stateKey i"
  shows "inv s' \<and> room n s' \<and> grows contents i s s' \<and> contents s' (stateKey i) = contents s (stateKey i) \<and> seen s \<subseteq> seen s'"
proof (cases r)
  case (Inl e)
  then have "s' = s" using assms(3) put_error by simp
  then show ?thesis using assms(1) room_less [OF assms(2)] by simp
next
  case (Inr info)
  have "grows contents i s s'"
    using put_if_absent_keeps [OF assms(1,2,3)] unfolding grows_def by blast
  then show ?thesis using put_ok [OF assms(1,2)] assms(3,4) Inr by auto
qed

lemma check_follows:
  assumes "inv s" and "history_ok contents i h s" and "validateTransition ops ctx i expected (Generation nxt) s = None"
  shows "follows h expected nxt"
proof (cases "expected = []")
  case False
  then obtain current where load: "LoadState ops ctx i s = Inr (current, expected)"
    and gen: "unat (Generation nxt) = Suc (unat (Generation current))"
    using validateTransition_None [OF assms(3)] by auto
  obtain b where b: "contents s (stateKey i) = Some (b, expected)" using LoadState_version(1) [OF assms(1) load] by blast
  then have h: "h \<noteq> []" "b = envelopeOf (snd (last h))" "expected = fst (last h)"
    using assms(2) by (auto simp: history_ok_def split: if_splits)
  have "publishable i (snd (last h))"
    using assms(2) last_in_set [OF h(1)] by (fastforce simp: history_ok_def)
  then have "snd (last h) = current"
    using LoadState_version(3) [OF assms(1) load] b h decodeEnvelope_envelopeOf [of i "snd (last h)"]
    by (simp add: publishable_def)
  then have "(expected, current) \<in> set h" using h last_in_set [OF h(1)] by auto
  then show ?thesis using gen False unfolding follows_def by auto
qed (use validateTransition_None [OF assms(3)] in \<open>simp add: follows_def\<close>)

lemma publish_follows:
  assumes "history_ok contents i h s" and "follows h expected nxt"
    and "put_allowed \<lparr>IfMatch = expected, IfNoneMatch = (expected = [])\<rparr> (contents s (stateKey i))"
  shows "unat (Generation nxt) = Suc (length h)"
proof (cases "expected = []")
  case True
  then have "h = []" using assms(1,3) by (auto simp: put_allowed_def history_ok_def split: if_splits)
  then show ?thesis using assms(2) True by (simp add: follows_def)
next
  case False
  then have h: "h \<noteq> []" "fst (last h) = expected"
    using assms(1,3) by (auto simp: put_allowed_def history_ok_def split: if_splits)
  obtain current where cur: "(expected, current) \<in> set h" "unat (Generation nxt) = Suc (unat (Generation current))"
    using assms(2) False by (auto simp: follows_def)
  have "(expected, snd (last h)) \<in> set h" using last_in_set [OF h(1)] h(2) by (metis prod.collapse)
  then have "current = snd (last h)"
    using cur(1) assms(1) distinct_fst_unique unfolding history_ok_def by metis
  then show ?thesis using cur(2) history_generation [OF assms(1) h(1)] by simp
qed

lemma pub_step_ok:
  assumes "pub_step ops i w w'" and "world_ok inv contents seen i w" and "room (Suc n) (store w)"
  shows "world_ok inv contents seen i w' \<and> room n (store w') \<and> prefix (hist w) (hist w')"
  using assms
proof (cases rule: pub_step.cases)
  case (check c nxt ctx expected)
  have "phase_ok contents i (hist w) (store w) (Requiring expected nxt [RefsSnapshot nxt, PackManifest nxt])"
    using check assms(2) check_follows [OF _ _ check(5), of "hist w"] by (simp add: publishable_def world_ok_def)
  then show ?thesis using check world_ok_phase [OF assms(2)] room_less [OF assms(3)] by simp
next
  case (require c expected nxt ref refs ctx info)
  have "phase_ok contents i (hist w) (store w) (Requiring expected nxt (ref # refs))" "inv (store w)"
    using assms(2) require(2) unfolding world_ok_def by metis+
  moreover obtain b where "contents (store w) (referenceKey i ref) = Some b"
    using head_ok [OF _ require(3)] calculation(2) by blast
  ultimately have "phase_ok contents i (hist w) (store w) (Requiring expected nxt refs)"
    unfolding phase_ok.simps set_simps by (metis Diff_iff insert_iff option.distinct(1))
  then show ?thesis using require world_ok_phase [OF assms(2)] room_less [OF assms(3)] by simp
next
  case (required c expected nxt)
  have "phase_ok contents i (hist w) (store w) (Requiring expected nxt [])"
    using assms(2) required(2) unfolding world_ok_def by metis
  then have "phase_ok contents i (hist w) (store w) (Recording expected nxt)" by (simp add: durable_def)
  then show ?thesis using required world_ok_phase [OF assms(2)] room_less [OF assms(3)] by simp
next
  case (record_new c expected nxt ctx info s')
  note wf = assms(2) [unfolded world_ok_def]
  note put = put_if_absent_grows [OF _ assms(3) record_new(3) stateKey_distinct(2)]
  have old: "phase_ok contents i (hist w) s' (Recording expected nxt)"
    using wf put record_new(2) grows_phase_ok [OF _ subset_refl] by metis
  moreover have "snapped contents i nxt s'"
    using put_ok [OF _ assms(3) record_new(3)] wf by (simp add: snapped_def)
  ultimately have "phase_ok contents i (hist w) s' (Publishing expected nxt)" by simp
  then show ?thesis using put wf record_new(1) world_ok_store [OF assms(2)] by simp
next
  case (record_old c expected nxt ctx e s')
  have s': "s' = store w" using put_error [OF record_old(3)] .
  have "phase_ok contents i (hist w) (store w) (Recording expected nxt)"
    using assms(2) record_old(2) unfolding world_ok_def by metis
  then have "phase_ok contents i (hist w) (store w) (Verifying expected nxt)" by simp
  then show ?thesis using record_old s' world_ok_phase [OF assms(2)] room_less [OF assms(3)] by simp
next
  case (verify c expected nxt ctx)
  have "phase_ok contents i (hist w) (store w) (Verifying expected nxt)" "inv (store w)"
    using assms(2) verify(2) unfolding world_ok_def by metis+
  then have "phase_ok contents i (hist w) (store w) (Publishing expected nxt)"
    using verifyImmutable_None [OF _ verify(3)] by (auto simp: snapped_def)
  then show ?thesis using verify world_ok_phase [OF assms(2)] room_less [OF assms(3)] by simp
next
  case (publish c expected nxt ctx info s')
  note wf = assms(2) [unfolded world_ok_def]
  have ok: "phase_ok contents i (hist w) (store w) (Publishing expected nxt)"
    using wf publish(2) by metis
  note put = put_ok [OF _ assms(3) publish(3)]
  have g: "grows contents i (store w) s'" using put wf by (simp add: grows_def)
  have "history_ok contents i (hist w @ [(InfoVersion info, nxt)]) s'"
    using ok wf put publish_follows [of i "hist w" "store w" expected nxt]
    by (intro history_ok_snoc [OF _ g]) auto
  moreover have "phase_ok contents i (hist w @ [(InfoVersion info, nxt)]) s' (phase_of w d)" for d
    using wf by (intro grows_phase_ok [OF g, of "hist w"]) auto
  ultimately show ?thesis using put wf publish(1) by (auto simp: world_ok_def)
next
  case (give_up c)
  then show ?thesis using world_ok_phase [OF assms(2), of Idle] room_less [OF assms(3)] by simp
next
  case (upload ctx key b info s')
  note wf = assms(2) [unfolded world_ok_def]
  note put = put_if_absent_grows [OF _ assms(3) upload(2,3)]
  have "phase_ok contents i (hist w) s' (phase_of w 0)"
    using wf put grows_phase_ok [OF _ subset_refl] by metis
  then have "world_ok inv contents seen i (w\<lparr>store := s', phase_of := (phase_of w)(0 := phase_of w 0)\<rparr>)"
    using put wf world_ok_store [OF assms(2)] by blast
  then show ?thesis using put wf upload(1) by simp
qed

lemma pub_steps_ok:
  assumes "(pub_step ops i ^^ n) w w'" and "world_ok inv contents seen i w" and "room (n + m) (store w)"
  shows "world_ok inv contents seen i w' \<and> room m (store w') \<and> prefix (hist w) (hist w')"
  using assms
proof (induction n arbitrary: w' m)
  case (Suc n)
  from Suc.prems(1) obtain w1 where w1: "(pub_step ops i ^^ n) w w1" "pub_step ops i w1 w'" by auto
  have "world_ok inv contents seen i w1 \<and> room (Suc m) (store w1) \<and> prefix (hist w) (hist w1)"
    using Suc.IH [OF w1(1) Suc.prems(2), of "Suc m"] Suc.prems(3) by simp
  then show ?case using pub_step_ok [OF w1(2)] by (meson prefix_order.trans)
qed simp

text \<open>A call of \<open>CompareAndSwapState\<close> that nobody interferes with is a run of the phases.\<close>

lemma storeSnapshot_steps:
  assumes "storeSnapshot ops ctx (snapshotKey i nxt) (marshal (stateJson nxt)) (store w) = (None, s')"
    and "phase_of w c = Recording expected nxt"
  shows "\<exists>k \<le> 2. (pub_step ops i ^^ k) w (w\<lparr>store := s', phase_of := (phase_of w)(c := Publishing expected nxt)\<rparr>)"
proof (cases "put_bytes ops ctx (snapshotKey i nxt) (marshal (stateJson nxt)) if_absent (store w)")
  case (Pair r s1)
  show ?thesis
  proof (cases r)
    case (Inr info)
    then have "s1 = s'" using assms(1) Pair by (simp add: storeSnapshot_def)
    then have "pub_step ops i w (w\<lparr>store := s', phase_of := (phase_of w)(c := Publishing expected nxt)\<rparr>)"
      using pub_step.record_new [of w c expected nxt ops ctx i] assms(2) Pair Inr by blast
    then show ?thesis by (intro exI [of _ 1]) (simp only: relpowp_1, simp)
  next
    case (Inl e)
    then have e: "errors_Is e ErrAlreadyExists" "s' = s1" "verifyImmutable ops ctx (snapshotKey i nxt) (marshal (stateJson nxt)) s1 = None"
      using assms(1) Pair by (auto simp: storeSnapshot_def split: if_splits)
    define w1 where "w1 = w\<lparr>store := s1, phase_of := (phase_of w)(c := Verifying expected nxt)\<rparr>"
    have "pub_step ops i w w1"
      unfolding w1_def using pub_step.record_old [of w c expected nxt ops ctx i] assms(2) Pair Inl e(1) by blast
    moreover have "pub_step ops i w1 (w1\<lparr>phase_of := (phase_of w1)(c := Publishing expected nxt)\<rparr>)"
      using e(3) by (intro pub_step.verify [of _ _ expected nxt ops ctx]) (simp_all add: w1_def)
    ultimately show ?thesis by (intro exI [of _ 2]) (auto simp: w1_def e(2) numeral_2_eq_2 OO_def)
  qed
qed

lemma CompareAndSwapState_steps_run:
  assumes "CompareAndSwapState ops ctx i expected st (store w) = (None, s')" and "phase_of w c = Idle"
  shows "\<exists>v. \<exists>k \<le> 7. (pub_step ops i ^^ k) w (w\<lparr>store := s', hist := hist w @ [(v, withSchema st)]\<rparr>)"
proof -
  define nxt where "nxt = withSchema st"
  from assms(1) obtain s1 where val: "validateState i nxt = None" and len: "length (envelopeOf nxt) \<le> maxRepositoryStateBytes"
    and tr: "validateTransition ops ctx i expected (Generation nxt) (store w) = None"
    and refs: "requireDurableReferences ops ctx i nxt (store w) = None"
    and snap: "storeSnapshot ops ctx (snapshotKey i nxt) (marshal (stateJson nxt)) (store w) = (None, s1)"
    and pub: "publish ops ctx (stateKey i) expected (envelopeOf nxt) s1 = (None, s')"
    unfolding nxt_def by (rule CompareAndSwapState_None)
  obtain info1 info2 where heads: "os_Head ops ctx (referenceKey i (RefsSnapshot nxt)) (store w) = Inr info1"
      "os_Head ops ctx (referenceKey i (PackManifest nxt)) (store w) = Inr info2"
    using requireDurableReferences_None [OF refs val] by blast
  obtain info where put: "put_bytes ops ctx (stateKey i) (envelopeOf nxt)
      \<lparr>IfMatch = expected, IfNoneMatch = (expected = [])\<rparr> s1 = (Inr info, s')"
    using pub by (auto simp: publish_def split: prod.splits sum.splits if_splits)
  define at where "at p = w\<lparr>phase_of := (phase_of w)(c := p)\<rparr>" for p
  have "pub_step ops i w (at (Requiring expected nxt [RefsSnapshot nxt, PackManifest nxt]))"
    unfolding at_def using assms(2) val len tr by (rule pub_step.check)
  moreover have "pub_step ops i (at (Requiring expected nxt [RefsSnapshot nxt, PackManifest nxt]))
      (at (Requiring expected nxt [PackManifest nxt]))"
    using pub_step.require [where w = "at (Requiring expected nxt [RefsSnapshot nxt, PackManifest nxt])" and c = c] heads(1)
    by (simp add: at_def)
  moreover have "pub_step ops i (at (Requiring expected nxt [PackManifest nxt])) (at (Requiring expected nxt []))"
    using pub_step.require [where w = "at (Requiring expected nxt [PackManifest nxt])" and c = c] heads(2)
    by (simp add: at_def)
  moreover have "pub_step ops i (at (Requiring expected nxt [])) (at (Recording expected nxt))"
    using pub_step.required [where w = "at (Requiring expected nxt [])" and c = c] by (simp add: at_def)
  ultimately have pre: "(pub_step ops i ^^ 4) w (at (Recording expected nxt))"
    by (auto simp: eval_nat_numeral OO_def)
  obtain k where k: "k \<le> 2" "(pub_step ops i ^^ k) (at (Recording expected nxt))
      (w\<lparr>store := s1, phase_of := (phase_of w)(c := Publishing expected nxt)\<rparr>)"
    using storeSnapshot_steps [of ctx i nxt "at (Recording expected nxt)" s1 c expected] snap by (auto simp: at_def)
  have last: "pub_step ops i (w\<lparr>store := s1, phase_of := (phase_of w)(c := Publishing expected nxt)\<rparr>)
      (w\<lparr>store := s', hist := hist w @ [(InfoVersion info, nxt)]\<rparr>)"
    using pub_step.publish [where w = "w\<lparr>store := s1, phase_of := (phase_of w)(c := Publishing expected nxt)\<rparr>" and c = c]
      put assms(2) by (simp add: fun_upd_idem)
  have "(pub_step ops i ^^ (4 + k + 1)) w (w\<lparr>store := s', hist := hist w @ [(InfoVersion info, nxt)]\<rparr>)"
    unfolding relpowp_add relpowp_1 using pre k(2) last by blast
  moreover have "4 + k + 1 \<le> 7" using k(1) by simp
  ultimately show ?thesis unfolding nxt_def by blast
qed

end

definition demoWorld :: "MemoryStore world" where
  "demoWorld = \<lparr>store = demoStore, hist = [], phase_of = (\<lambda>_. Idle)\<rparr>"

section \<open>The history of a repository\<close>

text \<open>
  C2. Under any interleaving of any number of publishers, whose calls of the store alternate in any
  order and may be abandoned at any point, together with uploads of new objects, the published history
  is linear: it only grows, its generations are 1, 2, 3 and so on without gaps or repetitions, all
  its versions differ, every published state still has its artifacts and its snapshot, and
  the state object holds exactly the last published state.
\<close>

theorem publication_history_linear:
  assumes "(pub_step memoryOps i ^^ n) w w'" and "store_wf (store w)" and "has_room (n + m) (store w)"
    and "contents (store w) (stateKey i) = None" and "hist w = []" and "\<forall>c. phase_of w c = Idle"
  shows "store_wf (store w') \<and>
    map (\<lambda>(v, st). unat (Generation st)) (hist w') = [1..<Suc (length (hist w'))] \<and>
    distinct (map fst (hist w')) \<and>
    (\<forall>(v, st) \<in> set (hist w'). publishable i st \<and> durable contents i st (store w') \<and> snapped contents i st (store w')) \<and>
    contents (store w') (stateKey i) =
      (if hist w' = [] then None else Some (envelopeOf (snd (last (hist w'))), fst (last (hist w'))))"
proof -
  have "world_ok store_wf contents (\<lambda>s. Collect (issued s)) i w"
    using assms(2,4-6) by (simp add: world_ok_def history_ok_def)
  then have "world_ok store_wf contents (\<lambda>s. Collect (issued s)) i w'"
    using memory.pub_steps_ok [OF assms(1) _ assms(3)] by blast
  then show ?thesis unfolding world_ok_def history_ok_def by blast
qed

theorem publication_history_linear_witness:
  "\<exists>n w'. (pub_step memoryOps ''r'' ^^ n) demoWorld w' \<and> length (hist w') = 1 \<and>
     (\<exists>v. contents (store w') (stateKey ''r'') = Some (envelopeOf (withSchema demoState), v))"
proof -
  obtain s' where cas: "CompareAndSwapState memoryOps Background ''r'' [] demoState (store demoWorld) = (None, s')"
    using demo_live by (auto simp: demoWorld_def)
  have idle: "phase_of demoWorld c = Idle" "hist demoWorld = []" "store demoWorld = demoStore" for c
    by (simp_all add: demoWorld_def)
  obtain v k where k: "k \<le> 7" and
    run: "(pub_step memoryOps ''r'' ^^ k) demoWorld (demoWorld\<lparr>store := s', hist := [(v, withSchema demoState)]\<rparr>)"
    using memory.CompareAndSwapState_steps_run [OF cas idle(1)] idle(2) by auto
  have "has_room (k + 0) (store demoWorld)"
    using filledStore_ok [of "[(''repos/r/states/refs'', []), (''repos/r/states/packs'', [])]" k] k
    by (simp add: idle(3) demoStore_def)
  moreover have "contents (store demoWorld) (stateKey ''r'') = None" "store_wf (store demoWorld)"
    using demo_first demo_wf by (simp_all add: idle(3))
  ultimately have "contents s' (stateKey ''r'') = Some (envelopeOf (withSchema demoState), v)"
    using publication_history_linear [OF run, of 0] idle by simp
  then show ?thesis
    using run by (intro exI [of _ k] exI [of _ "demoWorld\<lparr>store := s', hist := [(v, withSchema demoState)]\<rparr>"]) simp
qed

text \<open>
  C7. The phases are those of the code: every successful \<open>CompareAndSwapState\<close> is a run of the phases,
  so the theorem on interleavings is about the calls the code makes.
\<close>

theorem CompareAndSwapState_is_run:
  assumes "CompareAndSwapState memoryOps ctx i expected st (store w) = (None, s')" and "phase_of w c = Idle"
  shows "\<exists>v. \<exists>k \<le> 7. (pub_step memoryOps i ^^ k) w (w\<lparr>store := s', hist := hist w @ [(v, withSchema st)]\<rparr>)"
  using memory.CompareAndSwapState_steps_run [OF assms] .

theorem CompareAndSwapState_is_run_witness:
  "\<exists>s' v k. (pub_step memoryOps ''r'' ^^ k) demoWorld (demoWorld\<lparr>store := s', hist := [(v, withSchema demoState)]\<rparr>)"
proof -
  obtain s' where cas: "CompareAndSwapState memoryOps Background ''r'' [] demoState (store demoWorld) = (None, s')"
    using demo_live by (auto simp: demoWorld_def)
  have "phase_of demoWorld 0 = Idle" "hist demoWorld = []" by (simp_all add: demoWorld_def)
  with CompareAndSwapState_is_run [OF cas] show ?thesis by (metis append_Nil)
qed

end
