(* ===== verification/Authz.thy ===== *)
theory Authz
  imports GoStrings
begin

text \<open>
  \<^verbatim>\<open>internal/authz/authorizer.go\<close>: repository visibility and inherited roles. \<^verbatim>\<open>Action\<close>, \<^verbatim>\<open>Role\<close> and
  \<^verbatim>\<open>Visibility\<close> are bytes, as in the code, so values outside the declared constants are in the model.
  The policy loader is an interface of the package: it is a parameter of \<open>Check\<close>.
\<close>

section \<open>Data\<close>

type_synonym Action = byte
type_synonym Role = byte
type_synonym Visibility = byte

definition ActionRead :: Action where "ActionRead = 1"
definition ActionWrite :: Action where "ActionWrite = 2"
definition ActionManage :: Action where "ActionManage = 3"

definition RoleNone :: Role where "RoleNone = 0"
definition RoleReader :: Role where "RoleReader = 1"
definition RoleDeveloper :: Role where "RoleDeveloper = 2"
definition RoleOwner :: Role where "RoleOwner = 3"

definition VisibilityPrivate :: Visibility where "VisibilityPrivate = 1"
definition VisibilityInternal :: Visibility where "VisibilityInternal = 2"
definition VisibilityPublic :: Visibility where "VisibilityPublic = 3"

lemmas authz_consts = ActionRead_def ActionWrite_def ActionManage_def RoleNone_def RoleReader_def
  RoleDeveloper_def RoleOwner_def VisibilityPrivate_def VisibilityInternal_def VisibilityPublic_def

record Subject =
  UserID :: string
  Authenticated :: bool

record RepositoryRef =
  RepositoryID :: string
  RepositoryPath :: string
  RepositoryVisibility :: Visibility

record Policy =
  PolicyGeneration :: "64 word"
  Members :: "(string \<times> Role) list"

type_synonym PolicyLoader = "ctx \<Rightarrow> string \<Rightarrow> Policy result"

section \<open>Operations\<close>

fun validateMembers :: "(string \<times> Role) list \<Rightarrow> err option" where
  "validateMembers [] = None"
| "validateMembers ((userID, role) # rest) =
     (if userID = [] then Some (ErrMsg ''policy contains an empty user ID'')
      else if role < RoleReader \<or> role > RoleOwner then Some (ErrMsg ''policy contains invalid role'')
      else validateMembers rest)"

definition validatePolicy :: "Policy \<Rightarrow> err option" where
  "validatePolicy policy =
     (if PolicyGeneration policy = 0 then Some (ErrMsg ''policy generation must be positive'')
      else validateMembers (Members policy))"

definition validComponent :: "string \<Rightarrow> bool" where
  "validComponent component \<longleftrightarrow>
     \<not> (component = [] \<or> component = ''.'' \<or> component = ''..'') \<and>
     list_all (\<lambda>c. let v = code c;
                       isLetter = (97 \<le> v \<and> v \<le> 122);
                       isDigit = (48 \<le> v \<and> v \<le> 57);
                       isPunctuation = (c = CHR ''-'' \<or> c = CHR ''_'' \<or> c = CHR ''.'')
                   in isLetter \<or> isDigit \<or> isPunctuation) component"

definition validateRequest :: "Subject \<Rightarrow> RepositoryRef \<Rightarrow> Action \<Rightarrow> err option" where
  "validateRequest subject repository action =
     (if action < ActionRead \<or> action > ActionManage then Some (ErrMsg ''unknown authorization action'')
      else if RepositoryID repository = [] then Some (ErrMsg ''repository ID is required'')
      else if RepositoryVisibility repository < VisibilityPrivate \<or> RepositoryVisibility repository > VisibilityPublic
        then Some (ErrMsg ''unknown repository visibility'')
      else (let components = Split CHR ''/'' (RepositoryPath repository)
        in if length components < 2 then Some (ErrMsg ''repository path must include a top level and repository'')
           else if \<not> list_all validComponent components then Some (ErrMsg ''repository path is not canonical'')
           else if Authenticated subject \<and> UserID subject = []
             then Some (ErrMsg ''authenticated subject requires an immutable user ID'')
           else if \<not> Authenticated subject \<and> UserID subject \<noteq> []
             then Some (ErrMsg ''anonymous subject cannot carry a user ID'')
           else None))"

definition ancestorScopes :: "string \<Rightarrow> string list" where
  "ancestorScopes path =
     (let components = Split CHR ''/'' path
      in map (\<lambda>index. Join CHR ''/'' (take (index + 1) components)) [0..<length components])"

definition minimumRole :: "Action \<Rightarrow> Role" where
  "minimumRole action =
     (if action = ActionRead then RoleReader
      else if action = ActionWrite then RoleDeveloper
      else if action = ActionManage then RoleOwner
      else RoleNone)"

definition memberRole :: "Policy \<Rightarrow> string \<Rightarrow> Role" where
  "memberRole policy userID = (case map_of (Members policy) userID of None \<Rightarrow> 0 | Some role \<Rightarrow> role)"

text \<open>The loop of \<^verbatim>\<open>Check\<close> over the scopes, with the effective role so far.\<close>

fun effectiveRoleLoop :: "PolicyLoader \<Rightarrow> ctx \<Rightarrow> string \<Rightarrow> string list \<Rightarrow> Role \<Rightarrow> Role result" where
  "effectiveRoleLoop loader ctx userID [] effectiveRole = Inr effectiveRole"
| "effectiveRoleLoop loader ctx userID (scope # rest) effectiveRole =
     (case loader ctx scope of
        Inl e \<Rightarrow> if errors_Is e ErrPolicyNotFound then effectiveRoleLoop loader ctx userID rest effectiveRole else Inl e
      | Inr policy \<Rightarrow>
          (case validatePolicy policy of
             Some e \<Rightarrow> Inl e
           | None \<Rightarrow>
               let role = memberRole policy userID
               in effectiveRoleLoop loader ctx userID rest (if role > effectiveRole then role else effectiveRole)))"

definition Check :: "PolicyLoader \<Rightarrow> ctx \<Rightarrow> Subject \<Rightarrow> RepositoryRef \<Rightarrow> Action \<Rightarrow> err option" where
  "Check loader ctx subject repository action =
     (case validateRequest subject repository action of
        Some e \<Rightarrow> Some e
      | None \<Rightarrow>
          if action = ActionRead \<and> RepositoryVisibility repository = VisibilityPublic then None
          else if action = ActionRead \<and> RepositoryVisibility repository = VisibilityInternal \<and> Authenticated subject
            then None
          else if \<not> Authenticated subject \<or> UserID subject = [] then Some ErrDenied
          else (case effectiveRoleLoop loader ctx (UserID subject) (ancestorScopes (RepositoryPath repository)) RoleNone of
                  Inl e \<Rightarrow> Some e
                | Inr effectiveRole \<Rightarrow> if effectiveRole < minimumRole action then Some ErrDenied else None))"

section \<open>What a check grants\<close>

definition readableByVisibility :: "Subject \<Rightarrow> RepositoryRef \<Rightarrow> bool" where
  "readableByVisibility subject repository \<longleftrightarrow>
     RepositoryVisibility repository = VisibilityPublic \<or>
     (RepositoryVisibility repository = VisibilityInternal \<and> Authenticated subject)"

text \<open>A scope is sound when its policy is absent or loads and is valid; it grants a role to a member.\<close>

definition scopeSound :: "PolicyLoader \<Rightarrow> ctx \<Rightarrow> string \<Rightarrow> bool" where
  "scopeSound loader ctx scope \<longleftrightarrow>
     (case loader ctx scope of Inl e \<Rightarrow> errors_Is e ErrPolicyNotFound | Inr policy \<Rightarrow> validatePolicy policy = None)"

definition scopeRole :: "PolicyLoader \<Rightarrow> ctx \<Rightarrow> string \<Rightarrow> string \<Rightarrow> Role" where
  "scopeRole loader ctx userID scope =
     (case loader ctx scope of Inl _ \<Rightarrow> RoleNone | Inr policy \<Rightarrow> memberRole policy userID)"

lemma effectiveRoleLoop_iff:
  "effectiveRoleLoop loader ctx userID scopes r0 = Inr r \<longleftrightarrow>
     (\<forall>scope \<in> set scopes. scopeSound loader ctx scope) \<and>
     r = fold max (map (scopeRole loader ctx userID) scopes) r0"
proof (induction scopes arbitrary: r0)
  case (Cons scope rest)
  have 0: "max RoleNone r0 = r0" for r0 by (simp add: RoleNone_def max_def)
  have m: "(if a > b then a else b) = max a b" for a b :: Role by (auto simp: max_def)
  show ?case
    by (auto simp: Cons.IH scopeSound_def scopeRole_def 0 m Let_def split: sum.splits option.splits)
qed auto

lemma fold_max_le: "(m :: 'a::linorder) \<le> fold max xs r0 \<longleftrightarrow> m \<le> r0 \<or> (\<exists>x \<in> set xs. m \<le> x)"
  by (induction xs arbitrary: r0) (auto simp: le_max_iff_disj)

lemma action_cases:
  assumes "\<not> action < ActionRead" and "\<not> action > ActionManage"
  obtains "action = ActionRead" | "action = ActionWrite" | "action = ActionManage"
proof -
  have "unat action \<noteq> 0" "unat action \<le> 3"
    using assms by (auto simp: authz_consts not_less word_le_nat_alt unat_eq_zero)
  then have "unat action = 1 \<or> unat action = 2 \<or> unat action = 3" by linarith
  moreover have "action = of_nat (unat action)" by simp
  ultimately have "action = of_nat 1 \<or> action = of_nat 2 \<or> action = of_nat 3" by metis
  then show thesis using that by (auto simp: authz_consts)
qed

lemma validateRequest_action:
  assumes "validateRequest subject repository action = None"
  obtains "action = ActionRead" | "action = ActionWrite" | "action = ActionManage"
  using assms action_cases [of action] by (auto simp: validateRequest_def split: if_splits)

lemma validateRequest_other_action:
  assumes "validateRequest subject repository action = None" and "action' \<in> {ActionRead, ActionWrite, ActionManage}"
  shows "validateRequest subject repository action' = None"
proof -
  have "\<not> (action' < ActionRead \<or> action' > ActionManage)" using assms(2) by (auto simp: authz_consts word_less_nat_alt)
  then show ?thesis using assms(1) by (auto simp: validateRequest_def Let_def split: if_splits)
qed

lemma Check_None:
  "Check loader ctx subject repository action = None \<longleftrightarrow>
     validateRequest subject repository action = None \<and>
     (action = ActionRead \<and> readableByVisibility subject repository \<or>
      Authenticated subject \<and> UserID subject \<noteq> [] \<and>
      (\<forall>scope \<in> set (ancestorScopes (RepositoryPath repository)). scopeSound loader ctx scope) \<and>
      (\<exists>scope \<in> set (ancestorScopes (RepositoryPath repository)).
         minimumRole action \<le> scopeRole loader ctx (UserID subject) scope))"
proof (cases "validateRequest subject repository action")
  case None
  have pos: "\<not> minimumRole action \<le> RoleNone"
    using None by (rule validateRequest_action) (simp_all add: minimumRole_def authz_consts)
  define L where "L = effectiveRoleLoop loader ctx (UserID subject) (ancestorScopes (RepositoryPath repository)) RoleNone"
  have L: "L = Inr r \<longleftrightarrow> (\<forall>scope \<in> set (ancestorScopes (RepositoryPath repository)). scopeSound loader ctx scope) \<and>
      r = fold max (map (scopeRole loader ctx (UserID subject)) (ancestorScopes (RepositoryPath repository))) RoleNone" for r
    unfolding L_def by (rule effectiveRoleLoop_iff)
  have "(case L of Inl e \<Rightarrow> Some e | Inr r \<Rightarrow> if r < minimumRole action then Some ErrDenied else None) = None \<longleftrightarrow>
      (\<forall>scope \<in> set (ancestorScopes (RepositoryPath repository)). scopeSound loader ctx scope) \<and>
      (\<exists>scope \<in> set (ancestorScopes (RepositoryPath repository)).
         minimumRole action \<le> scopeRole loader ctx (UserID subject) scope)"
  proof (cases L)
    case (Inl e)
    then show ?thesis using L by fastforce
  next
    case (Inr r)
    have "r < minimumRole action \<longleftrightarrow> \<not> minimumRole action \<le> r" by (simp add: not_le)
    with Inr L [of r] pos show ?thesis by (auto simp: fold_max_le)
  qed
  then show ?thesis using None by (auto simp: Check_def readableByVisibility_def L_def [symmetric])
qed (simp add: Check_def)

lemma ancestorScopes_group: "grp \<in> set (ancestorScopes (grp @ CHR ''/'' # rest))"
proof -
  define n where "n = length (Split CHR ''/'' grp)"
  have n: "0 < n" by (simp add: n_def)
  have "grp = Join CHR ''/'' (take (n - 1 + 1) (Split CHR ''/'' grp @ Split CHR ''/'' rest))"
    using n by (simp add: n_def)
  moreover have "n - 1 < length (Split CHR ''/'' (grp @ CHR ''/'' # rest))"
    using n unfolding Split_append n_def length_append by linarith
  ultimately show ?thesis by (auto simp: ancestorScopes_def Let_def Split_append image_iff)
qed

text \<open>
  C14. A check succeeds exactly when the request is well formed and either the visibility of the
  repository makes it readable, or the subject is authenticated, the policies of all scopes from
  the top-level group down to the repository are absent or valid (any other failure denies), and
  one of these scopes gives the user a role that suffices for the action: reader to read, developer
  to write, owner to manage.
\<close>

theorem Check_grants:
  "Check loader ctx subject repository action = None \<longleftrightarrow>
     validateRequest subject repository action = None \<and>
     (action = ActionRead \<and> readableByVisibility subject repository \<or>
      Authenticated subject \<and> UserID subject \<noteq> [] \<and>
      (\<forall>scope \<in> set (ancestorScopes (RepositoryPath repository)). scopeSound loader ctx scope) \<and>
      (\<exists>scope \<in> set (ancestorScopes (RepositoryPath repository)).
         let role = scopeRole loader ctx (UserID subject) scope
         in action = ActionRead \<and> RoleReader \<le> role \<or> action = ActionWrite \<and> RoleDeveloper \<le> role \<or>
            action = ActionManage \<and> RoleOwner \<le> role))"
proof (cases "validateRequest subject repository action")
  case None
  then have "minimumRole action \<le> role \<longleftrightarrow>
      action = ActionRead \<and> RoleReader \<le> role \<or> action = ActionWrite \<and> RoleDeveloper \<le> role \<or>
      action = ActionManage \<and> RoleOwner \<le> role" for role
    by (rule validateRequest_action) (simp_all add: minimumRole_def authz_consts)
  then show ?thesis unfolding Check_None Let_def by simp
qed (simp add: Check_None)

definition demoPolicies :: PolicyLoader where
  "demoPolicies ctx scope =
     (if scope = ''acme'' then Inr \<lparr>PolicyGeneration = 1, Members = [(''u1'', RoleDeveloper)]\<rparr> else Inl ErrPolicyNotFound)"

definition demoRepository :: RepositoryRef where
  "demoRepository = \<lparr>RepositoryID = ''r1'', RepositoryPath = ''acme/app'', RepositoryVisibility = VisibilityPrivate\<rparr>"

theorem Check_grants_witness:
  "Check demoPolicies Background \<lparr>UserID = ''u1'', Authenticated = True\<rparr> demoRepository ActionWrite = None \<and>
   Check demoPolicies Background \<lparr>UserID = ''u1'', Authenticated = True\<rparr> demoRepository ActionManage \<noteq> None"
proof -
  have "validateRequest \<lparr>UserID = ''u1'', Authenticated = True\<rparr> demoRepository ActionWrite = None"
    "set (ancestorScopes (RepositoryPath demoRepository)) = {''acme'', ''acme/app''}" by code_simp+
  then show ?thesis
    unfolding Check_grants
    by (simp add: scopeSound_def scopeRole_def demoPolicies_def validatePolicy_def memberRole_def minimumRole_def authz_consts)
qed

text \<open>
  C15. A subject without authentication is granted nothing but reading a public repository, whatever
  the policies say.
\<close>

theorem Check_anonymous:
  assumes "\<not> Authenticated subject" and "Check loader ctx subject repository action = None"
  shows "action = ActionRead \<and> RepositoryVisibility repository = VisibilityPublic"
  using assms by (auto simp: Check_None readableByVisibility_def)

theorem Check_anonymous_witness:
  "Check demoPolicies Background \<lparr>UserID = [], Authenticated = False\<rparr>
     (demoRepository\<lparr>RepositoryVisibility := VisibilityPublic\<rparr>) ActionRead = None \<and> ActionRead = ActionRead"
proof -
  have c: "Check demoPolicies Background \<lparr>UserID = [], Authenticated = False\<rparr>
     (demoRepository\<lparr>RepositoryVisibility := VisibilityPublic\<rparr>) ActionRead = None" by code_simp
  then show ?thesis using Check_anonymous [OF _ c] by simp
qed

text \<open>
  Rights are cumulative and inherited: whoever may manage a repository may write it and whoever
  may write it may read it; and every group above the repository is one of the scopes that are
  consulted, so a role in a group reaches every repository below it.
\<close>

theorem Check_cumulative:
  assumes "Check loader ctx subject repository action = None"
    and "action' \<in> {ActionRead, ActionWrite, ActionManage}" and "action' \<le> action"
  shows "Check loader ctx subject repository action' = None \<and>
    (\<forall>grp rest. RepositoryPath repository = grp @ CHR ''/'' # rest \<longrightarrow>
       grp \<in> set (ancestorScopes (RepositoryPath repository)))"
proof -
  have v: "validateRequest subject repository action = None" using assms(1) by (simp add: Check_None)
  have "minimumRole action' \<le> minimumRole action \<and> (action = ActionRead \<longrightarrow> action' = ActionRead)"
    using v by (rule validateRequest_action) (use assms(2,3) in \<open>auto simp: minimumRole_def authz_consts word_le_nat_alt\<close>)
  then show ?thesis
    using assms(1) validateRequest_other_action [OF v assms(2)] ancestorScopes_group
    by (auto simp: Check_None intro: order_trans)
qed

theorem Check_cumulative_witness:
  "Check demoPolicies Background \<lparr>UserID = ''u1'', Authenticated = True\<rparr> demoRepository ActionRead = None"
proof -
  have "Check demoPolicies Background \<lparr>UserID = ''u1'', Authenticated = True\<rparr> demoRepository ActionWrite = None"
    by code_simp
  from Check_cumulative [OF this, of ActionRead] show ?thesis by (simp add: authz_consts)
qed

end
