(* ===== verification/Compaction.thy ===== *)
theory Compaction
  imports Prelude "HOL-Library.Multiset"
begin

text \<open>
  \<^verbatim>\<open>internal/maintenance/compaction.go\<close>: which packs a push compacts right away. Pack sizes and byte
  limits are \<^verbatim>\<open>int64\<close> values, the counters of the policy are 32-bit words.
\<close>

section \<open>Data\<close>

record Pack =
  PackID :: string
  PackSize :: int

record CompactionPolicy =
  Enabled :: bool
  MaxPackCount :: "32 word"
  MaxSmallPackCount :: "32 word"
  SmallThreshold :: int
  MaxInputBytes :: int
  MaxInputPacks :: "32 word"

record CompactionPlan =
  Compact :: "Pack list"
  Retain :: "Pack list"
  InBackground :: bool

section \<open>Operations\<close>

definition validateCompactionPolicy :: "CompactionPolicy \<Rightarrow> err option" where
  "validateCompactionPolicy policy =
     (if MaxPackCount policy = 0 \<or> MaxSmallPackCount policy = 0
        then Some (ErrMsg ''pack-count thresholds must be positive'')
      else if MaxSmallPackCount policy > MaxPackCount policy
        then Some (ErrMsg ''small-pack threshold cannot exceed total-pack threshold'')
      else if SmallThreshold policy \<le> 0 \<or> MaxInputBytes policy \<le> 0 \<or> MaxInputPacks policy = 0
        then Some (ErrMsg ''compaction resource limits must be positive'')
      else None)"

fun validateExisting :: "Pack list \<Rightarrow> string set \<Rightarrow> string set result" where
  "validateExisting [] seen = Inr seen"
| "validateExisting (pack # rest) seen =
     (if PackID pack = [] then Inl (ErrMsg ''pack ID is required'')
      else if PackSize pack < 0 then Inl (ErrMsg ''pack has a negative size'')
      else if PackID pack \<in> seen then Inl (ErrMsg ''duplicate pack ID'')
      else validateExisting rest (insert (PackID pack) seen))"

definition validatePacks :: "Pack list \<Rightarrow> Pack \<Rightarrow> err option" where
  "validatePacks existing incoming =
     (case validateExisting existing {} of Inl e \<Rightarrow> Some e | Inr seen \<Rightarrow>
        if PackID incoming = [] then Some (ErrMsg ''incoming pack ID is required'')
        else if PackSize incoming < 0 then Some (ErrMsg ''pack has a negative size'')
        else if PackID incoming \<in> seen then Some (ErrMsg ''duplicate pack ID'')
        else None)"

definition fragmented :: "Pack list \<Rightarrow> CompactionPolicy \<Rightarrow> bool" where
  "fragmented packs policy =
     (if length packs > unat (MaxPackCount policy) then True
      else (let smallCount = length (filter (\<lambda>pack. PackSize pack < SmallThreshold policy) packs)
            in smallCount > unat (MaxSmallPackCount policy)))"

definition saturatingAdd :: "int \<Rightarrow> int \<Rightarrow> int" where
  "saturatingAdd left right = (if right > int64 (MaxInt64 - left) then MaxInt64 else int64 (left + right))"

text \<open>The loop of \<^verbatim>\<open>PlanPush\<close> over the existing packs.\<close>

fun selectPacks :: "int \<Rightarrow> Pack list \<Rightarrow> Pack list \<times> Pack list \<times> int \<Rightarrow> Pack list \<times> Pack list \<times> int" where
  "selectPacks threshold [] acc = acc"
| "selectPacks threshold (pack # rest) (compact, retain, inputBytes) =
     (if PackSize pack < threshold
      then selectPacks threshold rest (compact @ [pack], retain, saturatingAdd inputBytes (PackSize pack))
      else selectPacks threshold rest (compact, retain @ [pack], inputBytes))"

definition PlanPush :: "Pack list \<Rightarrow> Pack \<Rightarrow> CompactionPolicy \<Rightarrow> CompactionPlan result" where
  "PlanPush existing incoming policy =
     (case validateCompactionPolicy policy of Some e \<Rightarrow> Inl e | None \<Rightarrow>
     (case validatePacks existing incoming of Some e \<Rightarrow> Inl e | None \<Rightarrow>
      (let all = existing @ [incoming]
       in if \<not> Enabled policy \<or> \<not> fragmented all policy
          then Inr \<lparr>Compact = [], Retain = all, InBackground = False\<rparr>
          else (let (compact, retain, inputBytes) = selectPacks (SmallThreshold policy) existing ([], [], 0);
                    compact = compact @ [incoming];
                    inputBytes = saturatingAdd inputBytes (PackSize incoming)
                in if length compact < 2 \<or> length compact > unat (MaxInputPacks policy) \<or>
                      inputBytes > MaxInputBytes policy
                   then Inr \<lparr>Compact = [], Retain = all, InBackground = True\<rparr>
                   else Inr \<lparr>Compact = compact, Retain = retain, InBackground = False\<rparr>))))"

section \<open>Lemmas\<close>

lemma saturatingAdd_exact:
  assumes "0 \<le> left" "left \<le> MaxInt64" "0 \<le> right" "right \<le> MaxInt64"
  shows "saturatingAdd left right = min MaxInt64 (left + right)"
proof -
  have "int64 (MaxInt64 - left) = MaxInt64 - left"
    using assms by (intro int64_id) (simp add: is_int64_def MaxInt64_def)
  moreover have "int64 (left + right) = left + right" if "left + right \<le> MaxInt64"
    using assms that by (intro int64_id) (simp add: is_int64_def MaxInt64_def)
  ultimately show ?thesis by (auto simp: saturatingAdd_def)
qed

lemma validateExisting_Inr:
  "validateExisting packs seen = Inr seen' \<Longrightarrow>
     seen' = seen \<union> PackID ` set packs \<and> distinct (map PackID packs) \<and> PackID ` set packs \<inter> seen = {} \<and>
     (\<forall>pack \<in> set packs. PackID pack \<noteq> [] \<and> 0 \<le> PackSize pack)"
  by (induction packs arbitrary: seen) (auto split: if_splits)

lemma validatePacks_None:
  assumes "validatePacks existing incoming = None"
  shows "distinct (map PackID (existing @ [incoming]))"
    and "\<forall>pack \<in> set (existing @ [incoming]). PackID pack \<noteq> [] \<and> 0 \<le> PackSize pack"
  using assms by (auto simp: validatePacks_def dest!: validateExisting_Inr split: sum.splits if_splits)

lemma selectPacks_eq:
  assumes "\<forall>pack \<in> set packs. 0 \<le> PackSize pack \<and> PackSize pack \<le> MaxInt64" and "0 \<le> n" and "n \<le> MaxInt64"
  shows "selectPacks threshold packs (c, r, n) =
    (c @ filter (\<lambda>pack. PackSize pack < threshold) packs,
     r @ filter (\<lambda>pack. \<not> PackSize pack < threshold) packs,
     min MaxInt64 (n + sum_list (map PackSize (filter (\<lambda>pack. PackSize pack < threshold) packs))))"
  using assms
proof (induction packs arbitrary: c r n)
  case (Cons pack rest)
  have p: "0 \<le> PackSize pack" "PackSize pack \<le> MaxInt64" using Cons.prems(1) by auto
  have nonneg: "0 \<le> sum_list (map PackSize (filter (\<lambda>pack. PackSize pack < threshold) rest))"
    using Cons.prems(1) by (intro sum_list_nonneg) auto
  show ?case
  proof (cases "PackSize pack < threshold")
    case True
    have "saturatingAdd n (PackSize pack) = min MaxInt64 (n + PackSize pack)"
      using saturatingAdd_exact Cons.prems(2,3) p by simp
    moreover have "0 \<le> min MaxInt64 (n + PackSize pack)"
      using Cons.prems(2) p by (simp add: MaxInt64_def)
    ultimately show ?thesis
      using Cons.IH [of "min MaxInt64 (n + PackSize pack)" "c @ [pack]" r] Cons.prems(1) True nonneg by auto
  next
    case False
    then show ?thesis using Cons.IH [of n c "r @ [pack]"] Cons.prems by auto
  qed
qed auto

text \<open>
  C16. A compaction plan neither loses nor invents a pack: the compacted and the retained packs
  together are the existing packs and the incoming one. If packs are compacted, they are the
  small existing packs and the incoming one (at least two, no more than the policy allows), every
  small pack is among them, and their true total size is within the byte limit unless that limit
  is the largest 64-bit integer: the saturating sum never hides an overflow from a smaller limit.
  A plan for the background compacts nothing now.
\<close>

theorem PlanPush_partition:
  assumes "PlanPush existing incoming policy = Inr plan"
    and "\<forall>pack \<in> set (existing @ [incoming]). PackSize pack \<le> MaxInt64" and "MaxInputBytes policy \<le> MaxInt64"
  shows "mset (Compact plan) + mset (Retain plan) = mset (existing @ [incoming]) \<and>
    (InBackground plan \<longrightarrow> Compact plan = []) \<and>
    (Compact plan \<noteq> [] \<longrightarrow>
       Enabled policy \<and> fragmented (existing @ [incoming]) policy \<and>
       Compact plan = filter (\<lambda>pack. PackSize pack < SmallThreshold policy) existing @ [incoming] \<and>
       (\<forall>pack \<in> set (Retain plan). SmallThreshold policy \<le> PackSize pack) \<and>
       2 \<le> length (Compact plan) \<and> length (Compact plan) \<le> unat (MaxInputPacks policy) \<and>
       (sum_list (map PackSize (Compact plan)) \<le> MaxInputBytes policy \<or> MaxInputBytes policy = MaxInt64))"
proof -
  from assms(1) have val: "validatePacks existing incoming = None"
    by (auto simp: PlanPush_def split: option.splits)
  have ok: "\<forall>pack \<in> set existing. 0 \<le> PackSize pack \<and> PackSize pack \<le> MaxInt64"
    and inc: "0 \<le> PackSize incoming" "PackSize incoming \<le> MaxInt64"
    using validatePacks_None(2) [OF val] assms(2) by auto
  define small where "small = filter (\<lambda>pack. PackSize pack < SmallThreshold policy) existing"
  have sum: "0 \<le> sum_list (map PackSize small)"
    using ok by (intro sum_list_nonneg) (auto simp: small_def)
  have sel: "selectPacks (SmallThreshold policy) existing ([], [], 0) =
      (small, filter (\<lambda>pack. \<not> PackSize pack < SmallThreshold policy) existing, min MaxInt64 (sum_list (map PackSize small)))"
    using selectPacks_eq [OF ok, of 0] by (simp add: small_def MaxInt64_def)
  have "saturatingAdd (min MaxInt64 (sum_list (map PackSize small))) (PackSize incoming) =
      min MaxInt64 (min MaxInt64 (sum_list (map PackSize small)) + PackSize incoming)"
    using sum inc by (intro saturatingAdd_exact) (auto simp: MaxInt64_def)
  then have add: "saturatingAdd (min MaxInt64 (sum_list (map PackSize small))) (PackSize incoming) =
      min MaxInt64 (sum_list (map PackSize (small @ [incoming])))"
    using inc by (auto simp: min_def)
  have part: "mset small + mset (filter (\<lambda>pack. \<not> PackSize pack < SmallThreshold policy) existing) = mset existing"
    by (simp add: small_def multiset_partition [symmetric])
  consider "plan = \<lparr>Compact = [], Retain = existing @ [incoming], InBackground = False\<rparr>"
    | "plan = \<lparr>Compact = [], Retain = existing @ [incoming], InBackground = True\<rparr>"
    | "plan = \<lparr>Compact = small @ [incoming], Retain = filter (\<lambda>pack. \<not> PackSize pack < SmallThreshold policy) existing,
         InBackground = False\<rparr>" "Enabled policy" "fragmented (existing @ [incoming]) policy"
      "2 \<le> length (small @ [incoming])" "length (small @ [incoming]) \<le> unat (MaxInputPacks policy)"
      "min MaxInt64 (sum_list (map PackSize (small @ [incoming]))) \<le> MaxInputBytes policy"
    using assms(1) by (auto simp: PlanPush_def Let_def sel add not_less Suc_le_eq split: option.splits if_splits)
  then show ?thesis
  proof cases
    case 3
    then show ?thesis using part assms(3) by (auto simp: small_def min_def split: if_splits)
  qed simp_all
qed

definition demoPolicy :: CompactionPolicy where
  "demoPolicy = \<lparr>Enabled = True, MaxPackCount = 8, MaxSmallPackCount = 1, SmallThreshold = 100,
     MaxInputBytes = 1000, MaxInputPacks = 4\<rparr>"

theorem PlanPush_partition_witness:
  "\<exists>plan. PlanPush [\<lparr>PackID = ''a'', PackSize = 10\<rparr>, \<lparr>PackID = ''b'', PackSize = 500\<rparr>] \<lparr>PackID = ''c'', PackSize = 20\<rparr>
       demoPolicy = Inr plan \<and> Compact plan = [\<lparr>PackID = ''a'', PackSize = 10\<rparr>, \<lparr>PackID = ''c'', PackSize = 20\<rparr>] \<and>
     sum_list (map PackSize (Compact plan)) \<le> 1000"
proof -
  have run: "PlanPush [\<lparr>PackID = ''a'', PackSize = 10\<rparr>, \<lparr>PackID = ''b'', PackSize = 500\<rparr>] \<lparr>PackID = ''c'', PackSize = 20\<rparr>
      demoPolicy = Inr \<lparr>Compact = [\<lparr>PackID = ''a'', PackSize = 10\<rparr>, \<lparr>PackID = ''c'', PackSize = 20\<rparr>],
        Retain = [\<lparr>PackID = ''b'', PackSize = 500\<rparr>], InBackground = False\<rparr>"
    by code_simp
  from PlanPush_partition [OF run] run show ?thesis by (simp add: MaxInt64_def demoPolicy_def)
qed

end
