(* ===== verification/PackFormat.thy ===== *)
theory PackFormat
  imports Prelude
begin

text \<open>
  The wire encodings of \<^verbatim>\<open>internal/gitpack\<close>: object headers, delta distances and delta sizes, and the
  reader that bounds a pack. A byte reader (\<^verbatim>\<open>io.ByteReader\<close>) is a function from its state to a byte or
  an error and the next state, so the decoders run on every reader.
\<close>

unbundle bit_operations_syntax

section \<open>Readers\<close>

type_synonym 'r ByteReader = "'r \<Rightarrow> byte result \<times> 'r"

text \<open>A slice that is read to its end (\<^verbatim>\<open>bytes.Reader\<close>, or a file behind \<^verbatim>\<open>bufio\<close>).\<close>

fun sliceByte :: "bytes ByteReader" where
  "sliceByte [] = (Inl ErrEOF, [])"
| "sliceByte (b # r) = (Inr b, r)"

definition invalid :: "err \<Rightarrow> err" where
  "invalid e = (if errors_Is e ErrLimit \<or> errors_Is e ErrCanceled \<or> errors_Is e ErrDeadlineExceeded then e
     else ErrJoin ErrInvalid e)"

section \<open>Bits and numbers\<close>

lemma not_bit_small: "x < 2 ^ k \<Longrightarrow> k \<le> n \<Longrightarrow> \<not> bit (x :: nat) n"
  by (metis bit_take_bit_iff not_le take_bit_nat_eq_self)

lemma or_push_bit_nat: "x < 2 ^ k \<Longrightarrow> x OR push_bit k a = x + a * 2 ^ k" for x a :: nat
proof -
  assume "x < 2 ^ k"
  then have "x + push_bit k a = x OR push_bit k a"
    by (intro disjunctive_add) (metis bit_push_bit_iff_nat not_bit_small)
  then show ?thesis by (simp add: push_bit_eq_mult)
qed

lemma unat_or_push_bit:
  fixes x v :: "'a::len word"
  assumes "unat x < 2 ^ k" and "unat v * 2 ^ k < 2 ^ LENGTH('a)"
  shows "unat (x OR push_bit k v) = unat x + unat v * 2 ^ k"
proof -
  have "unat (push_bit k v) = push_bit k (unat v)"
    unfolding unsigned_push_bit_eq using assms(2) by (intro take_bit_nat_eq_self) (simp add: push_bit_eq_mult)
  then show ?thesis using or_push_bit_nat [OF assms(1)] by (simp add: unsigned_or_eq)
qed

lemma unat_and_mask_byte: "unat (b AND 127 :: byte) = unat b mod 128" "unat (b AND 15 :: byte) = unat b mod 16"
proof -
  have "b AND 127 = take_bit 7 b" "b AND 15 = take_bit 4 b" by (simp_all add: take_bit_eq_mask mask_eq_exp_minus_1)
  then show "unat (b AND 127 :: byte) = unat b mod 128" "unat (b AND 15 :: byte) = unat b mod 16"
    by (simp_all add: take_bit_eq_mod unat_mod)
qed

lemma and_128_iff: "(b :: byte) AND 128 = 0 \<longleftrightarrow> unat b < 128"
proof -
  have "b AND 128 = 0 \<longleftrightarrow> \<not> bit b 7" using and_exp_eq_0_iff_not_bit [of b 7] by simp
  also have "bit b 7 \<longleftrightarrow> bit (unat b) 7" by (simp add: bit_unsigned_iff)
  also have "bit (unat b) 7 \<longleftrightarrow> 128 \<le> unat b"
    using unsigned_less [of b, where ?'a = nat]
    by (cases "128 \<le> unat b") (simp_all add: bit_iff_odd le_div_geq)
  finally show ?thesis by (simp add: not_le)
qed

section \<open>Object types\<close>

definition typeName :: "byte \<Rightarrow> string" where
  "typeName kind =
     (if kind = 1 then ''commit'' else if kind = 2 then ''tree'' else if kind = 3 then ''blob''
      else if kind = 4 then ''tag'' else [])"

definition typeCode :: "string \<Rightarrow> byte" where
  "typeCode kind =
     (if kind = ''commit'' then 1 else if kind = ''tree'' then 2 else if kind = ''blob'' then 3
      else if kind = ''tag'' then 4 else 0)"

lemma typeName_typeCode: "typeCode kind \<noteq> 0 \<Longrightarrow> typeName (typeCode kind) = kind"
  by (simp add: typeName_def typeCode_def split: if_splits)

lemma typeCode_range: "typeCode kind = 0 \<or> typeCode kind = 1 \<or> typeCode kind = 2 \<or> typeCode kind = 3 \<or> typeCode kind = 4"
  by (simp add: typeCode_def)

section \<open>Object headers\<close>

text \<open>The loop of \<^verbatim>\<open>readHeader\<close>: the last byte read, the size so far and the shift.\<close>

function readHeaderLoop :: "'r ByteReader \<Rightarrow> byte \<Rightarrow> 64 word \<Rightarrow> nat \<Rightarrow> 'r \<Rightarrow> 64 word result \<times> 'r" where
  "readHeaderLoop rb b sz shift r =
     (if b AND 128 = 0 then (Inr sz, r)
      else if shift \<ge> 63 then (Inl ErrInvalid, r)
      else (case rb r of
        (Inl e, r) \<Rightarrow> (Inl (invalid e), r)
      | (Inr b, r) \<Rightarrow>
          (let val = ucast (b AND 127) :: 64 word
           in if val > drop_bit shift 0x7FFFFFFFFFFFFFFF then (Inl ErrInvalid, r)
              else readHeaderLoop rb b (sz OR push_bit shift val) (shift + 7) r)))"
  by pat_completeness auto
termination
  by (relation "measure (\<lambda>(rb, b, sz, shift, r). 63 - shift)") auto

declare readHeaderLoop.simps [simp del]

definition readHeader :: "'r ByteReader \<Rightarrow> 'r \<Rightarrow> (byte \<times> int) result \<times> 'r" where
  "readHeader rb r =
     (case rb r of
        (Inl e, r) \<Rightarrow> (Inl (invalid e), r)
      | (Inr b, r) \<Rightarrow>
          (let kind = drop_bit 4 b AND 7; sz = ucast (b AND 15) :: 64 word
           in case readHeaderLoop rb b sz 4 r of
                (Inl e, r) \<Rightarrow> (Inl e, r)
              | (Inr sz, r) \<Rightarrow> (Inr (kind, int64 (uint sz)), r)))"

text \<open>\<^verbatim>\<open>encodeHeader\<close>: on \<^verbatim>\<open>int64\<close>, \<^verbatim>\<open>&\<close> with a mask and \<^verbatim>\<open>>>\<close> are remainder and flooring division.\<close>

function encodeHeaderLoop :: "byte \<Rightarrow> int \<Rightarrow> bytes" where
  "encodeHeaderLoop b sz =
     (if sz > 0 then (b OR 128) # encodeHeaderLoop (of_int (sz mod 128)) (sz div 128) else [b])"
  by pat_completeness auto
termination
  by (relation "measure (\<lambda>(b, sz). nat sz)") auto

declare encodeHeaderLoop.simps [simp del]

definition encodeHeader :: "byte \<Rightarrow> int \<Rightarrow> bytes" where
  "encodeHeader kind sz = encodeHeaderLoop (push_bit 4 kind OR of_int (sz mod 16)) (sz div 16)"

section \<open>Distances and delta sizes\<close>

text \<open>The distance is never negative, so it is a natural number; it grows until it would overflow.\<close>

function readDistanceLoop :: "'r ByteReader \<Rightarrow> byte \<Rightarrow> nat \<Rightarrow> 'r \<Rightarrow> int result \<times> 'r" where
  "readDistanceLoop rb b distance r =
     (if b AND 128 = 0 then (Inr (int distance), r)
      else if distance \<ge> 0x7FFFFFFFFFFFFFFF div 128 then (Inl ErrInvalid, r)
      else (case rb r of
        (Inl e, r) \<Rightarrow> (Inl (invalid e), r)
      | (Inr b, r) \<Rightarrow> readDistanceLoop rb b (unat (b AND 127) OR push_bit 7 (distance + 1)) r))"
  by pat_completeness auto
termination
proof (relation "measure (\<lambda>(rb, b, distance, r). 0x7FFFFFFFFFFFFFFF - distance)")
  fix b c :: byte and distance :: nat and r s :: 'r and rb :: "'r ByteReader"
  assume "\<not> distance \<ge> 0x7FFFFFFFFFFFFFFF div 128"
  then show "((rb, c, unat (c AND 127) OR push_bit 7 (distance + 1), s), (rb, b, distance, r)) \<in>
      measure (\<lambda>(rb, b, distance, r). 0x7FFFFFFFFFFFFFFF - distance)"
    by (simp add: unat_and_mask_byte or_push_bit_nat)
qed simp

declare readDistanceLoop.simps [simp del]

definition readDistance :: "'r ByteReader \<Rightarrow> 'r \<Rightarrow> int result \<times> 'r" where
  "readDistance rb r =
     (case rb r of
        (Inl e, r) \<Rightarrow> (Inl (invalid e), r)
      | (Inr b, r) \<Rightarrow> readDistanceLoop rb b (unat (b AND 127)) r)"

function deltaSizeLoop :: "'r ByteReader \<Rightarrow> 64 word \<Rightarrow> nat \<Rightarrow> 'r \<Rightarrow> int result \<times> 'r" where
  "deltaSizeLoop rb sz shift r =
     (if shift < 63 then
        (case rb r of
          (Inl e, r) \<Rightarrow> (Inl (invalid e), r)
        | (Inr b, r) \<Rightarrow>
            (let val = ucast (b AND 127) :: 64 word
             in if val > drop_bit shift 0x7FFFFFFFFFFFFFFF then (Inl ErrInvalid, r)
                else (let sz = sz OR push_bit shift val
                      in if b AND 128 = 0 then (Inr (int64 (uint sz)), r)
                         else deltaSizeLoop rb sz (shift + 7) r)))
      else (Inl ErrInvalid, r))"
  by pat_completeness auto
termination
  by (relation "measure (\<lambda>(rb, sz, shift, r). 63 - shift)") auto

declare deltaSizeLoop.simps [simp del]

definition deltaSize :: "'r ByteReader \<Rightarrow> 'r \<Rightarrow> int result \<times> 'r" where
  "deltaSize rb r = deltaSizeLoop rb 0 0 r"

section \<open>The encoder and the decoder agree\<close>

lemma unat_ucast_byte: "unat (ucast (b :: byte) :: 64 word) = unat b"
  using unsigned_less [of b, where ?'a = nat] by (simp add: unsigned_ucast_eq take_bit_nat_eq_self)

lemma drop_bit_max: "unat (drop_bit shift 0x7FFFFFFFFFFFFFFF :: 64 word) = 0x7FFFFFFFFFFFFFFF div 2 ^ shift"
  unfolding unsigned_drop_bit_eq by (simp add: drop_bit_eq_div)

lemma unat_of_int_byte: "0 \<le> n \<Longrightarrow> n < 256 \<Longrightarrow> unat (of_int n :: byte) = nat n"
  by (cases n) (simp_all add: unsigned_of_nat take_bit_nat_eq_self)

lemma uint_range: "unat (w :: 64 word) < 2 ^ 63 \<Longrightarrow> int64 (uint w) = uint w \<and> 0 \<le> uint w \<and> uint w \<le> MaxInt64"
proof -
  assume "unat w < 2 ^ 63"
  then have "int (unat w) < int (2 ^ 63)" by (simp only: of_nat_less_iff)
  then have "uint w < 9223372036854775808" by simp
  moreover have "- 9223372036854775808 \<le> uint w" by (rule order_trans [of _ 0]) simp_all
  ultimately have "is_int64 (uint w)" "uint w \<le> MaxInt64" unfolding is_int64_def MaxInt64_def by simp_all
  then show ?thesis by simp
qed

lemma unat_of_nat_small: "n < 2 ^ 63 \<Longrightarrow> unat (of_nat n :: 64 word) = n"
  by (simp only: unsigned_of_nat) (simp add: take_bit_nat_eq_self)

lemma nat_split: "0 \<le> sz \<Longrightarrow> 0 < k \<Longrightarrow> nat sz = nat (sz mod int k) + nat (sz div int k) * k"
  by (simp add: nat_mod_distrib nat_div_distrib)

lemma unat_drop_bit_mask: "unat (drop_bit 4 c AND 7 :: byte) = unat c div 16 mod 8"
proof -
  have "drop_bit 4 c AND 7 = take_bit 3 (drop_bit 4 c)" by (simp add: take_bit_eq_mask mask_eq_exp_minus_1)
  also have "unat \<dots> = take_bit (min 8 3) (drop_bit 4 (take_bit 8 (unat c)))"
    by (simp only: unsigned_take_bit_eq unsigned_drop_bit_eq) simp
  also have "\<dots> = unat c div 16 mod 8"
    using unsigned_less [of c, where ?'a = nat] by (simp add: take_bit_eq_mod drop_bit_eq_div)
  finally show ?thesis .
qed

lemma varint_step:
  assumes "unat acc < 2 ^ shift" and "v * 2 ^ shift < 2 ^ 63" and "shift < 63" and "v < 128"
    and "unat (val :: 64 word) = v"
  shows "\<not> val > drop_bit shift 0x7FFFFFFFFFFFFFFF" and "unat (acc OR push_bit shift val) = unat acc + v * 2 ^ shift"
    and "unat (acc OR push_bit shift val) < 2 ^ (shift + 7)"
proof -
  have "v \<le> 0x7FFFFFFFFFFFFFFF div 2 ^ shift"
    using assms(2) by (simp add: less_eq_div_iff_mult_less_eq)
  then show "\<not> val > drop_bit shift 0x7FFFFFFFFFFFFFFF"
    using assms(5) by (simp add: word_less_nat_alt drop_bit_max)
  show eq: "unat (acc OR push_bit shift val) = unat acc + v * 2 ^ shift"
    using unat_or_push_bit [OF assms(1), of val] assms(2,5) by simp
  have "unat acc + v * 2 ^ shift < 2 ^ shift + 127 * 2 ^ shift"
    using assms(1,4) by (intro add_less_le_mono mult_right_mono) simp_all
  then show "unat (acc OR push_bit shift val) < 2 ^ (shift + 7)"
    unfolding eq by (simp add: power_add)
qed

lemma encodeHeaderLoop_hd:
  assumes "encodeHeaderLoop b sz = c # cs" and "unat b < 128"
  shows "unat c = (if sz > 0 then unat b + 128 else unat b)"
proof -
  have "unat (b OR push_bit 7 1) = unat b + unat (1 :: byte) * 2 ^ 7"
    using assms(2) by (intro unat_or_push_bit) simp_all
  then have "unat (b OR 128) = unat b + 128" by (simp add: push_bit_eq_mult)
  then show ?thesis using assms(1) by (auto simp: encodeHeaderLoop.simps [of b sz] split: if_splits)
qed

lemma encodeHeaderLoop_Cons: "\<exists>c cs. encodeHeaderLoop b sz = c # cs"
  by (subst encodeHeaderLoop.simps) simp

lemma readHeaderLoop_encode:
  assumes "unat b < 128" and "0 \<le> sz" and "unat acc < 2 ^ shift" and "unat acc + nat sz * 2 ^ shift < 2 ^ 63"
    and "encodeHeaderLoop b sz = c # cs"
  shows "readHeaderLoop sliceByte c acc shift (cs @ rest) = (Inr (of_nat (unat acc + nat sz * 2 ^ shift)), rest)"
  using assms
proof (induction b sz arbitrary: acc shift c cs rule: encodeHeaderLoop.induct)
  case (1 b sz)
  show ?case
  proof (cases "sz > 0")
    case False
    then have sz: "sz = 0" using 1(3) by simp
    have "[b] = c # cs" using 1(6) unfolding sz by (subst (asm) encodeHeaderLoop.simps) simp
    then show ?thesis using 1(2) sz by (subst readHeaderLoop.simps) (simp add: and_128_iff)
  next
    case True
    define d where "d = (of_int (sz mod 128) :: byte)"
    obtain c' cs' where enc: "encodeHeaderLoop d (sz div 128) = c' # cs'" using encodeHeaderLoop_Cons by blast
    have cs: "cs = c' # cs'"
      using 1(6) True enc by (subst (asm) encodeHeaderLoop.simps) (simp add: d_def)
    have ge: "\<not> unat c < 128" using encodeHeaderLoop_hd [OF 1(6,2)] True by simp
    have d: "unat d = nat (sz mod 128)" unfolding d_def by (rule unat_of_int_byte) auto
    then have d128: "unat d < 128" by (simp add: nat_less_iff)
    have c': "unat c' mod 128 = nat (sz mod 128)" using encodeHeaderLoop_hd [OF enc d128] d d128 by (simp split: if_splits)
    have le: "nat (sz mod 128) * 2 ^ shift \<le> nat sz * 2 ^ shift" using True by (simp add: zmod_le_nonneg_dividend nat_mono)
    have shift: "shift < 63"
    proof (rule ccontr)
      assume "\<not> shift < 63"
      then have "(2 :: nat) ^ 63 \<le> 2 ^ shift" by (intro power_increasing) simp_all
      also have "\<dots> \<le> nat sz * 2 ^ shift" using True by simp
      finally show False using 1(5) by simp
    qed
    define val where "val = (ucast (c' AND 127) :: 64 word)"
    have val: "unat val = nat (sz mod 128)" by (simp add: val_def unat_ucast_byte unat_and_mask_byte c')
    note step = varint_step [OF 1(4) _ shift _ val]
    have "nat (sz mod 128) * 2 ^ shift < 2 ^ 63" using le 1(5) by linarith
    moreover have "nat (sz mod 128) < 128" by (simp add: nat_less_iff)
    ultimately have v: "nat (sz mod 128) * 2 ^ shift < 2 ^ 63" "nat (sz mod 128) < 128" .
    define acc' where "acc' = acc OR push_bit shift val"
    have split: "nat sz = nat (sz mod 128) + nat (sz div 128) * 128"
      using nat_split [of sz 128] True by simp
    have tot: "unat acc' + nat (sz div 128) * 2 ^ (shift + 7) = unat acc + nat sz * 2 ^ shift"
      unfolding acc'_def step(2) [OF v] split by (simp add: power_add algebra_simps)
    have "readHeaderLoop sliceByte c' acc' (shift + 7) (cs' @ rest) =
        (Inr (of_nat (unat acc' + nat (sz div 128) * 2 ^ (shift + 7))), rest)"
      using True step(3) [OF v] 1(5) tot
      by (intro 1(1) [OF True d128 [unfolded d_def] _ _ _ enc [unfolded d_def]]) (simp_all add: acc'_def pos_imp_zdiv_nonneg_iff)
    then show ?thesis
      using ge shift step(1) [OF v] tot
      by (subst readHeaderLoop.simps) (simp add: cs and_128_iff val_def [symmetric] acc'_def [symmetric] Let_def)
  qed
qed

lemma headerByte:
  assumes "unat kind < 8" and "0 \<le> sz"
  shows "unat (push_bit 4 kind OR of_int (sz mod 16) :: byte) = nat (sz mod 16) + unat kind * 16"
proof -
  have low: "unat (of_int (sz mod 16) :: byte) = nat (sz mod 16)" by (rule unat_of_int_byte) auto
  have "unat (of_int (sz mod 16) :: byte) < 2 ^ 4" unfolding low by (simp add: nat_less_iff)
  then have "unat (of_int (sz mod 16) OR push_bit 4 kind :: byte) = nat (sz mod 16) + unat kind * 2 ^ 4"
    using assms(1) low by (subst unat_or_push_bit) simp_all
  then show ?thesis by (simp add: or.commute)
qed

lemma readHeader_encodeHeader:
  assumes "unat kind < 8" and "0 \<le> sz" and "sz < 2 ^ 63"
  shows "readHeader sliceByte (encodeHeader kind sz @ rest) = (Inr (kind, sz), rest)"
proof -
  define b where "b = (push_bit 4 kind OR of_int (sz mod 16) :: byte)"
  have b: "unat b = nat (sz mod 16) + unat kind * 16" unfolding b_def by (rule headerByte [OF assms(1,2)])
  have m: "nat (sz mod 16) < 16" by (simp add: nat_less_iff)
  then have b128: "unat b < 128" using assms(1) b by simp
  obtain c cs where enc: "encodeHeaderLoop b (sz div 16) = c # cs" using encodeHeaderLoop_Cons by blast
  have c: "unat c = unat b \<or> unat c = unat b + 128" using encodeHeaderLoop_hd [OF enc b128] by (simp split: if_splits)
  have c': "unat c = nat (sz mod 16) + unat kind * 16 \<or> unat c = nat (sz mod 16) + (unat kind + 8) * 16"
    using c b by (simp add: add.assoc)
  have dv: "(a + j * 16) div 16 = j \<and> (a + j * 16) mod 16 = a" if "a < 16" for a j :: nat using that by simp
  have "unat c div 16 = unat kind \<or> unat c div 16 = unat kind + 8" using c' dv [OF m] by metis
  then have "unat (drop_bit 4 c AND 7) = unat kind"
    using assms(1) by (elim disjE) (simp_all add: unat_drop_bit_mask)
  then have kind: "drop_bit 4 c AND 7 = kind" by (simp add: word_unat_eq_iff)
  define acc where "acc = (ucast (c AND 15) :: 64 word)"
  have acc: "unat acc = nat (sz mod 16)"
    using c' dv [OF m] unfolding acc_def unat_ucast_byte unat_and_mask_byte by metis
  have split: "nat sz = nat (sz mod 16) + nat (sz div 16) * 16"
    using nat_split [of sz 16] assms(2) by simp
  have "nat sz < 2 ^ 63" using assms(3) by (simp add: nat_less_iff)
  then have "readHeaderLoop sliceByte c acc 4 (cs @ rest) = (Inr (of_nat (nat sz)), rest)"
    using readHeaderLoop_encode [OF b128 _ _ _ enc, of acc 4] assms(2) m split by (simp add: acc pos_imp_zdiv_nonneg_iff)
  moreover have "int64 (uint (of_nat (nat sz) :: 64 word)) = sz"
  proof -
    have u: "unat (of_nat (nat sz) :: 64 word) = nat sz" using \<open>nat sz < 2 ^ 63\<close> by (rule unat_of_nat_small)
    then have "uint (of_nat (nat sz) :: 64 word) = int (nat sz)" by (metis of_nat_unat)
    then show ?thesis using uint_range [of "of_nat (nat sz)"] u \<open>nat sz < 2 ^ 63\<close> assms(2) by (metis int_nat_eq)
  qed
  ultimately show ?thesis
    by (simp add: readHeader_def encodeHeader_def b_def [symmetric] enc kind acc_def [symmetric] Let_def)
qed

text \<open>A step that the overflow test lets through keeps the value below the sign bit.\<close>

lemma varint_bound:
  assumes "unat acc < 2 ^ shift" and "unat acc < 2 ^ 63" and "shift < 63" and "unat val < 128"
    and "\<not> (val :: 64 word) > drop_bit shift 0x7FFFFFFFFFFFFFFF"
  shows "unat (acc OR push_bit shift val) < 2 ^ (shift + 7) \<and> unat (acc OR push_bit shift val) < 2 ^ 63"
proof -
  define m where "m = (2 :: nat) ^ (63 - shift)"
  have m: "m * 2 ^ shift = 2 ^ 63" using assms(3) by (simp add: m_def power_add [symmetric])
  have "unat val \<le> 0x7FFFFFFFFFFFFFFF div 2 ^ shift"
    using assms(5) by (simp add: word_less_nat_alt drop_bit_max not_less)
  then have "unat val * 2 ^ shift \<le> 0x7FFFFFFFFFFFFFFF" by (simp add: less_eq_div_iff_mult_less_eq)
  then have lt: "unat val * 2 ^ shift < 2 ^ 63" by simp
  then have "unat val < m" unfolding m [symmetric] by simp
  then have "(unat val + 1) * 2 ^ shift \<le> m * 2 ^ shift" by (intro mult_right_mono) simp_all
  then have "unat acc + unat val * 2 ^ shift < 2 ^ 63" using assms(1) m by simp
  then show ?thesis
    using varint_step(2,3) [OF assms(1) lt assms(3,4) refl] by simp
qed

lemma readHeaderLoop_bound:
  "readHeaderLoop rb b acc shift r = (Inr sz, r') \<Longrightarrow> unat acc < 2 ^ shift \<Longrightarrow> unat acc < 2 ^ 63 \<Longrightarrow> unat sz < 2 ^ 63"
proof (induction rb b acc shift r rule: readHeaderLoop.induct)
  case (1 rb b acc shift r)
  show ?case
  proof (cases "b AND 128 = 0")
    case True
    then show ?thesis using 1(2,4) by (subst (asm) readHeaderLoop.simps) simp
  next
    case False
    from 1(2) False obtain c s where s: "shift < 63" "rb r = (Inr c, s)"
      "\<not> (ucast (c AND 127) :: 64 word) > drop_bit shift 0x7FFFFFFFFFFFFFFF"
      "readHeaderLoop rb c (acc OR push_bit shift (ucast (c AND 127))) (shift + 7) s = (Inr sz, r')"
      by (subst (asm) readHeaderLoop.simps) (auto simp: Let_def split: if_splits prod.splits sum.splits)
    have v: "unat (ucast (c AND 127) :: 64 word) < 128" by (simp add: unat_ucast_byte unat_and_mask_byte)
    note bound = varint_bound [OF 1(3,4) s(1) v s(3)]
    show ?thesis
      by (rule 1(1) [OF False _ s(2) [symmetric] refl refl _ s(4)]) (use s bound in auto)
  qed
qed

lemma readHeader_range:
  assumes "readHeader rb r = (Inr (kind, sz), r')"
  shows "0 \<le> sz \<and> sz \<le> MaxInt64"
proof -
  from assms obtain b s w where "readHeaderLoop rb b (ucast (b AND 15)) 4 s = (Inr w, r')" "sz = int64 (uint w)"
    by (auto simp: readHeader_def Let_def split: prod.splits sum.splits)
  moreover have "unat (ucast (b AND 15) :: 64 word) < 16" by (simp add: unat_ucast_byte unat_and_mask_byte)
  ultimately have "unat w < 2 ^ 63" using readHeaderLoop_bound by fastforce
  then show ?thesis using \<open>sz = int64 (uint w)\<close> uint_range [of w] by simp
qed

lemma deltaSizeLoop_range:
  "deltaSizeLoop rb acc shift r = (Inr sz, r') \<Longrightarrow> unat acc < 2 ^ shift \<Longrightarrow> unat acc < 2 ^ 63 \<Longrightarrow> 0 \<le> sz \<and> sz \<le> MaxInt64"
proof (induction rb acc shift r rule: deltaSizeLoop.induct)
  case (1 rb acc shift r)
  from 1(2) obtain c s where s: "shift < 63" "rb r = (Inr c, s)"
      "\<not> (ucast (c AND 127) :: 64 word) > drop_bit shift 0x7FFFFFFFFFFFFFFF"
      "if c AND 128 = 0 then sz = int64 (uint (acc OR push_bit shift (ucast (c AND 127)) :: 64 word))
       else deltaSizeLoop rb (acc OR push_bit shift (ucast (c AND 127))) (shift + 7) s = (Inr sz, r')"
    by (subst (asm) deltaSizeLoop.simps) (auto simp: Let_def split: if_splits prod.splits sum.splits)
  have v: "unat (ucast (c AND 127) :: 64 word) < 128" by (simp add: unat_ucast_byte unat_and_mask_byte)
  note bound = varint_bound [OF 1(3,4) s(1) v s(3)]
  show ?case
  proof (cases "c AND 128 = 0")
    case True
    then show ?thesis using s(4) bound uint_range by metis
  next
    case False
    show ?thesis
      by (rule 1(1) [OF s(1) s(2) [symmetric] refl refl _ refl False]) (use s bound False in auto)
  qed
qed

lemma readDistanceLoop_range:
  "readDistanceLoop rb b distance r = (Inr d, r') \<Longrightarrow> distance \<le> 0x7FFFFFFFFFFFFFFF \<Longrightarrow> 0 \<le> d \<and> d \<le> MaxInt64"
proof (induction rb b distance r rule: readDistanceLoop.induct)
  case (1 rb b distance r)
  show ?case
  proof (cases "b AND 128 = 0")
    case True
    then show ?thesis using 1(2,3) by (subst (asm) readDistanceLoop.simps) (simp add: MaxInt64_def)
  next
    case False
    from 1(2) False obtain c s where s: "\<not> distance \<ge> 0x7FFFFFFFFFFFFFFF div 128" "rb r = (Inr c, s)"
      "readDistanceLoop rb c (unat (c AND 127) OR push_bit 7 (distance + 1)) s = (Inr d, r')"
      by (subst (asm) readDistanceLoop.simps) (auto split: if_splits prod.splits sum.splits)
    have "unat (c AND 127) OR push_bit 7 (distance + 1) \<le> 0x7FFFFFFFFFFFFFFF"
      using s(1) mod_less_divisor [of 128 "unat c"] by (simp add: unat_and_mask_byte or_push_bit_nat)
    then show ?thesis using 1(1) [OF False s(1) s(2) [symmetric] refl s(3)] by simp
  qed
qed

text \<open>
  The header of an object of each of the four types, with any size below $2^{63}$, is read back with
  its type and size, and the reader stops exactly behind it.
\<close>

theorem header_roundtrip:
  assumes "typeCode t \<noteq> 0" and "0 \<le> sz" and "sz \<le> MaxInt64"
  shows "readHeader sliceByte (encodeHeader (typeCode t) sz @ rest) = (Inr (typeCode t, sz), rest) \<and>
    typeName (typeCode t) = t"
proof -
  have "unat (typeCode t) < 8" using typeCode_range [of t] by (elim disjE) simp_all
  moreover have "sz < 2 ^ 63" using assms(3) by (simp add: MaxInt64_def)
  ultimately show ?thesis using readHeader_encodeHeader assms(1,2) typeName_typeCode by blast
qed

theorem header_roundtrip_witness:
  "encodeHeader (typeCode ''blob'') 300 = [188, 18] \<and>
   readHeader sliceByte (encodeHeader (typeCode ''blob'') 300 @ [7]) = (Inr (3, 300), [7])"
proof -
  have "typeCode ''blob'' = 3" "encodeHeader (typeCode ''blob'') 300 = [188, 18]" by code_simp+
  then show ?thesis using header_roundtrip [of "''blob''" 300 "[7]"] by (simp add: MaxInt64_def)
qed

text \<open>
  Whatever bytes a peer sends, a decoded object size, delta size or delta distance is between
  zero and the largest signed 64-bit integer: no encoding makes the decoders overflow or return a
  negative length.
\<close>

theorem decoded_lengths_in_range:
  "(\<forall>kind sz r'. readHeader rb r = (Inr (kind, sz), r') \<longrightarrow> 0 \<le> sz \<and> sz \<le> MaxInt64) \<and>
   (\<forall>sz r'. deltaSize rb r = (Inr sz, r') \<longrightarrow> 0 \<le> sz \<and> sz \<le> MaxInt64) \<and>
   (\<forall>d r'. readDistance rb r = (Inr d, r') \<longrightarrow> 0 \<le> d \<and> d \<le> MaxInt64)"
proof -
  have "0 \<le> d \<and> d \<le> MaxInt64" if "readDistance rb r = (Inr d, r')" for d r'
  proof -
    from that obtain b s where "readDistanceLoop rb b (unat (b AND 127)) s = (Inr d, r')"
      by (auto simp: readDistance_def split: prod.splits sum.splits)
    moreover have "unat (b AND 127) \<le> 0x7FFFFFFFFFFFFFFF"
      using mod_less_divisor [of 128 "unat b"] by (simp add: unat_and_mask_byte)
    ultimately show ?thesis by (rule readDistanceLoop_range)
  qed
  then show ?thesis using readHeader_range deltaSizeLoop_range [of rb 0 0 r] unfolding deltaSize_def by fastforce
qed

theorem decoded_lengths_in_range_witness:
  "deltaSize sliceByte [0x90, 0x4E] = (Inr 10000, []) \<and> (10000 :: int) \<le> MaxInt64"
proof -
  have "deltaSize sliceByte [0x90, 0x4E] = (Inr 10000, [])" by code_simp
  then show ?thesis using decoded_lengths_in_range [of sliceByte "[0x90, 0x4E]"] by blast
qed

end
