(* ===== verification/PackDelta.thy ===== *)
theory PackDelta
  imports PackFormat
begin

text \<open>
  The delta interpreter of \<^verbatim>\<open>internal/gitpack/delta.go\<close>: the instruction loop of \<^verbatim>\<open>apply\<close> on the bytes
  of the delta behind its two sizes, against the copy-and-insert instructions of the Git delta format.
\<close>

unbundle bit_operations_syntax

section \<open>The loop of the code\<close>

text \<open>The argument bytes of a copy: bit \<open>i\<close> of the operation says whether byte \<open>i\<close> is present.\<close>

fun copyArgs :: "byte \<Rightarrow> nat list \<Rightarrow> bytes \<Rightarrow> nat \<times> nat \<Rightarrow> ((nat \<times> nat) \<times> bytes) result" where
  "copyArgs op [] r (offset, cnt) = Inr ((offset, cnt), r)"
| "copyArgs op (i # is) r (offset, cnt) =
     (if op AND push_bit i 1 = 0 then copyArgs op is r (offset, cnt)
      else (case r of
        [] \<Rightarrow> Inl (invalid ErrEOF)
      | b # r \<Rightarrow>
          if i < 4 then copyArgs op is r (offset OR push_bit (8 * i) (unat b), cnt)
          else copyArgs op is r (offset, cnt OR push_bit (8 * (i - 4)) (unat b))))"

lemma copyArgs_length: "copyArgs op is r oc = Inr (oc', r') \<Longrightarrow> length r' \<le> length r"
  by (induction op "is" r oc rule: copyArgs.induct) (auto split: if_splits list.splits)

text \<open>
  \<open>baseSize\<close> is the recorded size of the base and \<open>base\<close> its staged bytes; \<open>out\<close> is what was written
  so far.
\<close>

function deltaLoop :: "int \<Rightarrow> bytes \<Rightarrow> int \<Rightarrow> bytes \<Rightarrow> bytes \<Rightarrow> bytes result" where
  "deltaLoop baseSize base target [] out =
     (if int (length out) \<noteq> target then Inl ErrInvalid else Inr out)"
| "deltaLoop baseSize base target (op # r) out =
     (if op = 0 then Inl ErrInvalid
      else if op AND 128 = 0 then
        (let cnt = unat op
         in if int cnt > target - int (length out) then Inl ErrInvalid
            else if length r < cnt then Inl (invalid ErrEOF)
            else deltaLoop baseSize base target (drop cnt r) (out @ take cnt r))
      else (case copyArgs op [0..<7] r (0, 0) of
        Inl e \<Rightarrow> Inl e
      | Inr ((offset, cnt), r) \<Rightarrow>
          (let cnt = (if cnt = 0 then 0x10000 else cnt)
           in if int offset > baseSize \<or> int cnt > baseSize - int offset \<or> int cnt > target - int (length out)
              then Inl ErrInvalid
              else if length (drop offset base) < cnt then Inl ErrEOF
              else deltaLoop baseSize base target r (out @ take cnt (drop offset base)))))"
  by pat_completeness auto
termination
  by (relation "measure (\<lambda>(baseSize, base, target, r, out). length r)") (auto dest: copyArgs_length)

section \<open>The instructions of a delta\<close>

datatype instr = Insert bytes | Copy nat nat

fun runInstr :: "bytes \<Rightarrow> instr \<Rightarrow> bytes" where
  "runInstr base (Insert d) = d"
| "runInstr base (Copy offset cnt) = take cnt (drop offset base)"

definition runDelta :: "bytes \<Rightarrow> instr list \<Rightarrow> bytes" where
  "runDelta base instrs = concat (map (runInstr base) instrs)"

fun instrOk :: "bytes \<Rightarrow> instr \<Rightarrow> bool" where
  "instrOk base (Insert d) \<longleftrightarrow> d \<noteq> [] \<and> length d < 128"
| "instrOk base (Copy offset cnt) \<longleftrightarrow> 0 < cnt \<and> cnt < 2 ^ 24 \<and> offset < 2 ^ 32 \<and> offset + cnt \<le> length base"

text \<open>The encoding that Git writes: argument bytes that are zero are left out.\<close>

definition argByte :: "nat \<Rightarrow> nat \<Rightarrow> nat \<Rightarrow> byte" where
  "argByte offset cnt i =
     (if i < 4 then of_nat (offset div 256 ^ i mod 256) else of_nat (cnt div 256 ^ (i - 4) mod 256))"

definition copyOp :: "(nat \<Rightarrow> byte) \<Rightarrow> byte" where
  "copyOp f = horner_sum of_bool 2 (map (\<lambda>i. f i \<noteq> 0) [0..<7] @ [True])"

fun encodeInstr :: "instr \<Rightarrow> bytes" where
  "encodeInstr (Insert d) = of_nat (length d) # d"
| "encodeInstr (Copy offset cnt) =
     (let f = argByte offset cnt in copyOp f # map f (filter (\<lambda>i. f i \<noteq> 0) [0..<7]))"

section \<open>Completeness: encoded instructions are carried out\<close>

lemma bit_copyOp: "i < 7 \<Longrightarrow> bit (copyOp f) i \<longleftrightarrow> f i \<noteq> 0" and bit7_copyOp: "bit (copyOp f) 7"
  by (simp_all add: copyOp_def bit_horner_sum_bit_word_iff nth_append)

lemma copyOp_and: "i < 7 \<Longrightarrow> copyOp f AND push_bit i 1 = 0 \<longleftrightarrow> f i = 0"
  using and_exp_eq_0_iff_not_bit [of "copyOp f" i] bit_copyOp [of i f] by (simp add: push_bit_eq_mult)

lemma copyOp_and128: "copyOp f AND 128 \<noteq> 0"
  using and_exp_eq_0_iff_not_bit [of "copyOp f" 7] bit7_copyOp [of f] by simp

definition argStep :: "(nat \<Rightarrow> byte) \<Rightarrow> nat \<times> nat \<Rightarrow> nat \<Rightarrow> nat \<times> nat" where
  "argStep f oc i = (if i < 4 then (fst oc OR push_bit (8 * i) (unat (f i)), snd oc)
     else (fst oc, snd oc OR push_bit (8 * (i - 4)) (unat (f i))))"

lemma copyArgs_encoded:
  assumes "\<forall>i \<in> set is. i < 7"
  shows "copyArgs (copyOp f) is (map f (filter (\<lambda>i. f i \<noteq> 0) is) @ rest) oc = Inr (foldl (argStep f) oc is, rest)"
  using assms
proof (induction "is" arbitrary: oc)
  case (Cons i "is")
  obtain a b where oc: "oc = (a, b)" by (cases oc)
  show ?case
  proof (cases "f i = 0")
    case True
    then have "argStep f oc i = oc" by (simp add: argStep_def oc)
    then show ?thesis using True Cons copyOp_and [of i f] by (simp add: oc)
  next
    case False
    then show ?thesis using Cons copyOp_and [of i f] by (simp add: oc argStep_def)
  qed
qed auto

lemma unat_argByte: "unat (of_nat (n mod 256) :: byte) = n mod 256"
  by (simp only: unsigned_of_nat) (simp add: take_bit_eq_mod)

text \<open>Four bytes of base 256 digits.\<close>

lemma or_digits:
  fixes a b c d :: nat
  assumes "a < 256" and "b < 256" and "c < 256"
  shows "((a OR push_bit 8 b) OR push_bit 16 c) OR push_bit 24 d = a + b * 256 + c * 65536 + d * 16777216"
proof -
  have "a OR push_bit 8 b = a + b * 2 ^ 8" using assms(1) by (intro or_push_bit_nat) simp
  moreover have "(a + b * 2 ^ 8) OR push_bit 16 c = a + b * 2 ^ 8 + c * 2 ^ 16"
    using assms by (intro or_push_bit_nat) simp
  moreover have "(a + b * 2 ^ 8 + c * 2 ^ 16) OR push_bit 24 d = a + b * 2 ^ 8 + c * 2 ^ 16 + d * 2 ^ 24"
    using assms by (intro or_push_bit_nat) simp
  ultimately show ?thesis by simp
qed

lemma digits256:
  fixes n :: nat
  assumes "n < 2 ^ 32"
  shows "n mod 256 + n div 256 mod 256 * 256 + n div 65536 mod 256 * 65536 + n div 16777216 mod 256 * 16777216 = n"
proof -
  define q1 q2 q3 where q: "q1 = n div 256" "q2 = q1 div 256" "q3 = q2 div 256"
  have d: "n div 65536 = q2" "n div 16777216 = q3" by (simp_all add: q div_mult2_eq [symmetric])
  have "q3 < 256" using assms by (simp add: q div_mult2_eq [symmetric] less_mult_imp_div_less)
  moreover have "n = n mod 256 + q1 * 256" "q1 = q1 mod 256 + q2 * 256" "q2 = q2 mod 256 + q3 * 256"
    by (simp_all add: q)
  ultimately show ?thesis unfolding d q(1) [symmetric] by simp
qed

lemma argStep_all:
  assumes "offset < 2 ^ 32" and "cnt < 2 ^ 24"
  shows "foldl (argStep (argByte offset cnt)) (0, 0) [0..<7] = (offset, cnt)"
proof -
  have up: "[0..<7] = [0, 1, 2, 3, 4, 5, 6 :: nat]" by (simp add: upt_conv_Cons)
  have "((offset mod 256 OR push_bit 8 (offset div 256 mod 256)) OR push_bit 16 (offset div 65536 mod 256)) OR
      push_bit 24 (offset div 16777216 mod 256) = offset"
    using digits256 [OF assms(1)] by (simp only: or_digits mod_less_divisor zero_less_numeral)
  moreover have "cnt div 16777216 = 0" using assms(2) by simp
  then have "((cnt mod 256 OR push_bit 8 (cnt div 256 mod 256)) OR push_bit 16 (cnt div 65536 mod 256)) OR push_bit 24 0 = cnt"
    using digits256 [of cnt] assms(2) by (simp only: or_digits mod_less_divisor zero_less_numeral) simp
  ultimately show ?thesis
    unfolding up by (simp add: argStep_def argByte_def unat_argByte)
qed

lemma runInstr_length: "instrOk base i \<Longrightarrow> 0 < length (runInstr base i)"
  by (cases i) auto

lemma deltaLoop_instr:
  assumes "instrOk base i" and "int (length out) + int (length (runInstr base i)) \<le> target"
  shows "deltaLoop (int (length base)) base target (encodeInstr i @ rest) out =
    deltaLoop (int (length base)) base target rest (out @ runInstr base i)"
proof (cases i)
  case (Insert d)
  have len: "unat (of_nat (length d) :: byte) = length d"
    using assms(1) Insert by (simp only: unsigned_of_nat) (simp add: take_bit_nat_eq_self)
  have "(of_nat (length d) :: byte) \<noteq> 0"
  proof
    assume "(of_nat (length d) :: byte) = 0"
    then show False using len assms(1) Insert by simp
  qed
  moreover have "(of_nat (length d) :: byte) AND 128 = 0" using len assms(1) Insert by (simp add: and_128_iff)
  ultimately show ?thesis using assms(2) len Insert by (simp add: Let_def)
next
  case (Copy offset cnt)
  define f where "f = argByte offset cnt"
  have args: "copyArgs (copyOp f) [0..<7] (map f (filter (\<lambda>i. f i \<noteq> 0) [0..<7]) @ rest) (0, 0) = Inr ((offset, cnt), rest)"
    using copyArgs_encoded [of "[0..<7]" f rest "(0, 0)"] argStep_all [of offset cnt] assms(1) Copy by (simp add: f_def)
  have "copyOp f \<noteq> 0" using copyOp_and128 [of f] by auto
  moreover have "\<not> length base - offset < cnt" "min (length base - offset) cnt = cnt" using assms(1) Copy by auto
  moreover from this(2) have "\<not> target - int (length out) < int cnt" using assms(2) Copy by simp
  ultimately show ?thesis
    using assms copyOp_and128 [of f] args Copy by (simp add: Let_def f_def [symmetric] del: upt_Suc)
qed

lemma deltaLoop_complete:
  assumes "\<forall>i \<in> set instrs. instrOk base i"
  shows "int (length out) + int (length (runDelta base instrs)) = target \<Longrightarrow>
    deltaLoop (int (length base)) base target (concat (map encodeInstr instrs)) out = Inr (out @ runDelta base instrs)"
  using assms
proof (induction instrs arbitrary: out)
  case (Cons i instrs)
  have "deltaLoop (int (length base)) base target (encodeInstr i @ concat (map encodeInstr instrs)) out =
      deltaLoop (int (length base)) base target (concat (map encodeInstr instrs)) (out @ runInstr base i)"
    using Cons.prems by (intro deltaLoop_instr) (simp_all add: runDelta_def)
  then show ?case using Cons.IH [of "out @ runInstr base i"] Cons.prems by (simp add: runDelta_def)
qed (simp add: runDelta_def)

section \<open>Soundness: every result is made of the base and the delta\<close>

fun instrWithin :: "bytes \<Rightarrow> instr \<Rightarrow> bool" where
  "instrWithin base (Insert d) \<longleftrightarrow> True"
| "instrWithin base (Copy offset cnt) \<longleftrightarrow> offset + cnt \<le> length base"

lemma deltaLoop_sound:
  "deltaLoop baseSize base target r out = Inr result \<Longrightarrow>
     \<exists>instrs. result = out @ runDelta base instrs \<and> int (length result) = target \<and>
       (\<forall>i \<in> set instrs. instrWithin base i) \<and>
       (\<forall>i \<in> set instrs. \<forall>offset cnt. i = Copy offset cnt \<longrightarrow> int offset + int cnt \<le> baseSize)"
proof (induction baseSize base target r out rule: deltaLoop.induct)
  case (1 baseSize base target out)
  then show ?case by (intro exI [of _ "[]"]) (simp add: runDelta_def split: if_splits)
next
  case (2 baseSize base target op r out)
  show ?case
  proof (cases "op AND 128 = 0")
    case True
    with 2(3) have ne: "op \<noteq> 0" "\<not> int (unat op) > target - int (length out)" "\<not> length r < unat op"
      "deltaLoop baseSize base target (drop (unat op) r) (out @ take (unat op) r) = Inr result"
      by (auto simp: Let_def split: if_splits)
    from 2(1) [OF ne(1) True refl ne(2,3,4)] obtain instrs where
      "result = out @ take (unat op) r @ runDelta base instrs" "int (length result) = target"
      "\<forall>i \<in> set instrs. instrWithin base i"
      "\<forall>i \<in> set instrs. \<forall>offset cnt. i = Copy offset cnt \<longrightarrow> int offset + int cnt \<le> baseSize"
      by auto
    then show ?thesis by (intro exI [of _ "Insert (take (unat op) r) # instrs"]) (simp add: runDelta_def)
  next
    case False
    with 2(3) obtain offset c r' where args: "copyArgs op [0..<7] r (0, 0) = Inr ((offset, c), r')" and ne: "op \<noteq> 0"
      by (auto simp: Let_def split: if_splits sum.splits prod.splits)
    define cnt where "cnt = (if c = 0 then 0x10000 else c)"
    have step: "\<not> (int offset > baseSize \<or> int cnt > baseSize - int offset \<or> int cnt > target - int (length out))"
      "\<not> length (drop offset base) < cnt"
      "deltaLoop baseSize base target r' (out @ take cnt (drop offset base)) = Inr result"
      using 2(3) False ne args by (auto simp: Let_def cnt_def simp del: length_drop upt_Suc split: if_splits)
    from 2(2) [OF ne False args refl refl cnt_def step] obtain instrs where
      "result = out @ take cnt (drop offset base) @ runDelta base instrs" "int (length result) = target"
      "\<forall>i \<in> set instrs. instrWithin base i"
      "\<forall>i \<in> set instrs. \<forall>offset cnt. i = Copy offset cnt \<longrightarrow> int offset + int cnt \<le> baseSize"
      by auto
    moreover have "offset + cnt \<le> length base"
      using step(2) by (cases "cnt = 0") (auto simp: cnt_def split: if_splits)
    ultimately show ?thesis
      using step(1) by (intro exI [of _ "Copy offset cnt # instrs"]) (auto simp: runDelta_def)
  qed
qed



end
