(* ===== verification/PackWorkspace.thy ===== *)
theory PackWorkspace
  imports PackDelta Digest
begin

text \<open>
  \<^verbatim>\<open>internal/gitpack/pack.go\<close> and \<^verbatim>\<open>internal/gitpack/delta.go\<close>: decoding a pack into a workspace of staged,
  verified objects. The private directory is a map from file numbers to contents that never fails;
  pointers to staged entries are indices into \<open>entries\<close>, so an entry that \<^verbatim>\<open>apply\<close> fills in is
  updated for every map that refers to it. \<^verbatim>\<open>compress/zlib\<close> is a parameter: what its reader
  says about the header, the bytes it produces with the way it ends (the error of a failure, or
  the number of bytes read at the end of the stream), and the chunks that its writer passes on.
\<close>

section \<open>Data\<close>

record Limits =
  MaxPackBytes :: int
  MaxObjectBytes :: int
  MaxDecodedBytes :: int
  MaxDiskBytes :: int
  MaxObjects :: int
  MaxDeltaDepth :: int

definition limitsValid :: "Limits \<Rightarrow> bool" where
  "limitsValid l \<longleftrightarrow>
     MaxPackBytes l \<ge> 32 \<and> MaxPackBytes l < MaxInt64 \<and> MaxObjectBytes l > 0 \<and> MaxObjectBytes l < MaxInt64 \<and>
     MaxDecodedBytes l > 0 \<and> MaxDiskBytes l > 0 \<and> MaxObjects l > 0 \<and> MaxObjects l \<le> 4294967295 \<and> MaxDeltaDepth l > 0"

record Object =
  ObjectType :: string
  ObjectData :: bytes

type_synonym Resolver = "ctx \<Rightarrow> string \<Rightarrow> Object result"

record Entry =
  EntryID :: string
  EntryType :: string
  EntrySHA256 :: string
  EntrySize :: int
  EntryOffset :: int
  EntryLength :: int
  EntryCRC32 :: "32 word"

record staged = Entry +
  path :: nat
  baseID :: string
  baseOffset :: int
  depth :: int

record Workspace =
  dirOpen :: bool
  limits :: Limits
  diskBytes :: int
  decodedBytes :: int
  objectIndex :: "(string \<times> nat) list"
  entries :: "staged list"
  files :: "nat \<Rightarrow> bytes option"
  nextFile :: nat

definition newWorkspace :: "Limits \<Rightarrow> Workspace" where
  "newWorkspace l = \<lparr>dirOpen = True, limits = l, diskBytes = 0, decodedBytes = 0, objectIndex = [], entries = [],
     files = Map.empty, nextFile = 0\<rparr>"

text \<open>The zlib reader reads a stream that ends with the given error; it produces bytes and then ends or fails.\<close>

record zlib =
  zl_new :: "bytes \<Rightarrow> err \<Rightarrow> err option"
  zl_read :: "bytes \<Rightarrow> err \<Rightarrow> bytes \<times> nat result"
  zl_write :: "bytes \<Rightarrow> bytes list"

section \<open>Object identity\<close>

definition objectHeader :: "string \<Rightarrow> int \<Rightarrow> bytes" where
  "objectHeader kind sz = bytes_of (kind @ '' '' @ FormatInt sz) @ [0]"

definition objectID :: "string \<Rightarrow> bytes \<Rightarrow> string" where
  "objectID kind b = EncodeToString (Sum1 (objectHeader kind (int (length b)) @ b))"

definition objectSHA256 :: "string \<Rightarrow> bytes \<Rightarrow> string" where
  "objectSHA256 kind b = EncodeToString (Sum256 (objectHeader kind (int (length b)) @ b))"

definition objectEntry :: "Object \<Rightarrow> Entry" where
  "objectEntry object =
     \<lparr>EntryID = objectID (ObjectType object) (ObjectData object), EntryType = ObjectType object,
      EntrySHA256 = objectSHA256 (ObjectType object) (ObjectData object),
      EntrySize = int (length (ObjectData object)), EntryOffset = 0, EntryLength = 0, EntryCRC32 = 0\<rparr>"

section \<open>The bounded pack reader\<close>

record packReader =
  pr_input :: bytes
  pr_remaining :: int
  pr_read :: bytes

definition packByte :: "packReader ByteReader" where
  "packByte r =
     (if pr_remaining r = 0 then (Inl ErrLimit, r)
      else (case pr_input r of
        [] \<Rightarrow> (Inl ErrEOF, r)
      | b # bs \<Rightarrow> (Inr b, r\<lparr>pr_input := bs, pr_remaining := pr_remaining r - 1, pr_read := pr_read r @ [b]\<rparr>)))"

definition packAdvance :: "nat \<Rightarrow> packReader \<Rightarrow> packReader" where
  "packAdvance n r = r\<lparr>pr_input := drop n (pr_input r), pr_remaining := pr_remaining r - int n,
     pr_read := pr_read r @ take n (pr_input r)\<rparr>"

text \<open>\<^verbatim>\<open>io.ReadFull\<close> of \<open>n\<close> bytes.\<close>

definition packFull :: "nat \<Rightarrow> packReader \<Rightarrow> (bytes \<times> packReader) result" where
  "packFull n r =
     (if int n \<le> pr_remaining r \<and> n \<le> length (pr_input r) then Inr (take n (pr_input r), packAdvance n r)
      else if pr_remaining r \<le> int (length (pr_input r)) then Inl ErrLimit
      else Inl (if pr_input r = [] then ErrEOF else ErrUnexpectedEOF))"

text \<open>The stream that the zlib reader sees, and the error behind it.\<close>

definition packStream :: "packReader \<Rightarrow> bytes \<times> err" where
  "packStream r = (take (nat (pr_remaining r)) (pr_input r),
     if pr_remaining r \<le> int (length (pr_input r)) then ErrLimit else ErrEOF)"

section \<open>Staging and identification\<close>

text \<open>\<^verbatim>\<open>stage\<close> copies \<open>sz\<close> bytes of a reader that produces \<open>produced\<close> and then ends or fails.\<close>

definition streamErr :: "nat result \<Rightarrow> err" where
  "streamErr outcome = (case outcome of Inl e \<Rightarrow> e | Inr _ \<Rightarrow> ErrEOF)"

definition stage :: "Workspace \<Rightarrow> bytes \<Rightarrow> nat result \<Rightarrow> int \<Rightarrow> (nat \<times> Workspace) result" where
  "stage w produced outcome sz =
     (if sz < 0 \<or> sz > MaxObjectBytes (limits w) \<or> sz > MaxDecodedBytes (limits w) - decodedBytes w \<or>
         sz > MaxDiskBytes (limits w) - diskBytes w then Inl ErrLimit
      else if int (length produced) < sz then Inl (invalid (streamErr outcome))
      else if int (length produced) > sz then Inl ErrInvalid
      else (case outcome of
        Inl e \<Rightarrow> if errors_Is e ErrEOF then Inr (nextFile w, w\<lparr>diskBytes := diskBytes w + sz, decodedBytes := decodedBytes w + sz,
                   files := (files w)(nextFile w \<mapsto> produced), nextFile := Suc (nextFile w)\<rparr>)
                 else Inl (invalid e)
      | Inr _ \<Rightarrow> Inr (nextFile w, w\<lparr>diskBytes := diskBytes w + sz, decodedBytes := decodedBytes w + sz,
                   files := (files w)(nextFile w \<mapsto> produced), nextFile := Suc (nextFile w)\<rparr>)))"

text \<open>The test against an object that is already indexed under the same ID, and the index update.\<close>

definition priorConflict :: "Workspace \<Rightarrow> staged \<Rightarrow> bool" where
  "priorConflict w entry =
     (case map_of (objectIndex w) (EntryID entry) of
        None \<Rightarrow> False
      | Some j \<Rightarrow>
          (let prior = entries w ! j
           in EntryType prior \<noteq> EntryType entry \<or> EntrySize prior \<noteq> EntrySize entry \<or>
              EntrySHA256 prior \<noteq> EntrySHA256 entry))"

text \<open>\<^verbatim>\<open>identify\<close> of the entry that is about to become entry number \<open>length (entries w)\<close>.\<close>

definition identify :: "Workspace \<Rightarrow> staged \<Rightarrow> (staged \<times> Workspace) result" where
  "identify w entry =
     (case files w (path entry) of
        None \<Rightarrow> Inl (ErrMsg ''open staged file'')
      | Some content \<Rightarrow>
          if int (length content) \<noteq> EntrySize entry then Inl ErrInvalid
          else (let entry = entry\<lparr>EntryID := objectID (EntryType entry) content,
                                  EntrySHA256 := objectSHA256 (EntryType entry) content\<rparr>
                in if priorConflict w entry then Inl ErrInvalid
                   else Inr (entry, w\<lparr>objectIndex := al_put (EntryID entry) (length (entries w)) (objectIndex w)\<rparr>)))"

section \<open>Deltas\<close>

text \<open>\<^verbatim>\<open>apply\<close> rebuilds entry \<open>i\<close>, whose staged file holds the delta, on a base.\<close>

definition apply_delta :: "Workspace \<Rightarrow> nat \<Rightarrow> staged \<Rightarrow> Workspace result" where
  "apply_delta w i base =
     (let entry = entries w ! i in
      case files w (path entry) of None \<Rightarrow> Inl (ErrMsg ''open staged file'') | Some delta \<Rightarrow>
     (case deltaSize sliceByte delta of
        (Inl e, _) \<Rightarrow> Inl (invalid e)
      | (Inr source, r) \<Rightarrow>
          if source \<noteq> EntrySize base then Inl ErrInvalid else
     (case deltaSize sliceByte r of
        (Inl e, _) \<Rightarrow> Inl e
      | (Inr target, r) \<Rightarrow>
          if target > MaxObjectBytes (limits w) \<or> target > MaxDecodedBytes (limits w) - decodedBytes w \<or>
             target > MaxDiskBytes (limits w) - diskBytes w then Inl ErrLimit else
     (case files w (path base) of None \<Rightarrow> Inl (ErrMsg ''open staged file'') | Some baseFile \<Rightarrow>
     (case deltaLoop (EntrySize base) baseFile target r [] of
        Inl e \<Rightarrow> Inl e
      | Inr content \<Rightarrow>
          (let w' = w\<lparr>diskBytes := diskBytes w + (target - EntrySize entry), decodedBytes := decodedBytes w + target,
                      files := ((files w)(path entry := None))(nextFile w \<mapsto> content), nextFile := Suc (nextFile w)\<rparr>;
               entry = entry\<lparr>path := nextFile w, EntryType := EntryType base, EntrySize := target, depth := depth base + 1,
                             EntryID := objectID (EntryType base) content,
                             EntrySHA256 := objectSHA256 (EntryType base) content,
                             EntryOffset := 0, EntryLength := 0, EntryCRC32 := 0\<rparr>
           in if priorConflict w' entry then Inl ErrInvalid
              else Inr (w'\<lparr>entries := (entries w')[i := entry],
                           objectIndex := al_put (EntryID entry) i (objectIndex w')\<rparr>)))))))"

text \<open>The state of \<^verbatim>\<open>resolve\<close>: the workspace, the staged external bases and the IDs known to be missing.\<close>

record resolving =
  ws :: Workspace
  external :: "(string \<times> staged) list"
  missing :: "string set"

text \<open>
  Finding the base of an entry: not yet available, or found (with an external base staged on demand).
  The code dereferences \<^verbatim>\<open>byOffset[entry.baseOffset]\<close> without a test; \<open>decodeObjects\<close> only records
  offsets that are present (\<open>offsets_ok\<close>).
\<close>

definition findBase :: "ctx \<Rightarrow> Resolver option \<Rightarrow> (int \<times> nat) list \<Rightarrow> resolving \<Rightarrow> staged \<Rightarrow> (staged option \<times> resolving) result" where
  "findBase ctx resolver byOffset st entry =
     (if baseOffset entry \<ge> 0 then
        (case map_of byOffset (baseOffset entry) of
           None \<Rightarrow> Inl (ErrMsg ''nil pointer dereference'')
         | Some j \<Rightarrow>
             (let base = entries (ws st) ! j
              in Inr (if EntryID base = [] then None else Some base, st)))
      else (case map_of (objectIndex (ws st)) (baseID entry) of
        Some j \<Rightarrow> Inr (Some (entries (ws st) ! j), st)
      | None \<Rightarrow>
          (case map_of (external st) (baseID entry) of
             Some base \<Rightarrow> Inr (Some base, st)
           | None \<Rightarrow>
               (case resolver of
                  None \<Rightarrow> Inr (None, st)
                | Some f \<Rightarrow>
                    if baseID entry \<in> missing st then Inr (None, st)
                    else (case f ctx (baseID entry) of
                      Inl e \<Rightarrow> if errors_Is e ErrObjectNotFound
                               then Inr (None, st\<lparr>missing := insert (baseID entry) (missing st)\<rparr>) else Inl e
                    | Inr object \<Rightarrow>
                        if int (length (ObjectData object)) > MaxObjectBytes (limits (ws st)) then Inl ErrLimit
                        else (let info = objectEntry object
                              in if typeCode (ObjectType object) = 0 \<or> EntryID info \<noteq> baseID entry then Inl ErrInvalid
                                 else (case stage (ws st) (ObjectData object) (Inr 0) (EntrySize info) of
                                   Inl e \<Rightarrow> Inl e
                                 | Inr (p, w) \<Rightarrow>
                                     (let base = Entry.extend info
                                        \<lparr>path = p, baseID = [], baseOffset = 0, depth = 0\<rparr>
                                      in Inr (Some base, st\<lparr>ws := w,
                                           external := al_put (baseID entry) base (external st)\<rparr>)))))))))"

text \<open>One entry of a pass: skipped when it is resolved, postponed when its base is not.\<close>

definition resolveEntry :: "ctx \<Rightarrow> Resolver option \<Rightarrow> (int \<times> nat) list \<Rightarrow> nat \<Rightarrow> resolving \<times> nat \<times> bool
    \<Rightarrow> (resolving \<times> nat \<times> bool) result" where
  "resolveEntry ctx resolver byOffset i = (\<lambda>(st, pending, progress).
     let entry = entries (ws st) ! i in
     if EntryID entry \<noteq> [] then Inr (st, pending, progress) else
     (case ctx_Err ctx of Some e \<Rightarrow> Inl e | None \<Rightarrow>
     (case findBase ctx resolver byOffset st entry of
        Inl e \<Rightarrow> Inl e
      | Inr (None, st) \<Rightarrow> Inr (st, Suc pending, progress)
      | Inr (Some base, st) \<Rightarrow>
          if depth base \<ge> MaxDeltaDepth (limits (ws st)) then Inl ErrLimit
          else (case apply_delta (ws st) i base of
            Inl e \<Rightarrow> Inl e
          | Inr w \<Rightarrow> Inr (st\<lparr>ws := w\<rparr>, Suc pending, True)))))"

fun resolvePass :: "ctx \<Rightarrow> Resolver option \<Rightarrow> (int \<times> nat) list \<Rightarrow> nat list \<Rightarrow> resolving \<times> nat \<times> bool
    \<Rightarrow> (resolving \<times> nat \<times> bool) result" where
  "resolvePass ctx resolver byOffset [] acc = Inr acc"
| "resolvePass ctx resolver byOffset (i # is) acc =
     (case resolveEntry ctx resolver byOffset i acc of
        Inl e \<Rightarrow> Inl e
      | Inr acc \<Rightarrow> resolvePass ctx resolver byOffset is acc)"

fun resolvePasses :: "nat \<Rightarrow> ctx \<Rightarrow> Resolver option \<Rightarrow> (int \<times> nat) list \<Rightarrow> resolving \<Rightarrow> resolving result" where
  "resolvePasses 0 ctx resolver byOffset st = Inl ErrLimit"
| "resolvePasses (Suc passes) ctx resolver byOffset st =
     (case resolvePass ctx resolver byOffset [0..<length (entries (ws st))] (st, 0, False) of
        Inl e \<Rightarrow> Inl e
      | Inr (st, pending, progress) \<Rightarrow>
          if pending = 0 then Inr st
          else if \<not> progress then Inl ErrInvalid
          else resolvePasses passes ctx resolver byOffset st)"

definition resolve :: "ctx \<Rightarrow> (int \<times> nat) list \<Rightarrow> Resolver option \<Rightarrow> Workspace \<Rightarrow> Workspace result" where
  "resolve ctx byOffset resolver w =
     (case resolvePasses (nat (MaxDeltaDepth (limits w) + 1)) ctx resolver byOffset \<lparr>ws = w, external = [], missing = {}\<rparr> of
        Inl e \<Rightarrow> Inl e
      | Inr st \<Rightarrow> Inr (ws st))"

section \<open>Decoding a pack\<close>

text \<open>The position behind the object header: the base of a delta, or nothing for a whole object.\<close>

definition readBase :: "byte \<Rightarrow> (int \<times> nat) list \<Rightarrow> packReader \<Rightarrow> staged \<Rightarrow> (staged \<times> packReader) result" where
  "readBase kind byOffset r entry =
     (if kind = 1 \<or> kind = 2 \<or> kind = 3 \<or> kind = 4 then Inr (entry, r)
      else if kind = 6 then
        (case readDistance packByte r of
           (Inl e, _) \<Rightarrow> Inl (invalid e)
         | (Inr distance, r) \<Rightarrow>
             if distance \<le> 0 \<or> distance > EntryOffset entry then Inl ErrInvalid
             else (let off = EntryOffset entry - distance
                   in if map_of byOffset off = None then Inl ErrInvalid
                      else Inr (entry\<lparr>baseOffset := off\<rparr>, r)))
      else if kind = 7 then
        (case packFull 20 r of
           Inl e \<Rightarrow> Inl (invalid e)
         | Inr (ident, r) \<Rightarrow> Inr (entry\<lparr>baseID := EncodeToString ident\<rparr>, r))
      else Inl ErrInvalid)"

definition emptyStaged :: staged where
  "emptyStaged = \<lparr>EntryID = [], EntryType = [], EntrySHA256 = [], EntrySize = 0, EntryOffset = 0, EntryLength = 0,
     EntryCRC32 = 0, path = 0, baseID = [], baseOffset = -1, depth = 0\<rparr>"

text \<open>
  One round of the loop over the objects of the pack, in the order of the code: the header and the
  base, the zlib stream that is staged, and the entry that is identified and recorded.
\<close>

definition recordObject :: "staged \<Rightarrow> Workspace \<times> (int \<times> nat) list \<times> packReader
    \<Rightarrow> (Workspace \<times> (int \<times> nat) list \<times> packReader) result" where
  "recordObject entry = (\<lambda>(w, byOffset, r).
     if int (length (pr_read r)) > MaxPackBytes (limits w) - 20 then Inl ErrLimit
     else (case (if EntryType entry \<noteq> [] then identify w entry else Inr (entry, w)) of
       Inl e \<Rightarrow> Inl e
     | Inr (entry, w) \<Rightarrow>
         Inr (w\<lparr>entries := entries w @ [entry]\<rparr>, al_put (EntryOffset entry) (length (entries w)) byOffset, r)))"

definition inflateObject :: "zlib \<Rightarrow> nat \<Rightarrow> int \<Rightarrow> staged \<Rightarrow> Workspace \<times> (int \<times> nat) list \<times> packReader
    \<Rightarrow> (Workspace \<times> (int \<times> nat) list \<times> packReader) result" where
  "inflateObject z start sz entry = (\<lambda>(w, byOffset, r).
     let (stream, endErr) = packStream r in
     (case zl_new z stream endErr of Some e \<Rightarrow> Inl (invalid e) | None \<Rightarrow>
     (let (produced, outcome) = zl_read z stream endErr in
     (case stage w produced outcome sz of Inl e \<Rightarrow> Inl (invalid e) | Inr (p, w) \<Rightarrow>
     (let r = packAdvance (case outcome of Inr n \<Rightarrow> n | Inl _ \<Rightarrow> length stream) r;
          entry = entry\<lparr>path := p, EntrySize := sz, EntryLength := int (length (pr_read r) - start),
                        EntryCRC32 := ChecksumIEEE (drop start (pr_read r))\<rparr>
      in recordObject entry (w, byOffset, r))))))"

definition decodeObject :: "zlib \<Rightarrow> ctx \<Rightarrow> Workspace \<times> (int \<times> nat) list \<times> packReader
    \<Rightarrow> (Workspace \<times> (int \<times> nat) list \<times> packReader) result" where
  "decodeObject z ctx = (\<lambda>(w, byOffset, r).
     case ctx_Err ctx of Some e \<Rightarrow> Inl e | None \<Rightarrow>
     (let start = length (pr_read r) in
     (case readHeader packByte r of (Inl e, _) \<Rightarrow> Inl e | (Inr (kind, sz), r) \<Rightarrow>
      if sz > MaxObjectBytes (limits w) then Inl ErrLimit else
     (case readBase kind byOffset r (emptyStaged\<lparr>EntryOffset := int start, EntryType := typeName kind\<rparr>) of
        Inl e \<Rightarrow> Inl e
      | Inr (entry, r) \<Rightarrow> inflateObject z start sz entry (w, byOffset, r)))))"

fun decodeObjects :: "nat \<Rightarrow> zlib \<Rightarrow> ctx \<Rightarrow> Workspace \<times> (int \<times> nat) list \<times> packReader
    \<Rightarrow> (Workspace \<times> (int \<times> nat) list \<times> packReader) result" where
  "decodeObjects 0 z ctx acc = Inr acc"
| "decodeObjects (Suc n) z ctx acc =
     (case decodeObject z ctx acc of Inl e \<Rightarrow> Inl e | Inr acc \<Rightarrow> decodeObjects n z ctx acc)"

text \<open>The IDs handed to \<^verbatim>\<open>PrepareBases\<close>, sorted and without duplicates.\<close>

definition unknownBases :: "Workspace \<Rightarrow> string list" where
  "unknownBases w = sort (remdups (map baseID (filter
     (\<lambda>entry. baseID entry \<noteq> [] \<and> map_of (objectIndex w) (baseID entry) = None) (entries w))))"

definition prepareBases :: "ctx \<Rightarrow> (ctx \<Rightarrow> string list \<Rightarrow> err option) option list \<Rightarrow> Resolver option \<Rightarrow> Workspace \<Rightarrow> err option" where
  "prepareBases ctx options resolver w =
     (case options of
        [Some prepare] \<Rightarrow>
          (if resolver = None then None
           else (case ctx_Err ctx of
             Some e \<Rightarrow> Some e
           | None \<Rightarrow> (let ids = unknownBases w in if length ids > 0 then prepare ctx ids else None)))
      | _ \<Rightarrow> None)"

definition Decode :: "zlib \<Rightarrow> ctx \<Rightarrow> bytes \<Rightarrow> Limits \<Rightarrow> Resolver option
    \<Rightarrow> (ctx \<Rightarrow> string list \<Rightarrow> err option) option list \<Rightarrow> Workspace result" where
  "Decode z ctx input lim resolver options =
     (if length options > 1 then Inl ErrInvalid
      else if \<not> limitsValid lim then Inl ErrLimit
      else (case ctx_Err ctx of Some e \<Rightarrow> Inl e | None \<Rightarrow>
     (let r = \<lparr>pr_input = input, pr_remaining = MaxPackBytes lim, pr_read = []\<rparr> in
     (case packFull 12 r of Inl e \<Rightarrow> Inl (invalid e) | Inr (header, r) \<Rightarrow>
     (let version = big_endian32 (take 4 (drop 4 header)); cnt = big_endian32 (drop 8 header) in
      if take 4 header \<noteq> bytes_of ''PACK'' \<or> (version \<noteq> 2 \<and> version \<noteq> 3) then Inl ErrInvalid
      else if int (unat cnt) > MaxObjects lim then Inl ErrLimit
      else (case decodeObjects (unat cnt) z ctx (newWorkspace lim, [], r) of Inl e \<Rightarrow> Inl e | Inr (w, byOffset, r) \<Rightarrow>
     (let checksum = Sum1 (pr_read r) in
     (case packFull 20 r of Inl e \<Rightarrow> Inl (invalid e) | Inr (trailer, r) \<Rightarrow>
      if checksum \<noteq> trailer then Inl ErrInvalid
      else (case prepareBases ctx options resolver w of Some e \<Rightarrow> Inl e | None \<Rightarrow>
        resolve ctx byOffset resolver w)))))))))"

section \<open>Using a workspace\<close>

definition IDs :: "Workspace \<Rightarrow> string list" where
  "IDs w = sort (map fst (objectIndex w))"

definition Info :: "Workspace \<Rightarrow> string \<Rightarrow> Entry option" where
  "Info w ident = (case map_of (objectIndex w) ident of None \<Rightarrow> None | Some j \<Rightarrow> Some (Entry.truncate (entries w ! j)))"

definition GetObject :: "Workspace \<Rightarrow> ctx \<Rightarrow> string \<Rightarrow> Object result" where
  "GetObject w ctx ident =
     (case map_of (objectIndex w) ident of None \<Rightarrow> Inl ErrObjectNotFound | Some j \<Rightarrow>
      (let entry = entries w ! j in
       if \<not> dirOpen w then Inl ErrClosed
       else (case files w (path entry) of None \<Rightarrow> Inl (ErrMsg ''open staged file'') | Some content \<Rightarrow>
         (case ctx_Err ctx of Some e \<Rightarrow> Inl e | None \<Rightarrow>
           (let object = \<lparr>ObjectType = EntryType entry, ObjectData = take (nat (EntrySize entry + 1)) content\<rparr>;
                got = objectEntry object
            in if EntrySize got \<noteq> EntrySize entry \<or> EntryID got \<noteq> ident \<or> EntrySHA256 got \<noteq> EntrySHA256 entry
               then Inl ErrInvalid else Inr object)))))"

definition Close :: "Workspace \<Rightarrow> Workspace" where
  "Close w = (if \<not> dirOpen w then w else w\<lparr>dirOpen := False, files := Map.empty\<rparr>)"

end
