(* ===== verification/PackInvariant.thy ===== *)
theory PackInvariant
  imports PackWorkspace
begin

text \<open>
  The invariant of a pack workspace and its preservation by every step of \<^verbatim>\<open>Decode\<close>: the budgets
  of \<^verbatim>\<open>Limits\<close> are accounted exactly, each staged file belongs to one entry, and an entry that
  has an ID has the ID and the strong hash of the content of its file.
\<close>

section \<open>The invariant\<close>

definition fileSize :: "Workspace \<Rightarrow> nat \<Rightarrow> int" where
  "fileSize w p = (case files w p of None \<Rightarrow> 0 | Some c \<Rightarrow> int (length c))"

definition diskUsage :: "Workspace \<Rightarrow> int" where
  "diskUsage w = (\<Sum>p<nextFile w. fileSize w p)"

definition budget_ok :: "Workspace \<Rightarrow> bool" where
  "budget_ok w \<longleftrightarrow>
     0 \<le> decodedBytes w \<and> decodedBytes w \<le> MaxDecodedBytes (limits w) \<and>
     diskBytes w = diskUsage w \<and> diskBytes w \<le> MaxDiskBytes (limits w) \<and>
     (\<forall>p. nextFile w \<le> p \<longrightarrow> files w p = None)"

definition content_ok :: "Workspace \<Rightarrow> staged \<Rightarrow> bool" where
  "content_ok w e \<longleftrightarrow>
     path e < nextFile w \<and>
     (case files w (path e) of
        None \<Rightarrow> False
      | Some c \<Rightarrow>
          EntrySize e = int (length c) \<and>
          (EntryID e \<noteq> [] \<longrightarrow>
             EntryID e = objectID (EntryType e) c \<and> EntrySHA256 e = objectSHA256 (EntryType e) c \<and>
             typeCode (EntryType e) \<noteq> 0)) \<and>
     EntrySize e \<le> MaxObjectBytes (limits w) \<and> 0 \<le> depth e \<and> depth e \<le> MaxDeltaDepth (limits w)"

definition index_ok :: "Workspace \<Rightarrow> bool" where
  "index_ok w \<longleftrightarrow>
     al_wf (objectIndex w) \<and>
     (\<forall>ident j. map_of (objectIndex w) ident = Some j \<longrightarrow>
        j < length (entries w) \<and> EntryID (entries w ! j) = ident \<and> ident \<noteq> []) \<and>
     (\<forall>e \<in> set (entries w). EntryID e \<noteq> [] \<longrightarrow> map_of (objectIndex w) (EntryID e) \<noteq> None)"

definition workspace_ok :: "Workspace \<Rightarrow> bool" where
  "workspace_ok w \<longleftrightarrow>
     (\<forall>e \<in> set (entries w). content_ok w e) \<and> distinct (map path (entries w)) \<and> budget_ok w \<and> index_ok w"

definition resolving_ok :: "resolving \<Rightarrow> bool" where
  "resolving_ok st \<longleftrightarrow>
     workspace_ok (ws st) \<and>
     (\<forall>b \<in> set (map snd (external st)). content_ok (ws st) b \<and> EntryID b \<noteq> []) \<and>
     distinct (map path (entries (ws st)) @ map path (map snd (external st)))"

lemma objectID_nonempty [simp]: "objectID kind b \<noteq> []"
  using length_EncodeToString [of "Sum1 (objectHeader kind (int (length b)) @ b)"]
  unfolding objectID_def by (metis length_Sum1 list.size(3) mult_is_0 zero_neq_numeral)

lemma typeCode_typeName: "typeName kind \<noteq> [] \<Longrightarrow> typeCode (typeName kind) \<noteq> 0"
  by (auto simp: typeName_def typeCode_def split: if_splits)

section \<open>Adding and removing files\<close>

text \<open>The workspace after \<^verbatim>\<open>stage\<close>.\<close>

definition withFile :: "Workspace \<Rightarrow> bytes \<Rightarrow> Workspace" where
  "withFile w c = w\<lparr>diskBytes := diskBytes w + int (length c), decodedBytes := decodedBytes w + int (length c),
     files := (files w)(nextFile w \<mapsto> c), nextFile := Suc (nextFile w)\<rparr>"

lemma withFile_simps [simp]:
  "dirOpen (withFile w c) = dirOpen w" "limits (withFile w c) = limits w" "entries (withFile w c) = entries w"
  "objectIndex (withFile w c) = objectIndex w" "files (withFile w c) = (files w)(nextFile w \<mapsto> c)"
  "nextFile (withFile w c) = Suc (nextFile w)"
  by (simp_all add: withFile_def)

lemma stage_result:
  assumes "stage w produced outcome sz = Inr (p, w')"
  shows "p = nextFile w" "w' = withFile w produced" "sz = int (length produced)" "sz \<le> MaxObjectBytes (limits w)"
    "sz \<le> MaxDecodedBytes (limits w) - decodedBytes w" "sz \<le> MaxDiskBytes (limits w) - diskBytes w"
  using assms by (auto simp: stage_def withFile_def split: if_splits sum.splits)

lemma content_ok_withFile: "content_ok w e \<Longrightarrow> content_ok (withFile w c) e"
  by (auto simp: content_ok_def)

lemma budget_ok_withFile:
  assumes "budget_ok w" "int (length c) \<le> MaxDecodedBytes (limits w) - decodedBytes w"
    "int (length c) \<le> MaxDiskBytes (limits w) - diskBytes w"
  shows "budget_ok (withFile w c)"
proof -
  have "diskUsage (withFile w c) = diskUsage w + int (length c)"
    by (simp add: diskUsage_def fileSize_def)
  then show ?thesis using assms by (auto simp: budget_ok_def withFile_def)
qed

lemma index_ok_cong: "objectIndex w' = objectIndex w \<Longrightarrow> entries w' = entries w \<Longrightarrow> index_ok w' = index_ok w"
  by (simp add: index_ok_def)

lemma workspace_ok_withFile:
  assumes "workspace_ok w" "int (length c) \<le> MaxDecodedBytes (limits w) - decodedBytes w"
    "int (length c) \<le> MaxDiskBytes (limits w) - diskBytes w"
  shows "workspace_ok (withFile w c)"
  using assms budget_ok_withFile [of w c] index_ok_cong [of "withFile w c" w]
  by (auto simp: workspace_ok_def content_ok_withFile)

text \<open>A new entry on the file that was staged last.\<close>

definition addEntry :: "Workspace \<Rightarrow> staged \<Rightarrow> Workspace" where
  "addEntry w e = w\<lparr>entries := entries w @ [e],
     objectIndex := (if EntryID e = [] then objectIndex w else al_put (EntryID e) (length (entries w)) (objectIndex w))\<rparr>"

lemma content_ok_cong:
  "files w' = files w \<Longrightarrow> nextFile w' = nextFile w \<Longrightarrow> limits w' = limits w \<Longrightarrow> content_ok w' e = content_ok w e"
  by (simp add: content_ok_def)

lemma budget_ok_cong:
  "files w' = files w \<Longrightarrow> nextFile w' = nextFile w \<Longrightarrow> limits w' = limits w \<Longrightarrow> diskBytes w' = diskBytes w \<Longrightarrow>
     decodedBytes w' = decodedBytes w \<Longrightarrow> budget_ok w' = budget_ok w"
  by (simp add: budget_ok_def diskUsage_def fileSize_def)

lemma index_ok_addEntry:
  assumes "index_ok w"
  shows "index_ok (addEntry w e)"
  using assms by (auto simp: index_ok_def addEntry_def nth_append less_Suc_eq)

lemma workspace_ok_addEntry:
  assumes "workspace_ok w" "content_ok w e" "path e \<notin> set (map path (entries w))"
  shows "workspace_ok (addEntry w e)"
  using assms index_ok_addEntry [of w e] content_ok_cong [of "addEntry w e" w] budget_ok_cong [of "addEntry w e" w]
  by (auto simp: workspace_ok_def addEntry_def)


section \<open>Deltas\<close>

text \<open>The workspace after \<^verbatim>\<open>apply\<close>: entry \<open>i\<close> moves to a new file with content \<open>c\<close>.\<close>

definition rebuiltEntry :: "Workspace \<Rightarrow> nat \<Rightarrow> staged \<Rightarrow> bytes \<Rightarrow> staged" where
  "rebuiltEntry w i base c = (entries w ! i)\<lparr>path := nextFile w, EntryType := EntryType base, EntrySize := int (length c),
     depth := depth base + 1, EntryID := objectID (EntryType base) c, EntrySHA256 := objectSHA256 (EntryType base) c,
     EntryOffset := 0, EntryLength := 0, EntryCRC32 := 0\<rparr>"

definition rebuilt :: "Workspace \<Rightarrow> nat \<Rightarrow> staged \<Rightarrow> bytes \<Rightarrow> Workspace" where
  "rebuilt w i base c = w\<lparr>diskBytes := diskBytes w + (int (length c) - EntrySize (entries w ! i)),
     decodedBytes := decodedBytes w + int (length c),
     files := ((files w)(path (entries w ! i) := None))(nextFile w \<mapsto> c), nextFile := Suc (nextFile w),
     entries := (entries w)[i := rebuiltEntry w i base c],
     objectIndex := al_put (objectID (EntryType base) c) i (objectIndex w)\<rparr>"

lemma apply_delta_result:
  assumes "apply_delta w i base = Inr w'"
  obtains c where "w' = rebuilt w i base c" "int (length c) \<le> MaxObjectBytes (limits w)"
    "int (length c) \<le> MaxDecodedBytes (limits w) - decodedBytes w" "int (length c) \<le> MaxDiskBytes (limits w) - diskBytes w"
proof -
  from assms obtain delta source r target r' baseFile c where
    d: "files w (path (entries w ! i)) = Some delta" "deltaSize sliceByte delta = (Inr source, r)"
      "deltaSize sliceByte r = (Inr target, r')" "files w (path base) = Some baseFile"
      "deltaLoop (EntrySize base) baseFile target r' [] = Inr c" "source = EntrySize base"
      "target \<le> MaxObjectBytes (limits w)" "target \<le> MaxDecodedBytes (limits w) - decodedBytes w"
      "target \<le> MaxDiskBytes (limits w) - diskBytes w"
    by (simp add: apply_delta_def Let_def not_less split: option.splits sum.splits prod.splits if_splits)
  have "target = int (length c)" using deltaLoop_sound [OF d(5)] by auto
  with d assms have "w' = rebuilt w i base c"
    by (simp add: apply_delta_def Let_def rebuilt_def rebuiltEntry_def split: if_splits)
  with d \<open>target = int (length c)\<close> that show ?thesis by blast
qed

lemma rebuilt_simps [simp]:
  "dirOpen (rebuilt w i base c) = dirOpen w" "limits (rebuilt w i base c) = limits w"
  "entries (rebuilt w i base c) = (entries w)[i := rebuiltEntry w i base c]"
  "files (rebuilt w i base c) = ((files w)(path (entries w ! i) := None))(nextFile w \<mapsto> c)"
  "nextFile (rebuilt w i base c) = Suc (nextFile w)"
  by (simp_all add: rebuilt_def)

lemma rebuiltEntry_simps [simp]:
  "path (rebuiltEntry w i base c) = nextFile w" "EntryID (rebuiltEntry w i base c) = objectID (EntryType base) c"
  "baseOffset (rebuiltEntry w i base c) = baseOffset (entries w ! i)" "baseID (rebuiltEntry w i base c) = baseID (entries w ! i)"
  by (simp_all add: rebuiltEntry_def)

lemma content_ok_path: "content_ok w e \<Longrightarrow> path e < nextFile w"
  by (simp add: content_ok_def)

lemma content_ok_rebuilt:
  "content_ok w e \<Longrightarrow> path e \<noteq> path (entries w ! i) \<Longrightarrow> content_ok (rebuilt w i base c) e"
  by (auto simp: content_ok_def)

lemma budget_ok_rebuilt:
  assumes "budget_ok w" "content_ok w (entries w ! i)" "int (length c) \<le> MaxDecodedBytes (limits w) - decodedBytes w"
    "int (length c) \<le> MaxDiskBytes (limits w) - diskBytes w"
  shows "budget_ok (rebuilt w i base c)"
proof -
  let ?p = "path (entries w ! i)"
  have p: "?p \<in> {..<nextFile w}" "fileSize w ?p = EntrySize (entries w ! i)" "0 \<le> EntrySize (entries w ! i)"
    using assms(2) by (auto simp: content_ok_def fileSize_def split: option.splits)
  have same: "(\<Sum>x\<in>{..<nextFile w} - {?p}. fileSize (rebuilt w i base c) x) = (\<Sum>x\<in>{..<nextFile w} - {?p}. fileSize w x)"
    by (rule sum.cong) (auto simp: fileSize_def)
  have "diskUsage (rebuilt w i base c) = (\<Sum>x<nextFile w. fileSize (rebuilt w i base c) x) + int (length c)"
    by (simp add: diskUsage_def fileSize_def)
  also have "\<dots> = diskUsage w - EntrySize (entries w ! i) + int (length c)"
    unfolding diskUsage_def using sum.remove [OF _ p(1), of "fileSize w"] sum.remove [OF _ p(1), of "fileSize (rebuilt w i base c)"] same p
    by (simp add: fileSize_def)
  finally show ?thesis using assms p by (auto simp: budget_ok_def rebuilt_def)
qed

lemma index_ok_rebuilt:
  assumes "index_ok w" "i < length (entries w)" "EntryID (entries w ! i) = []"
  shows "index_ok (rebuilt w i base c)"
proof -
  have "set ((entries w)[i := rebuiltEntry w i base c]) \<subseteq> insert (rebuiltEntry w i base c) (set (entries w))"
    by (rule set_update_subset_insert)
  with assms show ?thesis
    unfolding index_ok_def rebuilt_def by (auto simp: nth_list_update)
qed

lemma path_distinct:
  assumes "workspace_ok w" "i < length (entries w)" "e \<in> set (entries w)" "path e = path (entries w ! i)"
  shows "e = entries w ! i"
  using assms by (metis distinct_map inj_onD nth_mem workspace_ok_def)

lemma workspace_ok_rebuilt:
  assumes ok: "workspace_ok w" and i: "i < length (entries w)" "EntryID (entries w ! i) = []"
    and base: "content_ok w base" "EntryID base \<noteq> []" "depth base < MaxDeltaDepth (limits w)"
    and c: "int (length c) \<le> MaxObjectBytes (limits w)" "int (length c) \<le> MaxDecodedBytes (limits w) - decodedBytes w"
      "int (length c) \<le> MaxDiskBytes (limits w) - diskBytes w"
  shows "workspace_ok (rebuilt w i base c)"
proof -
  let ?w = "rebuilt w i base c"
  have new: "content_ok ?w (rebuiltEntry w i base c)"
    using base c by (auto simp: content_ok_def rebuiltEntry_def split: option.splits)
  have "content_ok ?w e" if "e \<in> set (entries ?w)" for e
  proof -
    obtain j where j: "j < length (entries w)" "e = (entries w)[i := rebuiltEntry w i base c] ! j"
      using \<open>e \<in> set (entries ?w)\<close> by (auto simp: in_set_conv_nth)
    show ?thesis
    proof (cases "j = i")
      case False
      then have "path (entries w ! j) \<noteq> path (entries w ! i)"
        using ok i j by (auto simp: workspace_ok_def distinct_conv_nth)
      with False j ok show ?thesis by (simp add: content_ok_rebuilt workspace_ok_def)
    qed (use new j in simp)
  qed
  moreover have "distinct (map path (entries ?w))"
  proof -
    have "nextFile w \<notin> set (map path (entries w))"
      using ok by (fastforce simp: workspace_ok_def dest: content_ok_path)
    with ok show ?thesis by (simp add: workspace_ok_def map_update distinct_list_update)
  qed
  ultimately show ?thesis
    using ok i c budget_ok_rebuilt [of w i c base] index_ok_rebuilt [of w i base c] by (simp add: workspace_ok_def)
qed


section \<open>Resolving deltas\<close>

text \<open>What every step of \<^verbatim>\<open>resolve\<close> keeps: the number of entries, their bases and the limits.\<close>

definition offsets_ok :: "(int \<times> nat) list \<Rightarrow> staged list \<Rightarrow> bool" where
  "offsets_ok byOffset es \<longleftrightarrow>
     (\<forall>j \<in> snd ` set byOffset. j < length es) \<and>
     (\<forall>k \<in> set (map baseOffset es). k \<ge> 0 \<longrightarrow> map_of byOffset k \<noteq> None)"

definition same_shape :: "Workspace \<Rightarrow> Workspace \<Rightarrow> bool" where
  "same_shape w w' \<longleftrightarrow> limits w' = limits w \<and> dirOpen w' = dirOpen w \<and>
     map baseOffset (entries w') = map baseOffset (entries w)"

lemma same_shape_refl [simp]: "same_shape w w"
  by (simp add: same_shape_def)

lemma same_shape_trans: "same_shape w w' \<Longrightarrow> same_shape w' w'' \<Longrightarrow> same_shape w w''"
  by (simp add: same_shape_def)

lemma same_shape_length: "same_shape w w' \<Longrightarrow> length (entries w') = length (entries w)"
  by (metis length_map same_shape_def)

lemma same_shape_offsets:
  assumes "same_shape w w'" "offsets_ok byOffset (entries w)"
  shows "offsets_ok byOffset (entries w')"
proof -
  have "map baseOffset (entries w') = map baseOffset (entries w)" using assms(1) by (simp add: same_shape_def)
  with assms show ?thesis by (simp only: offsets_ok_def same_shape_length)
qed

lemma same_shape_rebuilt: "i < length (entries w) \<Longrightarrow> same_shape w (rebuilt w i base c)"
  by (simp add: same_shape_def map_update list_update_same_conv)

lemma same_shape_withFile: "same_shape w (withFile w c)"
  by (simp add: same_shape_def)

text \<open>An external base as \<^verbatim>\<open>resolve\<close> stages it.\<close>

definition externalBase :: "Workspace \<Rightarrow> Object \<Rightarrow> staged" where
  "externalBase w object =
     Entry.extend (objectEntry object) \<lparr>path = nextFile w, baseID = [], baseOffset = 0, depth = 0\<rparr>"

lemma findBase_cases:
  assumes found: "findBase ctx resolver byOffset st entry = Inr (b, st')"
    and ok: "index_ok (ws st)" "\<forall>b \<in> set (map snd (external st)). EntryID b \<noteq> []"
    and off: "offsets_ok byOffset (entries (ws st))"
  obtains (present) "ws st' = ws st" "external st' = external st"
      "\<And>base. b = Some base \<Longrightarrow> EntryID base \<noteq> [] \<and> base \<in> set (entries (ws st)) \<union> set (map snd (external st))"
    | (fetched) object where "ws st' = withFile (ws st) (ObjectData object)"
      "external st' = al_put (baseID entry) (externalBase (ws st) object) (external st)"
      "b = Some (externalBase (ws st) object)"
      "map_of (external st) (baseID entry) = None" "typeCode (ObjectType object) \<noteq> 0"
      "int (length (ObjectData object)) \<le> MaxObjectBytes (limits (ws st))"
      "int (length (ObjectData object)) \<le> MaxDecodedBytes (limits (ws st)) - decodedBytes (ws st)"
      "int (length (ObjectData object)) \<le> MaxDiskBytes (limits (ws st)) - diskBytes (ws st)"
proof (cases "baseOffset entry \<ge> 0")
  case True
  then show ?thesis
  proof (intro present)
    fix base assume b: "b = Some base"
    with True found obtain j where "map_of byOffset (baseOffset entry) = Some j" "base = entries (ws st) ! j" "EntryID base \<noteq> []"
      by (auto simp: findBase_def Let_def split: option.splits if_splits)
    with off show "EntryID base \<noteq> [] \<and> base \<in> set (entries (ws st)) \<union> set (map snd (external st))"
      by (force simp: offsets_ok_def dest: map_of_SomeD)
  qed (use found in \<open>auto simp: findBase_def Let_def split: option.splits\<close>)
next
  case offsetless: False
  show ?thesis
  proof (cases "map_of (objectIndex (ws st)) (baseID entry)")
    case (Some j)
    with offsetless found ok(1) show ?thesis
      by (intro present) (auto simp: findBase_def index_ok_def)
  next
    case unindexed: None
    show ?thesis
    proof (cases "map_of (external st) (baseID entry)")
      case (Some base)
      with offsetless unindexed found ok(2) show ?thesis
        by (intro present) (auto simp: findBase_def dest!: map_of_SomeD intro: rev_image_eqI)
    next
      case None
      note found' = found [unfolded findBase_def if_not_P [OF offsetless] unindexed None option.case]
      show ?thesis
      proof (cases "\<exists>f object. resolver = Some f \<and> baseID entry \<notin> missing st \<and> f ctx (baseID entry) = Inr object")
        case True
        then obtain f object where f: "resolver = Some f" "baseID entry \<notin> missing st" "f ctx (baseID entry) = Inr object"
          by blast
        with found' obtain p w where
          lim: "\<not> int (length (ObjectData object)) > MaxObjectBytes (limits (ws st))" and
          info: "typeCode (ObjectType object) \<noteq> 0" and
          st: "stage (ws st) (ObjectData object) (Inr 0) (EntrySize (objectEntry object)) = Inr (p, w)"
            "b = Some (Entry.extend (objectEntry object) \<lparr>path = p, baseID = [], baseOffset = 0, depth = 0\<rparr>)"
            "st' = st\<lparr>ws := w, external := al_put (baseID entry)
               (Entry.extend (objectEntry object) \<lparr>path = p, baseID = [], baseOffset = 0, depth = 0\<rparr>) (external st)\<rparr>"
          by (simp add: Let_def split: if_splits sum.splits prod.splits)
        have "EntrySize (objectEntry object) = int (length (ObjectData object))" by (simp add: objectEntry_def)
        with stage_result [OF st(1)] st lim info None show ?thesis
          by (intro fetched [of object]) (simp_all add: externalBase_def)
      next
        case False
        with found' have "b = None" "ws st' = ws st" "external st' = external st"
          by (auto split: option.splits if_splits sum.splits)
        then show ?thesis by (intro present) auto
      qed
    qed
  qed
qed


lemma findBase_result:
  assumes found: "findBase ctx resolver byOffset st entry = Inr (b, st')"
    and ok: "resolving_ok st" and off: "offsets_ok byOffset (entries (ws st))" and lim: "0 \<le> MaxDeltaDepth (limits (ws st))"
  shows "resolving_ok st' \<and> same_shape (ws st) (ws st') \<and> entries (ws st') = entries (ws st) \<and>
    (\<forall>base. b = Some base \<longrightarrow> content_ok (ws st') base \<and> EntryID base \<noteq> [])"
proof -
  from ok have idx: "index_ok (ws st)" "\<forall>b \<in> set (map snd (external st)). EntryID b \<noteq> []"
    by (simp_all add: resolving_ok_def workspace_ok_def)
  from found idx off show ?thesis
  proof (cases rule: findBase_cases)
    case present
    with ok show ?thesis by (fastforce simp: resolving_ok_def workspace_ok_def)
  next
    case (fetched object)
    let ?b = "externalBase (ws st) object" and ?w = "withFile (ws st) (ObjectData object)"
    have b: "content_ok ?w ?b" "EntryID ?b \<noteq> []" "path ?b = nextFile (ws st)"
      using fetched lim by (simp_all add: content_ok_def externalBase_def objectEntry_def Entry.defs)
    have old: "\<forall>e \<in> set (entries (ws st)) \<union> set (map snd (external st)). content_ok (ws st) e"
      using ok by (auto simp: resolving_ok_def workspace_ok_def)
    have ext: "map snd (external st') = map snd (external st) @ [?b]"
      using fetched(2) by (simp add: al_put_new [OF fetched(4)])
    have "workspace_ok ?w"
      using ok fetched by (intro workspace_ok_withFile) (simp_all add: resolving_ok_def)
    moreover have "\<forall>b \<in> set (map snd (external st')). content_ok ?w b \<and> EntryID b \<noteq> []"
      unfolding ext using b old idx by (auto simp: content_ok_withFile)
    moreover have "distinct (map path (entries ?w) @ map path (map snd (external st')))"
    proof -
      have "nextFile (ws st) \<notin> path ` (set (entries (ws st)) \<union> set (map snd (external st)))"
        using old content_ok_path by fastforce
      then show ?thesis unfolding ext using ok b(3) by (auto simp: resolving_ok_def)
    qed
    ultimately show ?thesis using fetched(1,3) b same_shape_withFile by (simp add: resolving_ok_def)
  qed
qed

lemma resolving_ok_external: "resolving_ok st \<Longrightarrow> b \<in> set (map snd (external st)) \<Longrightarrow> content_ok (ws st) b"
  unfolding resolving_ok_def by blast

lemma resolving_ok_ws:
  "resolving_ok (st\<lparr>ws := w\<rparr>) \<longleftrightarrow>
     workspace_ok w \<and> (\<forall>b \<in> set (map snd (external st)). content_ok w b \<and> EntryID b \<noteq> []) \<and>
     distinct (map path (entries w) @ map path (map snd (external st)))"
  by (simp add: resolving_ok_def)

lemma apply_delta_ok:
  assumes ok: "resolving_ok st" and i: "i < length (entries (ws st))" "EntryID (entries (ws st) ! i) = []"
    and base: "content_ok (ws st) base" "EntryID base \<noteq> []" "depth base < MaxDeltaDepth (limits (ws st))"
    and app: "apply_delta (ws st) i base = Inr w"
  shows "resolving_ok (st\<lparr>ws := w\<rparr>) \<and> same_shape (ws st) w"
proof -
  from app obtain c where c: "w = rebuilt (ws st) i base c" "int (length c) \<le> MaxObjectBytes (limits (ws st))"
    "int (length c) \<le> MaxDecodedBytes (limits (ws st)) - decodedBytes (ws st)"
    "int (length c) \<le> MaxDiskBytes (limits (ws st)) - diskBytes (ws st)"
    by (rule apply_delta_result)
  have "workspace_ok w"
    unfolding c(1) using ok i base c(2-) by (intro workspace_ok_rebuilt) (simp_all add: resolving_ok_def)
  moreover have disj: "set (map path (entries (ws st))) \<inter> set (map path (map snd (external st))) = {}"
    using ok by (simp only: resolving_ok_def distinct_append)
  moreover have "content_ok w b" if b: "b \<in> set (map snd (external st))" for b
  proof -
    have "path (entries (ws st) ! i) \<in> set (map path (entries (ws st)))" using i by simp
    moreover have "path b \<in> set (map path (map snd (external st)))" using b by auto
    ultimately have "path b \<noteq> path (entries (ws st) ! i)"
      using disj disjoint_iff by metis
    with resolving_ok_external [OF ok b] show ?thesis unfolding c(1) by (intro content_ok_rebuilt)
  qed
  moreover have "distinct (map path (entries w) @ map path (map snd (external st)))"
  proof -
    let ?ext = "set (map path (map snd (external st)))"
    have "nextFile (ws st) \<notin> ?ext"
      using resolving_ok_external [OF ok] content_ok_path by fastforce
    moreover have "set (map path (entries w)) \<subseteq> insert (nextFile (ws st)) (set (map path (entries (ws st))))"
      unfolding c(1) rebuilt_simps map_update rebuiltEntry_simps by (rule set_update_subset_insert)
    ultimately have "set (map path (entries w)) \<inter> ?ext = {}" using disj by (simp only: disjoint_iff) blast
    then show ?thesis using ok \<open>workspace_ok w\<close> by (simp only: resolving_ok_def workspace_ok_def distinct_append)
  qed
  moreover have "\<forall>b \<in> set (map snd (external st)). EntryID b \<noteq> []" using ok unfolding resolving_ok_def by blast
  moreover have "same_shape (ws st) w" unfolding c(1) using i(1) by (rule same_shape_rebuilt)
  ultimately show ?thesis unfolding resolving_ok_ws by blast
qed

text \<open>One entry, one pass and all passes of \<^verbatim>\<open>resolve\<close>.\<close>

lemma resolveEntry_ok:
  assumes run: "resolveEntry ctx resolver byOffset i (st, pending, progress) = Inr (st', pending', progress')"
    and ok: "resolving_ok st" and off: "offsets_ok byOffset (entries (ws st))" and lim: "0 \<le> MaxDeltaDepth (limits (ws st))"
    and i: "i < length (entries (ws st))"
  shows "resolving_ok st' \<and> same_shape (ws st) (ws st')"
proof (cases "EntryID (entries (ws st) ! i) = []")
  case True
  with run obtain b st1 where b: "findBase ctx resolver byOffset st (entries (ws st) ! i) = Inr (b, st1)"
    by (auto simp: resolveEntry_def Let_def split: option.splits sum.splits)
  note res = findBase_result [OF b ok off lim]
  show ?thesis
  proof (cases b)
    case None
    with run True b res show ?thesis by (simp add: resolveEntry_def Let_def split: option.splits)
  next
    case (Some base)
    with run True b obtain w where w: "depth base < MaxDeltaDepth (limits (ws st1))"
      "apply_delta (ws st1) i base = Inr w" "st' = st1\<lparr>ws := w\<rparr>"
      by (auto simp: resolveEntry_def Let_def split: option.splits sum.splits if_splits)
    from res have st1: "resolving_ok st1" "same_shape (ws st) (ws st1)" "entries (ws st1) = entries (ws st)"
      "content_ok (ws st1) base" "EntryID base \<noteq> []"
      using Some by auto
    have "resolving_ok (st1\<lparr>ws := w\<rparr>) \<and> same_shape (ws st1) w"
      by (rule apply_delta_ok [OF st1(1) _ _ st1(4,5) w(1,2)]) (use st1(3) i True in simp_all)
    with w(3) st1(2) show ?thesis by (auto intro: same_shape_trans)
  qed
next
  case False
  with run ok show ?thesis by (simp add: resolveEntry_def)
qed

lemma resolvePass_ok:
  assumes "resolvePass ctx resolver byOffset is (st, pending, progress) = Inr (st', pending', progress')"
    and "resolving_ok st" "offsets_ok byOffset (entries (ws st))" "0 \<le> MaxDeltaDepth (limits (ws st))"
    and "\<forall>i \<in> set is. i < length (entries (ws st))"
  shows "resolving_ok st' \<and> same_shape (ws st) (ws st')"
  using assms
proof (induction "is" arbitrary: st pending progress)
  case (Cons i "is")
  then obtain st1 pending1 progress1 where
    step: "resolveEntry ctx resolver byOffset i (st, pending, progress) = Inr (st1, pending1, progress1)" and
    rest: "resolvePass ctx resolver byOffset is (st1, pending1, progress1) = Inr (st', pending', progress')"
    by (auto split: sum.splits)
  from resolveEntry_ok [OF step] Cons.prems have one: "resolving_ok st1" "same_shape (ws st) (ws st1)" by auto
  have "resolving_ok st' \<and> same_shape (ws st1) (ws st')"
    using Cons.IH [OF rest one(1)] Cons.prems one(2) same_shape_offsets [OF one(2)] same_shape_length [OF one(2)]
    by (auto simp: same_shape_def)
  with one show ?case by (auto intro: same_shape_trans)
qed simp

text \<open>A pass that finds nothing pending changes nothing and leaves every entry identified.\<close>

lemma resolveEntry_pending:
  assumes "resolveEntry ctx resolver byOffset i (st, pending, progress) = Inr (st', pending', progress')"
  shows "pending \<le> pending'" and "pending' = pending \<Longrightarrow> st' = st \<and> EntryID (entries (ws st) ! i) \<noteq> []"
  using assms by (auto simp: resolveEntry_def Let_def split: if_splits option.splits sum.splits prod.splits)

lemma resolvePass_pending:
  assumes "resolvePass ctx resolver byOffset is (st, pending, progress) = Inr (st', pending', progress')"
  shows "pending \<le> pending' \<and> (pending' = pending \<longrightarrow> st' = st \<and> (\<forall>i \<in> set is. EntryID (entries (ws st) ! i) \<noteq> []))"
  using assms
proof (induction "is" arbitrary: st pending progress)
  case (Cons i "is")
  then obtain st1 pending1 progress1 where
    step: "resolveEntry ctx resolver byOffset i (st, pending, progress) = Inr (st1, pending1, progress1)" and
    rest: "resolvePass ctx resolver byOffset is (st1, pending1, progress1) = Inr (st', pending', progress')"
    by (auto split: sum.splits)
  from Cons.IH [OF rest] resolveEntry_pending [OF step] show ?case by auto
qed simp

lemma resolvePasses_ok:
  assumes "resolvePasses n ctx resolver byOffset st = Inr st'"
    and "resolving_ok st" "offsets_ok byOffset (entries (ws st))" "0 \<le> MaxDeltaDepth (limits (ws st))"
  shows "resolving_ok st' \<and> same_shape (ws st) (ws st') \<and> (\<forall>e \<in> set (entries (ws st')). EntryID e \<noteq> [])"
  using assms
proof (induction n arbitrary: st)
  case (Suc n)
  then obtain st1 pending progress where
    pass: "resolvePass ctx resolver byOffset [0..<length (entries (ws st))] (st, 0, False) = Inr (st1, pending, progress)"
    by (auto split: sum.splits)
  note one = resolvePass_ok [OF pass Suc.prems(2-4)]
  have one': "resolving_ok st1" "same_shape (ws st) (ws st1)" using one by auto
  show ?case
  proof (cases "pending = 0")
    case True
    with pass Suc.prems(1) have "st' = st1" by simp
    moreover from resolvePass_pending [OF pass] True have "st1 = st" "\<forall>e \<in> set (entries (ws st)). EntryID e \<noteq> []"
      by (auto simp: in_set_conv_nth)
    ultimately show ?thesis using Suc.prems by simp
  next
    case False
    with pass Suc.prems(1) have "resolvePasses n ctx resolver byOffset st1 = Inr st'"
      by (auto split: if_splits)
    from Suc.IH [OF this one'(1) same_shape_offsets [OF one'(2) Suc.prems(3)]] one'(2) Suc.prems(4)
    show ?thesis by (auto simp: same_shape_def)
  qed
qed simp

lemma resolve_ok:
  assumes "resolve ctx byOffset resolver w = Inr w'" "workspace_ok w" "offsets_ok byOffset (entries w)"
    "0 \<le> MaxDeltaDepth (limits w)"
  shows "workspace_ok w'" "same_shape w w'" "\<forall>e \<in> set (entries w'). EntryID e \<noteq> []"
  using assms resolvePasses_ok [of _ ctx resolver byOffset "\<lparr>ws = w, external = [], missing = {}\<rparr>"]
  by (auto simp: resolve_def resolving_ok_def workspace_ok_def split: sum.splits)


section \<open>Reading the objects of a pack\<close>

lemma readBase_result:
  assumes "readBase kind byOffset r entry = Inr (entry', r')"
  shows "EntryID entry' = EntryID entry \<and> EntryType entry' = EntryType entry \<and> EntryOffset entry' = EntryOffset entry \<and>
    depth entry' = depth entry \<and> (baseOffset entry' = baseOffset entry \<or> map_of byOffset (baseOffset entry') \<noteq> None)"
  using assms by (auto simp: readBase_def Let_def split: if_splits sum.splits prod.splits)

lemma recordObject_result:
  assumes run: "recordObject e (w, byOffset, r) = Inr (w', byOffset', r')" and c: "files w (path e) = Some c"
    and e: "EntryID e = []" "EntryType e \<noteq> [] \<longrightarrow> typeCode (EntryType e) \<noteq> 0"
  obtains e' where "w' = addEntry w e'" "byOffset' = al_put (EntryOffset e) (length (entries w)) byOffset"
    "path e' = path e" "EntrySize e' = EntrySize e" "depth e' = depth e" "baseOffset e' = baseOffset e"
    "EntryOffset e' = EntryOffset e"
    "EntryID e' \<noteq> [] \<longrightarrow> EntryID e' = objectID (EntryType e') c \<and> EntrySHA256 e' = objectSHA256 (EntryType e') c \<and>
       typeCode (EntryType e') \<noteq> 0"
proof (cases "EntryType e = []")
  case True
  with run e show ?thesis by (intro that [of e]) (auto simp: recordObject_def addEntry_def split: if_splits)
next
  case False
  define e' where "e' = e\<lparr>EntryID := objectID (EntryType e) c, EntrySHA256 := objectSHA256 (EntryType e) c\<rparr>"
  from False run c have "w' = addEntry w e'" "byOffset' = al_put (EntryOffset e) (length (entries w)) byOffset"
    by (auto simp: recordObject_def identify_def Let_def addEntry_def e'_def split: if_splits)
  then show ?thesis using False e by (intro that [of e']) (auto simp: e'_def)
qed

lemma inflateObject_result:
  assumes "inflateObject z start sz entry (w, byOffset, r) = Inr (w', byOffset', r')"
  obtains c e r1 where "recordObject e (withFile w c, byOffset, r1) = Inr (w', byOffset', r')"
    "EntryID e = EntryID entry" "EntryType e = EntryType entry" "EntryOffset e = EntryOffset entry" "depth e = depth entry"
    "baseOffset e = baseOffset entry" "path e = nextFile w" "EntrySize e = int (length c)"
    "int (length c) \<le> MaxObjectBytes (limits w)" "int (length c) \<le> MaxDecodedBytes (limits w) - decodedBytes w"
    "int (length c) \<le> MaxDiskBytes (limits w) - diskBytes w"
proof -
  obtain stream endErr where ps: "packStream r = (stream, endErr)" by fastforce
  obtain c outcome where zl: "zl_read z stream endErr = (c, outcome)" by fastforce
  from assms obtain p w1 where st: "stage w c outcome sz = Inr (p, w1)"
    by (simp add: inflateObject_def ps zl split: option.splits sum.splits prod.splits)
  note st' = stage_result [OF st]
  define r1 where "r1 = packAdvance (case outcome of Inr n \<Rightarrow> n | Inl _ \<Rightarrow> length stream) r"
  define e where "e = entry\<lparr>path := p, EntrySize := sz, EntryLength := int (length (pr_read r1) - start),
    EntryCRC32 := ChecksumIEEE (drop start (pr_read r1))\<rparr>"
  have "recordObject e (w1, byOffset, r1) = Inr (w', byOffset', r')"
    using assms by (simp add: inflateObject_def ps zl st Let_def e_def r1_def split: option.splits)
  with st' show ?thesis by (intro that [of e c r1]) (simp_all add: e_def)
qed

lemma decodeObject_ok:
  assumes run: "decodeObject z ctx (w, byOffset, r) = Inr (w', byOffset', r')"
    and ok: "workspace_ok w" "offsets_ok byOffset (entries w)" "0 \<le> MaxDeltaDepth (limits w)"
  shows "workspace_ok w' \<and> offsets_ok byOffset' (entries w') \<and> limits w' = limits w \<and> dirOpen w' = dirOpen w \<and>
    length (entries w') = Suc (length (entries w))"
proof -
  from run obtain kind sz r1 entry r2 where
    b: "readBase kind byOffset r1 (emptyStaged\<lparr>EntryOffset := int (length (pr_read r)), EntryType := typeName kind\<rparr>) = Inr (entry, r2)"
    and inf: "inflateObject z (length (pr_read r)) sz entry (w, byOffset, r2) = Inr (w', byOffset', r')"
    by (auto simp: decodeObject_def Let_def split: option.splits sum.splits prod.splits if_splits)
  from readBase_result [OF b] have entry: "EntryID entry = []" "EntryType entry = typeName kind" "depth entry = 0"
    "baseOffset entry = -1 \<or> map_of byOffset (baseOffset entry) \<noteq> None"
    by (auto simp: emptyStaged_def)
  from inf obtain c e r3 where e: "recordObject e (withFile w c, byOffset, r3) = Inr (w', byOffset', r')"
      "EntryID e = EntryID entry" "EntryType e = EntryType entry" "depth e = depth entry"
      "baseOffset e = baseOffset entry" "path e = nextFile w" "EntrySize e = int (length c)"
    and c: "int (length c) \<le> MaxObjectBytes (limits w)" "int (length c) \<le> MaxDecodedBytes (limits w) - decodedBytes w"
      "int (length c) \<le> MaxDiskBytes (limits w) - diskBytes w"
    by (rule inflateObject_result)
  have e': "files (withFile w c) (path e) = Some c" "EntryID e = []" "EntryType e \<noteq> [] \<longrightarrow> typeCode (EntryType e) \<noteq> 0"
    using e entry by (simp_all add: typeCode_typeName)
  from recordObject_result [OF e(1) e'] obtain e2 where
    e2: "w' = addEntry (withFile w c) e2" "byOffset' = al_put (EntryOffset e) (length (entries (withFile w c))) byOffset"
      "path e2 = path e" "EntrySize e2 = EntrySize e" "depth e2 = depth e" "baseOffset e2 = baseOffset e"
      "EntryID e2 \<noteq> [] \<longrightarrow> EntryID e2 = objectID (EntryType e2) c \<and> EntrySHA256 e2 = objectSHA256 (EntryType e2) c \<and>
         typeCode (EntryType e2) \<noteq> 0"
    by metis
  have "content_ok (withFile w c) e2"
    using e e2 entry c ok(3) by (simp add: content_ok_def)
  moreover have "path e2 \<notin> set (map path (entries (withFile w c)))"
    using ok(1) e e2 by (fastforce simp: workspace_ok_def dest: content_ok_path)
  ultimately have "workspace_ok w'"
    unfolding e2(1) using workspace_ok_withFile [OF ok(1) c(2,3)] by (intro workspace_ok_addEntry)
  moreover have "offsets_ok byOffset' (entries w')"
    using ok(2) e entry e2 unfolding offsets_ok_def
    by (auto simp: addEntry_def less_Suc_eq dest!: al_put_snd)
  ultimately show ?thesis using e2(1) by (simp add: addEntry_def)
qed

lemma decodeObjects_ok:
  assumes "decodeObjects n z ctx (w, byOffset, r) = Inr (w', byOffset', r')"
    and "workspace_ok w" "offsets_ok byOffset (entries w)" "0 \<le> MaxDeltaDepth (limits w)"
  shows "workspace_ok w' \<and> offsets_ok byOffset' (entries w') \<and> limits w' = limits w \<and> dirOpen w' = dirOpen w \<and>
    length (entries w') = length (entries w) + n"
  using assms
proof (induction n arbitrary: w byOffset r)
  case (Suc n)
  from Suc.prems(1) obtain w1 byOffset1 r1 where one: "decodeObject z ctx (w, byOffset, r) = Inr (w1, byOffset1, r1)"
    and rest: "decodeObjects n z ctx (w1, byOffset1, r1) = Inr (w', byOffset', r')"
    by (auto split: sum.splits)
  from decodeObject_ok [OF one Suc.prems(2-4)] Suc.IH [OF rest] Suc.prems(4) show ?case by auto
qed simp

lemma newWorkspace_ok: "limitsValid l \<Longrightarrow> workspace_ok (newWorkspace l) \<and> offsets_ok [] (entries (newWorkspace l))"
  by (simp add: workspace_ok_def newWorkspace_def budget_ok_def index_ok_def diskUsage_def offsets_ok_def limitsValid_def)

lemma Decode_steps:
  assumes "Decode z ctx input lim resolver options = Inr w"
  obtains header r0 w0 byOffset r1 trailer r2 where
    "limitsValid lim" "ctx_Err ctx = None" 
    "packFull 12 \<lparr>pr_input = input, pr_remaining = MaxPackBytes lim, pr_read = []\<rparr> = Inr (header, r0)"
    "decodeObjects (unat (big_endian32 (drop 8 header))) z ctx (newWorkspace lim, [], r0) = Inr (w0, byOffset, r1)"
    "packFull 20 r1 = Inr (trailer, r2)" "trailer = Sum1 (pr_read r1)"
    "resolve ctx byOffset resolver w0 = Inr w"
  using assms by (auto simp: Decode_def Let_def split: if_splits option.splits sum.splits prod.splits)

lemma Decode_ok:
  assumes "Decode z ctx input lim resolver options = Inr w"
  shows "limitsValid lim" "workspace_ok w" "limits w = lim" "dirOpen w" "\<forall>e \<in> set (entries w). EntryID e \<noteq> []"
proof -
  from assms obtain header r0 w0 byOffset r1 where lim: "limitsValid lim"
    and objs: "decodeObjects (unat (big_endian32 (drop 8 header))) z ctx (newWorkspace lim, [], r0) = Inr (w0, byOffset, r1)"
    and res: "resolve ctx byOffset resolver w0 = Inr w"
    by (rule Decode_steps)
  have l: "limits (newWorkspace lim) = lim" "dirOpen (newWorkspace lim)" "0 \<le> MaxDeltaDepth lim"
    using lim by (simp_all add: newWorkspace_def limitsValid_def)
  from decodeObjects_ok [OF objs] newWorkspace_ok [OF lim] l
  have w0: "workspace_ok w0" "offsets_ok byOffset (entries w0)" "limits w0 = lim" "dirOpen w0" by auto
  from resolve_ok [OF res w0(1,2)] w0(3,4) l(3) show "workspace_ok w" "limits w = lim" "dirOpen w"
    "\<forall>e \<in> set (entries w). EntryID e \<noteq> []"
    by (auto simp: same_shape_def)
qed (rule Decode_steps [OF assms])

end
