(* ===== verification/PackWrite.thy ===== *)
theory PackWrite
  imports PackInvariant
begin

unbundle bit_operations_syntax

text \<open>
  \<^verbatim>\<open>internal/gitpack/write.go\<close>: writing a canonical pack and decoding one entry of it. The output
  is a parameter: given what it has accepted so far, \<open>sink\<close> says how many bytes of the next
  write it takes and with which error. The hashes of \<^verbatim>\<open>packWriter\<close> are those of the bytes accepted.
\<close>

section \<open>The model\<close>

type_synonym sink = "bytes \<Rightarrow> bytes \<Rightarrow> nat \<times> err option"

record packWriter =
  pw_out :: bytes
  pw_limit :: int

definition packWrite :: "ctx \<Rightarrow> sink \<Rightarrow> bytes \<Rightarrow> packWriter \<Rightarrow> err option \<times> packWriter" where
  "packWrite ctx sink p w =
     (case ctx_Err ctx of
        Some e \<Rightarrow> (Some e, w)
      | None \<Rightarrow>
          if int (length p) > pw_limit w - int (length (pw_out w)) then (Some ErrLimit, w)
          else (let (n, e) = sink (pw_out w) p; w = w\<lparr>pw_out := pw_out w @ take n p\<rparr>
                in (case e of
                      Some e \<Rightarrow> (Some e, w)
                    | None \<Rightarrow> (if n \<noteq> length p then Some (ErrMsg ''short write'') else None, w))))"

text \<open>The chunks of the compressor; it stops at the first error, which its \<^verbatim>\<open>Close\<close> repeats.\<close>

fun writeChunks :: "ctx \<Rightarrow> sink \<Rightarrow> bytes list \<Rightarrow> packWriter \<Rightarrow> err option \<times> packWriter" where
  "writeChunks ctx sink [] w = (None, w)"
| "writeChunks ctx sink (p # ps) w =
     (case packWrite ctx sink p w of
        (Some e, w) \<Rightarrow> (Some e, w)
      | (None, w) \<Rightarrow> writeChunks ctx sink ps w)"

definition validID :: "string \<Rightarrow> bool" where
  "validID ident \<longleftrightarrow> length ident = 40 \<and> list_all lower_hex_char ident"

text \<open>One round of the loop over the sorted IDs; \<open>tot\<close> is the decoded size so far.\<close>

definition writeObject :: "zlib \<Rightarrow> ctx \<Rightarrow> sink \<Rightarrow> Resolver \<Rightarrow> Limits \<Rightarrow> string \<Rightarrow> int \<Rightarrow> packWriter
    \<Rightarrow> (Entry \<times> int) result \<times> packWriter" where
  "writeObject z ctx sink resolver lim ident tot w =
     (case ctx_Err ctx of Some e \<Rightarrow> (Inl e, w) | None \<Rightarrow>
     (case resolver ctx ident of Inl e \<Rightarrow> (Inl e, w) | Inr object \<Rightarrow>
     (let kind = typeCode (ObjectType object); sz = int (length (ObjectData object)) in
      if kind = 0 then (Inl ErrInvalid, w)
      else if sz > MaxObjectBytes lim \<or> sz > MaxDecodedBytes lim - tot then (Inl ErrLimit, w)
      else (let tot = tot + sz; entry = objectEntry object; start = length (pw_out w) in
      if EntryID entry \<noteq> ident then (Inl ErrInvalid, w)
      else (case packWrite ctx sink (encodeHeader kind sz) w of
        (Some e, w) \<Rightarrow> (Inl e, w)
      | (None, w) \<Rightarrow>
          (case writeChunks ctx sink (zl_write z (ObjectData object)) w of
             (Some e, w) \<Rightarrow> (Inl e, w)
           | (None, w) \<Rightarrow>
               (Inr (entry\<lparr>EntryOffset := int start, EntryLength := int (length (pw_out w)) - int start,
                           EntryCRC32 := ChecksumIEEE (drop start (pw_out w))\<rparr>, tot), w)))))))"

fun writeObjects :: "zlib \<Rightarrow> ctx \<Rightarrow> sink \<Rightarrow> Resolver \<Rightarrow> Limits \<Rightarrow> string list \<Rightarrow> int \<Rightarrow> packWriter
    \<Rightarrow> Entry list result \<times> packWriter" where
  "writeObjects z ctx sink resolver lim [] tot w = (Inr [], w)"
| "writeObjects z ctx sink resolver lim (ident # ids) tot w =
     (case writeObject z ctx sink resolver lim ident tot w of
        (Inl e, w) \<Rightarrow> (Inl e, w)
      | (Inr (entry, tot), w) \<Rightarrow>
          (case writeObjects z ctx sink resolver lim ids tot w of
             (Inl e, w) \<Rightarrow> (Inl e, w)
           | (Inr es, w) \<Rightarrow> (Inr (entry # es), w)))"

text \<open>The check of the sorted IDs: each is valid and differs from its predecessor.\<close>

fun validIDs :: "string list \<Rightarrow> bool" where
  "validIDs [] \<longleftrightarrow> True"
| "validIDs [ident] \<longleftrightarrow> validID ident"
| "validIDs (ident # ident' # ids) \<longleftrightarrow> validID ident \<and> ident' \<noteq> ident \<and> validIDs (ident' # ids)"

definition packHeader :: "nat \<Rightarrow> bytes" where
  "packHeader n = bytes_of ''PACK'' @ [0, 0, 0, 2] @ bytes32 (of_nat n)"

definition Write :: "zlib \<Rightarrow> ctx \<Rightarrow> sink \<Rightarrow> string list \<Rightarrow> Resolver option \<Rightarrow> Limits \<Rightarrow> Entry list result \<times> bytes" where
  "Write z ctx sink ids resolver lim =
     (if \<not> limitsValid lim \<or> int (length ids) > MaxObjects lim then (Inl ErrLimit, [])
      else (case ctx_Err ctx of Some e \<Rightarrow> (Inl e, []) | None \<Rightarrow>
      if resolver = None \<and> ids \<noteq> [] then (Inl ErrInvalid, [])
      else if \<not> validIDs (sort ids) then (Inl ErrInvalid, [])
      else (case packWrite ctx sink (packHeader (length ids)) \<lparr>pw_out = [], pw_limit = MaxPackBytes lim\<rparr> of
        (Some e, w) \<Rightarrow> (Inl e, pw_out w)
      | (None, w) \<Rightarrow>
     (case writeObjects z ctx sink (case resolver of Some f \<Rightarrow> f | None \<Rightarrow> (\<lambda>_ _. Inl ErrInvalid)) lim (sort ids) 0 w of
        (Inl e, w) \<Rightarrow> (Inl e, pw_out w)
      | (Inr es, w) \<Rightarrow>
     (case packWrite ctx sink (Sum1 (pw_out w)) w of
        (Some e, w) \<Rightarrow> (Inl e, pw_out w)
      | (None, w) \<Rightarrow> (Inr es, pw_out w))))))"

text \<open>
  \<^verbatim>\<open>DecodeEntry\<close> reads at most one byte more than the entry has. Once more than \<open>EntrySize\<close> bytes
  come out, every way through the remaining checks ends in \<open>ErrInvalid\<close>.
\<close>

definition DecodeEntry :: "zlib \<Rightarrow> ctx \<Rightarrow> bytes \<Rightarrow> Entry \<Rightarrow> int \<Rightarrow> Object result" where
  "DecodeEntry z ctx input entry maxObjectBytes =
     (if EntrySize entry < 0 \<or> EntrySize entry > maxObjectBytes \<or> EntrySize entry = MaxInt64 then Inl ErrLimit
      else if EntryLength entry \<le> 0 \<or> EntryLength entry = MaxInt64 \<or> \<not> validID (EntryID entry) \<or>
        typeCode (EntryType entry) = 0 then Inl ErrInvalid
      else (case ctx_Err ctx of Some e \<Rightarrow> Inl (invalid e) | None \<Rightarrow>
     (let limited = take (nat (EntryLength entry + 1)) input in
     (case readHeader sliceByte limited of (Inl e, _) \<Rightarrow> Inl e | (Inr (kind, sz), stream) \<Rightarrow>
      if typeName kind \<noteq> EntryType entry \<or> sz \<noteq> EntrySize entry then Inl ErrInvalid
      else (case zl_new z stream ErrEOF of Some e \<Rightarrow> Inl (invalid e) | None \<Rightarrow>
     (let (produced, outcome) = zl_read z stream ErrEOF in
      if int (length produced) > sz then Inl ErrInvalid
      else (case outcome of Inl e \<Rightarrow> Inl (invalid e) | Inr n \<Rightarrow>
     (let cnt = length limited - length (drop n stream); object = \<lparr>ObjectType = EntryType entry, ObjectData = produced\<rparr>;
          actual = objectEntry object in
      if int cnt \<noteq> EntryLength entry \<or> ChecksumIEEE (take cnt limited) \<noteq> EntryCRC32 entry then Inl ErrInvalid
      else if drop n stream \<noteq> [] then Inl ErrInvalid
      else if EntryID actual \<noteq> EntryID entry \<or> EntrySize actual \<noteq> EntrySize entry \<or>
        EntrySHA256 actual \<noteq> EntrySHA256 entry then Inl ErrInvalid
      else Inr object)))))))) "


section \<open>What a successful write has written\<close>

definition packedObject :: "zlib \<Rightarrow> Object \<Rightarrow> bytes" where
  "packedObject z o1 =
     encodeHeader (typeCode (ObjectType o1)) (int (length (ObjectData o1))) @ concat (zl_write z (ObjectData o1))"

definition entryAt :: "zlib \<Rightarrow> nat \<Rightarrow> Object \<Rightarrow> Entry" where
  "entryAt z start o1 = (objectEntry o1)\<lparr>EntryOffset := int start, EntryLength := int (length (packedObject z o1)),
     EntryCRC32 := ChecksumIEEE (packedObject z o1)\<rparr>"

fun entriesFrom :: "zlib \<Rightarrow> nat \<Rightarrow> Object list \<Rightarrow> Entry list" where
  "entriesFrom z start [] = []"
| "entriesFrom z start (o1 # os) = entryAt z start o1 # entriesFrom z (start + length (packedObject z o1)) os"

definition idOf :: "Object \<Rightarrow> string" where
  "idOf o1 = objectID (ObjectType o1) (ObjectData o1)"

definition sizeOf :: "Object \<Rightarrow> int" where
  "sizeOf o1 = int (length (ObjectData o1))"

definition writable :: "Limits \<Rightarrow> Object \<Rightarrow> bool" where
  "writable lim o1 \<longleftrightarrow> typeCode (ObjectType o1) \<noteq> 0 \<and> sizeOf o1 \<le> MaxObjectBytes lim"

lemma packWrite_done:
  assumes "packWrite ctx sink p w = (None, w')"
  shows "w' = w\<lparr>pw_out := pw_out w @ p\<rparr> \<and> int (length (pw_out w')) \<le> pw_limit w"
proof -
  from assms have lim: "int (length p) \<le> pw_limit w - int (length (pw_out w))"
    by (auto simp: packWrite_def split: option.splits if_splits)
  obtain n e where s: "sink (pw_out w) p = (n, e)" by fastforce
  from assms lim have "e = None" "n = length p" "w' = w\<lparr>pw_out := pw_out w @ take n p\<rparr>"
    by (auto simp: packWrite_def s Let_def split: option.splits if_splits)
  with lim show ?thesis by simp
qed

lemma writeChunks_done: "writeChunks ctx sink ps w = (None, w') \<Longrightarrow> w' = w\<lparr>pw_out := pw_out w @ concat ps\<rparr>"
proof (induction ps arbitrary: w)
  case (Cons p ps)
  then obtain w1 where "packWrite ctx sink p w = (None, w1)" "writeChunks ctx sink ps w1 = (None, w')"
    by (auto split: prod.splits option.splits)
  with Cons.IH packWrite_done show ?case by fastforce
qed simp

lemma writeObject_done:
  assumes "writeObject z ctx sink resolver lim ident tot w = (Inr (entry, tot'), w')"
  obtains o1 where "resolver ctx ident = Inr o1" "writable lim o1" "idOf o1 = ident" "tot' = tot + sizeOf o1"
    "tot' \<le> MaxDecodedBytes lim" "pw_out w' = pw_out w @ packedObject z o1" "pw_limit w' = pw_limit w"
    "entry = entryAt z (length (pw_out w)) o1"
proof -
  from assms obtain o1 where o1: "resolver ctx ident = Inr o1" "ctx_Err ctx = None"
    by (auto simp: writeObject_def split: option.splits sum.splits)
  note run = assms [unfolded writeObject_def o1 option.case sum.case Let_def]
  let ?k = "typeCode (ObjectType o1)" and ?sz = "int (length (ObjectData o1))"
  from run have g: "?k \<noteq> 0" "?sz \<le> MaxObjectBytes lim" "?sz \<le> MaxDecodedBytes lim - tot"
    "EntryID (objectEntry o1) = ident"
    by (auto split: if_splits)
  with run obtain w1 where w1: "packWrite ctx sink (encodeHeader ?k ?sz) w = (None, w1)"
    by (auto split: prod.splits option.splits)
  with run g obtain w2 where w2: "writeChunks ctx sink (zl_write z (ObjectData o1)) w1 = (None, w2)"
    by (auto split: prod.splits option.splits)
  have w2': "w2 = w\<lparr>pw_out := pw_out w @ packedObject z o1\<rparr>"
    using packWrite_done [OF w1] writeChunks_done [OF w2] by (simp add: packedObject_def)
  from run g w1 w2 have "w' = w2" "tot' = tot + ?sz"
    "entry = (objectEntry o1)\<lparr>EntryOffset := int (length (pw_out w)),
       EntryLength := int (length (pw_out w2)) - int (length (pw_out w)),
       EntryCRC32 := ChecksumIEEE (drop (length (pw_out w)) (pw_out w2))\<rparr>"
    by auto
  with o1 g w2' show ?thesis
    by (intro that [of o1]) (simp_all add: writable_def sizeOf_def idOf_def entryAt_def objectEntry_def)
qed

lemma writeObjects_done:
  assumes "writeObjects z ctx sink resolver lim ids tot w = (Inr es, w')" "tot \<le> MaxDecodedBytes lim"
  shows "\<exists>os. map (resolver ctx) ids = map Inr os \<and> map idOf os = ids \<and> (\<forall>o1 \<in> set os. writable lim o1) \<and>
    tot + sum_list (map sizeOf os) \<le> MaxDecodedBytes lim \<and>
    pw_out w' = pw_out w @ concat (map (packedObject z) os) \<and> pw_limit w' = pw_limit w \<and>
    es = entriesFrom z (length (pw_out w)) os"
  using assms
proof (induction ids arbitrary: tot w es)
  case (Cons ident ids)
  from Cons.prems(1) obtain entry tot1 w1 es1 where
    one: "writeObject z ctx sink resolver lim ident tot w = (Inr (entry, tot1), w1)" and
    rest: "writeObjects z ctx sink resolver lim ids tot1 w1 = (Inr es1, w')" "es = entry # es1"
    by (auto split: prod.splits sum.splits)
  from one obtain o1 where o1: "resolver ctx ident = Inr o1" "writable lim o1" "idOf o1 = ident" "tot1 = tot + sizeOf o1"
    "tot1 \<le> MaxDecodedBytes lim" "pw_out w1 = pw_out w @ packedObject z o1" "pw_limit w1 = pw_limit w"
    "entry = entryAt z (length (pw_out w)) o1"
    by (rule writeObject_done)
  from Cons.IH [OF rest(1) o1(5)] obtain os where
    "map (resolver ctx) ids = map Inr os" "map idOf os = ids" "\<forall>o1 \<in> set os. writable lim o1"
    "tot1 + sum_list (map sizeOf os) \<le> MaxDecodedBytes lim"
    "pw_out w' = pw_out w1 @ concat (map (packedObject z) os)" "pw_limit w' = pw_limit w1"
    "es1 = entriesFrom z (length (pw_out w1)) os" by blast
  with o1 rest(2) show ?case by (intro exI [of _ "o1 # os"]) simp
qed simp

lemma validIDs_distinct: "sorted ids \<Longrightarrow> validIDs ids \<Longrightarrow> distinct ids \<and> list_all validID ids"
  by (induction ids rule: validIDs.induct) (auto simp: order.order_iff_strict)

definition packStreamOf :: "zlib \<Rightarrow> Object list \<Rightarrow> bytes" where
  "packStreamOf z os = packHeader (length os) @ concat (map (packedObject z) os)"

lemma Write_done:
  assumes "Write z ctx sink ids (Some f) lim = (Inr es, out)"
  obtains os where "limitsValid lim" "ctx_Err ctx = None" "int (length os) \<le> MaxObjects lim"
    "map (f ctx) (sort ids) = map Inr os" "map idOf os = sort ids" "distinct ids" "\<forall>o1 \<in> set os. writable lim o1"
    "sum_list (map sizeOf os) \<le> MaxDecodedBytes lim" "out = packStreamOf z os @ Sum1 (packStreamOf z os)"
    "int (length out) \<le> MaxPackBytes lim" "es = entriesFrom z 12 os"
proof -
  from assms have g: "limitsValid lim" "int (length ids) \<le> MaxObjects lim" "ctx_Err ctx = None" "validIDs (sort ids)"
    by (auto simp: Write_def split: if_splits option.splits)
  note run = assms [unfolded Write_def]
  from run g obtain w1 where w1: "packWrite ctx sink (packHeader (length ids)) \<lparr>pw_out = [], pw_limit = MaxPackBytes lim\<rparr> = (None, w1)"
    by (auto split: prod.splits option.splits)
  with run g obtain es1 w2 where w2: "writeObjects z ctx sink f lim (sort ids) 0 w1 = (Inr es1, w2)"
    by (auto split: prod.splits option.splits sum.splits)
  with run g w1 obtain w3 where w3: "packWrite ctx sink (Sum1 (pw_out w2)) w2 = (None, w3)" "es = es1" "out = pw_out w3"
    by (auto split: prod.splits option.splits)
  have "length (packHeader n) = 12" for n by (simp add: packHeader_def bytes_of_def bytes32_def)
  then have p1: "pw_out w1 = packHeader (length ids)" "pw_limit w1 = MaxPackBytes lim" "length (pw_out w1) = 12"
    using packWrite_done [OF w1] by auto
  have "0 \<le> MaxDecodedBytes lim" using g(1) by (simp add: limitsValid_def)
  from writeObjects_done [OF w2 this] obtain os where os:
    "map (f ctx) (sort ids) = map Inr os" "map idOf os = sort ids" "\<forall>o1 \<in> set os. writable lim o1"
    "sum_list (map sizeOf os) \<le> MaxDecodedBytes lim"
    "pw_out w2 = pw_out w1 @ concat (map (packedObject z) os)" "pw_limit w2 = pw_limit w1"
    "es1 = entriesFrom z (length (pw_out w1)) os" by auto
  have len: "length os = length ids" using os(2) by (metis length_map length_sort)
  have w2': "pw_out w2 = packStreamOf z os" using os(5) p1 len by (simp add: packStreamOf_def)
  have "distinct ids" using validIDs_distinct [OF sorted_sort g(4)] by simp
  moreover have "out = packStreamOf z os @ Sum1 (packStreamOf z os)" "int (length out) \<le> MaxPackBytes lim"
    using packWrite_done [OF w3(1)] w2' w3(3) p1(2) os(6) by auto
  moreover have "es = entriesFrom z 12 os" using w3(2) os(7) p1(3) by simp
  ultimately show ?thesis using g os(1-4) len by (intro that [of os]) simp_all
qed


section \<open>Decoding what was written\<close>

text \<open>
  What is used of \<^verbatim>\<open>compress/zlib\<close>: reading back what the writer wrote gives the same bytes, and the
  reader, which takes its input byte by byte, stops right behind the stream.
\<close>

definition zlib_law :: "zlib \<Rightarrow> bool" where
  "zlib_law z \<longleftrightarrow> (\<forall>d rest e.
     zl_new z (concat (zl_write z d) @ rest) e = None \<and>
     zl_read z (concat (zl_write z d) @ rest) e = (d, Inr (length (concat (zl_write z d)))))"

lemma packByte_slice:
  assumes "sliceByte (pr_input r) = (Inr b, s')" "0 < pr_remaining r"
  shows "packByte r = (Inr b, packAdvance 1 r) \<and> pr_input (packAdvance 1 r) = s' \<and> length (pr_input r) = Suc (length s')"
  using assms by (cases "pr_input r") (auto simp: packByte_def packAdvance_def)

lemma packAdvance_add: "m \<le> length (pr_input r) \<Longrightarrow> packAdvance n (packAdvance m r) = packAdvance (m + n) r"
  by (simp add: packAdvance_def take_add add.commute)

lemma readHeaderLoop_length:
  "readHeaderLoop sliceByte b sz shift s = (Inr x, s') \<Longrightarrow> length s' \<le> length s"
proof (induction "sliceByte" b sz shift s rule: readHeaderLoop.induct)
  case (1 b sz shift s)
  show ?case
  proof (cases "b AND 128 = 0")
    case False
    with "1.prems" obtain b' s1 where sb: "sliceByte s = (Inr b', s1)" "\<not> shift \<ge> 63"
      by (auto simp: readHeaderLoop.simps [of sliceByte b] split: prod.splits sum.splits if_splits)
    with "1.prems" False have "\<not> (ucast (b' AND 127) :: 64 word) > drop_bit shift 0x7FFFFFFFFFFFFFFF"
      "readHeaderLoop sliceByte b' (sz OR push_bit shift (ucast (b' AND 127))) (shift + 7) s1 = (Inr x, s')"
      by (auto simp: readHeaderLoop.simps [of sliceByte b] Let_def split: if_splits)
    from "1.hyps" [OF False sb(2) sb(1) [symmetric] refl refl this] sb(1) show ?thesis by (cases s) auto
  qed (use "1.prems" in \<open>simp add: readHeaderLoop.simps\<close>)
qed

lemma readHeaderLoop_packByte:
  assumes "readHeaderLoop sliceByte b sz shift s = (Inr x, s')" "pr_input r = s" "int (length s) - int (length s') \<le> pr_remaining r"
  shows "length s' \<le> length s \<and> readHeaderLoop packByte b sz shift r = (Inr x, packAdvance (length s - length s') r)"
  using assms
proof (induction "sliceByte" b sz shift s arbitrary: r rule: readHeaderLoop.induct)
  case (1 b sz shift s)
  show ?case
  proof (cases "b AND 128 = 0")
    case True
    with "1.prems" show ?thesis by (simp add: readHeaderLoop.simps packAdvance_def)
  next
    case False
    with "1.prems"(1) have sh: "\<not> shift \<ge> 63" by (auto simp: readHeaderLoop.simps [of sliceByte b])
    with "1.prems"(1) False obtain b' s1 where sb: "sliceByte s = (Inr b', s1)"
      by (auto simp: readHeaderLoop.simps [of sliceByte b] split: prod.splits sum.splits)
    define val where "val = (ucast (b' AND 127) :: 64 word)"
    have v: "\<not> val > drop_bit shift 0x7FFFFFFFFFFFFFFF"
      and rest: "readHeaderLoop sliceByte b' (sz OR push_bit shift val) (shift + 7) s1 = (Inr x, s')"
      using "1.prems"(1) False sh sb by (auto simp: readHeaderLoop.simps [of sliceByte b] val_def Let_def split: if_splits)
    have len: "length s = Suc (length s1)" using sb by (cases s) auto
    note IH = "1.hyps" [OF False sh sb [symmetric] refl val_def v rest]
    have pos: "0 < pr_remaining r \<and> length s' \<le> length s1"
      using readHeaderLoop_length [OF rest] "1.prems"(3) len by simp
    then have pb: "packByte r = (Inr b', packAdvance 1 r)" "pr_input (packAdvance 1 r) = s1"
      using packByte_slice [of r b' s1] sb "1.prems"(2) by auto
    have "int (length s1) - int (length s') \<le> pr_remaining (packAdvance 1 r)"
      using "1.prems"(3) len by (simp add: packAdvance_def)
    with IH [of "packAdvance 1 r"] pb have
      "readHeaderLoop packByte b' (sz OR push_bit shift val) (shift + 7) (packAdvance 1 r) =
         (Inr x, packAdvance (length s1 - length s') (packAdvance 1 r))" by simp
    then show ?thesis
      using False sh pb(1) v pos len packAdvance_add [of 1 r] "1.prems"(2)
      by (simp add: readHeaderLoop.simps [of packByte b] val_def Let_def Suc_diff_le)
  qed
qed


lemma readHeader_packByte:
  assumes "readHeader sliceByte (pr_input r) = (Inr x, s')" "int (length (pr_input r)) - int (length s') \<le> pr_remaining r"
  shows "readHeader packByte r = (Inr x, packAdvance (length (pr_input r) - length s') r)"
proof -
  from assms(1) obtain b s1 where sb: "sliceByte (pr_input r) = (Inr b, s1)"
    by (auto simp: readHeader_def split: prod.splits sum.splits)
  with assms(1) obtain sz where loop: "readHeaderLoop sliceByte b (ucast (b AND 15)) 4 s1 = (Inr sz, s')"
    and x: "x = (drop_bit 4 b AND 7, int64 (uint sz))"
    by (auto simp: readHeader_def Let_def split: prod.splits sum.splits)
  have len: "length (pr_input r) = Suc (length s1)" using sb by (cases "pr_input r") auto
  have le: "length s' \<le> length s1" by (rule readHeaderLoop_length [OF loop])
  with len assms(2) have "0 < pr_remaining r" by simp
  with sb have pb: "packByte r = (Inr b, packAdvance 1 r)" "pr_input (packAdvance 1 r) = s1"
    using packByte_slice by blast+
  from readHeaderLoop_packByte [OF loop pb(2)] assms(2) len
  have "readHeaderLoop packByte b (ucast (b AND 15)) 4 (packAdvance 1 r) = (Inr sz, packAdvance (length s1 - length s') (packAdvance 1 r))"
    by (simp add: packAdvance_def)
  then show ?thesis using pb(1) x len le packAdvance_add [of 1 r] by (simp add: readHeader_def Suc_diff_le)
qed

text \<open>The entry that \<^verbatim>\<open>Decode\<close> records for a whole object.\<close>

definition stagedOf :: "Workspace \<Rightarrow> Entry \<Rightarrow> staged" where
  "stagedOf w e = Entry.extend e \<lparr>path = nextFile w, baseID = [], baseOffset = -1, depth = 0\<rparr>"

definition loadObject :: "Workspace \<Rightarrow> Entry \<Rightarrow> Object \<Rightarrow> Workspace" where
  "loadObject w e o1 = addEntry (withFile w (ObjectData o1)) (stagedOf w e)"

lemma stagedOf_simps [simp]:
  "EntryID (stagedOf w e) = EntryID e" "EntryType (stagedOf w e) = EntryType e" "EntrySize (stagedOf w e) = EntrySize e"
  "EntrySHA256 (stagedOf w e) = EntrySHA256 e" "EntryOffset (stagedOf w e) = EntryOffset e" "path (stagedOf w e) = nextFile w"
  "depth (stagedOf w e) = 0" "baseID (stagedOf w e) = []" "baseOffset (stagedOf w e) = -1"
  by (simp_all add: stagedOf_def Entry.defs)

lemma entryAt_simps [simp]:
  "EntryID (entryAt z n o1) = idOf o1" "EntryType (entryAt z n o1) = ObjectType o1" "EntrySize (entryAt z n o1) = sizeOf o1"
  "EntrySHA256 (entryAt z n o1) = objectSHA256 (ObjectType o1) (ObjectData o1)" "EntryOffset (entryAt z n o1) = int n"
  by (simp_all add: entryAt_def objectEntry_def idOf_def sizeOf_def)

lemma idOf_nonempty [simp]: "idOf o1 \<noteq> []"
  by (simp add: idOf_def)

lemma packStream_packAdvance:
  "pr_input r = a @ b @ c \<Longrightarrow> int (length a + length b) \<le> pr_remaining r \<Longrightarrow>
     \<exists>rest e. packStream (packAdvance (length a) r) = (b @ rest, e)"
  by (auto simp: packStream_def packAdvance_def take_append nat_diff_distrib)

lemma decodeObject_packed:
  assumes law: "zlib_law z" and ctx: "ctx_Err ctx = None" and o1: "writable (limits w) o1" "MaxObjectBytes (limits w) < MaxInt64"
    and inp: "pr_input r = packedObject z o1 @ rest"
    and room: "int (length (packedObject z o1)) \<le> pr_remaining r"
      "int (length (pr_read r) + length (packedObject z o1)) \<le> MaxPackBytes (limits w) - 20"
    and budget: "sizeOf o1 \<le> MaxDecodedBytes (limits w) - decodedBytes w" "sizeOf o1 \<le> MaxDiskBytes (limits w) - diskBytes w"
    and fresh: "map_of (objectIndex w) (idOf o1) = None"
  shows "decodeObject z ctx (w, byOffset, r) = Inr (loadObject w (entryAt z (length (pr_read r)) o1) o1,
    al_put (int (length (pr_read r))) (length (entries w)) byOffset, packAdvance (length (packedObject z o1)) r)"
proof -
  define k where "k = typeCode (ObjectType o1)"
  define h where "h = encodeHeader k (sizeOf o1)"
  define c where "c = concat (zl_write z (ObjectData o1))"
  have p: "packedObject z o1 = h @ c" by (simp add: packedObject_def h_def c_def k_def sizeOf_def)
  have k: "k = 1 \<or> k = 2 \<or> k = 3 \<or> k = 4" "typeName k = ObjectType o1" "ObjectType o1 \<noteq> []"
    using o1(1) typeCode_range [of "ObjectType o1"] typeName_typeCode
    by (auto simp: writable_def k_def typeCode_def)
  then have "unat k < 8" by (elim disjE) simp_all
  moreover have sz: "0 \<le> sizeOf o1" "sizeOf o1 < 2 ^ 63" "sizeOf o1 \<le> MaxObjectBytes (limits w)"
    using o1 by (simp_all add: writable_def sizeOf_def MaxInt64_def)
  ultimately have "readHeader sliceByte (pr_input r) = (Inr (k, sizeOf o1), c @ rest)"
    using readHeader_encodeHeader [of k "sizeOf o1" "c @ rest"] inp p by (simp add: h_def)
  then have hdr: "readHeader packByte r = (Inr (k, sizeOf o1), packAdvance (length h) r)"
    using readHeader_packByte [of r _ "c @ rest"] inp p room by simp
  have base: "readBase k byOffset r' e = Inr (e, r')" for r' e using k(1) by (simp add: readBase_def)
  obtain rest' e where ps: "packStream (packAdvance (length h) r) = (c @ rest', e)"
    using packStream_packAdvance [of r h c rest] inp p room by auto
  have zl: "zl_new z (c @ rest') e = None" "zl_read z (c @ rest') e = (ObjectData o1, Inr (length c))"
    using law by (simp_all add: zlib_law_def c_def)
  have st: "stage w (ObjectData o1) (Inr (length c)) (sizeOf o1) = Inr (nextFile w, withFile w (ObjectData o1))"
    using sz budget by (simp add: stage_def withFile_def sizeOf_def)
  have adv: "packAdvance (length c) (packAdvance (length h) r) = packAdvance (length (packedObject z o1)) r"
    using packAdvance_add [of "length h" r] inp p by simp
  have rd: "pr_read (packAdvance (length (packedObject z o1)) r) = pr_read r @ packedObject z o1"
    using inp by (simp add: packAdvance_def)
  have ent: "emptyStaged\<lparr>EntryOffset := int (length (pr_read r)), EntryType := ObjectType o1, path := nextFile w, EntrySize := sizeOf o1,
      EntryLength := int (length (packedObject z o1)), EntryCRC32 := ChecksumIEEE (packedObject z o1),
      EntryID := idOf o1, EntrySHA256 := objectSHA256 (ObjectType o1) (ObjectData o1)\<rparr> =
      stagedOf w (entryAt z (length (pr_read r)) o1)"
    by (simp add: stagedOf_def entryAt_def objectEntry_def Entry.defs emptyStaged_def idOf_def sizeOf_def)
  have "recordObject (emptyStaged\<lparr>EntryOffset := int (length (pr_read r)), EntryType := ObjectType o1, path := nextFile w, EntrySize := sizeOf o1,
      EntryLength := int (length (packedObject z o1)), EntryCRC32 := ChecksumIEEE (packedObject z o1)\<rparr>)
      (withFile w (ObjectData o1), byOffset, packAdvance (length (packedObject z o1)) r) =
    Inr (loadObject w (entryAt z (length (pr_read r)) o1) o1,
      al_put (int (length (pr_read r))) (length (entries w)) byOffset, packAdvance (length (packedObject z o1)) r)"
    using k(3) room(2) fresh rd ent
    by (simp add: recordObject_def identify_def priorConflict_def loadObject_def addEntry_def idOf_def sizeOf_def)
  then show ?thesis
    using ctx hdr sz base k(2) rd
    by (simp add: decodeObject_def inflateObject_def ps zl st adv Let_def)
qed


fun loadAll :: "zlib \<Rightarrow> nat \<Rightarrow> Object list \<Rightarrow> Workspace \<Rightarrow> Workspace" where
  "loadAll z start [] w = w"
| "loadAll z start (o1 # os) w = loadAll z (start + length (packedObject z o1)) os (loadObject w (entryAt z start o1) o1)"

lemma loadObject_simps [simp]:
  "limits (loadObject w e o1) = limits w" "dirOpen (loadObject w e o1) = dirOpen w"
  "decodedBytes (loadObject w e o1) = decodedBytes w + sizeOf o1" "diskBytes (loadObject w e o1) = diskBytes w + sizeOf o1"
  "entries (loadObject w e o1) = entries w @ [stagedOf w e]" "nextFile (loadObject w e o1) = Suc (nextFile w)"
  "files (loadObject w e o1) = (files w)(nextFile w \<mapsto> ObjectData o1)"
  by (simp_all add: loadObject_def addEntry_def withFile_def sizeOf_def)

lemma objectIndex_loadObject [simp]:
  "objectIndex (loadObject w (entryAt z n o1) o1) = al_put (idOf o1) (length (entries w)) (objectIndex w)"
  by (simp add: loadObject_def addEntry_def)

lemma sizeOf_sum_nonneg: "0 \<le> sum_list (map sizeOf os)"
  by (induction os) (simp_all add: sizeOf_def)

lemma decodeObjects_packed:
  assumes "zlib_law z" "ctx_Err ctx = None" "MaxObjectBytes (limits w) < MaxInt64" "\<forall>o1 \<in> set os. writable (limits w) o1"
    and "pr_input r = concat (map (packedObject z) os) @ rest"
    and "int (length (concat (map (packedObject z) os))) \<le> pr_remaining r"
      "int (length (pr_read r) + length (concat (map (packedObject z) os))) \<le> MaxPackBytes (limits w) - 20"
    and "sum_list (map sizeOf os) \<le> MaxDecodedBytes (limits w) - decodedBytes w"
      "sum_list (map sizeOf os) \<le> MaxDiskBytes (limits w) - diskBytes w"
    and "distinct (map idOf os)" "\<forall>o1 \<in> set os. map_of (objectIndex w) (idOf o1) = None"
  shows "\<exists>byOffset'. decodeObjects (length os) z ctx (w, byOffset, r) =
    Inr (loadAll z (length (pr_read r)) os w, byOffset', packAdvance (length (concat (map (packedObject z) os))) r)"
  using assms
proof (induction os arbitrary: w byOffset r)
  case Nil
  then show ?case by (simp add: packAdvance_def)
next
  case (Cons o1 os)
  let ?w = "loadObject w (entryAt z (length (pr_read r)) o1) o1" and ?r = "packAdvance (length (packedObject z o1)) r"
    and ?b = "al_put (int (length (pr_read r))) (length (entries w)) byOffset"
  have nn: "0 \<le> sizeOf o1" "0 \<le> sum_list (map sizeOf os)" by (simp_all add: sizeOf_sum_nonneg) (simp add: sizeOf_def)
  have one: "decodeObject z ctx (w, byOffset, r) = Inr (?w, ?b, ?r)"
    by (rule decodeObject_packed [where rest = "concat (map (packedObject z) os) @ rest"]) (use Cons.prems nn in simp_all)
  have r: "pr_input ?r = concat (map (packedObject z) os) @ rest" "pr_remaining ?r = pr_remaining r - int (length (packedObject z o1))"
    "pr_read ?r = pr_read r @ packedObject z o1"
    using Cons.prems(5) by (simp_all add: packAdvance_def)
  have "\<exists>byOffset'. decodeObjects (length os) z ctx (?w, ?b, ?r) =
      Inr (loadAll z (length (pr_read ?r)) os ?w, byOffset', packAdvance (length (concat (map (packedObject z) os))) ?r)"
  proof (rule Cons.IH)
    show "\<forall>o2 \<in> set os. map_of (objectIndex ?w) (idOf o2) = None"
      using Cons.prems(10,11) by (auto simp: image_iff)
  qed (use Cons.prems(1-10) r in simp_all)
  then show ?case using one r(3) Cons.prems(5) packAdvance_add [of "length (packedObject z o1)" r] by simp
qed

text \<open>A workspace that holds an object under its ID.\<close>

definition holds :: "Workspace \<Rightarrow> Object \<Rightarrow> bool" where
  "holds w o1 \<longleftrightarrow>
     (case map_of (objectIndex w) (idOf o1) of
        None \<Rightarrow> False
      | Some j \<Rightarrow> j < length (entries w) \<and> path (entries w ! j) < nextFile w \<and>
          files w (path (entries w ! j)) = Some (ObjectData o1) \<and> EntryType (entries w ! j) = ObjectType o1 \<and>
          EntrySize (entries w ! j) = sizeOf o1 \<and>
          EntrySHA256 (entries w ! j) = objectSHA256 (ObjectType o1) (ObjectData o1))"

lemma holds_loadObject: "holds (loadObject w (entryAt z n o1) o1) o1"
  by (simp add: holds_def)

lemma holds_keep: "holds w o1 \<Longrightarrow> idOf o2 \<noteq> idOf o1 \<Longrightarrow> holds (loadObject w (entryAt z n o2) o2) o1"
  by (auto simp: holds_def nth_append split: option.splits)

lemma holds_loadAll:
  "distinct (map idOf os) \<Longrightarrow> o1 \<in> set os \<or> holds w o1 \<and> idOf o1 \<notin> idOf ` set os \<Longrightarrow> holds (loadAll z n os w) o1"
proof (induction os arbitrary: n w)
  case (Cons o2 os)
  show ?case
  proof (cases "o1 \<in> set os")
    case False
    with Cons.prems have "o1 = o2 \<or> holds w o1 \<and> idOf o2 \<noteq> idOf o1" "idOf o1 \<notin> idOf ` set os" by auto
    then show ?thesis using Cons.prems(1) by (auto intro!: Cons.IH simp: holds_loadObject holds_keep)
  qed (use Cons in simp)
qed auto

lemma loadAll_fields:
  "limits (loadAll z n os w) = limits w" "dirOpen (loadAll z n os w) = dirOpen w"
  "distinct (map idOf os) \<Longrightarrow> \<forall>o1 \<in> set os. map_of (objectIndex w) (idOf o1) = None \<Longrightarrow>
     map fst (objectIndex (loadAll z n os w)) = map fst (objectIndex w) @ map idOf os"
  "\<forall>e \<in> set (entries w). EntryID e \<noteq> [] \<and> baseID e = [] \<Longrightarrow>
     \<forall>e \<in> set (entries (loadAll z n os w)). EntryID e \<noteq> [] \<and> baseID e = []"
proof (induction os arbitrary: n w)
  case (Cons o1 os)
  {
    case 1
    then show ?case using Cons.IH(1) by simp
  next
    case 2
    then show ?case using Cons.IH(2) by simp
  next
    case 3
    then have "\<forall>o2 \<in> set os. map_of (objectIndex (loadObject w (entryAt z n o1) o1)) (idOf o2) = None" by (auto simp: image_iff)
    with 3 show ?case using Cons.IH(3) [of "loadObject w (entryAt z n o1) o1"] by (simp add: al_put_new)
  next
    case 4
    then have "\<forall>e \<in> set (entries (loadObject w (entryAt z n o1) o1)). EntryID e \<noteq> [] \<and> baseID e = []" by simp
    then show ?case unfolding loadAll.simps by (rule Cons.IH(4))
  }
qed simp_all

lemma GetObject_holds:
  assumes "holds w o1" "dirOpen w" "ctx_Err ctx = None"
  shows "GetObject w ctx (idOf o1) = Inr o1"
  using assms
  by (cases o1) (auto simp: GetObject_def holds_def objectEntry_def idOf_def sizeOf_def split: option.splits)

lemma resolvePass_identified:
  "\<forall>i \<in> set is. EntryID (entries (ws st) ! i) \<noteq> [] \<Longrightarrow>
     resolvePass ctx resolver byOffset is (st, pending, progress) = Inr (st, pending, progress)"
  by (induction "is") (simp_all add: resolveEntry_def)

lemma resolve_identified:
  assumes "\<forall>e \<in> set (entries w). EntryID e \<noteq> []" "0 \<le> MaxDeltaDepth (limits w)"
  shows "resolve ctx byOffset resolver w = Inr w"
proof -
  obtain n where "nat (MaxDeltaDepth (limits w) + 1) = Suc n" using assms(2) by (metis Suc_nat_eq_nat_zadd1 add.commute)
  then show ?thesis using assms(1) by (simp add: resolve_def resolvePass_identified)
qed


lemma big_endian32_bytes32: "big_endian32 (bytes32 x) = x"
proof (rule bit_word_eqI)
  fix n assume "n < LENGTH(32)"
  then consider "n < 8" | "8 \<le> n" "n < 16" | "16 \<le> n" "n < 24" | "24 \<le> n" "n < 32" by fastforce
  then show "bit (big_endian32 (bytes32 x)) n = bit x n"
    by cases (auto simp: bytes32_def bit_or_iff bit_push_bit_iff bit_ucast_iff bit_drop_bit_eq)
qed

lemma Decode_pack:
  assumes law: "zlib_law z" and lim: "limitsValid lim" and ctx: "ctx_Err ctx = None" and opts: "length options \<le> 1"
    and os: "\<forall>o1 \<in> set os. writable lim o1" "distinct (map idOf os)" "int (length os) \<le> MaxObjects lim"
    and budget: "sum_list (map sizeOf os) \<le> MaxDecodedBytes lim" "sum_list (map sizeOf os) \<le> MaxDiskBytes lim"
      "int (length (packStreamOf z os)) + 20 \<le> MaxPackBytes lim"
  shows "Decode z ctx (packStreamOf z os @ Sum1 (packStreamOf z os) @ rest) lim resolver options =
    Inr (loadAll z 12 os (newWorkspace lim))"
proof -
  let ?n = "length os" and ?body = "concat (map (packedObject z) os)" and ?w = "loadAll z 12 os (newWorkspace lim)"
  let ?r = "\<lparr>pr_input = packStreamOf z os @ Sum1 (packStreamOf z os) @ rest, pr_remaining = MaxPackBytes lim, pr_read = []\<rparr>"
  have hl: "length (packHeader ?n) = 12" by (simp add: packHeader_def bytes_of_def bytes32_def)
  have tot: "length (packStreamOf z os) = 12 + length ?body" using hl by (simp add: packStreamOf_def)
  have l: "MaxObjectBytes lim < MaxInt64" "0 \<le> MaxDeltaDepth lim" "?n < 2 ^ 32"
    using lim os(3) by (simp_all add: limitsValid_def)
  have new: "limits (newWorkspace lim) = lim" "dirOpen (newWorkspace lim)" "objectIndex (newWorkspace lim) = []"
    "entries (newWorkspace lim) = []" "decodedBytes (newWorkspace lim) = 0" "diskBytes (newWorkspace lim) = 0"
    by (simp_all add: newWorkspace_def)
  have full: "packFull 12 ?r = Inr (packHeader ?n, packAdvance 12 ?r)"
    using hl budget(3) tot by (simp add: packFull_def packStreamOf_def)
  have r: "pr_input (packAdvance 12 ?r) = ?body @ Sum1 (packStreamOf z os) @ rest" "pr_remaining (packAdvance 12 ?r) = MaxPackBytes lim - 12"
    "pr_read (packAdvance 12 ?r) = packHeader ?n"
    using hl by (simp_all add: packAdvance_def packStreamOf_def)
  have "unat (big_endian32 (drop 8 (packHeader ?n))) = ?n"
    using l(3) by (simp add: packHeader_def bytes_of_def big_endian32_bytes32 unat_of_nat del: big_endian32.simps)
  moreover obtain byOffset where objs: "decodeObjects ?n z ctx (newWorkspace lim, [], packAdvance 12 ?r) =
      Inr (?w, byOffset, packAdvance (length ?body) (packAdvance 12 ?r))"
    using decodeObjects_packed [of z ctx "newWorkspace lim" os "packAdvance 12 ?r" "Sum1 (packStreamOf z os) @ rest" "[]"]
      law ctx os budget l r new hl tot by (auto simp del: upt_Suc)
  moreover define r2 where "r2 = packAdvance (length ?body) (packAdvance 12 ?r)"
  have r2: "pr_read r2 = packStreamOf z os" "pr_input r2 = Sum1 (packStreamOf z os) @ rest"
    "pr_remaining r2 = MaxPackBytes lim - int (length (packStreamOf z os))"
    using r tot unfolding r2_def packAdvance_def [of "length ?body"] by (simp_all add: packStreamOf_def)
  have trailer: "packFull 20 r2 = Inr (Sum1 (packStreamOf z os), packAdvance 20 r2)"
    using r2 budget(3) by (simp add: packFull_def)
  have ent: "\<forall>e \<in> set (entries ?w). EntryID e \<noteq> [] \<and> baseID e = []"
    using loadAll_fields(4) [of "newWorkspace lim"] new(4) by simp
  then have "unknownBases ?w = []" by (simp add: unknownBases_def filter_empty_conv)
  then have "prepareBases ctx options resolver ?w = None"
    using ctx by (auto simp: prepareBases_def split: list.splits option.splits)
  moreover have "resolve ctx byOffset resolver ?w = Inr ?w"
    using ent l(2) loadAll_fields(1) [of z 12 os "newWorkspace lim"] new(1) by (intro resolve_identified) simp_all
  moreover have "take 4 (packHeader ?n) = bytes_of ''PACK''" "big_endian32 (take 4 (drop 4 (packHeader ?n))) = 2"
    by (simp_all add: packHeader_def bytes_of_def)
  ultimately show ?thesis
    using lim ctx opts full os(3) trailer r2(1)
    by (simp add: Decode_def Let_def r2_def [symmetric])
qed


section \<open>Decoding one entry\<close>

lemma typeCode_small: "unat (typeCode t) < 8"
  using typeCode_range [of t] by (elim disjE) simp_all

lemma validID_idOf: "validID (idOf o1)"
  using EncodeToString_chars by (auto simp: validID_def idOf_def objectID_def list_all_iff)

lemma entriesFrom_member:
  assumes "e \<in> set (entriesFrom z n os)"
  obtains o1 pre post where "o1 \<in> set os" "concat (map (packedObject z) os) = pre @ packedObject z o1 @ post"
    "e = entryAt z (n + length pre) o1"
  using assms
proof (induction os arbitrary: n thesis)
  case (Cons o2 os)
  show ?case
  proof (cases "e = entryAt z n o2")
    case True
    then show ?thesis by (intro Cons.prems(1) [of o2 "[]"]) simp_all
  next
    case False
    with Cons.prems(2) have "e \<in> set (entriesFrom z (n + length (packedObject z o2)) os)" by simp
    from Cons.IH [OF _ this] obtain o1 pre post where "o1 \<in> set os"
      "concat (map (packedObject z) os) = pre @ packedObject z o1 @ post" "e = entryAt z (n + length (packedObject z o2) + length pre) o1"
      by metis
    then show ?thesis by (intro Cons.prems(1) [of o1 "packedObject z o2 @ pre" post]) (simp_all add: add.assoc)
  qed
qed simp

lemma entriesFrom_ids: "map EntryID (entriesFrom z n os) = map idOf os"
  by (induction os arbitrary: n) simp_all

lemma DecodeEntry_packed:
  assumes law: "zlib_law z" and ctx: "ctx_Err ctx = None" and o1: "typeCode (ObjectType o1) \<noteq> 0"
    and sz: "sizeOf o1 \<le> m" "sizeOf o1 < MaxInt64" "int (length (packedObject z o1)) < MaxInt64"
  shows "DecodeEntry z ctx (packedObject z o1) (entryAt z n o1) m = Inr o1"
proof -
  define k where "k = typeCode (ObjectType o1)"
  define c where "c = concat (zl_write z (ObjectData o1))"
  have p: "packedObject z o1 = encodeHeader k (sizeOf o1) @ c" by (simp add: packedObject_def c_def k_def sizeOf_def)
  have k: "unat k < 8" "typeName k = ObjectType o1"
    unfolding k_def using typeCode_small typeName_typeCode [OF o1] by blast+
  have nn: "0 \<le> sizeOf o1" by (simp add: sizeOf_def)
  have hdr: "readHeader sliceByte (packedObject z o1) = (Inr (k, sizeOf o1), c)"
    using readHeader_encodeHeader [OF k(1) nn, of c] sz(2) p by (simp add: MaxInt64_def)
  have zl: "zl_new z c ErrEOF = None" "zl_read z c ErrEOF = (ObjectData o1, Inr (length c))"
    using law [unfolded zlib_law_def, rule_format, of "ObjectData o1" "[]"] by (simp_all add: c_def)
  obtain x xs where "encodeHeader k (sizeOf o1) = x # xs"
    using encodeHeaderLoop_Cons unfolding encodeHeader_def by blast
  then have pos: "0 < length (packedObject z o1)" using p by simp
  have len: "EntryLength (entryAt z n o1) = int (length (packedObject z o1))" "EntryCRC32 (entryAt z n o1) = ChecksumIEEE (packedObject z o1)"
    by (simp_all add: entryAt_def)
  have take: "take (nat (int (length (packedObject z o1)) + 1)) (packedObject z o1) = packedObject z o1" by simp
  show ?thesis
    using ctx o1 sz nn k(2) pos zl validID_idOf [of o1]
    by (simp add: DecodeEntry_def len take Let_def hdr objectEntry_def idOf_def sizeOf_def)
qed


section \<open>The properties\<close>

text \<open>A codec with the law, to show that the hypothesis can hold: the length in unary, then the bytes.\<close>

definition unaryZlib :: zlib where
  "unaryZlib = \<lparr>zl_new = (\<lambda>s e. None),
     zl_read = (\<lambda>s e. let n = length (takeWhile (\<lambda>b. b = 1) s)
       in if length s < 2 * n + 1 then ([], Inl ErrUnexpectedEOF) else (take n (drop (Suc n) s), Inr (2 * n + 1))),
     zl_write = (\<lambda>d. [replicate (length d) 1 @ [0], d])\<rparr>"

lemma unaryZlib_law: "zlib_law unaryZlib"
proof -
  have "takeWhile (\<lambda>b. b = (1 :: byte)) (replicate n 1 @ 0 # d) = replicate n 1" for n d
    by (induction n) simp_all
  then show ?thesis by (simp add: zlib_law_def unaryZlib_def Let_def)
qed

definition sampleObject :: Object where
  "sampleObject = \<lparr>ObjectType = ''blob'', ObjectData = [104, 105]\<rparr>"

definition sampleLimits :: Limits where
  "sampleLimits = \<lparr>MaxPackBytes = 1000, MaxObjectBytes = 100, MaxDecodedBytes = 100, MaxDiskBytes = 100, MaxObjects = 5, MaxDeltaDepth = 3\<rparr>"

definition sampleResolver :: Resolver where
  "sampleResolver ctx ident = (if ident = idOf sampleObject then Inr sampleObject else Inl ErrObjectNotFound)"

definition fullSink :: sink where
  "fullSink so_far p = (length p, None)"

lemma packWrite_fullSink:
  "int (length (pw_out w) + length p) \<le> pw_limit w \<Longrightarrow>
     packWrite Background fullSink p w = (None, w\<lparr>pw_out := pw_out w @ p\<rparr>)"
  by (simp add: packWrite_def fullSink_def)

lemma sample_packed: "packedObject unaryZlib sampleObject = [50, 1, 1, 0, 104, 105]"
  by code_simp

lemma sample_write:
  "Write unaryZlib Background fullSink [idOf sampleObject] (Some sampleResolver) sampleLimits =
     (Inr [entryAt unaryZlib 12 sampleObject], packStreamOf unaryZlib [sampleObject] @ Sum1 (packStreamOf unaryZlib [sampleObject]))"
proof -
  have v: "limitsValid sampleLimits" by (simp add: limitsValid_def sampleLimits_def MaxInt64_def)
  have h: "length (packHeader n) = 12" for n by (simp add: packHeader_def bytes_of_def bytes32_def)
  have o1: "typeCode (ObjectType sampleObject) = 3" "ObjectData sampleObject = [104, 105]" "EntryID (objectEntry sampleObject) = idOf sampleObject"
    by (simp_all add: sampleObject_def typeCode_def objectEntry_def idOf_def)
  have p: "encodeHeader 3 2 = [50]" "zl_write unaryZlib [104, 105] = [[1, 1, 0], [104, 105]]" by code_simp+
  let ?w = "\<lambda>out. \<lparr>pw_out = out, pw_limit = 1000\<rparr>"
  have "writeObject unaryZlib Background fullSink sampleResolver sampleLimits (idOf sampleObject) 0 (?w (packHeader 1)) =
      (Inr (entryAt unaryZlib 12 sampleObject, 2), ?w (packHeader 1 @ packedObject unaryZlib sampleObject))"
    by (simp add: writeObject_def sampleResolver_def o1 sampleLimits_def p packWrite_fullSink h Let_def sample_packed entryAt_def)
  then show ?thesis
    using v validID_idOf [of sampleObject]
    by (simp add: Write_def sampleLimits_def packWrite_fullSink h packStreamOf_def sample_packed)
qed

text \<open>
  C20. A pack that \<^verbatim>\<open>Write\<close> has written is accepted by \<^verbatim>\<open>Decode\<close> under the same limits, whatever
  follows it in the stream and with whatever resolver, and the workspace holds exactly the requested IDs, each
  with the object that the resolver supplied. The only extra assumption is that the
  objects fit the disk budget, which \<^verbatim>\<open>Write\<close> does not look at.
\<close>

theorem Write_Decode:
  assumes "zlib_law z" and "Write z ctx sink ids (Some f) lim = (Inr es, out)" and "MaxDecodedBytes lim \<le> MaxDiskBytes lim"
    and "length options \<le> 1"
  shows "\<exists>w. Decode z ctx (out @ rest) lim resolver options = Inr w \<and> IDs w = sort ids \<and>
    (\<forall>ident \<in> set ids. GetObject w ctx ident = f ctx ident)"
proof -
  from assms(2) obtain os where os: "limitsValid lim" "ctx_Err ctx = None" "int (length os) \<le> MaxObjects lim"
    "map (f ctx) (sort ids) = map Inr os" "map idOf os = sort ids" "distinct ids" "\<forall>o1 \<in> set os. writable lim o1"
    "sum_list (map sizeOf os) \<le> MaxDecodedBytes lim" "out = packStreamOf z os @ Sum1 (packStreamOf z os)"
    "int (length out) \<le> MaxPackBytes lim"
    by (rule Write_done)
  let ?w = "loadAll z 12 os (newWorkspace lim)"
  have d: "distinct (map idOf os)" using os(5,6) by simp
  have "Decode z ctx (packStreamOf z os @ Sum1 (packStreamOf z os) @ rest) lim resolver options = Inr ?w"
    by (rule Decode_pack [OF assms(1) os(1,2) assms(4) os(7) d os(3,8)]) (use os assms(3) in simp_all)
  moreover have "IDs ?w = sort ids"
    using loadAll_fields(3) [OF d, of "newWorkspace lim"] os(5) by (simp add: IDs_def newWorkspace_def sorted_sort_id)
  moreover have "GetObject ?w ctx ident = f ctx ident" if "ident \<in> set ids" for ident
  proof -
    from that have "ident \<in> set (sort ids)" by simp
    then obtain k where k: "k < length (sort ids)" "ident = sort ids ! k" by (metis in_set_conv_nth)
    have len: "length os = length (sort ids)" using os(5) by (metis length_map)
    have "f ctx ident = Inr (os ! k)" "idOf (os ! k) = ident"
      using os(4,5) k len by (metis nth_map)+
    moreover have "holds ?w (os ! k)" using k len by (intro holds_loadAll [OF d]) simp
    moreover have "dirOpen ?w" using loadAll_fields(2) [of z 12 os] by (simp add: newWorkspace_def)
    ultimately show ?thesis using GetObject_holds [of ?w "os ! k" ctx] os(2) by simp
  qed
  ultimately show ?thesis using os(9) by (intro exI [of _ ?w]) simp
qed

theorem Write_Decode_witness:
  "\<exists>es out w. Write unaryZlib Background fullSink [idOf sampleObject] (Some sampleResolver) sampleLimits = (Inr es, out) \<and>
     Decode unaryZlib Background (out @ [1, 2, 3]) sampleLimits None [] = Inr w \<and>
     GetObject w Background (idOf sampleObject) = Inr sampleObject"
  using Write_Decode [OF unaryZlib_law sample_write, of "[]" "[1, 2, 3]" None] sample_write
  by (auto simp: sampleLimits_def sampleResolver_def)

text \<open>
  C22. Every index entry that \<^verbatim>\<open>Write\<close> returns locates its object: the IDs are the requested ones
  in sorted order, and reading the range of the entry from the pack and decoding it with \<^verbatim>\<open>DecodeEntry\<close> gives
  the object that the resolver supplied for this ID.
\<close>

theorem Write_DecodeEntry:
  assumes "zlib_law z" and "Write z ctx sink ids (Some f) lim = (Inr es, out)"
  shows "map EntryID es = sort ids \<and>
    (\<forall>e \<in> set es. DecodeEntry z ctx (take (nat (EntryLength e)) (drop (nat (EntryOffset e)) out)) e (MaxObjectBytes lim) =
       f ctx (EntryID e))"
proof -
  from assms(2) obtain os where os: "limitsValid lim" "ctx_Err ctx = None"
    "map (f ctx) (sort ids) = map Inr os" "map idOf os = sort ids" "\<forall>o1 \<in> set os. writable lim o1"
    "out = packStreamOf z os @ Sum1 (packStreamOf z os)" "int (length out) \<le> MaxPackBytes lim" "es = entriesFrom z 12 os"
    by (rule Write_done)
  have hl: "length (packHeader n) = 12" for n by (simp add: packHeader_def bytes_of_def bytes32_def)
  have "DecodeEntry z ctx (take (nat (EntryLength e)) (drop (nat (EntryOffset e)) out)) e (MaxObjectBytes lim) = f ctx (EntryID e)"
    if e: "e \<in> set es" for e
  proof -
    from e os(8) obtain o1 pre post where o1: "o1 \<in> set os" "concat (map (packedObject z) os) = pre @ packedObject z o1 @ post"
      "e = entryAt z (12 + length pre) o1"
      using entriesFrom_member by metis
    have out: "out = (packHeader (length os) @ pre) @ packedObject z o1 @ post @ Sum1 (packStreamOf z os)"
      using os(6) o1(2) by (simp add: packStreamOf_def)
    have range: "take (nat (EntryLength e)) (drop (nat (EntryOffset e)) out) = packedObject z o1"
    proof -
      have off: "nat (EntryOffset e) = length (packHeader (length os) @ pre)" "nat (EntryLength e) = length (packedObject z o1)"
        using o1(3) hl by (simp_all add: entryAt_def)
      show ?thesis unfolding off out by simp
    qed
    from o1(1) obtain k where k: "k < length os" "o1 = os ! k" by (metis in_set_conv_nth)
    have "f ctx (idOf o1) = Inr o1" using os(3,4) k by (metis length_map nth_map)
    moreover have "DecodeEntry z ctx (packedObject z o1) e (MaxObjectBytes lim) = Inr o1"
      unfolding o1(3) using assms(1) os(1,2,5,7) o1(1) out
      by (intro DecodeEntry_packed) (auto simp: writable_def limitsValid_def)
    ultimately show ?thesis using range o1(3) by simp
  qed
  then show ?thesis using os(4,8) by (simp add: entriesFrom_ids)
qed

theorem Write_DecodeEntry_witness:
  "DecodeEntry unaryZlib Background (packedObject unaryZlib sampleObject) (entryAt unaryZlib 12 sampleObject) 100 = Inr sampleObject"
proof -
  have "length (packHeader n) = 12" for n by (simp add: packHeader_def bytes_of_def bytes32_def)
  moreover have "nat (EntryLength (entryAt unaryZlib 12 sampleObject)) = 6" by (simp add: entryAt_def sample_packed)
  ultimately show ?thesis
    using Write_DecodeEntry [OF unaryZlib_law sample_write]
    by (simp add: packStreamOf_def sample_packed sampleLimits_def sampleResolver_def)
qed

text \<open>
  C19. Whatever bytes a peer sends: when \<^verbatim>\<open>Decode\<close> succeeds, its budgets were kept (the decoded bytes and the
  exact sum of the staged file sizes are within the limits), every entry, whole object or delta, is identified, each
  has a file of its own whose content has the announced size, at most the maximal object size and chain depth,
  and hashes to the recorded ID and SHA-256; and the index finds exactly the identified entries.
\<close>

theorem Decode_verified:
  assumes "Decode z ctx input lim resolver options = Inr w"
  shows "limits w = lim \<and> dirOpen w \<and> workspace_ok w \<and> (\<forall>e \<in> set (entries w). EntryID e \<noteq> [])"
  using Decode_ok [OF assms] by blast

text \<open>
  C21. A decoded workspace serves exactly its listed IDs: they are sorted and distinct, each is answered with an object of a
  known type within the size limit whose ID is the requested one, every other ID is not found, and after
  \<^verbatim>\<open>Close\<close> nothing is served.
\<close>

theorem Decode_serves:
  assumes "Decode z ctx input lim resolver options = Inr w" and "ctx_Err ctx' = None"
  shows "sorted (IDs w) \<and> distinct (IDs w) \<and>
    (\<forall>ident \<in> set (IDs w). \<exists>object. GetObject w ctx' ident = Inr object \<and> idOf object = ident \<and>
       typeCode (ObjectType object) \<noteq> 0 \<and> sizeOf object \<le> MaxObjectBytes lim \<and> GetObject (Close w) ctx' ident = Inl ErrClosed) \<and>
    (\<forall>ident. ident \<notin> set (IDs w) \<longrightarrow> GetObject w ctx' ident = Inl ErrObjectNotFound)"
proof -
  note ok = Decode_ok [OF assms(1)]
  have idx: "index_ok w" and cont: "\<forall>e \<in> set (entries w). content_ok w e" using ok(2) by (simp_all add: workspace_ok_def)
  have "distinct (IDs w)" using idx by (simp add: IDs_def index_ok_def al_wf_def)
  moreover have "\<exists>object. GetObject w ctx' ident = Inr object \<and> idOf object = ident \<and>
       typeCode (ObjectType object) \<noteq> 0 \<and> sizeOf object \<le> MaxObjectBytes lim \<and> GetObject (Close w) ctx' ident = Inl ErrClosed"
    if i: "ident \<in> set (IDs w)" for ident
  proof -
    from i obtain j where j: "map_of (objectIndex w) ident = Some j"
      by (auto simp: IDs_def) (metis map_of_eq_None_iff not_Some_eq image_eqI fst_conv)
    with idx have e: "j < length (entries w)" "EntryID (entries w ! j) = ident" "ident \<noteq> []" by (simp_all add: index_ok_def)
    with cont have c: "content_ok w (entries w ! j)" by simp
    then obtain c where c: "files w (path (entries w ! j)) = Some c" "EntrySize (entries w ! j) = int (length c)"
      "ident = objectID (EntryType (entries w ! j)) c" "EntrySHA256 (entries w ! j) = objectSHA256 (EntryType (entries w ! j)) c"
      "typeCode (EntryType (entries w ! j)) \<noteq> 0" "EntrySize (entries w ! j) \<le> MaxObjectBytes lim"
      using e ok(3) by (auto simp: content_ok_def split: option.splits)
    let ?o = "\<lparr>ObjectType = EntryType (entries w ! j), ObjectData = c\<rparr>"
    have "holds w ?o" using j e c content_ok_path [OF \<open>content_ok w (entries w ! j)\<close>] by (simp add: holds_def idOf_def sizeOf_def)
    then have "GetObject w ctx' (idOf ?o) = Inr ?o" using ok(4) assms(2) by (rule GetObject_holds)
    moreover have "GetObject (Close w) ctx' ident = Inl ErrClosed" using j ok(4) by (simp add: GetObject_def Close_def Let_def)
    ultimately show ?thesis using c by (intro exI [of _ ?o]) (simp add: idOf_def sizeOf_def)
  qed
  moreover have "GetObject w ctx' ident = Inl ErrObjectNotFound" if "ident \<notin> set (IDs w)" for ident
    using that by (simp add: IDs_def GetObject_def map_of_eq_None_iff [THEN iffD2])
  ultimately show ?thesis by (simp add: IDs_def)
qed

lemma sample_decode:
  "Decode unaryZlib Background (packStreamOf unaryZlib [sampleObject] @ Sum1 (packStreamOf unaryZlib [sampleObject])) sampleLimits None [] =
     Inr (loadAll unaryZlib 12 [sampleObject] (newWorkspace sampleLimits))"
proof -
  have "length (packHeader n) = 12" for n by (simp add: packHeader_def bytes_of_def bytes32_def)
  then show ?thesis
    using Decode_pack [OF unaryZlib_law, of sampleLimits Background "[]" "[sampleObject]" "[]" None]
    by (simp add: sampleLimits_def limitsValid_def MaxInt64_def writable_def sizeOf_def sampleObject_def typeCode_def packStreamOf_def
        sample_packed [unfolded sampleObject_def])
qed

theorem Decode_verified_witness:
  "let w = loadAll unaryZlib 12 [sampleObject] (newWorkspace sampleLimits)
   in length (entries w) = 1 \<and> diskBytes w = 2 \<and> workspace_ok w"
  using Decode_verified [OF sample_decode] by (simp add: Let_def newWorkspace_def sizeOf_def sampleObject_def)

theorem Decode_serves_witness:
  "\<exists>object. GetObject (loadAll unaryZlib 12 [sampleObject] (newWorkspace sampleLimits)) Background (idOf sampleObject) = Inr object \<and>
     idOf object = idOf sampleObject"
proof -
  have "idOf sampleObject \<in> set (IDs (loadAll unaryZlib 12 [sampleObject] (newWorkspace sampleLimits)))"
    by (simp add: IDs_def newWorkspace_def)
  then show ?thesis using Decode_serves [OF sample_decode, of Background] by auto
qed

end
