(* ===== verification/MemoryCache.thy ===== *)
theory MemoryCache
  imports Prelude
begin

text \<open>
  \<^verbatim>\<open>internal/cache/cache.go\<close>, the memory side: an LRU cache with a byte budget that loads each missing
  key once for all concurrent callers. The mutex makes each locked region one step, so
  \<^verbatim>\<open>LoadMemory\<close> is two: \<open>beginLoad\<close> up to the call of the loader and \<open>finishLoad\<close> behind it.
  The LRU list and the map of the same entries are one list, most recently used first; a
  flight is a number that stands for its pointer. The values are a type parameter.
\<close>

section \<open>The model\<close>

record 'v memoryEntry =
  me_key :: string
  me_value :: 'v
  me_bytes :: int

definition memoryEntryOverhead :: int where
  "memoryEntryOverhead = 256"

record counters =
  memoryHits :: "64 word"
  memoryMisses :: "64 word"
  memoryEvictions :: "64 word"
  coalesced :: "64 word"
  fillErrors :: "64 word"

text \<open>A flight has no result until its \<^verbatim>\<open>done\<close> channel is closed; \<open>fl_cancelled\<close> is its context.\<close>

record 'v flight =
  fl_result :: "'v result option"
  fl_cancelled :: bool

record 'v Cache =
  memoryLimit :: int
  memoryBytes :: int
  memory :: "'v memoryEntry list"
  memoryFills :: "(string \<times> nat) list"
  flights :: "nat \<Rightarrow> 'v flight"
  nextFlight :: nat
  cacheClosed :: bool
  metrics :: counters

text \<open>\<^verbatim>\<open>New\<close> without a disk budget.\<close>

definition NewCache :: "int \<Rightarrow> int \<Rightarrow> string \<Rightarrow> 'v Cache result" where
  "NewCache memBytes dskBytes ns =
     (if memBytes < 0 \<or> dskBytes < 0 \<or> ns = [] then Inl (ErrMsg ''nonnegative budgets and a namespace are required'')
      else Inr \<lparr>memoryLimit = memBytes, memoryBytes = 0, memory = [], memoryFills = [],
        flights = (\<lambda>_. \<lparr>fl_result = None, fl_cancelled = False\<rparr>), nextFlight = 0, cacheClosed = False, metrics = \<lparr>memoryHits = 0, memoryMisses = 0, memoryEvictions = 0, coalesced = 0, fillErrors = 0\<rparr>\<rparr>)"

datatype 'v begun =
    Failed err
  | Hit 'v
  | Join nat
  | Fill nat

definition moveToFront :: "string \<Rightarrow> 'v memoryEntry list \<Rightarrow> 'v memoryEntry list" where
  "moveToFront key es = filter (\<lambda>e. me_key e = key) es @ filter (\<lambda>e. me_key e \<noteq> key) es"

definition findEntry :: "string \<Rightarrow> 'v memoryEntry list \<Rightarrow> 'v memoryEntry option" where
  "findEntry key es = List.find (\<lambda>e. me_key e = key) es"

definition beginLoad :: "ctx \<Rightarrow> string \<Rightarrow> bool \<Rightarrow> 'v Cache \<Rightarrow> 'v begun \<times> 'v Cache" where
  "beginLoad ctx key hasLoader c =
     (case ctx_Err ctx of Some e \<Rightarrow> (Failed e, c) | None \<Rightarrow>
      if cacheClosed c then (Failed ErrClosed, c)
      else (case findEntry key (memory c) of
        Some entry \<Rightarrow> (Hit (me_value entry), c\<lparr>memory := moveToFront key (memory c),
          metrics := (metrics c)\<lparr>memoryHits := memoryHits (metrics c) + 1\<rparr>\<rparr>)
      | None \<Rightarrow>
          (case map_of (memoryFills c) key of
             Some pending \<Rightarrow> (Join pending, c\<lparr>metrics := (metrics c)\<lparr>coalesced := coalesced (metrics c) + 1\<rparr>\<rparr>)
           | None \<Rightarrow>
               if \<not> hasLoader then (Failed (ErrMsg ''nil memory loader''), c)
               else (let pending = nextFlight c
                     in (Fill pending, c\<lparr>nextFlight := Suc pending,
                           flights := (flights c)(pending := \<lparr>fl_result = None, fl_cancelled = False\<rparr>),
                           memoryFills := al_put key pending (memoryFills c),
                           metrics := (metrics c)\<lparr>memoryMisses := memoryMisses (metrics c) + 1\<rparr>\<rparr>)))))"

text \<open>The eviction loop; no value stands for the nil dereference of \<^verbatim>\<open>Back()\<close> on an empty list.\<close>

function evict :: "int \<Rightarrow> 'v Cache \<Rightarrow> 'v Cache option" where
  "evict charge c =
     (if memoryBytes c > memoryLimit c - charge then
        (if memory c = [] then None
         else evict charge (c\<lparr>memory := butlast (memory c), memoryBytes := memoryBytes c - me_bytes (last (memory c)),
                metrics := (metrics c)\<lparr>memoryEvictions := memoryEvictions (metrics c) + 1\<rparr>\<rparr>))
      else Some c)"
  by pat_completeness auto
termination
  by (relation "measure (\<lambda>(charge, c). length (memory c))") simp_all

declare evict.simps [simp del]

definition settle :: "string \<Rightarrow> nat \<Rightarrow> 'v result \<Rightarrow> 'v Cache \<Rightarrow> 'v Cache" where
  "settle key pending r c = c\<lparr>flights := (flights c)(pending := (flights c pending)\<lparr>fl_result := Some r\<rparr>),
     memoryFills := al_del key (memoryFills c),
     metrics := (case r of Inl _ \<Rightarrow> (metrics c)\<lparr>fillErrors := fillErrors (metrics c) + 1\<rparr> | Inr _ \<Rightarrow> metrics c)\<rparr>"

text \<open>Whether a loaded value fits, written without overflow as in the code, and its insertion.\<close>

definition retains :: "string \<Rightarrow> int \<Rightarrow> 'v Cache \<Rightarrow> bool" where
  "retains key sz c \<longleftrightarrow>
     sz > 0 \<and> memoryLimit c \<ge> memoryEntryOverhead \<and> int (length key) \<le> memoryLimit c - memoryEntryOverhead \<and>
     sz \<le> memoryLimit c - memoryEntryOverhead - int (length key)"

definition retain :: "string \<Rightarrow> 'v \<Rightarrow> int \<Rightarrow> 'v Cache \<Rightarrow> 'v Cache option" where
  "retain key v sz c =
     (if \<not> retains key sz c then Some c
      else (let charge = sz + memoryEntryOverhead + int (length key)
            in case evict charge c of
                 None \<Rightarrow> None
               | Some c \<Rightarrow> Some (c\<lparr>memory := \<lparr>me_key = key, me_value = v, me_bytes = charge\<rparr> # memory c,
                                   memoryBytes := memoryBytes c + charge\<rparr>)))"

text \<open>
  \<open>finishLoad\<close>: the loader's answer and what \<^verbatim>\<open>fillCtx.Err()\<close> returned behind it are arguments.
\<close>

definition finishLoad :: "string \<Rightarrow> nat \<Rightarrow> ('v \<times> int) result \<Rightarrow> err option \<Rightarrow> 'v Cache \<Rightarrow> ('v result \<times> 'v Cache) option" where
  "finishLoad key pending loaded fillErr c =
     (let r = (case loaded of
                 Inl e \<Rightarrow> Inl e
               | Inr (v, sz) \<Rightarrow>
                   (case fillErr of
                      Some e \<Rightarrow> Inl e
                    | None \<Rightarrow> if cacheClosed c then Inl ErrClosed else Inr (v, sz)))
      in (case r of
            Inl e \<Rightarrow> Some (Inl e, settle key pending (Inl e) c)
          | Inr (v, sz) \<Rightarrow>
              (case retain key v sz c of None \<Rightarrow> None | Some c \<Rightarrow> Some (Inr v, settle key pending (Inr v) c))))"

definition panicLoad :: "string \<Rightarrow> nat \<Rightarrow> 'v Cache \<Rightarrow> 'v Cache" where
  "panicLoad key pending c =
     (if map_of (memoryFills c) key = Some pending then settle key pending (Inl (ErrMsg ''memory loader panicked'')) c else c)"

text \<open>\<^verbatim>\<open>await\<close> of a flight: still waiting, or an answer.\<close>

definition await :: "ctx \<Rightarrow> 'v flight \<Rightarrow> 'v result option" where
  "await ctx pending = (case ctx_Err ctx of Some e \<Rightarrow> Some (Inl e) | None \<Rightarrow> fl_result pending)"

text \<open>\<^verbatim>\<open>Close\<close> before and after it waits for the fills.\<close>

definition closeBegin :: "'v Cache \<Rightarrow> 'v Cache" where
  "closeBegin c = (if cacheClosed c then c
     else c\<lparr>cacheClosed := True,
            flights := (\<lambda>f. if f \<in> snd ` set (memoryFills c) then (flights c f)\<lparr>fl_cancelled := True\<rparr> else flights c f)\<rparr>)"

definition closeEnd :: "'v Cache \<Rightarrow> 'v Cache" where
  "closeEnd c = c\<lparr>memory := [], memoryBytes := 0\<rparr>"

section \<open>Interleavings\<close>

text \<open>
  The system: the cache, the running loaders with their keys, and as a record of the past the key of
  every flight and what the loaders returned for each key.
\<close>

record 'v system =
  cache :: "'v Cache"
  running :: "(nat \<times> string) list"
  owner :: "nat \<Rightarrow> string"
  produced :: "(string \<times> 'v) set"

inductive cache_step :: "'v system \<Rightarrow> 'v system \<Rightarrow> bool" where
  other: "beginLoad ctx key hasLoader (cache s) = (out, c) \<Longrightarrow> (\<forall>f. out \<noteq> Fill f) \<Longrightarrow> cache_step s (s\<lparr>cache := c\<rparr>)"
| fill: "beginLoad ctx key hasLoader (cache s) = (Fill f, c) \<Longrightarrow>
    cache_step s (s\<lparr>cache := c, running := (f, key) # running s, owner := (owner s)(f := key)\<rparr>)"
| finish: "(f, key) \<in> set (running s) \<Longrightarrow> finishLoad key f loaded fillErr (cache s) = Some (r, c) \<Longrightarrow>
    cache_step s (s\<lparr>cache := c, running := filter (\<lambda>p. fst p \<noteq> f) (running s),
      produced := (case loaded of Inl _ \<Rightarrow> produced s | Inr (v, sz) \<Rightarrow> insert (key, v) (produced s))\<rparr>)"
| panic: "(f, key) \<in> set (running s) \<Longrightarrow>
    cache_step s (s\<lparr>cache := panicLoad key f (cache s), running := filter (\<lambda>p. fst p \<noteq> f) (running s)\<rparr>)"
| closing: "cache_step s (s\<lparr>cache := closeBegin (cache s)\<rparr>)"
| closed: "cacheClosed (cache s) \<Longrightarrow> running s = [] \<Longrightarrow> cache_step s (s\<lparr>cache := closeEnd (cache s)\<rparr>)"

inductive cache_reachable :: "int \<Rightarrow> 'v system \<Rightarrow> bool" for limit where
  start: "NewCache limit 0 ns = Inr c \<Longrightarrow> cache_reachable limit \<lparr>cache = c, running = [], owner = own, produced = {}\<rparr>"
| step: "cache_reachable limit s \<Longrightarrow> cache_step s s' \<Longrightarrow> cache_reachable limit s'"


section \<open>Eviction\<close>

definition chargeOf :: "'v memoryEntry list \<Rightarrow> int" where
  "chargeOf es = sum_list (map me_bytes es)"

lemma chargeOf_simps [simp]: "chargeOf [] = 0" "chargeOf (e # es) = me_bytes e + chargeOf es"
  "chargeOf (es @ fs) = chargeOf es + chargeOf fs"
  by (simp_all add: chargeOf_def)

lemma chargeOf_butlast: "es \<noteq> [] \<Longrightarrow> chargeOf (butlast es) = chargeOf es - me_bytes (last es)"
  by (metis append_butlast_last_id chargeOf_simps add_diff_cancel_right' add_0_right)

lemma chargeOf_nonneg: "\<forall>e \<in> set es. 0 < me_bytes e \<Longrightarrow> 0 \<le> chargeOf es"
  by (induction es) auto

text \<open>
  The loop keeps the longest prefix of the LRU list, the most recently used entries, that leaves room
  for the charge, and it never meets an empty list.
\<close>

lemma evict_prefix:
  assumes "memoryBytes c = chargeOf (memory c)" "charge \<le> memoryLimit c"
  shows "\<exists>n c'. evict charge c = Some c' \<and> n \<le> length (memory c) \<and> memory c' = take n (memory c) \<and>
    memoryBytes c' = chargeOf (take n (memory c)) \<and> memoryBytes c' \<le> memoryLimit c - charge \<and>
    (n < length (memory c) \<longrightarrow> chargeOf (take (Suc n) (memory c)) > memoryLimit c - charge) \<and>
    c' = c\<lparr>memory := memory c', memoryBytes := memoryBytes c', metrics := metrics c'\<rparr>"
  using assms
proof (induction charge c rule: evict.induct)
  case (1 charge c)
  show ?case
  proof (cases "memoryBytes c > memoryLimit c - charge")
    case False
    with "1.prems" show ?thesis
      by (intro exI [of _ "length (memory c)"] exI [of _ c]) (simp add: evict.simps [of charge c])
  next
    case True
    have ne: "memory c \<noteq> []"
    proof
      assume "memory c = []"
      then have "memoryBytes c = 0" using "1.prems"(1) by simp
      with True "1.prems"(2) show False by simp
    qed
    let ?c = "c\<lparr>memory := butlast (memory c), memoryBytes := memoryBytes c - me_bytes (last (memory c)),
      metrics := (metrics c)\<lparr>memoryEvictions := memoryEvictions (metrics c) + 1\<rparr>\<rparr>"
    have pre: "memoryBytes ?c = chargeOf (memory ?c)" "charge \<le> memoryLimit ?c"
      using "1.prems" chargeOf_butlast [OF ne] by simp_all
    from "1.IH" [OF True ne pre] obtain n c' where IH':
      "evict charge ?c = Some c'" "n \<le> length (memory ?c)" "memory c' = take n (memory ?c)"
      "memoryBytes c' = chargeOf (take n (memory ?c))" "memoryBytes c' \<le> memoryLimit ?c - charge"
      "n < length (memory ?c) \<longrightarrow> chargeOf (take (Suc n) (memory ?c)) > memoryLimit ?c - charge"
      "c' = ?c\<lparr>memory := memory c', memoryBytes := memoryBytes c', metrics := metrics c'\<rparr>"
      by blast
    then have IH: "evict charge ?c = Some c'" "n \<le> length (butlast (memory c))" "memory c' = take n (butlast (memory c))"
      "memoryBytes c' = chargeOf (take n (butlast (memory c)))" "memoryBytes c' \<le> memoryLimit c - charge"
      "n < length (butlast (memory c)) \<longrightarrow> chargeOf (take (Suc n) (butlast (memory c))) > memoryLimit c - charge"
      "c' = c\<lparr>memory := memory c', memoryBytes := memoryBytes c', metrics := metrics c'\<rparr>"
      by simp_all
    have n: "n < length (memory c)" using IH(2) ne by (cases "memory c" rule: rev_cases) simp_all
    then have tk: "take n (butlast (memory c)) = take n (memory c)" by (simp add: take_butlast)
    have "chargeOf (take (Suc n) (memory c)) > memoryLimit c - charge"
    proof (cases "Suc n = length (memory c)")
      case True
      with \<open>memoryBytes c > memoryLimit c - charge\<close> "1.prems"(1) show ?thesis by simp
    next
      case False
      with n IH(6) show ?thesis by (simp add: take_butlast)
    qed
    moreover have "evict charge c = Some c'" using True ne IH(1) by (simp add: evict.simps [of charge c])
    ultimately show ?thesis using IH n tk by (intro exI [of _ n] exI [of _ c']) simp
  qed
qed

section \<open>The invariant\<close>

definition cache_ok :: "'v Cache \<Rightarrow> bool" where
  "cache_ok c \<longleftrightarrow>
     memoryBytes c = chargeOf (memory c) \<and> memoryBytes c \<le> memoryLimit c \<and> 0 \<le> memoryLimit c \<and>
     (\<forall>e \<in> set (memory c). 0 < me_bytes e) \<and>
     distinct (map me_key (memory c)) \<and> al_wf (memoryFills c) \<and>
     (\<forall>e \<in> set (memory c). map_of (memoryFills c) (me_key e) = None)"

definition fills_ok :: "'v system \<Rightarrow> bool" where
  "fills_ok s \<longleftrightarrow>
     distinct (map fst (running s)) \<and>
     (\<forall>f key. (f, key) \<in> set (running s) \<longleftrightarrow> map_of (memoryFills (cache s)) key = Some f) \<and>
     (\<forall>f key. (f, key) \<in> set (running s) \<longrightarrow> f < nextFlight (cache s) \<and> owner s f = key \<and> fl_result (flights (cache s) f) = None)"

definition values_ok :: "'v system \<Rightarrow> bool" where
  "values_ok s \<longleftrightarrow>
     (\<forall>e \<in> set (memory (cache s)). (me_key e, me_value e) \<in> produced s) \<and>
     (\<forall>f v. f < nextFlight (cache s) \<longrightarrow> fl_result (flights (cache s) f) = Some (Inr v) \<longrightarrow> (owner s f, v) \<in> produced s)"

lemmas system_ok_defs = cache_ok_def fills_ok_def values_ok_def

definition system_ok :: "'v system \<Rightarrow> bool" where
  "system_ok s \<longleftrightarrow> cache_ok (cache s) \<and> fills_ok s \<and> values_ok s"


subsection \<open>Starting a load\<close>

lemma findEntry_Some: "findEntry key es = Some e \<Longrightarrow> e \<in> set es \<and> me_key e = key"
  by (auto simp: findEntry_def find_Some_iff)

lemma findEntry_None: "findEntry key es = None \<longleftrightarrow> key \<notin> set (map me_key es)"
  by (auto simp: findEntry_def find_None_iff)

lemma moveToFront_facts:
  "set (moveToFront key es) = set es" "chargeOf (moveToFront key es) = chargeOf es"
  "distinct (map me_key es) \<Longrightarrow> distinct (map me_key (moveToFront key es))"
proof -
  show "set (moveToFront key es) = set es" by (auto simp: moveToFront_def)
  show "chargeOf (moveToFront key es) = chargeOf es" by (induction es) (auto simp: moveToFront_def)
  assume "distinct (map me_key es)"
  then show "distinct (map me_key (moveToFront key es))"
    by (auto simp: moveToFront_def distinct_map intro: inj_on_subset)
qed

lemma beginLoad_other_ok:
  assumes "beginLoad ctx key hasLoader (cache s) = (out, c)" "\<forall>f. out \<noteq> Fill f" "system_ok s"
  shows "system_ok (s\<lparr>cache := c\<rparr>)"
  using assms
  by (auto simp: beginLoad_def system_ok_def system_ok_defs moveToFront_facts Let_def split: option.splits if_splits)

lemma beginLoad_fill_ok:
  assumes b: "beginLoad ctx key hasLoader (cache s) = (Fill f, c)" and ok: "system_ok s"
  shows "system_ok (s\<lparr>cache := c, running := (f, key) # running s, owner := (owner s)(f := key)\<rparr>)"
proof -
  from b have e: "findEntry key (memory (cache s)) = None" "map_of (memoryFills (cache s)) key = None" "f = nextFlight (cache s)"
    "c = (cache s)\<lparr>nextFlight := Suc f, flights := (flights (cache s))(f := \<lparr>fl_result = None, fl_cancelled = False\<rparr>),
       memoryFills := al_put key f (memoryFills (cache s)),
       metrics := (metrics (cache s))\<lparr>memoryMisses := memoryMisses (metrics (cache s)) + 1\<rparr>\<rparr>"
    by (auto simp: beginLoad_def Let_def split: option.splits if_splits)
  have "cache_ok c" using ok e(1) unfolding e(4) by (auto simp: system_ok_def cache_ok_def findEntry_None)
  moreover have "fills_ok (s\<lparr>cache := c, running := (f, key) # running s, owner := (owner s)(f := key)\<rparr>)"
    using ok e(2,3) unfolding e(4) by (force simp: system_ok_def fills_ok_def less_Suc_eq)
  moreover have "values_ok (s\<lparr>cache := c, running := (f, key) # running s, owner := (owner s)(f := key)\<rparr>)"
    using ok e(3) unfolding e(4) by (auto simp: system_ok_def values_ok_def less_Suc_eq)
  ultimately show ?thesis by (simp add: system_ok_def)
qed


subsection \<open>Finishing a load\<close>

text \<open>The LRU list after a value has been retained.\<close>

lemma retain_result:
  assumes "memoryBytes c = chargeOf (memory c)" "retains key sz c"
  defines "charge \<equiv> sz + memoryEntryOverhead + int (length key)"
  obtains n c' where "retain key v sz c = Some c'" "n \<le> length (memory c)"
    "memory c' = \<lparr>me_key = key, me_value = v, me_bytes = charge\<rparr> # take n (memory c)"
    "memoryBytes c' = chargeOf (memory c')" "memoryBytes c' \<le> memoryLimit c"
    "n < length (memory c) \<longrightarrow> charge + chargeOf (take (Suc n) (memory c)) > memoryLimit c"
    "c' = c\<lparr>memory := memory c', memoryBytes := memoryBytes c', metrics := metrics c'\<rparr>"
proof -
  have "charge \<le> memoryLimit c" using assms(2) by (simp add: retains_def charge_def)
  from evict_prefix [OF assms(1) this] obtain n c1 where c1:
    "evict charge c = Some c1" "n \<le> length (memory c)" "memory c1 = take n (memory c)"
    "memoryBytes c1 = chargeOf (take n (memory c))" "memoryBytes c1 \<le> memoryLimit c - charge"
    "n < length (memory c) \<longrightarrow> chargeOf (take (Suc n) (memory c)) > memoryLimit c - charge"
    "c1 = c\<lparr>memory := memory c1, memoryBytes := memoryBytes c1, metrics := metrics c1\<rparr>"
    by blast
  define c' where "c' = c1\<lparr>memory := \<lparr>me_key = key, me_value = v, me_bytes = charge\<rparr> # memory c1, memoryBytes := memoryBytes c1 + charge\<rparr>"
  have "c' = c\<lparr>memory := memory c', memoryBytes := memoryBytes c', metrics := metrics c'\<rparr>"
    unfolding c'_def by (subst c1(7)) simp
  moreover have "n < length (memory c) \<longrightarrow> charge + chargeOf (take (Suc n) (memory c)) > memoryLimit c"
    using c1(6) by auto
  ultimately show ?thesis using c1(1-5) assms(2)
    by (intro that [of c' n]) (simp_all add: retain_def c'_def charge_def Let_def)
qed

lemma retain_ok:
  assumes "cache_ok c" "key \<notin> set (map me_key (memory c))"
  obtains c' where "retain key v sz c = Some c'"
    "memoryBytes c' = chargeOf (memory c')" "memoryBytes c' \<le> memoryLimit c" "\<forall>e \<in> set (memory c'). 0 < me_bytes e"
    "distinct (map me_key (memory c'))"
    "\<forall>e \<in> set (memory c'). e \<in> set (memory c) \<or> me_key e = key \<and> me_value e = v"
    "c' = c\<lparr>memory := memory c', memoryBytes := memoryBytes c', metrics := metrics c'\<rparr>"
proof (cases "retains key sz c")
  case False
  then show ?thesis using assms by (intro that [of c]) (simp_all add: retain_def cache_ok_def)
next
  case True
  have "memoryBytes c = chargeOf (memory c)" using assms(1) by (simp add: cache_ok_def)
  from this True obtain n c' where c': "retain key v sz c = Some c'" "n \<le> length (memory c)"
    "memory c' = \<lparr>me_key = key, me_value = v, me_bytes = sz + memoryEntryOverhead + int (length key)\<rparr> # take n (memory c)"
    "memoryBytes c' = chargeOf (memory c')" "memoryBytes c' \<le> memoryLimit c"
    "c' = c\<lparr>memory := memory c', memoryBytes := memoryBytes c', metrics := metrics c'\<rparr>"
    by (rule retain_result)
  have sub: "set (take n (memory c)) \<subseteq> set (memory c)" by (rule set_take_subset)
  have "distinct (map me_key (take n (memory c)))"
    using assms(1) by (simp add: cache_ok_def take_map [symmetric])
  moreover have "0 < sz + memoryEntryOverhead + int (length key)"
    using True by (simp add: retains_def memoryEntryOverhead_def)
  ultimately show ?thesis using c' sub assms by (intro that [of c']) (auto simp: cache_ok_def)
qed

lemma fills_unique:
  assumes "system_ok s" "(f, key) \<in> set (running s)"
  shows "map_of (memoryFills (cache s)) key = Some f" "key \<notin> set (map me_key (memory (cache s)))"
proof -
  show m: "map_of (memoryFills (cache s)) key = Some f" using assms by (simp add: system_ok_def fills_ok_def)
  show "key \<notin> set (map me_key (memory (cache s)))"
    using assms(1) m unfolding system_ok_def cache_ok_def by fastforce
qed

text \<open>Settling a flight, after the memory may have changed.\<close>

lemma settle_ok:
  assumes ok: "system_ok s" and run: "(f, key) \<in> set (running s)"
    and c: "c = (cache s)\<lparr>memory := memory c, memoryBytes := memoryBytes c, metrics := metrics c\<rparr>"
      "memoryBytes c = chargeOf (memory c)" "memoryBytes c \<le> memoryLimit (cache s)" "\<forall>e \<in> set (memory c). 0 < me_bytes e"
      "distinct (map me_key (memory c))"
    and mem: "\<forall>e \<in> set (memory c). e \<in> set (memory (cache s)) \<or> me_key e = key \<and> (key, me_value e) \<in> pr"
    and pr: "produced s \<subseteq> pr" "\<And>v. r = Inr v \<Longrightarrow> (key, v) \<in> pr"
  shows "system_ok (s\<lparr>cache := settle key f r c, running := filter (\<lambda>p. fst p \<noteq> f) (running s), produced := pr\<rparr>)"
proof -
  let ?s = "s\<lparr>cache := settle key f r c, running := filter (\<lambda>p. fst p \<noteq> f) (running s), produced := pr\<rparr>"
  have fld: "memoryLimit c = memoryLimit (cache s)" "memoryFills c = memoryFills (cache s)" "flights c = flights (cache s)"
    "nextFlight c = nextFlight (cache s)"
    by (subst c(1), simp)+
  have st: "memory (settle key f r c) = memory c" "memoryBytes (settle key f r c) = memoryBytes c"
    "memoryLimit (settle key f r c) = memoryLimit c" "memoryFills (settle key f r c) = al_del key (memoryFills c)"
    "nextFlight (settle key f r c) = nextFlight c"
    "flights (settle key f r c) = (flights c)(f := (flights c f)\<lparr>fl_result := Some r\<rparr>)"
    by (simp_all add: settle_def)
  have m: "map_of (memoryFills (cache s)) key = Some f" by (rule fills_unique [OF ok run])
  have own: "owner s f = key" using ok run by (simp add: system_ok_def fills_ok_def)
  have "cache_ok (cache ?s)"
    using ok c(2-5) mem by (auto simp: system_ok_def cache_ok_def st fld)
  moreover have "fills_ok ?s"
  proof -
    have uniq: "(f, k) \<in> set (running s) \<Longrightarrow> k = key" for k
      using ok own unfolding system_ok_def fills_ok_def by metis
    have iff: "(g, k) \<in> set (running s) \<and> g \<noteq> f \<longleftrightarrow> map_of (al_del key (memoryFills (cache s))) k = Some g" for g k
    proof -
      have F: "(g, k) \<in> set (running s) \<longleftrightarrow> map_of (memoryFills (cache s)) k = Some g"
        using ok by (simp add: system_ok_def fills_ok_def)
      show ?thesis
      proof (cases "k = key")
        case False
        then have "(f, k) \<notin> set (running s)" using uniq by blast
        then show ?thesis using False F by (metis fun_upd_apply map_of_al_del)
      qed (use F m in simp)
    qed
    have run_ok: "(g, k) \<in> set (running s) \<Longrightarrow> g < nextFlight (cache s) \<and> owner s g = k \<and> fl_result (flights (cache s) g) = None" for g k
      using ok unfolding system_ok_def fills_ok_def by blast
    have "distinct (map fst (filter (\<lambda>p. fst p \<noteq> f) (running s)))"
      using ok by (simp add: system_ok_def fills_ok_def distinct_map_filter)
    moreover have "(g, k) \<in> set (running ?s) \<longleftrightarrow> map_of (memoryFills (cache ?s)) k = Some g" for g k
      using iff [of g k] by (simp add: st fld)
    moreover have "g < nextFlight (cache ?s) \<and> owner ?s g = k \<and> fl_result (flights (cache ?s) g) = None"
      if "(g, k) \<in> set (running ?s)" for g k
      using that run_ok [of g k] by (simp add: st fld)
    ultimately show ?thesis unfolding fills_ok_def by simp
  qed
  moreover have "values_ok ?s"
  proof -
    have old: "\<forall>e \<in> set (memory (cache s)). (me_key e, me_value e) \<in> produced s"
      "\<forall>g v. g < nextFlight (cache s) \<longrightarrow> fl_result (flights (cache s) g) = Some (Inr v) \<longrightarrow> (owner s g, v) \<in> produced s"
      using ok by (simp_all add: system_ok_def values_ok_def)
    have "\<forall>e \<in> set (memory c). (me_key e, me_value e) \<in> pr" using mem old(1) pr(1) by (metis subsetD)
    with old(2) pr own show ?thesis by (auto simp: values_ok_def st fld)
  qed
  ultimately show ?thesis by (simp add: system_ok_def)
qed


lemma finishLoad_ok:
  assumes ok: "system_ok s" and run: "(f, key) \<in> set (running s)"
  shows "\<exists>r c. finishLoad key f loaded fillErr (cache s) = Some (r, c) \<and> memoryLimit c = memoryLimit (cache s) \<and>
    system_ok (s\<lparr>cache := c, running := filter (\<lambda>p. fst p \<noteq> f) (running s),
      produced := (case loaded of Inl _ \<Rightarrow> produced s | Inr (v, sz) \<Rightarrow> insert (key, v) (produced s))\<rparr>)"
proof -
  define pr where "pr = (case loaded of Inl _ \<Rightarrow> produced s | Inr (v, sz) \<Rightarrow> insert (key, v) (produced s))"
  have sub: "produced s \<subseteq> pr" by (auto simp: pr_def split: sum.splits)
  have c0: "memoryBytes (cache s) = chargeOf (memory (cache s))" "memoryBytes (cache s) \<le> memoryLimit (cache s)"
    "\<forall>e \<in> set (memory (cache s)). 0 < me_bytes e" "distinct (map me_key (memory (cache s)))"
    using ok by (simp_all add: system_ok_def cache_ok_def)
  have err: "system_ok (s\<lparr>cache := settle key f (Inl e) (cache s), running := filter (\<lambda>p. fst p \<noteq> f) (running s), produced := pr\<rparr>)" for e
    by (rule settle_ok [OF ok run _ c0 _ sub]) simp_all
  consider (fails) e where "finishLoad key f loaded fillErr (cache s) = Some (Inl e, settle key f (Inl e) (cache s))"
    | (loads) v sz where "loaded = Inr (v, sz)" "finishLoad key f loaded fillErr (cache s) =
        (case retain key v sz (cache s) of None \<Rightarrow> None | Some c \<Rightarrow> Some (Inr v, settle key f (Inr v) c))"
    by (cases loaded; cases fillErr; cases "cacheClosed (cache s)") (auto simp: finishLoad_def Let_def)
  then show ?thesis
  proof cases
    case fails
    with err [of e] show ?thesis by (simp add: pr_def settle_def)
  next
    case (loads v sz)
    have "cache_ok (cache s)" using ok by (simp add: system_ok_def)
    from retain_ok [OF this fills_unique(2) [OF ok run]] obtain c where c: "retain key v sz (cache s) = Some c"
      "memoryBytes c = chargeOf (memory c)" "memoryBytes c \<le> memoryLimit (cache s)" "\<forall>e \<in> set (memory c). 0 < me_bytes e"
      "distinct (map me_key (memory c))"
      "\<forall>e \<in> set (memory c). e \<in> set (memory (cache s)) \<or> me_key e = key \<and> me_value e = v"
      "c = (cache s)\<lparr>memory := memory c, memoryBytes := memoryBytes c, metrics := metrics c\<rparr>"
      by metis
    have "(key, v) \<in> pr" by (simp add: pr_def loads(1))
    with c(6) have "system_ok (s\<lparr>cache := settle key f (Inr v) c, running := filter (\<lambda>p. fst p \<noteq> f) (running s), produced := pr\<rparr>)"
      by (intro settle_ok [OF ok run c(7,2-5) _ sub]) auto
    moreover have "memoryLimit c = memoryLimit (cache s)" by (subst c(7)) simp
    ultimately show ?thesis using loads(2) c(1) by (simp add: pr_def settle_def)
  qed
qed

lemma panicLoad_ok:
  assumes ok: "system_ok s" and run: "(f, key) \<in> set (running s)"
  shows "system_ok (s\<lparr>cache := panicLoad key f (cache s), running := filter (\<lambda>p. fst p \<noteq> f) (running s)\<rparr>)"
proof -
  have c0: "memoryBytes (cache s) = chargeOf (memory (cache s))" "memoryBytes (cache s) \<le> memoryLimit (cache s)"
    "\<forall>e \<in> set (memory (cache s)). 0 < me_bytes e" "distinct (map me_key (memory (cache s)))"
    using ok by (simp_all add: system_ok_def cache_ok_def)
  have "panicLoad key f (cache s) = settle key f (Inl (ErrMsg ''memory loader panicked'')) (cache s)"
    using fills_unique(1) [OF ok run] by (simp add: panicLoad_def)
  with settle_ok [OF ok run _ c0, of "produced s" "Inl (ErrMsg ''memory loader panicked'')"] show ?thesis by simp
qed

subsection \<open>Closing\<close>

lemma closeBegin_ok: "system_ok s \<Longrightarrow> system_ok (s\<lparr>cache := closeBegin (cache s)\<rparr>)"
  by (auto simp: system_ok_def cache_ok_def fills_ok_def values_ok_def closeBegin_def)

lemma closeEnd_ok: "system_ok s \<Longrightarrow> system_ok (s\<lparr>cache := closeEnd (cache s)\<rparr>)"
  by (auto simp: system_ok_def cache_ok_def fills_ok_def values_ok_def closeEnd_def)

section \<open>The properties\<close>

lemma cache_reachable_limit: "cache_reachable limit s \<Longrightarrow> system_ok s \<and> memoryLimit (cache s) = limit"
proof (induction rule: cache_reachable.induct)
  case (start ns c own)
  then show ?case by (auto simp: NewCache_def system_ok_def cache_ok_def fills_ok_def values_ok_def split: if_splits)
next
  case (step s s')
  from step(2) show ?case
  proof cases
    case (other ctx key hasLoader out c)
    then show ?thesis using step.IH beginLoad_other_ok [of ctx key hasLoader s out c]
      by (auto simp: beginLoad_def Let_def split: option.splits if_splits)
  next
    case (fill ctx key hasLoader f c)
    then show ?thesis using step.IH beginLoad_fill_ok [of ctx key hasLoader s f c]
      by (auto simp: beginLoad_def Let_def split: option.splits if_splits)
  next
    case (finish f key loaded fillErr r c)
    then show ?thesis using step.IH finishLoad_ok [of s f key loaded fillErr] by auto
  next
    case (panic f key)
    then show ?thesis using step.IH panicLoad_ok [of s f key] by (auto simp: panicLoad_def settle_def)
  next
    case closing
    then show ?thesis using step.IH closeBegin_ok [of s] by (auto simp: closeBegin_def)
  next
    case closed
    then show ?thesis using step.IH closeEnd_ok [of s] by (auto simp: closeEnd_def)
  qed
qed



text \<open>
  A loaded value that fits is retained as the most recently used entry, in front of the longest run of the most recently
  used entries that leaves room for it; the next request for its key is a hit with this value.
\<close>

theorem finishLoad_retains:
  assumes "cache_reachable limit s" and "(f, key) \<in> set (running s)" and "\<not> cacheClosed (cache s)"
    and "0 < sz" and "sz + 256 + int (length key) \<le> limit"
  shows "\<exists>c n. finishLoad key f (Inr (v, sz)) None (cache s) = Some (Inr v, c) \<and>
    memory c = \<lparr>me_key = key, me_value = v, me_bytes = sz + 256 + int (length key)\<rparr> # take n (memory (cache s)) \<and>
    (n < length (memory (cache s)) \<longrightarrow> sz + 256 + int (length key) + chargeOf (take (Suc n) (memory (cache s))) > limit) \<and>
    fst (beginLoad Background key hasLoader c) = Hit v"
proof -
  have ok: "system_ok s" and lim: "memoryLimit (cache s) = limit" using cache_reachable_limit [OF assms(1)] by auto
  have fits: "retains key sz (cache s)" "memoryBytes (cache s) = chargeOf (memory (cache s))"
    using assms(4,5) lim ok by (simp_all add: retains_def memoryEntryOverhead_def system_ok_def cache_ok_def)
  from retain_result [OF fits(2,1), of v] obtain n c where c: "retain key v sz (cache s) = Some c"
    "memory c = \<lparr>me_key = key, me_value = v, me_bytes = sz + memoryEntryOverhead + int (length key)\<rparr> # take n (memory (cache s))"
    "n < length (memory (cache s)) \<longrightarrow> sz + memoryEntryOverhead + int (length key) + chargeOf (take (Suc n) (memory (cache s))) > memoryLimit (cache s)"
    "c = (cache s)\<lparr>memory := memory c, memoryBytes := memoryBytes c, metrics := metrics c\<rparr>"
    by metis
  have open': "cacheClosed c = cacheClosed (cache s)" by (subst c(4)) simp
  have "finishLoad key f (Inr (v, sz)) None (cache s) = Some (Inr v, settle key f (Inr v) c)"
    using c(1) assms(3) by (simp add: finishLoad_def)
  moreover have "fst (beginLoad Background key hasLoader (settle key f (Inr v) c)) = Hit v"
    using c(2) assms(3) open' by (simp add: beginLoad_def settle_def findEntry_def)
  ultimately show ?thesis using c(2,3) lim
    by (intro exI [of _ "settle key f (Inr v) c"] exI [of _ n]) (simp add: settle_def memoryEntryOverhead_def)
qed

definition sampleCache :: "nat Cache" where
  "sampleCache = (case NewCache 1000 0 ''ns'' of Inr c \<Rightarrow> c | Inl _ \<Rightarrow> undefined)"

lemma sample_reachable:
  "\<exists>s. cache_reachable 1000 s \<and> running s = [(0, ''k'')] \<and> \<not> cacheClosed (cache s) \<and> memory (cache s) = ([] :: nat memoryEntry list)"
proof -
  let ?s = "\<lparr>cache = sampleCache, running = [], owner = (\<lambda>_. []), produced = {}\<rparr> :: nat system"
  obtain c where c: "NewCache 1000 0 ''ns'' = (Inr c :: nat Cache result)" "memory c = []" "memoryFills c = []" "nextFlight c = 0" "\<not> cacheClosed c"
    by (simp add: NewCache_def)
  then have "cache_reachable 1000 ?s" using cache_reachable.start [of 1000 "''ns''" c "\<lambda>_. []"] by (simp add: sampleCache_def)
  moreover obtain c' where "beginLoad Background ''k'' True sampleCache = (Fill 0, c')" "\<not> cacheClosed c'" "memory c' = []"
    using c by (simp add: beginLoad_def sampleCache_def findEntry_def)
  ultimately show ?thesis using cache_reachable.step [OF _ cache_step.fill, of 1000 ?s Background "''k''" True 0 c'] by fastforce
qed


theorem finishLoad_retains_witness:
  "\<exists>(s :: nat system) c. running s = [(0, ''k'')] \<and> finishLoad ''k'' 0 (Inr (7 :: nat, 10)) None (cache s) = Some (Inr 7, c) \<and>
     fst (beginLoad Background ''k'' True c) = Hit 7"
proof -
  obtain s where s: "cache_reachable 1000 s" "running s = [(0, ''k'')]" "\<not> cacheClosed (cache s)" "memory (cache s) = ([] :: nat memoryEntry list)"
    using sample_reachable by blast
  then show ?thesis using finishLoad_retains [OF s(1), of 0 "''k''" 10 7 True] by (intro exI [of _ s]) auto
qed

end
