(* ===== verification/Config.thy ===== *)
theory Config
  imports ShardRouter
begin

text \<open>
  \<^verbatim>\<open>internal/config\<close>: the process configuration read from the environment and its validation. The
  parsers of \<^verbatim>\<open>net/url\<close>, \<^verbatim>\<open>time\<close> and \<^verbatim>\<open>encoding/base64\<close> are parameters (the record \<open>Stdlib\<close>):
  the results hold whatever they accept. A Go \<^verbatim>\<open>int\<close> or \<^verbatim>\<open>time.Duration\<close> is an \<^typ>\<open>int\<close> of the values that occur.
\<close>

section \<open>Strings and numbers\<close>

definition ParseUintBits :: "string \<Rightarrow> nat \<Rightarrow> nat option" where
  "ParseUintBits s b = (case ParseUint s of None \<Rightarrow> None | Some n \<Rightarrow> if n < 2 ^ b then Some n else None)"

definition ParseBool :: "string \<Rightarrow> bool option" where
  "ParseBool s =
     (if s \<in> {''1'', ''t'', ''T'', ''TRUE'', ''true'', ''True''} then Some True
      else if s \<in> {''0'', ''f'', ''F'', ''FALSE'', ''false'', ''False''} then Some False
      else None)"

text \<open>The verb \<^verbatim>\<open>%0*d\<close>.\<close>

definition zeroPadded :: "nat \<Rightarrow> nat \<Rightarrow> string" where
  "zeroPadded width n = replicate (width - length (FormatUint n)) CHR ''0'' @ FormatUint n"

definition IsAbs :: "string \<Rightarrow> bool" where
  "IsAbs p = HasPrefix p ''/''"

record ParsedURL =
  u_Scheme :: string
  u_Host :: string
  u_Hostname :: string
  u_Port :: string
  u_User :: bool
  u_Opaque :: string
  u_Path :: string
  u_RawQuery :: string
  u_ForceQuery :: bool
  u_Fragment :: string

record Stdlib =
  url_Parse :: "string \<Rightarrow> ParsedURL option"
  url_ParseRequestURI :: "string \<Rightarrow> ParsedURL option"
  ParseDuration :: "string \<Rightarrow> int option"
  base64_Decode :: "string \<Rightarrow> bytes option"

section \<open>The environment\<close>

type_synonym LookupEnv = "string \<Rightarrow> string option"

definition envValue :: "LookupEnv \<Rightarrow> string \<Rightarrow> string \<Rightarrow> string" where
  "envValue lookup key def = (case lookup key of None \<Rightarrow> def | Some input \<Rightarrow> TrimSpace input)"

definition requiredValue :: "LookupEnv \<Rightarrow> string \<Rightarrow> string" where
  "requiredValue lookup key = envValue lookup key []"

definition positiveUint :: "string \<Rightarrow> nat \<Rightarrow> string \<Rightarrow> nat result" where
  "positiveUint input b msg =
     (case ParseUintBits input b of None \<Rightarrow> Inl (ErrMsg msg) | Some n \<Rightarrow> if n = 0 then Inl (ErrMsg msg) else Inr n)"

definition requiredUint32 :: "LookupEnv \<Rightarrow> string \<Rightarrow> 32 word result" where
  "requiredUint32 lookup key =
     (let input = requiredValue lookup key
      in if input = [] then Inl (ErrMsg (key @ '' is required''))
         else rbind (positiveUint input 32 (key @ '' must be a positive uint32'')) (\<lambda>n. Inr (of_nat n)))"

definition uint32Value :: "LookupEnv \<Rightarrow> string \<Rightarrow> 32 word \<Rightarrow> 32 word result" where
  "uint32Value lookup key def =
     (case lookup key of
        None \<Rightarrow> Inr def
      | Some input \<Rightarrow> rbind (positiveUint (TrimSpace input) 32 (key @ '' must be a positive uint32'')) (\<lambda>n. Inr (of_nat n)))"

definition uint16Value :: "LookupEnv \<Rightarrow> string \<Rightarrow> 16 word \<Rightarrow> 16 word result" where
  "uint16Value lookup key def =
     (case lookup key of
        None \<Rightarrow> Inr def
      | Some input \<Rightarrow> rbind (positiveUint (TrimSpace input) 16 (key @ '' must be a port between 1 and 65535'')) (\<lambda>n. Inr (of_nat n)))"

definition intValue :: "LookupEnv \<Rightarrow> string \<Rightarrow> int \<Rightarrow> int result" where
  "intValue lookup key def =
     (case lookup key of
        None \<Rightarrow> Inr def
      | Some input \<Rightarrow> rbind (positiveUint (TrimSpace input) 31 (key @ '' must be a positive integer'')) (\<lambda>n. Inr (int n)))"

definition boolValue :: "LookupEnv \<Rightarrow> string \<Rightarrow> bool \<Rightarrow> bool result" where
  "boolValue lookup key def =
     (case lookup key of
        None \<Rightarrow> Inr def
      | Some input \<Rightarrow>
          (case ParseBool (TrimSpace input) of None \<Rightarrow> Inl (ErrMsg (key @ '' must be a boolean'')) | Some b \<Rightarrow> Inr b))"

text \<open>Byte sizes with binary units; the overflow test is before the multiplication.\<close>

definition byteUnits :: "(string \<times> nat) list" where
  "byteUnits = [(''PiB'', 2 ^ 50), (''TiB'', 2 ^ 40), (''GiB'', 2 ^ 30), (''MiB'', 2 ^ 20), (''KiB'', 2 ^ 10), (''B'', 1)]"

fun splitUnit :: "(string \<times> nat) list \<Rightarrow> string \<Rightarrow> string \<times> nat" where
  "splitUnit [] input = (input, 1)"
| "splitUnit ((suf, multiplier) # units) input =
     (if HasSuffix input suf then (TrimSpace (TrimSuffix input suf), multiplier) else splitUnit units input)"

definition parseBytes :: "string \<Rightarrow> int result" where
  "parseBytes input =
     (if input = [] then Inl (ErrMsg ''empty byte size'')
      else (let (number, multiplier) = splitUnit byteUnits input
            in case ParseUint number of
                 None \<Rightarrow> Inl (ErrMsg ''parse byte size'')
               | Some parsed \<Rightarrow>
                   if parsed > (2 ^ 63 - 1) div multiplier then Inl (ErrMsg ''byte size overflows int64'')
                   else Inr (int (parsed * multiplier))))"

definition bytesValue :: "LookupEnv \<Rightarrow> string \<Rightarrow> int \<Rightarrow> int result" where
  "bytesValue lookup key def =
     (case lookup key of
        None \<Rightarrow> Inr def
      | Some input \<Rightarrow>
          (case parseBytes (TrimSpace input) of
             Inl _ \<Rightarrow> Inl (ErrMsg (key @ '' must be a positive byte size''))
           | Inr n \<Rightarrow> if n \<le> 0 then Inl (ErrMsg (key @ '' must be a positive byte size'')) else Inr n))"

definition cacheBytesValue :: "LookupEnv \<Rightarrow> string \<Rightarrow> int \<Rightarrow> int result" where
  "cacheBytesValue lookup key fallback =
     (case lookup key of
        None \<Rightarrow> Inr fallback
      | Some input \<Rightarrow>
          (case parseBytes (TrimSpace input) of
             Inl _ \<Rightarrow> Inl (ErrMsg (key @ '' must be a nonnegative byte size''))
           | Inr n \<Rightarrow> Inr n))"


section \<open>Sections of the configuration\<close>

definition second :: int where
  "second = 1000000000"

subsection \<open>Authentication\<close>

record Auth =
  Auth_Enabled :: bool
  Auth_PublicURL :: string
  GoogleClientID :: string
  GoogleClientSecret :: string
  OIDCIssuer :: string
  OIDCClientID :: string
  OIDCClientSecret :: string
  CookieHashKey :: string
  CookieBlockKey :: string

definition loadAuth :: "LookupEnv \<Rightarrow> Auth result" where
  "loadAuth lookup =
     rbind (boolValue lookup ''GITONE_AUTH_ENABLED'' False) (\<lambda>enabled.
     Inr \<lparr>Auth_Enabled = enabled, Auth_PublicURL = envValue lookup ''GITONE_PUBLIC_URL'' [],
       GoogleClientID = envValue lookup ''GITONE_GOOGLE_CLIENT_ID'' [],
       GoogleClientSecret = envValue lookup ''GITONE_GOOGLE_CLIENT_SECRET'' [],
       OIDCIssuer = envValue lookup ''GITONE_OIDC_ISSUER'' [],
       OIDCClientID = envValue lookup ''GITONE_OIDC_CLIENT_ID'' [],
       OIDCClientSecret = envValue lookup ''GITONE_OIDC_CLIENT_SECRET'' [],
       CookieHashKey = envValue lookup ''GITONE_COOKIE_HASH_KEY'' [],
       CookieBlockKey = envValue lookup ''GITONE_COOKIE_BLOCK_KEY'' []\<rparr>)"

definition CookieKeys :: "Stdlib \<Rightarrow> Auth \<Rightarrow> (bytes \<times> bytes) result" where
  "CookieKeys lib a =
     (case base64_Decode lib (CookieHashKey a) of
        None \<Rightarrow> Inl (ErrMsg ''cookie hash key'')
      | Some hash \<Rightarrow>
          if length hash \<noteq> 64 then Inl (ErrMsg ''cookie hash key'')
          else (case base64_Decode lib (CookieBlockKey a) of
            None \<Rightarrow> Inl (ErrMsg ''cookie block key'')
          | Some block \<Rightarrow> if length block \<noteq> 32 then Inl (ErrMsg ''cookie block key'') else Inr (hash, block)))"

definition plainOrigin :: "string \<Rightarrow> ParsedURL option \<Rightarrow> bool" where
  "plainOrigin scheme parsed =
     (case parsed of
        None \<Rightarrow> False
      | Some u \<Rightarrow> u_Scheme u = scheme \<and> u_Hostname u \<noteq> [] \<and> \<not> u_User u \<and> u_Opaque u = [] \<and>
          u_RawQuery u = [] \<and> \<not> u_ForceQuery u \<and> u_Fragment u = [])"

definition ValidateIssuer :: "Stdlib \<Rightarrow> string \<Rightarrow> err option" where
  "ValidateIssuer lib issuer =
     require (plainOrigin ''https'' (url_Parse lib issuer) \<and> length issuer \<le> 2048) ''OIDC issuer''"

definition noPath :: "ParsedURL option \<Rightarrow> bool" where
  "noPath parsed = (case parsed of None \<Rightarrow> False | Some u \<Rightarrow> u_Path u = [])"

definition AuthValidate :: "Stdlib \<Rightarrow> Auth \<Rightarrow> err option" where
  "AuthValidate lib a =
     (let googleConfigured = (GoogleClientID a \<noteq> [] \<or> GoogleClientSecret a \<noteq> []);
          oidcConfigured = (OIDCIssuer a \<noteq> [] \<or> OIDCClientID a \<noteq> [] \<or> OIDCClientSecret a \<noteq> [])
      in if \<not> Auth_Enabled a then
           require (\<not> (Auth_PublicURL a \<noteq> [] \<or> googleConfigured \<or> oidcConfigured \<or> CookieHashKey a \<noteq> [] \<or> CookieBlockKey a \<noteq> []))
             ''authentication settings require GITONE_AUTH_ENABLED=true''
         else firstErr [
           require (plainOrigin ''https'' (url_Parse lib (Auth_PublicURL a)) \<and> noPath (url_Parse lib (Auth_PublicURL a))) ''public URL'',
           (if oidcConfigured then firstErr [
              require (\<not> googleConfigured) ''configure either Google or generic OIDC credentials, not both'',
              ValidateIssuer lib (OIDCIssuer a),
              require (TrimSpace (OIDCClientID a) \<noteq> [] \<and> TrimSpace (OIDCClientSecret a) \<noteq> []) ''OIDC client ID and secret are required'']
            else require (TrimSpace (GoogleClientID a) \<noteq> [] \<and> TrimSpace (GoogleClientSecret a) \<noteq> []) ''client credentials are required''),
           (case CookieKeys lib a of Inl e \<Rightarrow> Some e | Inr _ \<Rightarrow> None)])"

definition GoogleIssuer :: string where
  "GoogleIssuer = ''https://accounts.google.com''"

definition IssuerURL :: "Auth \<Rightarrow> string" where
  "IssuerURL a = (if OIDCIssuer a \<noteq> [] then OIDCIssuer a else GoogleIssuer)"

definition ClientCredentials :: "Auth \<Rightarrow> string \<times> string" where
  "ClientCredentials a =
     (if OIDCIssuer a \<noteq> [] then (OIDCClientID a, OIDCClientSecret a) else (GoogleClientID a, GoogleClientSecret a))"

definition CallbackPath :: "Auth \<Rightarrow> string" where
  "CallbackPath a = (if OIDCIssuer a \<noteq> [] then ''/auth/oidc/callback'' else ''/auth/google/callback'')"

subsection \<open>SSH\<close>

record SSH =
  SSH_Enabled :: bool
  SSH_Port :: "16 word"
  SSH_PublicURL :: string
  HostKeyFile :: string
  ForwardKeyFile :: string

definition loadSSH :: "LookupEnv \<Rightarrow> SSH result" where
  "loadSSH lookup =
     rbind (boolValue lookup ''GITONE_SSH_ENABLED'' False) (\<lambda>enabled.
     rbind (uint16Value lookup ''GITONE_SSH_PORT'' 2222) (\<lambda>port.
     Inr \<lparr>SSH_Enabled = enabled, SSH_Port = port, SSH_PublicURL = envValue lookup ''GITONE_SSH_PUBLIC_URL'' [],
       HostKeyFile = envValue lookup ''GITONE_SSH_HOST_KEY_FILE'' [],
       ForwardKeyFile = envValue lookup ''GITONE_SSH_FORWARD_KEY_FILE'' []\<rparr>))"

definition SSHvalidate :: "Stdlib \<Rightarrow> SSH \<Rightarrow> bool \<Rightarrow> 16 word \<Rightarrow> err option" where
  "SSHvalidate lib s authEnabled httpPort =
     (if \<not> SSH_Enabled s then
        require (\<not> (SSH_PublicURL s \<noteq> [] \<or> HostKeyFile s \<noteq> [] \<or> ForwardKeyFile s \<noteq> [])) ''SSH settings require GITONE_SSH_ENABLED=true''
      else firstErr [
        require authEnabled ''SSH requires authentication'',
        require (\<not> (SSH_Port s = 0 \<or> SSH_Port s = httpPort)) ''SSH port must be positive and distinct from HTTP'',
        require (plainOrigin ''ssh'' (url_Parse lib (SSH_PublicURL s)) \<and> noPath (url_Parse lib (SSH_PublicURL s))) ''SSH public URL'',
        (case url_Parse lib (SSH_PublicURL s) of
           None \<Rightarrow> None
         | Some u \<Rightarrow> if u_Port u = [] then None
             else (case ParseUintBits (u_Port u) 16 of
               None \<Rightarrow> Some (ErrMsg ''invalid SSH public URL port'')
             | Some n \<Rightarrow> require (n \<noteq> 0) ''invalid SSH public URL port'')),
        require (IsAbs (HostKeyFile s) \<and> IsAbs (ForwardKeyFile s) \<and> HostKeyFile s \<noteq> ForwardKeyFile s)
          ''SSH requires distinct absolute host and forwarding private-key file paths''])"

subsection \<open>LFS, cache, metrics and Git admission\<close>

record LFS =
  LFS_Enabled :: bool
  LFS_MaxObjectBytes :: int
  LFS_MaxRepositoryBytes :: int
  MaxConcurrentTransfers :: int
  MaxQueuedTransfers :: int
  LFS_QueueTimeout :: int
  TransferTimeout :: int

definition integerValue :: "string \<Rightarrow> string \<Rightarrow> int result" where
  "integerValue input msg = (case ParseInt input of None \<Rightarrow> Inl (ErrMsg msg) | Some n \<Rightarrow> Inr n)"

definition positiveDuration :: "Stdlib \<Rightarrow> string \<Rightarrow> string \<Rightarrow> int result" where
  "positiveDuration lib input msg =
     (case ParseDuration lib input of None \<Rightarrow> Inl (ErrMsg msg) | Some d \<Rightarrow> if d \<le> 0 then Inl (ErrMsg msg) else Inr d)"

definition loadLFS :: "Stdlib \<Rightarrow> LookupEnv \<Rightarrow> LFS result" where
  "loadLFS lib lookup =
     rbind (boolValue lookup ''GITONE_LFS_ENABLED'' True) (\<lambda>enabled.
     rbind (bytesValue lookup ''GITONE_LFS_MAX_OBJECT_BYTES'' (2 ^ 30)) (\<lambda>object.
     rbind (bytesValue lookup ''GITONE_LFS_MAX_REPOSITORY_BYTES'' (10 * 2 ^ 30)) (\<lambda>repository.
     rbind (intValue lookup ''GITONE_LFS_MAX_CONCURRENT_TRANSFERS'' 4) (\<lambda>active.
     rbind (integerValue (envValue lookup ''GITONE_LFS_MAX_QUEUED_TRANSFERS'' ''8'') ''must be an integer'') (\<lambda>queued.
     rbind (positiveDuration lib (envValue lookup ''GITONE_LFS_QUEUE_TIMEOUT'' ''5s'') ''must be a positive duration'') (\<lambda>queueTimeout.
     rbind (positiveDuration lib (envValue lookup ''GITONE_LFS_TRANSFER_TIMEOUT'' ''30m'') ''must be a positive duration'') (\<lambda>transferTimeout.
     Inr \<lparr>LFS_Enabled = enabled, LFS_MaxObjectBytes = object, LFS_MaxRepositoryBytes = repository,
       MaxConcurrentTransfers = active, MaxQueuedTransfers = queued, LFS_QueueTimeout = queueTimeout,
       TransferTimeout = transferTimeout\<rparr>)))))))"

definition LFSvalidate :: "LFS \<Rightarrow> err option" where
  "LFSvalidate c =
     (let object = (if LFS_MaxObjectBytes c = 0 then 2 ^ 30 else LFS_MaxObjectBytes c);
          repository = (if LFS_MaxRepositoryBytes c = 0 then 10 * 2 ^ 30 else LFS_MaxRepositoryBytes c)
      in firstErr [
        require (\<not> (LFS_MaxObjectBytes c < 0 \<or> LFS_MaxObjectBytes c > 64 * 2 ^ 30 \<or> LFS_MaxRepositoryBytes c < 0 \<or>
          LFS_MaxRepositoryBytes c > 2 ^ 50)) ''LFS object limit must not exceed 64GiB and repository quota must not exceed 1PiB'',
        require (\<not> repository < object) ''LFS repository quota must cover one maximum-sized object'',
        require (\<not> (MaxConcurrentTransfers c < 0 \<or> MaxConcurrentTransfers c > 32 \<or> MaxQueuedTransfers c < 0 \<or> MaxQueuedTransfers c > 1024))
          ''LFS concurrency'',
        require (\<not> (LFS_QueueTimeout c < 0 \<or> LFS_QueueTimeout c > 90 * second \<or> TransferTimeout c < 0 \<or>
          TransferTimeout c > 12 * 3600 * second)) ''LFS timeouts''])"

record CacheConfig =
  CacheMemoryBytes :: int
  CacheDiskBytes :: int
  CacheDirectory :: string

definition loadCache :: "LookupEnv \<Rightarrow> CacheConfig result" where
  "loadCache lookup =
     rbind (cacheBytesValue lookup ''GITONE_CACHE_MEMORY_BYTES'' (256 * 2 ^ 20)) (\<lambda>mem.
     rbind (cacheBytesValue lookup ''GITONE_CACHE_DISK_BYTES'' 0) (\<lambda>disk.
     Inr \<lparr>CacheMemoryBytes = mem, CacheDiskBytes = disk,
       CacheDirectory = (case lookup ''GITONE_CACHE_DIRECTORY'' of None \<Rightarrow> [] | Some d \<Rightarrow> TrimSpace d)\<rparr>))"

definition CacheValidate :: "CacheConfig \<Rightarrow> err option" where
  "CacheValidate c = firstErr [
     require (\<not> (CacheMemoryBytes c < 0 \<or> CacheDiskBytes c < 0)) ''cache byte limits must be nonnegative'',
     require (\<not> (CacheDirectory c \<noteq> [] \<and> \<not> IsAbs (CacheDirectory c))) ''cache directory must be an absolute path'',
     require (\<not> (CacheDiskBytes c > 0 \<and> CacheDirectory c = [])) ''a cache directory is required'']"

definition tokenChar :: "char \<Rightarrow> bool" where
  "tokenChar c \<longleftrightarrow> (65 \<le> code c \<and> code c \<le> 90) \<or> (97 \<le> code c \<and> code c \<le> 122) \<or> is_digit c \<or> c \<in> set ''-._~+/''"

fun tokenLoop :: "bool \<Rightarrow> string \<Rightarrow> bool" where
  "tokenLoop padding [] \<longleftrightarrow> True"
| "tokenLoop padding (c # token) \<longleftrightarrow>
     (if c = CHR ''='' then tokenLoop True token else \<not> (padding \<or> \<not> tokenChar c) \<and> tokenLoop padding token)"

definition validateMetricsToken :: "string \<Rightarrow> err option" where
  "validateMetricsToken token =
     (if token = [] then None
      else firstErr [
        require (\<not> (length token < 32 \<or> length token > 1024)) ''GITONE_METRICS_TOKEN must contain 32 to 1024 bytes'',
        require (tokenLoop False token) ''GITONE_METRICS_TOKEN must be an ASCII bearer token without whitespace'',
        require (hd token \<noteq> CHR ''='') ''GITONE_METRICS_TOKEN must contain bearer-token characters before padding''])"

record GitConfig =
  MaxConcurrentOperations :: int
  MaxQueuedOperations :: int
  QueueTimeout :: int

definition loadGit :: "Stdlib \<Rightarrow> LookupEnv \<Rightarrow> GitConfig result" where
  "loadGit lib lookup =
     rbind (intValue lookup ''GITONE_GIT_MAX_CONCURRENT_OPERATIONS'' 1) (\<lambda>active.
     rbind (integerValue (envValue lookup ''GITONE_GIT_MAX_QUEUED_OPERATIONS'' (FormatInt 4)) ''must be an integer between 0 and 1024'') (\<lambda>queued.
     rbind (positiveDuration lib (envValue lookup ''GITONE_GIT_QUEUE_TIMEOUT'' ''5s'') ''must be a positive duration'') (\<lambda>timeout.
     Inr \<lparr>MaxConcurrentOperations = active, MaxQueuedOperations = queued, QueueTimeout = timeout\<rparr>)))"


section \<open>The configuration\<close>

record S3Config =
  S3_Endpoint :: string
  S3_Region :: string
  UsePathStyle :: bool
  UseTLS :: bool
  BucketPrefix :: string
  Bucket :: string

record PackPolicy =
  CompactOnPush :: bool
  Pack_MaxPackCount :: "32 word"
  Pack_MaxSmallPackCount :: "32 word"
  SmallPackThreshold :: int
  LiveCompactionMaxInputBytes :: int
  LiveCompactionMaxInputPacks :: "32 word"

record PathLimits =
  Path_MaxTopLevelLength :: int
  Path_MaxComponentLength :: int
  Path_MaxDepth :: int

record Config =
  cfg_ShardCount :: "32 word"
  cfg_LocalShard :: "32 word"
  ListenAddress :: string
  PublicPort :: "16 word"
  InternalScheme :: string
  HeadlessService :: string
  Namespace :: string
  ClusterIdentityFile :: string
  SpaceDiscoveryMode :: string
  MetricsToken :: string
  cfg_S3 :: S3Config
  cfg_Pack :: PackPolicy
  cfg_Path :: PathLimits
  cfg_Auth :: Auth
  cfg_SSH :: SSH
  cfg_Git :: GitConfig
  cfg_LFS :: LFS
  cfg_Cache :: CacheConfig

definition labelChar :: "char \<Rightarrow> bool" where
  "labelChar c \<longleftrightarrow> (97 \<le> code c \<and> code c \<le> 122) \<or> is_digit c"

text \<open>The pattern of \<^verbatim>\<open>dnsLabelPattern\<close> and \<^verbatim>\<open>bucketPrefixPattern\<close>.\<close>

definition labelPattern :: "string \<Rightarrow> bool" where
  "labelPattern s \<longleftrightarrow> s \<noteq> [] \<and> labelChar (hd s) \<and> labelChar (last s) \<and> list_all (\<lambda>c. labelChar c \<or> c = CHR ''-'') s"

definition validateDNSLabel :: "string \<Rightarrow> string \<Rightarrow> err option" where
  "validateDNSLabel name input =
     require (\<not> (length input = 0 \<or> length input > 63 \<or> \<not> labelPattern input)) (name @ '' must be a lowercase dns label'')"

definition shardWidth :: "32 word \<Rightarrow> nat" where
  "shardWidth cnt = (if cnt \<le> 1 then 1 else length (FormatUint (unat (cnt - 1))))"

definition validateBucketPrefix :: "string \<Rightarrow> 32 word \<Rightarrow> err option" where
  "validateBucketPrefix pre cnt =
     (let len = length pre + 1 + shardWidth cnt
      in firstErr [
        require (labelPattern pre) ''s3 bucket prefix must be a lowercase dns-safe label'',
        require (\<not> (len < 3 \<or> len > 63)) ''derived s3 bucket name must contain 3 to 63 characters''])"

definition validateEndpoint :: "Stdlib \<Rightarrow> string \<Rightarrow> bool \<Rightarrow> err option" where
  "validateEndpoint lib endpoint useTLS =
     (if endpoint = [] then require useTLS ''disabling s3 tls requires an explicit http endpoint''
      else (case url_ParseRequestURI lib endpoint of
        None \<Rightarrow> Some (ErrMsg ''s3 endpoint must be an absolute http or https url'')
      | Some u \<Rightarrow> firstErr [
          require (u_Host u \<noteq> []) ''s3 endpoint must be an absolute http or https url'',
          require (u_Scheme u = ''http'' \<or> u_Scheme u = ''https'') ''s3 endpoint must use http or https'',
          require (\<not> (u_User u \<or> u_RawQuery u \<noteq> [] \<or> u_Fragment u \<noteq> [])) ''s3 endpoint cannot contain credentials, query, or fragment'',
          require (\<not> (u_Path u \<noteq> [] \<and> u_Path u \<noteq> ''/'')) ''s3 endpoint cannot contain a path'',
          require (\<not> (useTLS \<and> u_Scheme u \<noteq> ''https'')) ''s3 tls requires an https endpoint'',
          require (\<not> (\<not> useTLS \<and> u_Scheme u \<noteq> ''http'')) ''disabled s3 tls requires an http endpoint'']))"

definition derivedBucket :: "string \<Rightarrow> 32 word \<Rightarrow> 32 word \<Rightarrow> string" where
  "derivedBucket pre cnt shrd = pre @ ''-'' @ zeroPadded (shardWidth cnt) (unat shrd)"

definition BucketFor :: "Config \<Rightarrow> 32 word \<Rightarrow> string result" where
  "BucketFor c shrd =
     (if cfg_ShardCount c = 0 then Inl (ErrMsg ''shard count must be greater than zero'')
      else if shrd \<ge> cfg_ShardCount c then Inl (ErrMsg ''shard is outside configured shard count'')
      else (case validateBucketPrefix (BucketPrefix (cfg_S3 c)) (cfg_ShardCount c) of
        Some e \<Rightarrow> Inl e
      | None \<Rightarrow> Inr (derivedBucket (BucketPrefix (cfg_S3 c)) (cfg_ShardCount c) shrd)))"

definition localShardFromPodName :: "string \<Rightarrow> 32 word result" where
  "localShardFromPodName podName =
     (if podName = [] then Inl (ErrMsg ''POD_NAME is required'')
      else (let ordinal = drop 7 podName
            in if \<not> (HasPrefix podName ''gitone-'' \<and> ordinal \<noteq> [] \<and> list_all is_digit ordinal) then Inl (ErrMsg ''POD_NAME must match gitone-N'')
               else if length ordinal > 1 \<and> hd ordinal = CHR ''0'' then Inl (ErrMsg ''POD_NAME ordinal must use canonical decimal notation'')
               else (case ParseUintBits ordinal 32 of
                 None \<Rightarrow> Inl (ErrMsg ''parse POD_NAME ordinal'')
               | Some n \<Rightarrow> Inr (of_nat n))))"

definition Validate :: "Stdlib \<Rightarrow> Config \<Rightarrow> err option" where
  "Validate lib c = firstErr [
     CacheValidate (cfg_Cache c),
     LFSvalidate (cfg_LFS c),
     validateMetricsToken (MetricsToken c),
     require (\<not> (MaxConcurrentOperations (cfg_Git c) < 0 \<or> MaxConcurrentOperations (cfg_Git c) > 32)) ''git maximum concurrent operations'',
     require (\<not> (MaxQueuedOperations (cfg_Git c) < 0 \<or> MaxQueuedOperations (cfg_Git c) > 1024)) ''git maximum queued operations'',
     require (\<not> (QueueTimeout (cfg_Git c) < 0 \<or> QueueTimeout (cfg_Git c) > 90 * second)) ''git queue timeout'',
     require (SpaceDiscoveryMode c \<in> {[], ''scan'', ''indexed''}) ''space discovery mode must be scan or indexed'',
     SSHvalidate lib (cfg_SSH c) (Auth_Enabled (cfg_Auth c)) (PublicPort c),
     AuthValidate lib (cfg_Auth c),
     require (cfg_ShardCount c \<noteq> 0) ''shard count must be greater than zero'',
     require (\<not> cfg_LocalShard c \<ge> cfg_ShardCount c) ''local shard is outside configured shard count'',
     require (TrimSpace (ListenAddress c) \<noteq> []) ''listen address is required'',
     require (PublicPort c \<noteq> 0) ''public port must be greater than zero'',
     require (InternalScheme c = ''http'') ''internal scheme must be http'',
     validateDNSLabel ''headless service'' (HeadlessService c),
     validateDNSLabel ''pod namespace'' (Namespace c),
     require (IsAbs (ClusterIdentityFile c)) ''cluster identity file must be an absolute path'',
     require (TrimSpace (S3_Region (cfg_S3 c)) \<noteq> []) ''s3 region is required'',
     validateEndpoint lib (S3_Endpoint (cfg_S3 c)) (UseTLS (cfg_S3 c)),
     validateBucketPrefix (BucketPrefix (cfg_S3 c)) (cfg_ShardCount c),
     require (\<not> (Bucket (cfg_S3 c) \<noteq> [] \<and>
       Bucket (cfg_S3 c) \<noteq> derivedBucket (BucketPrefix (cfg_S3 c)) (cfg_ShardCount c) (cfg_LocalShard c)))
       ''local s3 bucket does not match derived shard bucket'',
     require (Pack_MaxPackCount (cfg_Pack c) \<noteq> 0) ''maximum pack count must be greater than zero'',
     require (Pack_MaxSmallPackCount (cfg_Pack c) \<noteq> 0) ''maximum small pack count must be greater than zero'',
     require (\<not> Pack_MaxSmallPackCount (cfg_Pack c) > Pack_MaxPackCount (cfg_Pack c)) ''maximum small pack count cannot exceed maximum pack count'',
     require (\<not> SmallPackThreshold (cfg_Pack c) \<le> 0) ''small pack threshold must be greater than zero'',
     require (\<not> LiveCompactionMaxInputBytes (cfg_Pack c) < SmallPackThreshold (cfg_Pack c)) ''live compaction byte limit cannot be below small pack threshold'',
     require (LiveCompactionMaxInputPacks (cfg_Pack c) \<noteq> 0) ''live compaction pack limit must be greater than zero'',
     require (\<not> (Path_MaxTopLevelLength (cfg_Path c) \<le> 0 \<or> Path_MaxComponentLength (cfg_Path c) \<le> 0)) ''path component limits must be greater than zero'',
     require (\<not> Path_MaxTopLevelLength (cfg_Path c) > Path_MaxComponentLength (cfg_Path c)) ''top-level length cannot exceed component length'',
     require (\<not> Path_MaxDepth (cfg_Path c) < 2) ''path depth must be at least two'']"

definition Load :: "Stdlib \<Rightarrow> LookupEnv option \<Rightarrow> Config result" where
  "Load lib env =
     (case env of None \<Rightarrow> Inl (ErrMsg ''environment lookup is nil'') | Some lookup \<Rightarrow>
     rbind (requiredUint32 lookup ''GITONE_SHARD_COUNT'') (\<lambda>shards.
     rbind (localShardFromPodName (requiredValue lookup ''POD_NAME'')) (\<lambda>localShard.
     rbind (uint16Value lookup ''GITONE_PUBLIC_PORT'' 8080) (\<lambda>publicPort.
     rbind (boolValue lookup ''GITONE_S3_PATH_STYLE'' False) (\<lambda>usePathStyle.
     rbind (boolValue lookup ''GITONE_S3_TLS'' True) (\<lambda>useTLS.
     rbind (boolValue lookup ''GITONE_PACK_COMPACT_ON_PUSH'' True) (\<lambda>compactOnPush.
     rbind (uint32Value lookup ''GITONE_PACK_MAX_COUNT'' 32) (\<lambda>maxPackCount.
     rbind (uint32Value lookup ''GITONE_PACK_MAX_SMALL_COUNT'' 16) (\<lambda>maxSmallPackCount.
     rbind (bytesValue lookup ''GITONE_PACK_SMALL_THRESHOLD'' (128 * 2 ^ 20)) (\<lambda>smallPackThreshold.
     rbind (bytesValue lookup ''GITONE_PACK_LIVE_COMPACTION_MAX_INPUT_BYTES'' (2 * 2 ^ 30)) (\<lambda>maxInputBytes.
     rbind (uint32Value lookup ''GITONE_PACK_LIVE_COMPACTION_MAX_INPUT_PACKS'' 32) (\<lambda>maxInputPacks.
     rbind (intValue lookup ''GITONE_PATH_MAX_TOP_LEVEL_LENGTH'' 63) (\<lambda>topLevelLength.
     rbind (intValue lookup ''GITONE_PATH_MAX_COMPONENT_LENGTH'' 255) (\<lambda>componentLength.
     rbind (intValue lookup ''GITONE_PATH_MAX_DEPTH'' 32) (\<lambda>pathDepth.
     rbind (loadAuth lookup) (\<lambda>auth.
     rbind (loadSSH lookup) (\<lambda>ssh.
     rbind (loadGit lib lookup) (\<lambda>git.
     rbind (loadLFS lib lookup) (\<lambda>lfs.
     rbind (loadCache lookup) (\<lambda>cach.
     (let cfg = \<lparr>cfg_ShardCount = shards, cfg_LocalShard = localShard,
            ListenAddress = envValue lookup ''GITONE_LISTEN_ADDRESS'' ''0.0.0.0'', PublicPort = publicPort,
            InternalScheme = envValue lookup ''GITONE_INTERNAL_SCHEME'' ''http'',
            HeadlessService = envValue lookup ''GITONE_HEADLESS_SERVICE'' ''gitone-headless'',
            Namespace = requiredValue lookup ''POD_NAMESPACE'',
            ClusterIdentityFile = envValue lookup ''GITONE_CLUSTER_IDENTITY_FILE'' ''/etc/gitone/identity/cluster-identity.json'',
            SpaceDiscoveryMode = envValue lookup ''GITONE_SPACE_DISCOVERY_MODE'' ''indexed'',
            MetricsToken = (case lookup ''GITONE_METRICS_TOKEN'' of None \<Rightarrow> [] | Some t \<Rightarrow> t),
            cfg_S3 = \<lparr>S3_Endpoint = envValue lookup ''GITONE_S3_ENDPOINT'' [],
              S3_Region = envValue lookup ''GITONE_S3_REGION'' ''us-east-1'', UsePathStyle = usePathStyle, UseTLS = useTLS,
              BucketPrefix = envValue lookup ''GITONE_S3_BUCKET_PREFIX'' ''gitone-shard'', Bucket = []\<rparr>,
            cfg_Pack = \<lparr>CompactOnPush = compactOnPush, Pack_MaxPackCount = maxPackCount,
              Pack_MaxSmallPackCount = maxSmallPackCount, SmallPackThreshold = smallPackThreshold,
              LiveCompactionMaxInputBytes = maxInputBytes, LiveCompactionMaxInputPacks = maxInputPacks\<rparr>,
            cfg_Path = \<lparr>Path_MaxTopLevelLength = topLevelLength, Path_MaxComponentLength = componentLength,
              Path_MaxDepth = pathDepth\<rparr>,
            cfg_Auth = auth, cfg_SSH = ssh, cfg_Git = git, cfg_LFS = lfs, cfg_Cache = cach\<rparr>
      in case Validate lib cfg of
           Some e \<Rightarrow> Inl e
         | None \<Rightarrow> rbind (BucketFor cfg (cfg_LocalShard cfg)) (\<lambda>bucket.
             Inr (cfg\<lparr>cfg_S3 := (cfg_S3 cfg)\<lparr>Bucket := bucket\<rparr>\<rparr>)))))))))))))))))))))))"

text \<open>\<^verbatim>\<open>validateMaintenanceOwner\<close> of \<^verbatim>\<open>internal/app\<close>: the parser and the router of a configuration.\<close>

definition maintenancePolicy :: "Config \<Rightarrow> PathPolicy" where
  "maintenancePolicy cfg = DefaultPathPolicy\<lparr>MaxTopLevelLength := Path_MaxTopLevelLength (cfg_Path cfg),
     MaxComponentLength := Path_MaxComponentLength (cfg_Path cfg), MaxPathDepth := Path_MaxDepth (cfg_Path cfg)\<rparr>"

definition validateMaintenanceOwner :: "Config \<Rightarrow> string \<Rightarrow> err option" where
  "validateMaintenanceOwner cfg namesp =
     (case NewParser (maintenancePolicy cfg) of Inl e \<Rightarrow> Some e | Inr p \<Rightarrow>
     (case NewRouter (cfg_ShardCount cfg) (Some p) of Inl e \<Rightarrow> Some e | Inr router \<Rightarrow>
     (case Owner router namesp of
        Inl e \<Rightarrow> Some e
      | Inr owner \<Rightarrow> require (owner = cfg_LocalShard cfg) ''namespace belongs to another shard'')))"

end
