(* ===== verification/ConfigProperties.thy ===== *)
theory ConfigProperties
  imports Config
begin

text \<open>
  What a valid configuration guarantees: distinct and well-formed bucket names, the correspondence of pod names, shards and
  buckets, exact byte sizes, and a unique owner for every namespace.
\<close>

section \<open>Bucket names\<close>

lemma length_FormatUint_mono: "m \<le> n \<Longrightarrow> length (FormatUint m) \<le> length (FormatUint n)"
proof (induction n arbitrary: m rule: FormatUint.induct)
  case (1 n)
  show ?case
  proof (cases "n < 10")
    case True
    with 1(2) show ?thesis by (simp add: FormatUint.simps [of m] FormatUint.simps [of n])
  next
    case False
    show ?thesis
    proof (cases "m < 10")
      case True
      with False show ?thesis by (simp add: FormatUint.simps [of m] FormatUint.simps [of n])
    next
      case m: False
      have "length (FormatUint (m div 10)) \<le> length (FormatUint (n div 10))"
        using 1(1) [OF False] 1(2) by (simp add: div_le_mono)
      with m False show ?thesis by (simp add: FormatUint.simps [of m] FormatUint.simps [of n])
    qed
  qed
qed

lemma decimalValue_zeroPadded: "decimalValue (zeroPadded w n) = n"
proof -
  have "foldl (\<lambda>n c. 10 * n + (code c - 48)) 0 (replicate k CHR ''0'' @ s) = foldl (\<lambda>n c. 10 * n + (code c - 48)) 0 s" for k s
    by (induction k) simp_all
  then show ?thesis using decimalValue_FormatUint [of n] by (simp add: zeroPadded_def)
qed

lemma derivedBucket_inj: "derivedBucket pre cnt a = derivedBucket pre cnt b \<Longrightarrow> a = b"
  by (metis append_same_eq derivedBucket_def decimalValue_zeroPadded same_append_eq unsigned_word_eqI word_unat_eq_iff)

lemma length_zeroPadded:
  assumes "a < cnt"
  shows "length (zeroPadded (shardWidth cnt) (unat a)) = shardWidth cnt"
proof -
  have "length (FormatUint (unat a)) \<le> shardWidth cnt"
  proof (cases "cnt \<le> 1")
    case True
    with assms have "unat a = 0" by (auto simp: word_less_nat_alt word_le_nat_alt)
    then show ?thesis using True by (simp add: shardWidth_def FormatUint.simps)
  next
    case False
    then have "cnt \<noteq> 0" by auto
    then have "unat a \<le> unat (cnt - 1)" using assms by (simp add: unat_minus_one word_less_nat_alt)
    then show ?thesis using False length_FormatUint_mono by (simp add: shardWidth_def)
  qed
  then show ?thesis by (simp add: zeroPadded_def)
qed


lemma labelChar_digit: "is_digit c \<Longrightarrow> labelChar c"
  by (simp add: labelChar_def)

lemma zeroPadded_digits: "list_all is_digit (zeroPadded w n)"
  using FormatUint_digits by (auto simp: zeroPadded_def list_all_iff is_digit_def)

lemma BucketFor_Inr:
  "BucketFor c a = Inr b \<longleftrightarrow> a < cfg_ShardCount c \<and> validateBucketPrefix (BucketPrefix (cfg_S3 c)) (cfg_ShardCount c) = None \<and>
     b = derivedBucket (BucketPrefix (cfg_S3 c)) (cfg_ShardCount c) a"
  by (auto simp: BucketFor_def not_le split: option.splits)

lemma derivedBucket_shape:
  assumes "validateBucketPrefix pre cnt = None" "a < cnt"
  shows "labelPattern (derivedBucket pre cnt a) \<and> length (derivedBucket pre cnt a) = length pre + 1 + shardWidth cnt \<and>
    3 \<le> length (derivedBucket pre cnt a) \<and> length (derivedBucket pre cnt a) \<le> 63"
proof -
  let ?z = "zeroPadded (shardWidth cnt) (unat a)"
  have pre: "labelPattern pre" "3 \<le> length pre + 1 + shardWidth cnt" "length pre + 1 + shardWidth cnt \<le> 63"
    using assms(1) by (simp_all add: validateBucketPrefix_def Let_def firstErr_None)
  have z: "?z \<noteq> []" by (simp add: zeroPadded_def)
  have "is_digit (last ?z)" using zeroPadded_digits [of "shardWidth cnt" "unat a"] z by (simp add: list_all_iff)
  moreover have "list_all (\<lambda>c. labelChar c \<or> c = CHR ''-'') ?z"
    using zeroPadded_digits [of "shardWidth cnt" "unat a"] by (auto simp: list_all_iff labelChar_digit)
  ultimately have "labelPattern (derivedBucket pre cnt a)"
    using pre(1) z by (simp add: labelPattern_def derivedBucket_def labelChar_digit)
  with pre length_zeroPadded [OF assms(2)] show ?thesis by (simp add: derivedBucket_def)
qed

section \<open>Pod names\<close>

lemma FormatUint_zero: "FormatUint 0 = ''0''"
  by code_simp

lemma FormatUint_decimalValue:
  assumes "s \<noteq> []" "list_all is_digit s" "length s > 1 \<longrightarrow> hd s \<noteq> CHR ''0''"
  shows "FormatUint (decimalValue s) = s"
  using assms
proof (induction s rule: rev_induct)
  case (snoc c s)
  let ?d = "code c - 48"
  have c: "is_digit c" "?d < 10" "char_of (48 + ?d) = c"
    using snoc.prems(2) by (auto simp: is_digit_def)
  have v: "decimalValue (s @ [c]) = 10 * decimalValue s + ?d" by simp
  show ?case
  proof (cases "s = []")
    case True
    with c v show ?thesis by (simp add: FormatUint.simps [of ?d])
  next
    case False
    have IH: "FormatUint (decimalValue s) = s"
      using snoc False by auto
    have "decimalValue s \<noteq> 0"
    proof
      assume "decimalValue s = 0"
      with IH have "s = ''0''" by (simp add: FormatUint_zero)
      with snoc.prems(3) show False by simp
    qed
    then have "\<not> 10 * decimalValue s + ?d < 10" by simp
    moreover have "(10 * decimalValue s + ?d) div 10 = decimalValue s" "(10 * decimalValue s + ?d) mod 10 = ?d" using c(2) by auto
    ultimately show ?thesis
      unfolding v by (subst FormatUint.simps) (simp only: if_False IH c(3))
  qed
qed simp

lemma localShardFromPodName_Inr:
  assumes "localShardFromPodName podName = Inr shrd"
  shows "podName = ''gitone-'' @ FormatUint (unat shrd)"
proof -
  let ?o = "drop 7 podName"
  from assms have p: "HasPrefix podName ''gitone-''" "?o \<noteq> []" "list_all is_digit ?o" "\<not> (length ?o > 1 \<and> hd ?o = CHR ''0'')"
    by (auto simp: localShardFromPodName_def Let_def split: if_splits)
  with assms have n: "decimalValue ?o < 2 ^ 32" "shrd = of_nat (decimalValue ?o)"
    by (auto simp: localShardFromPodName_def Let_def ParseUintBits_def ParseUint_def split: if_splits option.splits simp del: decimalValue.simps)
  then have "unat shrd = decimalValue ?o" by (simp add: unat_of_nat del: decimalValue.simps)
  moreover have "FormatUint (decimalValue ?o) = ?o" using p by (intro FormatUint_decimalValue) auto
  moreover have "podName = ''gitone-'' @ ?o" using p(1) by (auto simp: prefix_def)
  ultimately show ?thesis by simp
qed


text \<open>Filling in the derived bucket does not change the verdict.\<close>

lemma Validate_bucket:
  assumes "Validate lib c = None"
  shows "Validate lib (c\<lparr>cfg_S3 := (cfg_S3 c)\<lparr>Bucket := derivedBucket (BucketPrefix (cfg_S3 c)) (cfg_ShardCount c) (cfg_LocalShard c)\<rparr>\<rparr>) = None"
  using assms by (simp add: Validate_def firstErr_None)

lemma Load_Inr:
  assumes "Load lib (Some lookup) = Inr c"
  shows "Validate lib c = None" "localShardFromPodName (requiredValue lookup ''POD_NAME'') = Inr (cfg_LocalShard c)"
    "Bucket (cfg_S3 c) = derivedBucket (BucketPrefix (cfg_S3 c)) (cfg_ShardCount c) (cfg_LocalShard c)"
    "requiredUint32 lookup ''GITONE_SHARD_COUNT'' = Inr (cfg_ShardCount c)"
    "BucketPrefix (cfg_S3 c) = envValue lookup ''GITONE_S3_BUCKET_PREFIX'' ''gitone-shard''"
proof -
  from assms obtain cfg bucket where v: "Validate lib cfg = None" "BucketFor cfg (cfg_LocalShard cfg) = Inr bucket"
      "c = cfg\<lparr>cfg_S3 := (cfg_S3 cfg)\<lparr>Bucket := bucket\<rparr>\<rparr>"
    and f: "localShardFromPodName (requiredValue lookup ''POD_NAME'') = Inr (cfg_LocalShard cfg)"
      "requiredUint32 lookup ''GITONE_SHARD_COUNT'' = Inr (cfg_ShardCount cfg)"
      "BucketPrefix (cfg_S3 cfg) = envValue lookup ''GITONE_S3_BUCKET_PREFIX'' ''gitone-shard''"
    by (force simp: Load_def rbind_Inr Let_def split: option.splits)
  from v(2) have b: "bucket = derivedBucket (BucketPrefix (cfg_S3 cfg)) (cfg_ShardCount cfg) (cfg_LocalShard cfg)"
    by (simp add: BucketFor_Inr)
  show "Validate lib c = None" using Validate_bucket [OF v(1)] v(3) b by simp
  show "localShardFromPodName (requiredValue lookup ''POD_NAME'') = Inr (cfg_LocalShard c)"
    "Bucket (cfg_S3 c) = derivedBucket (BucketPrefix (cfg_S3 c)) (cfg_ShardCount c) (cfg_LocalShard c)"
    "requiredUint32 lookup ''GITONE_SHARD_COUNT'' = Inr (cfg_ShardCount c)"
    "BucketPrefix (cfg_S3 c) = envValue lookup ''GITONE_S3_BUCKET_PREFIX'' ''gitone-shard''"
    using f v(3) b by simp_all
qed


section \<open>The properties\<close>

text \<open>
  The buckets of a cluster are distinct: two shards of one configuration have the same bucket name only if
  they are the same shard, all names have the same length, between 3 and 63 characters, and are lowercase DNS labels.
\<close>

theorem BucketFor_distinct:
  assumes "BucketFor c a = Inr x" and "BucketFor c b = Inr y"
  shows "(x = y \<longleftrightarrow> a = b) \<and> length x = length y \<and> 3 \<le> length x \<and> length x \<le> 63 \<and> labelPattern x"
proof -
  from assms have v: "validateBucketPrefix (BucketPrefix (cfg_S3 c)) (cfg_ShardCount c) = None"
    "a < cfg_ShardCount c" "b < cfg_ShardCount c" "x = derivedBucket (BucketPrefix (cfg_S3 c)) (cfg_ShardCount c) a"
    "y = derivedBucket (BucketPrefix (cfg_S3 c)) (cfg_ShardCount c) b"
    by (simp_all add: BucketFor_Inr)
  have "x = y \<longleftrightarrow> a = b" using v(4,5) derivedBucket_inj by metis
  with derivedBucket_shape [OF v(1,2), folded v(4)] derivedBucket_shape [OF v(1,3), folded v(5)] show ?thesis by metis
qed

definition sampleLib :: Stdlib where
  "sampleLib = \<lparr>url_Parse = (\<lambda>_. None), url_ParseRequestURI = (\<lambda>_. None), ParseDuration = (\<lambda>_. Some 5000000000), base64_Decode = (\<lambda>_. None)\<rparr>"

definition sampleEnv :: "string \<Rightarrow> LookupEnv" where
  "sampleEnv pod key =
     (if key = ''GITONE_SHARD_COUNT'' then Some ''12'' else if key = ''POD_NAME'' then Some pod
      else if key = ''POD_NAMESPACE'' then Some '' git '' else if key = ''GITONE_PACK_SMALL_THRESHOLD'' then Some ''64 MiB'' else None)"

lemma sample_trim:
  "TrimSpace ''12'' = ''12''" "TrimSpace ''gitone-2'' = ''gitone-2''" "TrimSpace ''gitone-10'' = ''gitone-10''" "TrimSpace '' git '' = ''git''"
  "TrimSpace ''64 MiB'' = ''64 MiB''" "TrimSpace ''64 '' = ''64''" "TrimSpace ''0.0.0.0'' = ''0.0.0.0''" "TrimSpace ''us-east-1'' = ''us-east-1''"
  by (simp_all add: TrimSpace_def next_rune.simps IsSpace_def)

lemma sample_strings:
  "parseBytes ''64 MiB'' = Inr 67108864"  "positiveUint ''12'' 32 msg = Inr 12"
  "localShardFromPodName ''gitone-2'' = Inr 2" "localShardFromPodName ''gitone-10'' = Inr 10"
  by (simp_all add: parseBytes_def byteUnits_def TrimSuffix_def sample_trim ParseUint_def is_digit_def positiveUint_def ParseUintBits_def
    localShardFromPodName_def suffix_to_prefix)

lemma sample_width: "shardWidth 12 = 2"
  by (simp add: shardWidth_def FormatUint.simps word_le_nat_alt)


lemma sample_values:
  assumes "TrimSpace pod = pod"
  shows "requiredUint32 (sampleEnv pod) ''GITONE_SHARD_COUNT'' = Inr 12" "requiredValue (sampleEnv pod) ''POD_NAME'' = pod"
    "requiredValue (sampleEnv pod) ''POD_NAMESPACE'' = ''git''"
    "bytesValue (sampleEnv pod) ''GITONE_PACK_SMALL_THRESHOLD'' d = Inr 67108864"
  using assms by (simp_all add: requiredUint32_def requiredValue_def envValue_def sampleEnv_def sample_trim sample_strings bytesValue_def rbind_def)

definition sampleConfig :: "32 word \<Rightarrow> Config" where
  "sampleConfig shrd = \<lparr>cfg_ShardCount = 12, cfg_LocalShard = shrd, ListenAddress = ''0.0.0.0'', PublicPort = 8080,
     InternalScheme = ''http'', HeadlessService = ''gitone-headless'', Namespace = ''git'',
     ClusterIdentityFile = ''/etc/gitone/identity/cluster-identity.json'', SpaceDiscoveryMode = ''indexed'', MetricsToken = [],
     cfg_S3 = \<lparr>S3_Endpoint = [], S3_Region = ''us-east-1'', UsePathStyle = False, UseTLS = True, BucketPrefix = ''gitone-shard'', Bucket = []\<rparr>,
     cfg_Pack = \<lparr>CompactOnPush = True, Pack_MaxPackCount = 32, Pack_MaxSmallPackCount = 16, SmallPackThreshold = 67108864,
       LiveCompactionMaxInputBytes = 2147483648, LiveCompactionMaxInputPacks = 32\<rparr>,
     cfg_Path = \<lparr>Path_MaxTopLevelLength = 63, Path_MaxComponentLength = 255, Path_MaxDepth = 32\<rparr>,
     cfg_Auth = \<lparr>Auth_Enabled = False, Auth_PublicURL = [], GoogleClientID = [], GoogleClientSecret = [], OIDCIssuer = [],
       OIDCClientID = [], OIDCClientSecret = [], CookieHashKey = [], CookieBlockKey = []\<rparr>,
     cfg_SSH = \<lparr>SSH_Enabled = False, SSH_Port = 2222, SSH_PublicURL = [], HostKeyFile = [], ForwardKeyFile = []\<rparr>,
     cfg_Git = \<lparr>MaxConcurrentOperations = 1, MaxQueuedOperations = 4, QueueTimeout = 5000000000\<rparr>,
     cfg_LFS = \<lparr>LFS_Enabled = True, LFS_MaxObjectBytes = 1073741824, LFS_MaxRepositoryBytes = 10737418240, MaxConcurrentTransfers = 4,
       MaxQueuedTransfers = 8, LFS_QueueTimeout = 5000000000, TransferTimeout = 5000000000\<rparr>,
     cfg_Cache = \<lparr>CacheMemoryBytes = 268435456, CacheDiskBytes = 0, CacheDirectory = []\<rparr>\<rparr>"

lemma sample_valid: "shrd < 12 \<Longrightarrow> Validate sampleLib (sampleConfig shrd) = None"
  by (simp add: Validate_def sampleConfig_def CacheValidate_def LFSvalidate_def validateMetricsToken_def SSHvalidate_def AuthValidate_def
      validateDNSLabel_def labelPattern_def labelChar_def is_digit_def IsAbs_def sample_trim validateEndpoint_def validateBucketPrefix_def
      sample_width second_def require_def not_le word_le_nat_alt word_less_nat_alt)

lemma sample_load:
  assumes "TrimSpace pod = pod" "localShardFromPodName pod = Inr shrd" "shrd < 12"
  shows "Load sampleLib (Some (sampleEnv pod)) =
    Inr ((sampleConfig shrd)\<lparr>cfg_S3 := (cfg_S3 (sampleConfig shrd))\<lparr>Bucket := derivedBucket ''gitone-shard'' 12 shrd\<rparr>\<rparr>)"
proof -
  have bools: "boolValue (sampleEnv pod) k d = Inr d" if "k \<notin> {''GITONE_SHARD_COUNT'', ''POD_NAME'', ''POD_NAMESPACE'', ''GITONE_PACK_SMALL_THRESHOLD''}" for k d
    using that by (simp add: boolValue_def sampleEnv_def)
  have others: "uint16Value (sampleEnv pod) k d16 = Inr d16" "uint32Value (sampleEnv pod) k d32 = Inr d32" "intValue (sampleEnv pod) k d = Inr d"
    "cacheBytesValue (sampleEnv pod) k d = Inr d" "bytesValue (sampleEnv pod) k d = Inr d" "envValue (sampleEnv pod) k str = str"
    "sampleEnv pod k = None"
    if "k \<notin> {''GITONE_SHARD_COUNT'', ''POD_NAME'', ''POD_NAMESPACE'', ''GITONE_PACK_SMALL_THRESHOLD''}" for k d16 d32 d str
    using that by (simp_all add: uint16Value_def uint32Value_def intValue_def cacheBytesValue_def bytesValue_def envValue_def sampleEnv_def)
  have dur: "positiveDuration sampleLib str msg = Inr 5000000000" for str msg by (simp add: positiveDuration_def sampleLib_def)
  have ints: "integerValue (FormatInt 4) msg = Inr 4" "integerValue ''8'' msg = Inr 8" for msg
    by (simp add: integerValue_def is_int64_def MaxInt64_def)
      (simp add: integerValue_def is_int64_def MaxInt64_def ParseInt_def is_digit_def)
  have parts: "loadAuth (sampleEnv pod) = Inr (cfg_Auth (sampleConfig shrd))" "loadSSH (sampleEnv pod) = Inr (cfg_SSH (sampleConfig shrd))"
    "loadGit sampleLib (sampleEnv pod) = Inr (cfg_Git (sampleConfig shrd))" "loadLFS sampleLib (sampleEnv pod) = Inr (cfg_LFS (sampleConfig shrd))"
    "loadCache (sampleEnv pod) = Inr (cfg_Cache (sampleConfig shrd))"
    by (simp_all add: loadAuth_def loadSSH_def loadGit_def loadLFS_def loadCache_def bools others dur ints rbind_def sampleConfig_def)
  have bucket: "BucketFor (sampleConfig shrd) shrd = Inr (derivedBucket ''gitone-shard'' 12 shrd)"
  proof -
    have "validateBucketPrefix ''gitone-shard'' 12 = None"
      by (simp add: validateBucketPrefix_def sample_width labelPattern_def labelChar_def is_digit_def require_def)
    then show ?thesis using assms(3) by (simp add: BucketFor_Inr sampleConfig_def)
  qed
  show ?thesis
    using sample_valid [OF assms(3)] bucket assms(1,2)
    by (simp add: Load_def rbind_def sample_values [OF assms(1)] bools others parts Let_def sampleConfig_def)
qed


theorem BucketFor_distinct_witness:
  "BucketFor (sampleConfig 2) 2 = Inr ''gitone-shard-02'' \<and> BucketFor (sampleConfig 2) 11 = Inr ''gitone-shard-11'' \<and>
   length ''gitone-shard-02'' = length ''gitone-shard-11''"
proof -
  have v: "validateBucketPrefix ''gitone-shard'' 12 = None"
    by (simp add: validateBucketPrefix_def sample_width labelPattern_def labelChar_def is_digit_def require_def)
  have f: "FormatUint 2 = ''2''" "FormatUint 11 = ''11''" by code_simp+
  have b: "BucketFor (sampleConfig 2) 2 = Inr ''gitone-shard-02''" "BucketFor (sampleConfig 2) 11 = Inr ''gitone-shard-11''"
    by (simp_all add: BucketFor_Inr sampleConfig_def v derivedBucket_def sample_width zeroPadded_def f word_less_nat_alt)
  show ?thesis using b BucketFor_distinct [OF b] by blast
qed

text \<open>
  C25. A configuration that \<^verbatim>\<open>Load\<close> returns is valid; its shard is the canonical decimal ordinal of the pod name,
  below the shard count, and its bucket is the one derived for this shard.
\<close>

theorem Load_valid:
  assumes "Load lib (Some lookup) = Inr c"
  shows "Validate lib c = None \<and> requiredValue lookup ''POD_NAME'' = ''gitone-'' @ FormatUint (unat (cfg_LocalShard c)) \<and>
    cfg_LocalShard c < cfg_ShardCount c \<and> BucketFor c (cfg_LocalShard c) = Inr (Bucket (cfg_S3 c))"
proof -
  note l = Load_Inr [OF assms]
  have "cfg_LocalShard c < cfg_ShardCount c" "validateBucketPrefix (BucketPrefix (cfg_S3 c)) (cfg_ShardCount c) = None"
    using l(1) by (simp_all add: Validate_def firstErr_None not_le)
  with l localShardFromPodName_Inr show ?thesis by (simp add: BucketFor_Inr)
qed

theorem Load_valid_witness:
  "\<exists>c. Load sampleLib (Some (sampleEnv ''gitone-2'')) = Inr c \<and> Validate sampleLib c = None \<and> cfg_LocalShard c < cfg_ShardCount c"
proof -
  have "(2 :: 32 word) < 12" by (simp add: word_less_nat_alt)
  then show ?thesis
    using Load_valid [OF sample_load [OF sample_trim(2) sample_strings(3)]] sample_load [OF sample_trim(2) sample_strings(3)] by blast
qed

text \<open>
  C26. Pods do not share buckets: two pods of a cluster, with the same shard count and bucket prefix, that load a configuration
  with the same bucket have the same pod name.
\<close>

theorem Load_pods_disjoint:
  assumes "Load lib (Some env1) = Inr c1" and "Load lib' (Some env2) = Inr c2"
    and "env1 ''GITONE_SHARD_COUNT'' = env2 ''GITONE_SHARD_COUNT''" and "env1 ''GITONE_S3_BUCKET_PREFIX'' = env2 ''GITONE_S3_BUCKET_PREFIX''"
    and "Bucket (cfg_S3 c1) = Bucket (cfg_S3 c2)"
  shows "requiredValue env1 ''POD_NAME'' = requiredValue env2 ''POD_NAME''"
proof -
  note l1 = Load_Inr [OF assms(1)] and l2 = Load_Inr [OF assms(2)]
  have "cfg_ShardCount c1 = cfg_ShardCount c2"
    using l1(4) l2(4) assms(3) by (simp add: requiredUint32_def requiredValue_def envValue_def)
  moreover have "BucketPrefix (cfg_S3 c1) = BucketPrefix (cfg_S3 c2)" using l1(5) l2(5) assms(4) by (simp add: envValue_def)
  ultimately have "cfg_LocalShard c1 = cfg_LocalShard c2" using l1(3) l2(3) assms(5) derivedBucket_inj by metis
  then show ?thesis using localShardFromPodName_Inr [OF l1(2)] localShardFromPodName_Inr [OF l2(2)] by simp
qed

theorem Load_pods_disjoint_witness:
  "Load sampleLib (Some (sampleEnv ''gitone-2'')) \<noteq> Load sampleLib (Some (sampleEnv ''gitone-10''))"
proof
  assume eq: "Load sampleLib (Some (sampleEnv ''gitone-2'')) = Load sampleLib (Some (sampleEnv ''gitone-10''))"
  have "(2 :: 32 word) < 12" "(10 :: 32 word) < 12" by (simp_all add: word_less_nat_alt)
  then obtain c where c: "Load sampleLib (Some (sampleEnv ''gitone-10'')) = Inr c"
    using sample_load [OF sample_trim(3) sample_strings(4)] by blast
  have "requiredValue (sampleEnv ''gitone-2'') ''POD_NAME'' = requiredValue (sampleEnv ''gitone-10'') ''POD_NAME''"
    by (rule Load_pods_disjoint [OF eq [unfolded c] c]) (simp_all add: sampleEnv_def)
  then show False by (simp add: sample_values sample_trim)
qed

section \<open>Byte sizes\<close>

lemma TrimSpace_digits: "list_all is_digit s \<Longrightarrow> TrimSpace s = s"
proof -
  assume d: "list_all is_digit s"
  have seg: "segments s = map (\<lambda>c. (Some (code c), [c])) s"
    using d by (induction s) (auto simp: is_digit_def next_rune.simps)
  have "\<not> IsSpace (Some (code c))" if "c \<in> set s" for c
    using d that by (auto simp: list_all_iff is_digit_def IsSpace_def)
  then have "dropWhile (\<lambda>p. IsSpace (fst p)) (map (\<lambda>c. (Some (code c), [c])) s) = map (\<lambda>c. (Some (code c), [c])) s"
    "dropWhile (\<lambda>p. IsSpace (fst p)) (map (\<lambda>c. (Some (code c), [c])) (rev s)) = map (\<lambda>c. (Some (code c), [c])) (rev s)"
    by (auto simp: dropWhile_eq_self_iff hd_map hd_rev)
  then show ?thesis by (simp add: TrimSpace_def seg rev_map comp_def)
qed

lemma splitUnit_FormatUint:
  assumes "(u, m) \<in> set byteUnits"
  shows "splitUnit byteUnits (FormatUint k @ u) = (FormatUint k, m)"
proof -
  obtain ds d where k: "FormatUint k = ds @ [d]" by (metis FormatUint_nonempty rev_exhaust)
  have digits: "list_all is_digit (FormatUint k)" by (rule FormatUint_digits)
  then have d: "CHR ''i'' \<noteq> d \<and> d \<noteq> CHR ''i'' \<and> d \<noteq> CHR ''K'' \<and> d \<noteq> CHR ''M'' \<and> d \<noteq> CHR ''G'' \<and> d \<noteq> CHR ''T'' \<and> d \<noteq> CHR ''P''"
    unfolding k by (auto simp: is_digit_def)
  have trim: "TrimSpace (FormatUint k) = FormatUint k" by (rule TrimSpace_digits [OF digits])
  consider "u = ''PiB''" "m = 2 ^ 50" | "u = ''TiB''" "m = 2 ^ 40" | "u = ''GiB''" "m = 2 ^ 30" | "u = ''MiB''" "m = 2 ^ 20"
    | "u = ''KiB''" "m = 2 ^ 10" | "u = ''B''" "m = 1"
    using assms unfolding byteUnits_def by force
  then show ?thesis
    by cases (simp_all add: byteUnits_def k suffix_to_prefix TrimSuffix_def trim [unfolded k] d)
qed


text \<open>
  Byte sizes are exact: a decimal number with one of the units is its product with the unit when that fits a signed
  64-bit integer and is refused otherwise, and whatever is accepted is between zero and the largest 64-bit integer,
  the product of the digits and the unit that were given.
\<close>

theorem parseBytes_exact:
  "(\<forall>(u, m) \<in> set byteUnits. \<forall>k.
      (int (k * m) \<le> MaxInt64 \<longrightarrow> parseBytes (FormatUint k @ u) = Inr (int (k * m))) \<and>
      (int (k * m) > MaxInt64 \<longrightarrow> (\<exists>e. parseBytes (FormatUint k @ u) = Inl e))) \<and>
   (\<forall>s n. parseBytes s = Inr n \<longrightarrow> 0 \<le> n \<and> n \<le> MaxInt64 \<and>
      (\<exists>number m. splitUnit byteUnits s = (number, m) \<and> list_all is_digit number \<and> n = int (decimalValue number * m)))"
proof -
  have le: "(\<not> parsed > (2 ^ 63 - 1) div m) \<longleftrightarrow> int (parsed * m) \<le> MaxInt64" if "0 < m" for parsed m :: nat
  proof -
    have "parsed \<le> (2 ^ 63 - 1) div m \<longleftrightarrow> parsed * m \<le> 2 ^ 63 - 1" by (rule less_eq_div_iff_mult_less_eq [OF that])
    also have "\<dots> \<longleftrightarrow> int (parsed * m) \<le> MaxInt64" by (simp add: MaxInt64_def flip: of_nat_mult)
    finally show ?thesis by (simp add: not_less)
  qed
  have pos: "0 < m" if "(u, m) \<in> set byteUnits" for u m using that by (auto simp: byteUnits_def)
  have one: "(int (k * m) \<le> MaxInt64 \<longrightarrow> parseBytes (FormatUint k @ u) = Inr (int (k * m))) \<and>
      (int (k * m) > MaxInt64 \<longrightarrow> (\<exists>e. parseBytes (FormatUint k @ u) = Inl e))" if u: "(u, m) \<in> set byteUnits" for u m k
  proof -
    have pb: "parseBytes (FormatUint k @ u) =
        (case ParseUint (FormatUint k) of None \<Rightarrow> Inl (ErrMsg ''parse byte size'')
         | Some parsed \<Rightarrow> if parsed > (2 ^ 63 - 1) div m then Inl (ErrMsg ''byte size overflows int64'') else Inr (int (parsed * m)))"
      by (simp add: parseBytes_def splitUnit_FormatUint [OF u])
    show ?thesis
    proof (cases "k < 2 ^ 64")
      case True
      then show ?thesis using pb le [OF pos [OF u], of k] by auto
    next
      case False
      then have "ParseUint (FormatUint k) = None"
        by (simp add: ParseUint_def decimalValue_FormatUint del: decimalValue.simps)
      moreover have "int (k * m) > MaxInt64"
      proof -
        have "2 ^ 64 \<le> k * m" using False pos [OF u] by (metis le_trans linorder_not_less mult_le_mono2 mult.right_neutral Suc_leI One_nat_def)
        then show ?thesis by (simp add: MaxInt64_def flip: of_nat_mult)
      qed
      ultimately show ?thesis using pb by simp
    qed
  qed
  have splitPos: "0 < snd (splitUnit us s)" if "\<forall>(u, m) \<in> set us. 0 < m" for us s
    using that by (induction us s rule: splitUnit.induct) auto
  have two: "0 \<le> n \<and> n \<le> MaxInt64 \<and>
      (\<exists>number m. splitUnit byteUnits s = (number, m) \<and> list_all is_digit number \<and> n = int (decimalValue number * m))"
    if "parseBytes s = Inr n" for s n
  proof -
    obtain number m where sp: "splitUnit byteUnits s = (number, m)" by fastforce
    have m: "0 < m" using splitPos [of byteUnits s] pos sp by auto
    from that sp obtain parsed where p: "ParseUint number = Some parsed" "\<not> parsed > (2 ^ 63 - 1) div m" "n = int (parsed * m)"
      by (auto simp: parseBytes_def split: if_splits option.splits)
    then have "parsed = decimalValue number" "list_all is_digit number"
      by (auto simp: ParseUint_def split: if_splits simp del: decimalValue.simps)
    with p sp le [OF m, of parsed] show ?thesis by auto
  qed
  from one two show ?thesis by blast
qed

theorem parseBytes_exact_witness: "parseBytes (FormatUint 64 @ ''MiB'') = Inr (int (64 * 2 ^ 20))"
  using parseBytes_exact [THEN conjunct1, THEN bspec, of "(''MiB'', 2 ^ 20)"] by (simp add: byteUnits_def MaxInt64_def)

section \<open>Shard ownership\<close>

lemma validateTopLevel_eq:
  "validateTopLevel name n = (if canonicalTopLevel name \<and> int (length name) \<le> n then None else Some ErrInvalidPath)"
proof (cases "validateTopLevel name n")
  case None
  then show ?thesis using validateTopLevel_iff [of name n] by simp
next
  case (Some e)
  then have "e = ErrInvalidPath" by (simp add: validateTopLevel_def split: if_splits)
  then show ?thesis using Some validateTopLevel_iff [of name n] by auto
qed

definition configParser :: "Config \<Rightarrow> Parser" where
  "configParser c = \<lparr>maxTopLevelLength = Path_MaxTopLevelLength (cfg_Path c), maxComponentLength = Path_MaxComponentLength (cfg_Path c),
     maxPathDepth = Path_MaxDepth (cfg_Path c), reservedNames = {''system'', ''gitone'', ''api''}\<rparr>"

lemma NewParser_reserved:
  assumes "Validate lib c = None"
  shows "NewParser (maintenancePolicy c) =
    (if Path_MaxTopLevelLength (cfg_Path c) < 6 then Inl (ErrJoin ErrInvalidPathPolicy ErrInvalidPath) else Inr (configParser c))"
proof -
  have names: "canonicalTopLevel ''api''" "canonicalTopLevel ''gitone''" "canonicalTopLevel ''system''"
    by (simp_all add: canonicalTopLevel_def)
  have p: "0 < Path_MaxTopLevelLength (cfg_Path c)" "0 < Path_MaxComponentLength (cfg_Path c)"
    "Path_MaxTopLevelLength (cfg_Path c) \<le> Path_MaxComponentLength (cfg_Path c)" "2 \<le> Path_MaxDepth (cfg_Path c)"
    using assms by (simp_all add: Validate_def firstErr_None)
  then show ?thesis
    by (simp add: NewParser_def maintenancePolicy_def DefaultPathPolicy_def validateTopLevel_eq names configParser_def)
qed

lemma validateMaintenanceOwner_None:
  assumes "Validate lib c = None" "6 \<le> Path_MaxTopLevelLength (cfg_Path c)"
  shows "validateMaintenanceOwner c ns = None \<longleftrightarrow>
    canonicalTopLevel ns \<and> int (length ns) \<le> Path_MaxTopLevelLength (cfg_Path c) \<and> ns \<notin> {''system'', ''gitone'', ''api''} \<and>
    ucast (Sum64 (bytes_of ns) mod ucast (cfg_ShardCount c)) = cfg_LocalShard c"
proof -
  have "cfg_ShardCount c \<noteq> 0" using assms(1) by (simp add: Validate_def firstErr_None)
  then show ?thesis
    using assms(2) by (simp add: validateMaintenanceOwner_def NewParser_reserved [OF assms(1)] NewRouter_def Owner_def configParser_def
        validateTopLevel_eq) blast
qed

text \<open>
  C27. In a cluster with a valid configuration, exactly one shard is allowed to maintain a namespace: for every canonical, unreserved
  namespace within the length limit there is exactly one local shard below the shard count whose pod accepts the command,
  and no pod accepts any other namespace. The configured limit has to admit the reserved
  names, which \<^verbatim>\<open>Validate\<close> does not check: with a limit below six no namespace is accepted anywhere.
\<close>

theorem maintenance_owner_unique:
  assumes "Validate lib c = None"
  shows "if 6 \<le> Path_MaxTopLevelLength (cfg_Path c) then
      (\<forall>ns. canonicalTopLevel ns \<longrightarrow> int (length ns) \<le> Path_MaxTopLevelLength (cfg_Path c) \<longrightarrow> ns \<notin> {''system'', ''gitone'', ''api''} \<longrightarrow>
         (\<exists>!shrd. shrd < cfg_ShardCount c \<and> validateMaintenanceOwner (c\<lparr>cfg_LocalShard := shrd\<rparr>) ns = None)) \<and>
      (\<forall>ns. validateMaintenanceOwner c ns = None \<longrightarrow> canonicalTopLevel ns \<and> ns \<notin> {''system'', ''gitone'', ''api''})
    else (\<forall>ns. validateMaintenanceOwner c ns \<noteq> None)"
proof (cases "6 \<le> Path_MaxTopLevelLength (cfg_Path c)")
  case False
  then show ?thesis by (simp add: validateMaintenanceOwner_def NewParser_reserved [OF assms])
next
  case True
  have cnt: "cfg_ShardCount c \<noteq> 0" using assms by (simp add: Validate_def firstErr_None)
  have one: "validateMaintenanceOwner (c\<lparr>cfg_LocalShard := shrd\<rparr>) ns = None \<longleftrightarrow>
      ucast (Sum64 (bytes_of ns) mod ucast (cfg_ShardCount c)) = shrd"
    if "canonicalTopLevel ns" "int (length ns) \<le> Path_MaxTopLevelLength (cfg_Path c)" "ns \<notin> {''system'', ''gitone'', ''api''}" for ns shrd
  proof -
    have "NewParser (maintenancePolicy (c\<lparr>cfg_LocalShard := shrd\<rparr>)) = NewParser (maintenancePolicy c)"
      by (simp add: maintenancePolicy_def)
    then show ?thesis using that True cnt
      by (simp add: validateMaintenanceOwner_def NewParser_reserved [OF assms] NewRouter_def Owner_def configParser_def validateTopLevel_eq)
  qed
  have bound: "ucast (h mod ucast (cfg_ShardCount c)) < cfg_ShardCount c" for h :: "64 word"
    using ucast_mod_bound [OF cnt, of h] cnt by (simp add: word_less_nat_alt unat_gt_0)
  show ?thesis using True one bound validateMaintenanceOwner_None [OF assms True] by auto
qed

theorem maintenance_owner_unique_witness:
  "\<exists>!shrd. shrd < 12 \<and> validateMaintenanceOwner ((sampleConfig 2)\<lparr>cfg_LocalShard := shrd\<rparr>) ''team'' = None"
proof -
  have "(2 :: 32 word) < 12" by (simp add: word_less_nat_alt)
  from maintenance_owner_unique [OF sample_valid [OF this]] show ?thesis
    by (simp add: sampleConfig_def canonicalTopLevel_def)
qed

end
