(* ===== verification/Admission.thy ===== *)
theory Admission
  imports Prelude
begin

text \<open>
  \<^verbatim>\<open>internal/gittransport/admission.go\<close>: the bound on active and waiting Git operations. A buffered channel is the number of
  its elements with its capacity. Each request runs \<^verbatim>\<open>acquire\<close> and later \<^verbatim>\<open>release\<close>; its program counter
  marks the points between channel operations, where other requests may run. What the contexts report at each point is arbitrary.
\<close>

section \<open>The model\<close>

record Options =
  opt_Concurrent :: int
  opt_Queued :: int
  opt_Timeout :: int

definition admissionOptions :: "Options list \<Rightarrow> Options result" where
  "admissionOptions options =
     (if length options > 1 then Inl (ErrMsg ''at most one Options value is allowed'')
      else (let result = (case options of
              [] \<Rightarrow> \<lparr>opt_Concurrent = 1, opt_Queued = 4, opt_Timeout = 5 * 1000000000\<rparr>
            | o1 # _ \<Rightarrow> o1\<lparr>opt_Concurrent := (if opt_Concurrent o1 = 0 then 1 else opt_Concurrent o1),
                          opt_Timeout := (if opt_Timeout o1 = 0 then 5 * 1000000000 else opt_Timeout o1)\<rparr>)
            in if opt_Concurrent result < 1 \<or> opt_Concurrent result > 32 \<or> opt_Queued result < 0 \<or> opt_Queued result > 1024 \<or>
                  opt_Timeout result \<le> 0 \<or> opt_Timeout result > 90 * 1000000000
               then Inl (ErrMsg ''invalid operation admission limits'') else Inr result))"

record admission =
  activeCap :: nat
  waitingCap :: nat
  active :: nat
  waiting :: nat

definition newAdmission :: "nat \<Rightarrow> nat \<Rightarrow> admission" where
  "newAdmission act queued = \<lparr>activeCap = act, waitingCap = queued, active = 0, waiting = 0\<rparr>"

datatype reason = CtxError err | Busy | TimedOutBusy

datatype pc =
    Start
  | TryActive
  | GotActive
  | TryWaiting
  | Queued
  | GotQueued
  | Expired
  | Holding
  | Released
  | Rejected reason

text \<open>
  One step of a request; \<open>ctxErr\<close> and \<open>waitErr\<close> are what \<^verbatim>\<open>ctx.Err()\<close> and \<^verbatim>\<open>waitCtx.Err()\<close> return
  at this point, and \<open>expired\<close> resolves the second \<^verbatim>\<open>select\<close> when \<^verbatim>\<open>waitCtx.Done()\<close> is ready.
  No result means that the request is blocked or has ended.
\<close>

fun acquireStep :: "err option \<Rightarrow> err option \<Rightarrow> bool \<Rightarrow> admission \<Rightarrow> pc \<Rightarrow> (admission \<times> pc) option" where
  "acquireStep ctxErr waitErr expired a Start =
     Some (a, case ctxErr of Some e \<Rightarrow> Rejected (CtxError e) | None \<Rightarrow> TryActive)"
| "acquireStep ctxErr waitErr expired a TryActive =
     (if active a < activeCap a then Some (a\<lparr>active := active a + 1\<rparr>, GotActive) else Some (a, TryWaiting))"
| "acquireStep ctxErr waitErr expired a GotActive =
     (case ctxErr of Some e \<Rightarrow> Some (a\<lparr>active := active a - 1\<rparr>, Rejected (CtxError e)) | None \<Rightarrow> Some (a, Holding))"
| "acquireStep ctxErr waitErr expired a TryWaiting =
     (if waiting a < waitingCap a then Some (a\<lparr>waiting := waiting a + 1\<rparr>, Queued) else Some (a, Rejected Busy))"
| "acquireStep ctxErr waitErr expired a Queued =
     (if expired then Some (a, Expired)
      else if active a < activeCap a then Some (a\<lparr>active := active a + 1\<rparr>, GotQueued)
      else None)"
| "acquireStep ctxErr waitErr expired a GotQueued =
     (case waitErr of
        None \<Rightarrow> Some (a\<lparr>waiting := waiting a - 1\<rparr>, Holding)
      | Some _ \<Rightarrow> Some (a\<lparr>active := active a - 1\<rparr>, Expired))"
| "acquireStep ctxErr waitErr expired a Expired =
     Some (a\<lparr>waiting := waiting a - 1\<rparr>, Rejected (case ctxErr of Some e \<Rightarrow> CtxError e | None \<Rightarrow> TimedOutBusy))"
| "acquireStep ctxErr waitErr expired a Holding = Some (a\<lparr>active := active a - 1\<rparr>, Released)"
| "acquireStep ctxErr waitErr expired a Released = None"
| "acquireStep ctxErr waitErr expired a (Rejected r) = None"

text \<open>All requests of a process over one admission, in any interleaving.\<close>

inductive admission_step :: "admission \<times> pc list \<Rightarrow> admission \<times> pc list \<Rightarrow> bool" where
  run: "i < length ps \<Longrightarrow> acquireStep ctxErr waitErr expired a (ps ! i) = Some (a', p) \<Longrightarrow>
    admission_step (a, ps) (a', ps[i := p])"

inductive_cases admission_stepE: "admission_step (a, ps) w"

inductive admission_reachable :: "nat \<Rightarrow> nat \<Rightarrow> nat \<Rightarrow> admission \<times> pc list \<Rightarrow> bool" for act queued n where
  start: "admission_reachable act queued n (newAdmission act queued, replicate n Start)"
| step: "admission_reachable act queued n w \<Longrightarrow> admission_step w w' \<Longrightarrow> admission_reachable act queued n w'"

section \<open>Slots in use\<close>

fun usesActive :: "pc \<Rightarrow> bool" where
  "usesActive GotActive \<longleftrightarrow> True"
| "usesActive GotQueued \<longleftrightarrow> True"
| "usesActive Holding \<longleftrightarrow> True"
| "usesActive _ \<longleftrightarrow> False"

fun usesWaiting :: "pc \<Rightarrow> bool" where
  "usesWaiting Queued \<longleftrightarrow> True"
| "usesWaiting GotQueued \<longleftrightarrow> True"
| "usesWaiting Expired \<longleftrightarrow> True"
| "usesWaiting _ \<longleftrightarrow> False"

definition users :: "(pc \<Rightarrow> bool) \<Rightarrow> pc list \<Rightarrow> nat" where
  "users P ps = length (filter P ps)"

lemma users_update:
  "i < length ps \<Longrightarrow> users P (ps[i := p]) + (if P (ps ! i) then 1 else 0) = users P ps + (if P p then 1 else 0)"
proof (induction ps arbitrary: i)
  case (Cons q ps)
  then show ?case by (cases i) (auto simp: users_def)
qed simp

lemma users_pos: "i < length ps \<Longrightarrow> P (ps ! i) \<Longrightarrow> 0 < users P ps"
  by (auto simp: users_def filter_empty_conv)

definition admission_ok :: "admission \<times> pc list \<Rightarrow> bool" where
  "admission_ok w \<longleftrightarrow> (case w of (a, ps) \<Rightarrow>
     active a = users usesActive ps \<and> waiting a = users usesWaiting ps \<and> active a \<le> activeCap a \<and> waiting a \<le> waitingCap a)"

lemma acquireStep_slots:
  assumes "acquireStep ctxErr waitErr expired a p = Some (a', p')"
    and "usesActive p \<longrightarrow> 0 < active a" "usesWaiting p \<longrightarrow> 0 < waiting a" "active a \<le> activeCap a" "waiting a \<le> waitingCap a"
  shows "active a' + (if usesActive p then 1 else 0) = active a + (if usesActive p' then 1 else 0) \<and>
    waiting a' + (if usesWaiting p then 1 else 0) = waiting a + (if usesWaiting p' then 1 else 0) \<and>
    active a' \<le> activeCap a' \<and> waiting a' \<le> waitingCap a' \<and> activeCap a' = activeCap a \<and> waitingCap a' = waitingCap a"
  using assms by (cases p) (auto split: if_splits option.splits)

lemma admission_step_ok:
  assumes "admission_step w w'" "admission_ok w"
  shows "admission_ok w' \<and> activeCap (fst w') = activeCap (fst w) \<and> waitingCap (fst w') = waitingCap (fst w) \<and>
    length (snd w') = length (snd w)"
  using assms
proof cases
  case (run i ps ctxErr waitErr expired a a' p)
  then have inv: "active a = users usesActive ps" "waiting a = users usesWaiting ps" "active a \<le> activeCap a" "waiting a \<le> waitingCap a"
    using assms(2) by (simp_all add: admission_ok_def)
  have pos: "usesActive (ps ! i) \<longrightarrow> 0 < active a" "usesWaiting (ps ! i) \<longrightarrow> 0 < waiting a"
    using inv users_pos [OF run(3)] by auto
  note slots = acquireStep_slots [OF run(4) pos inv(3,4)]
  show ?thesis
    using slots inv users_update [OF run(3), of usesActive p] users_update [OF run(3), of usesWaiting p] run(1,2)
    by (simp add: admission_ok_def)
qed

lemma admission_reachable_ok:
  "admission_reachable act queued n w \<Longrightarrow>
     admission_ok w \<and> activeCap (fst w) = act \<and> waitingCap (fst w) = queued \<and> length (snd w) = n"
proof (induction rule: admission_reachable.induct)
  case start
  show ?case by (simp add: admission_ok_def newAdmission_def users_def)
next
  case (step w w')
  then show ?case using admission_step_ok [OF step(2)] by simp
qed


section \<open>Termination\<close>

fun pc_rank :: "pc \<Rightarrow> nat" where
  "pc_rank Start = 6"
| "pc_rank TryActive = 5"
| "pc_rank TryWaiting = 4"
| "pc_rank Queued = 3"
| "pc_rank GotQueued = 2"
| "pc_rank GotActive = 2"
| "pc_rank Expired = 1"
| "pc_rank Holding = 1"
| "pc_rank Released = 0"
| "pc_rank (Rejected r) = 0"

definition finished :: "pc \<Rightarrow> bool" where
  "finished p \<longleftrightarrow> p = Released \<or> (\<exists>r. p = Rejected r)"

lemma acquireStep_rank: "acquireStep ctxErr waitErr expired a p = Some (a', p') \<Longrightarrow> pc_rank p' < pc_rank p"
  by (cases p) (auto split: if_splits option.splits)

lemma sum_rank_update:
  "i < length ps \<Longrightarrow> pc_rank p < pc_rank (ps ! i) \<Longrightarrow> sum_list (map pc_rank (ps[i := p])) < sum_list (map pc_rank ps)"
proof (induction ps arbitrary: i)
  case (Cons q ps)
  then show ?case by (cases i) auto
qed simp

lemma admission_step_rank:
  assumes "admission_step w w'"
  shows "sum_list (map pc_rank (snd w')) < sum_list (map pc_rank (snd w))"
  using assms by cases (simp add: sum_rank_update acquireStep_rank)

lemma admission_steps_rank:
  "(admission_step ^^ k) w w' \<Longrightarrow> k + sum_list (map pc_rank (snd w')) \<le> sum_list (map pc_rank (snd w))"
proof (induction k arbitrary: w')
  case (Suc k)
  from Suc.prems obtain v where v: "(admission_step ^^ k) w v" "admission_step v w'" by auto
  show ?case using Suc.IH [OF v(1)] admission_step_rank [OF v(2)] by simp
qed auto

lemma unfinished_step:
  assumes "\<not> finished p"
  shows "\<exists>a' p'. acquireStep ctxErr waitErr True a p = Some (a', p')"
  using assms by (cases p) (auto simp: finished_def split: option.splits)

section \<open>The properties\<close>

text \<open>
  C28. However requests, cancellations and time-outs interleave, at most the configured number of operations hold a slot and at most
  the configured number wait; and once every request has been released or rejected, no slot is left occupied.
\<close>

theorem admission_bounded:
  assumes "admission_reachable act queued n (a, ps)"
  shows "users (\<lambda>p. p = Holding) ps \<le> act \<and> users (\<lambda>p. p = Queued) ps \<le> queued \<and>
    ((\<forall>p \<in> set ps. finished p) \<longrightarrow> active a = 0 \<and> waiting a = 0)"
proof -
  have ok: "active a = users usesActive ps" "waiting a = users usesWaiting ps" "active a \<le> act" "waiting a \<le> queued"
    using admission_reachable_ok [OF assms] by (simp_all add: admission_ok_def)
  have mono: "users P ps \<le> users Q ps" if "\<And>p. P p \<Longrightarrow> Q p" for P Q
    unfolding users_def using that by (induction ps) auto
  have "users (\<lambda>p. p = Holding) ps \<le> users usesActive ps" "users (\<lambda>p. p = Queued) ps \<le> users usesWaiting ps"
    by (rule mono, simp)+
  moreover have "users usesActive ps = 0 \<and> users usesWaiting ps = 0" if "\<forall>p \<in> set ps. finished p"
    using that by (auto simp: users_def filter_empty_conv finished_def)
  ultimately show ?thesis using ok by auto
qed

text \<open>
  C29. Admission never blocks for ever: as long as some request is unfinished there is a next step, even when every slot is taken, and a
  run of \<open>n\<close> requests has at most \<open>6 n\<close> steps, so every request is eventually released or rejected.
\<close>

theorem admission_terminates:
  assumes "admission_reachable act queued n w"
  shows "(\<forall>k w'. (admission_step ^^ k) (newAdmission act queued, replicate n Start) w' \<longrightarrow> k \<le> 6 * n) \<and>
    ((\<exists>w'. admission_step w w') \<longleftrightarrow> (\<exists>p \<in> set (snd w). \<not> finished p))"
proof -
  have "k \<le> 6 * n" if "(admission_step ^^ k) (newAdmission act queued, replicate n Start) w'" for k w'
    using admission_steps_rank [OF that] by (simp add: sum_list_replicate mult.commute)
  moreover have "\<exists>w'. admission_step w w'" if p: "p \<in> set (snd w)" "\<not> finished p" for p
  proof -
    obtain a ps where w: "w = (a, ps)" by fastforce
    from p obtain i where i: "i < length ps" "ps ! i = p" by (auto simp: w in_set_conv_nth)
    obtain a' p' where "acquireStep None None True a (ps ! i) = Some (a', p')" using unfinished_step p(2) i(2) by blast
    then show ?thesis unfolding w using admission_step.run [OF i(1)] by blast
  qed
  moreover have "\<exists>p \<in> set (snd w). \<not> finished p" if "admission_step w w'" for w'
    using that
  proof cases
    case (run i ps ctxErr waitErr expired a a' p)
    then have "\<not> finished (ps ! i)" by (auto simp: finished_def)
    then show ?thesis using run by auto
  qed
  ultimately show ?thesis by blast
qed

lemma sample_admission: "admission_reachable 1 0 2 (\<lparr>activeCap = 1, waitingCap = 0, active = 1, waiting = 0\<rparr>, [Holding, Rejected Busy])"
proof -
  let ?a = "\<lambda>k. \<lparr>activeCap = 1, waitingCap = 0, active = k, waiting = 0\<rparr>"
  have s: "admission_reachable 1 0 2 (a', ps[i := p])" if "admission_reachable 1 0 2 (a, ps)" "i < length ps"
    "acquireStep None None False a (ps ! i) = Some (a', p)" for a ps i a' p
    using admission_reachable.step [OF that(1) admission_step.run [OF that(2,3)]] .
  have "admission_reachable 1 0 2 (?a 0, [Start, Start])"
    using admission_reachable.start [of 1 0 2] by (simp add: newAdmission_def numeral_2_eq_2)
  then have "admission_reachable 1 0 2 (?a 0, [TryActive, Start])" using s [of "?a 0" "[Start, Start]" 0] by simp
  then have "admission_reachable 1 0 2 (?a 1, [GotActive, Start])" using s [of "?a 0" "[TryActive, Start]" 0] by simp
  then have "admission_reachable 1 0 2 (?a 1, [Holding, Start])" using s [of "?a 1" "[GotActive, Start]" 0] by simp
  then have "admission_reachable 1 0 2 (?a 1, [Holding, TryActive])" using s [of "?a 1" "[Holding, Start]" 1] by simp
  then have "admission_reachable 1 0 2 (?a 1, [Holding, TryWaiting])" using s [of "?a 1" "[Holding, TryActive]" 1] by simp
  then show ?thesis using s [of "?a 1" "[Holding, TryWaiting]" 1] by simp
qed

theorem admission_bounded_witness: "users (\<lambda>p. p = Holding) [Holding, Rejected Busy] \<le> 1"
  using admission_bounded [OF sample_admission] by simp

theorem admission_terminates_witness:
  "\<exists>w'. admission_step (\<lparr>activeCap = 1, waitingCap = 0, active = 1, waiting = 0\<rparr>, [Holding, Rejected Busy]) w'"
  using admission_terminates [OF sample_admission] by (auto simp: finished_def)

end
