(* ===== verification/RepositoryRules.thy ===== *)
theory RepositoryRules
  imports PackWrite RepositoryStore
begin

text \<open>
  The limits, data types and validity rules of \<^verbatim>\<open>internal/repository\<close>: names, branches, references,
  paths and texts (\<^verbatim>\<open>repository.go\<close>, \<^verbatim>\<open>transport.go\<close>, \<^verbatim>\<open>git.go\<close>), and the object manifest with its
  LFS index (\<^verbatim>\<open>packed.go\<close>, \<^verbatim>\<open>cache.go\<close>, \<^verbatim>\<open>lfs_pointer.go\<close>).
\<close>

section \<open>Limits\<close>

definition maxJSONBytes :: nat where "maxJSONBytes = 1048576"
definition maxManifestBytes :: nat where "maxManifestBytes = 67108864"
definition maxObjectBytes :: int where "maxObjectBytes = 1048576"
definition maxTreeEntries :: nat where "maxTreeEntries = 1000"
definition MaxGitBytes :: int where "MaxGitBytes = 1073741824"
definition MaxGitObjectBytes :: int where "MaxGitObjectBytes = 16777216"
definition MaxGitObjects :: nat where "MaxGitObjects = 100000"
definition MaxPackBytes :: int where "MaxPackBytes = MaxGitBytes + 8388608"

lemmas repository_limits = maxObjectBytes_def MaxGitBytes_def MaxGitObjectBytes_def MaxGitObjects_def MaxPackBytes_def

section \<open>Names and texts\<close>

definition lowerHex :: "nat \<Rightarrow> string \<Rightarrow> bool" where
  "lowerHex n s \<longleftrightarrow> length s = n \<and> list_all lower_hex_char s"

definition idPattern :: "string \<Rightarrow> bool" where "idPattern = lowerHex 32"
definition objectIDPattern :: "string \<Rightarrow> bool" where "objectIDPattern = lowerHex 40"
definition digestPattern :: "string \<Rightarrow> bool" where "digestPattern = lowerHex 64"

definition lower_alnum :: "char \<Rightarrow> bool" where
  "lower_alnum c \<longleftrightarrow> is_digit c \<or> 97 \<le> code c \<and> code c \<le> 122"

text \<open>\<^verbatim>\<open>namePattern\<close>: \<open>^[a-z0-9](?:[a-z0-9._-]{0,61}[a-z0-9])?$\<close>.\<close>

definition namePattern :: "string \<Rightarrow> bool" where
  "namePattern s \<longleftrightarrow>
     s \<noteq> [] \<and> length s \<le> 63 \<and> lower_alnum (hd s) \<and> lower_alnum (last s) \<and>
     list_all (\<lambda>c. lower_alnum c \<or> c \<in> set ''._-'') s"

definition ValidName :: "string \<Rightarrow> bool" where
  "ValidName name \<longleftrightarrow>
     namePattern name \<and> \<not> HasSuffix name ''.git'' \<and> \<not> Contains name ''..'' \<and>
     name \<notin> {''auth'', ''settings'', ''members'', ''invitations''}"

definition validText :: "string \<Rightarrow> nat \<Rightarrow> bool" where
  "validText txt limit \<longleftrightarrow> length txt \<le> limit \<and> ValidString txt \<and> \<not> has_control_rune txt"

definition validDescription :: "string \<Rightarrow> bool" where
  "validDescription txt \<longleftrightarrow>
     length txt \<le> 2000 \<and> ValidString txt \<and> length (runes txt) \<le> 500 \<and>
     \<not> list_ex (\<lambda>r. IsControl r \<and> r \<noteq> Some 10 \<and> r \<noteq> Some 13 \<and> r \<noteq> Some 9) (runes txt)"

definition validIdentityPart :: "string \<Rightarrow> bool" where
  "validIdentityPart txt \<longleftrightarrow> txt \<noteq> [] \<and> validText txt 254 \<and> \<not> ContainsAny txt ''<>''"

definition validBranch :: "string \<Rightarrow> bool" where
  "validBranch branch \<longleftrightarrow>
     \<not> (branch = [] \<or> length branch > 128 \<or> \<not> ValidString branch \<or> HasPrefix branch ''-'' \<or>
        ContainsAny branch ('' ~^:?*['' @ [CHR 0x5C]) \<or> Contains branch ''..'' \<or>
        Contains branch [CHR ''@'', CHR 0x7B] \<or> HasSuffix branch ''.'' \<or> has_control_rune branch) \<and>
     list_all (\<lambda>component. \<not> (component = [] \<or> HasPrefix component ''.'' \<or> HasSuffix component ''.lock''))
       (Split CHR ''/'' branch)"

definition ValidRef :: "string \<Rightarrow> bool" where
  "ValidRef ref \<longleftrightarrow>
     (if HasPrefix ref ''refs/heads/'' then validBranch (TrimPrefix ref ''refs/heads/'')
      else HasPrefix ref ''refs/tags/'' \<and> validBranch (TrimPrefix ref ''refs/tags/''))"

definition validPath :: "string \<Rightarrow> bool" where
  "validPath p \<longleftrightarrow>
     p = [] \<or>
     \<not> (length p > 4096 \<or> \<not> ValidString p \<or> Contains p [CHR 0x5C] \<or> has_control_rune p) \<and>
     (let components = Split CHR ''/'' p
      in length components \<le> 32 \<and>
         list_all (\<lambda>component. \<not> (component = [] \<or> component = ''.'' \<or> component = ''..'' \<or>
           map to_lower component = ''.git'' \<or> length component > 255)) components)"

section \<open>Objects and manifests\<close>

text \<open>\<^verbatim>\<open>GitObject\<close> has the fields of \<^verbatim>\<open>gitpack.Object\<close>, and the code converts one into the other field by field.\<close>

type_synonym GitObject = Object

definition GitObjectID :: "GitObject \<Rightarrow> string" where
  "GitObjectID object =
     (let header = bytes_of (ObjectType object) @ bytes_of '' '' @ bytes_of (FormatInt (int (length (ObjectData object)))) @ [0]
      in EncodeToString (Sum1 (header @ ObjectData object)))"

record objectInfo =
  oi_Type :: string
  oi_Size :: int
  oi_SHA256 :: string
  oi_PackKey :: string
  oi_Offset :: int
  oi_Length :: int
  oi_CRC32 :: "32 word"

definition gitObjectInfo :: "GitObject \<Rightarrow> objectInfo" where
  "gitObjectInfo object =
     \<lparr>oi_Type = ObjectType object, oi_Size = int (length (ObjectData object)),
      oi_SHA256 = EncodeToString (Sum256 (objectHeader (ObjectType object) (int (length (ObjectData object))) @ ObjectData object)),
      oi_PackKey = [], oi_Offset = 0, oi_Length = 0, oi_CRC32 = 0\<rparr>"

record LFSObject =
  lfs_OID :: string
  lfs_Size :: int

record lfsIndex =
  lfs_Version :: int
  lfs_Objects :: "(string \<times> int) list option"

record objectManifest =
  mf_Schema :: int
  mf_ObjectFormat :: string
  mf_Objects :: "(string \<times> objectInfo) list option"
  mf_LFS :: "lfsIndex option"

definition ValidLFSOID :: "string \<Rightarrow> bool" where
  "ValidLFSOID = digestPattern"

definition validLFSIndex :: "lfsIndex option \<Rightarrow> bool" where
  "validLFSIndex index =
     (case index of
        None \<Rightarrow> True
      | Some index \<Rightarrow>
          (case lfs_Objects index of
             None \<Rightarrow> False
           | Some objs \<Rightarrow>
               \<not> (lfs_Version index \<noteq> 1 \<or> length objs > MaxGitObjects) \<and>
               list_all (\<lambda>(oid, sz). \<not> (\<not> ValidLFSOID oid \<or> sz < 0)) objs))"

definition validObjectInfo :: "string \<Rightarrow> objectInfo \<Rightarrow> bool" where
  "validObjectInfo ident info \<longleftrightarrow>
     \<not> (\<not> objectIDPattern ident \<or> \<not> digestPattern (oi_SHA256 info) \<or> oi_Size info < 0 \<or> oi_Size info > MaxGitObjectBytes \<or>
        (oi_Type info \<noteq> ''blob'' \<and> oi_Type info \<noteq> ''tree'' \<and> oi_Type info \<noteq> ''commit'' \<and> oi_Type info \<noteq> ''tag'')) \<and>
     (if oi_PackKey info = []
      then oi_Size info \<le> maxObjectBytes \<and> oi_Offset info = 0 \<and> oi_Length info = 0 \<and> oi_CRC32 info = 0
      else (let digest = TrimSuffix (TrimPrefix (oi_PackKey info) ''packs/'') ''.pack''
            in digestPattern digest \<and> oi_PackKey info = ''packs/'' @ digest @ ''.pack'' \<and>
               oi_Offset info \<ge> 12 \<and> oi_Length info > 0 \<and> oi_Length info \<le> MaxGitObjectBytes + 1048576 \<and>
               oi_Offset info \<le> MaxPackBytes - 20 - oi_Length info))"

definition validateManifest :: "ctx \<Rightarrow> objectManifest \<Rightarrow> err option" where
  "validateManifest ctx manifest =
     (case mf_Objects manifest of
        None \<Rightarrow> Some RepoErrCorrupt
      | Some objs \<Rightarrow>
          if mf_Schema manifest \<noteq> 1 \<and> mf_Schema manifest \<noteq> 2 \<or> mf_ObjectFormat manifest \<noteq> ''sha1'' \<or>
             length objs > MaxGitObjects \<or> \<not> validLFSIndex (mf_LFS manifest)
          then Some RepoErrCorrupt
          else if objs = [] then None
          else (case ctx_Err ctx of Some e \<Rightarrow> Some e | None \<Rightarrow>
                if list_all (\<lambda>(ident, info). validObjectInfo ident info \<and> \<not> (mf_Schema manifest = 1 \<and> oi_PackKey info \<noteq> [])) objs
                then None else Some RepoErrCorrupt))"

section \<open>Lemmas\<close>

lemma lowerHex_EncodeToString: "length b = n \<Longrightarrow> lowerHex (2 * n) (EncodeToString b)"
  by (auto simp: lowerHex_def list_all_iff EncodeToString_chars)

lemma GitObjectID_eq: "GitObjectID o1 = objectID (ObjectType o1) (ObjectData o1)"
  by (simp add: GitObjectID_def objectID_def objectHeader_def Let_def bytes_of_def)

lemma gitObjectInfo_simps [simp]:
  "oi_Type (gitObjectInfo o1) = ObjectType o1" "oi_Size (gitObjectInfo o1) = int (length (ObjectData o1))"
  "oi_SHA256 (gitObjectInfo o1) = objectSHA256 (ObjectType o1) (ObjectData o1)" "oi_PackKey (gitObjectInfo o1) = []"
  by (simp_all add: gitObjectInfo_def objectSHA256_def)

end
