(* ===== verification/GitGraph.thy ===== *)
theory GitGraph
  imports RepositoryRules
begin

text \<open>
  The object graph of a repository: \<^verbatim>\<open>gitLinks\<close> of \<^verbatim>\<open>internal/repository/transport.go\<close> and
  \<^verbatim>\<open>walkObjectsIndexed\<close> of \<^verbatim>\<open>packed.go\<close>. A Go map whose iteration order the code
  sees is an association list in an arbitrary order; a slice that is used as a stack is kept with its end first.
\<close>

section \<open>Links of an object\<close>

record objectLink =
  link_id :: string
  link_kind :: string

definition IndexByte :: "bytes \<Rightarrow> byte \<Rightarrow> nat option" where
  "IndexByte b x = (if x \<in> set b then Some (length (takeWhile (\<lambda>y. y \<noteq> x) b)) else None)"

lemma IndexByte_bound: "IndexByte b x = Some n \<Longrightarrow> n < length b"
  by (auto simp: IndexByte_def split: if_splits) (metis (full_types) length_takeWhile_less_P_nth in_set_conv_nth leI length_takeWhile_le
      le_antisym takeWhile_eq_all_conv takeWhile_eq_take take_all_iff)

definition validGitSignature :: "string \<Rightarrow> bool" where
  "validGitSignature v =
     (let (name, rest, ok) = CutString '' <'' v
      in if \<not> ok \<or> \<not> validIdentityPart name then False
         else (let (email, timestamp, ok) = CutString ''> '' rest
               in if \<not> ok \<or> \<not> validText email 254 \<or> ContainsAny email ''<>'' then False
                  else (case Fields timestamp of
                      [secs, zone] \<Rightarrow>
                        (case ParseInt secs of
                           None \<Rightarrow> False
                         | Some seconds \<Rightarrow>
                             \<not> (seconds < - 62135596800 \<or> seconds > 253402300799) \<and>
                             \<not> (length zone \<noteq> 5 \<or> hd zone \<noteq> CHR ''+'' \<and> hd zone \<noteq> CHR ''-'') \<and>
                             list_all is_digit (tl zone))
                    | _ \<Rightarrow> False)))"

definition treeKind :: "string \<Rightarrow> string option" where
  "treeKind mode =
     (if mode = ''40000'' \<or> mode = ''040000'' then Some ''tree''
      else if mode = ''100644'' \<or> mode = ''100755'' \<or> mode = ''120000'' then Some ''blob''
      else if mode = ''160000'' then Some ''gitlink''
      else None)"

function treeLinks :: "bytes \<Rightarrow> string list \<Rightarrow> objectLink list result" where
  "treeLinks d seen =
     (if d = [] then Inr []
      else (case IndexByte d 0 of
        None \<Rightarrow> Inl RepoErrInvalid
      | Some zero \<Rightarrow>
          if length d < zero + 21 \<or> length seen \<ge> maxTreeEntries then Inl RepoErrInvalid
          else (let (mode, name, ok) = Cut CHR '' '' (string_of (take zero d))
            in if \<not> ok \<or> name = [] \<or> \<not> validPath name \<or> Contains name ''/'' \<or> name \<in> set seen then Inl RepoErrInvalid
               else (case treeKind mode of
                   None \<Rightarrow> Inl RepoErrInvalid
                 | Some kind \<Rightarrow>
                     rbind (treeLinks (drop (zero + 21) d) (name # seen)) (\<lambda>links.
                       Inr (if kind \<noteq> ''gitlink''
                            then \<lparr>link_id = EncodeToString (take 20 (drop (zero + 1) d)), link_kind = kind\<rparr> # links
                            else links))))))"
  by pat_completeness auto
termination
  by (relation "measure (\<lambda>(d, _). length d)") auto

declare treeLinks.simps [simp del]

text \<open>The header lines of a commit or tag.\<close>

record headerScan =
  hs_root :: string
  hs_kind :: string
  hs_parents :: nat
  hs_identities :: "string list"
  hs_links :: "objectLink list"

definition headerLine :: "string \<Rightarrow> string \<Rightarrow> headerScan \<Rightarrow> headerScan result" where
  "headerLine objectType line st =
     (let (key, v, hasValue) = Cut CHR '' '' line
      in if \<not> hasValue then Inl RepoErrInvalid else
         rbind (if objectType = ''commit'' \<and> (key = ''author'' \<or> key = ''committer'') then
                  (if key \<in> set (hs_identities st) \<or> \<not> validGitSignature v then Inl RepoErrInvalid
                   else Inr (st\<lparr>hs_identities := key # hs_identities st\<rparr>))
                else Inr st) (\<lambda>st.
         rbind (if objectType = ''commit'' \<and> key = ''tree'' then
                  (if hs_root st \<noteq> [] then Inl RepoErrInvalid else Inr (st\<lparr>hs_root := v, hs_kind := ''tree''\<rparr>))
                else Inr st) (\<lambda>st.
         rbind (if objectType = ''tag'' \<and> key = ''object'' then
                  (if hs_root st \<noteq> [] then Inl RepoErrInvalid else Inr (st\<lparr>hs_root := v\<rparr>))
                else Inr st) (\<lambda>st.
         rbind (if objectType = ''tag'' \<and> key = ''type'' then
                  (if hs_kind st \<noteq> [] then Inl RepoErrInvalid else Inr (st\<lparr>hs_kind := v\<rparr>))
                else Inr st) (\<lambda>st.
         if objectType = ''commit'' \<and> key = ''parent'' then
           (if \<not> objectIDPattern v \<or> hs_parents st \<ge> 64 then Inl RepoErrInvalid
            else Inr (st\<lparr>hs_links := hs_links st @ [\<lparr>link_id = v, link_kind = ''commit''\<rparr>], hs_parents := hs_parents st + 1\<rparr>))
         else Inr st)))))"

fun headerLines :: "string \<Rightarrow> string list \<Rightarrow> headerScan \<Rightarrow> headerScan result" where
  "headerLines objectType [] st = Inr st"
| "headerLines objectType (line # rest) st = rbind (headerLine objectType line st) (headerLines objectType rest)"

definition newline :: char where "newline = CHR 0x0A"

definition gitLinks :: "GitObject \<Rightarrow> objectLink list result" where
  "gitLinks object =
     (if ObjectType object = ''blob'' then Inr []
      else if ObjectType object = ''tree'' then treeLinks (ObjectData object) []
      else if ObjectType object = ''commit'' \<or> ObjectType object = ''tag'' then
        (let (header, _, ok) = CutString [newline, newline] (string_of (ObjectData object))
         in if \<not> ok \<or> Contains header [CHR 0x00] \<or> \<not> ValidString (string_of (ObjectData object)) then Inl RepoErrInvalid
            else rbind (headerLines (ObjectType object) (Split newline header)
                   \<lparr>hs_root = [], hs_kind = [], hs_parents = 0, hs_identities = [], hs_links = []\<rparr>) (\<lambda>st.
              if \<not> objectIDPattern (hs_root st) \<or>
                 hs_kind st \<noteq> ''commit'' \<and> hs_kind st \<noteq> ''tree'' \<and> hs_kind st \<noteq> ''blob'' \<and> hs_kind st \<noteq> ''tag''
              then Inl RepoErrInvalid
              else if ObjectType object = ''commit'' \<and>
                      (''author'' \<notin> set (hs_identities st) \<or> ''committer'' \<notin> set (hs_identities st))
              then Inl RepoErrInvalid
              else Inr (hs_links st @ [\<lparr>link_id = hs_root st, link_kind = hs_kind st\<rparr>])))
      else Inl RepoErrInvalid)"

section \<open>The bounded walk\<close>

type_synonym 'r gitGetter = "ctx \<Rightarrow> string \<Rightarrow> 'r \<Rightarrow> GitObject result \<times> 'r"
type_synonym infos = "(string \<times> objectInfo) list"
type_synonym refs = "(string \<times> string) list"

definition refLink :: "string \<times> string \<Rightarrow> objectLink" where
  "refLink = (\<lambda>(ref, ident). \<lparr>link_id = ident, link_kind = (if HasPrefix ref ''refs/heads/'' then ''commit'' else [])\<rparr>)"

definition enqueue :: "infos \<Rightarrow> objectLink \<Rightarrow> objectLink list \<times> string list \<Rightarrow> (objectLink list \<times> string list) result" where
  "enqueue infos link = (\<lambda>(queue, scheduled).
     (case map_of infos (link_id link) of
        None \<Rightarrow> Inl RepoErrInvalid
      | Some info \<Rightarrow>
          if link_kind link \<noteq> [] \<and> oi_Type info \<noteq> link_kind link then Inl RepoErrInvalid
          else if link_id link \<in> set scheduled then Inr (queue, scheduled)
          else if length scheduled \<ge> MaxGitObjects then Inl RepoErrLimit
          else Inr (link # queue, link_id link # scheduled)))"

fun enqueueAll :: "infos \<Rightarrow> objectLink list \<Rightarrow> objectLink list \<times> string list \<Rightarrow> (objectLink list \<times> string list) result" where
  "enqueueAll infos [] st = Inr st"
| "enqueueAll infos (link # links) st = rbind (enqueue infos link st) (enqueueAll infos links)"

definition pending :: "infos \<Rightarrow> objectLink list \<times> string list \<Rightarrow> nat" where
  "pending infos st = length (fst st) + card (fst ` set infos - set (snd st))"

lemma enqueue_pending: "enqueue infos link st = Inr st' \<Longrightarrow> pending infos st' = pending infos st"
proof -
  assume a: "enqueue infos link st = Inr st'"
  obtain queue scheduled where st: "st = (queue, scheduled)" by (cases st)
  obtain info where i: "map_of infos (link_id link) = Some info" using a by (auto simp: enqueue_def st split: option.splits)
  show ?thesis
  proof (cases "link_id link \<in> set scheduled")
    case True
    then show ?thesis using a i by (auto simp: enqueue_def st split: if_splits)
  next
    case False
    have "link_id link \<in> fst ` set infos - set scheduled" using i False by (force dest: map_of_SomeD)
    then have "Suc (card (fst ` set infos - insert (link_id link) (set scheduled))) = card (fst ` set infos - set scheduled)"
      using card_Suc_Diff1 [of "fst ` set infos - set scheduled" "link_id link"]
        Diff_insert [of "fst ` set infos" "link_id link" "set scheduled"] by simp
    then show ?thesis using a i False by (auto simp: enqueue_def st pending_def split: if_splits)
  qed
qed

lemma enqueueAll_pending: "enqueueAll infos links st = Inr st' \<Longrightarrow> pending infos st' = pending infos st"
proof (induction links arbitrary: st)
  case (Cons link links)
  then obtain st1 where "enqueue infos link st = Inr st1" "enqueueAll infos links st1 = Inr st'" by (auto simp: rbind_Inr)
  then show ?case using Cons.IH enqueue_pending by metis
qed simp

function walkLoop :: "ctx \<Rightarrow> infos \<Rightarrow> 'r gitGetter \<Rightarrow> (string \<Rightarrow> objectLink list \<Rightarrow> 'g \<Rightarrow> 'g)
    \<Rightarrow> objectLink list \<times> string list \<Rightarrow> infos \<Rightarrow> int \<Rightarrow> 'r \<Rightarrow> 'g \<Rightarrow> infos result \<times> 'r \<times> 'g" where
  "walkLoop ctx infos get note (queue, scheduled) result tot r g =
     (case queue of
        [] \<Rightarrow> (Inr result, r, g)
      | link # queue \<Rightarrow>
     (case ctx_Err ctx of Some e \<Rightarrow> (Inl e, r, g) | None \<Rightarrow>
     (case map_of infos (link_id link) of
        None \<Rightarrow> (Inl RepoErrInvalid, r, g)
      | Some info \<Rightarrow>
          if link_kind link \<noteq> [] \<and> oi_Type info \<noteq> link_kind link then (Inl RepoErrInvalid, r, g)
          else if map_of result (link_id link) \<noteq> None then walkLoop ctx infos get note (queue, scheduled) result tot r g
          else if oi_Size info < 0 \<or> oi_Size info > MaxGitObjectBytes \<or> \<not> objectIDPattern (link_id link)
            then (Inl RepoErrInvalid, r, g)
          else (let tot = int64 (tot + oi_Size info)
            in if tot > MaxGitBytes \<or> length result \<ge> MaxGitObjects then (Inl RepoErrLimit, r, g)
               else (let result = al_put (link_id link) info result
                 in if oi_Type info = ''blob'' then walkLoop ctx infos get note (queue, scheduled) result tot r g
                    else (case get ctx (link_id link) r of
                        (Inl e, r) \<Rightarrow> (Inl e, r, g)
                      | (Inr object, r) \<Rightarrow>
                          if GitObjectID object \<noteq> link_id link \<or> ObjectType object \<noteq> oi_Type info \<or>
                             oi_SHA256 (gitObjectInfo object) \<noteq> oi_SHA256 info then (Inl RepoErrCorrupt, r, g)
                          else (case gitLinks object of
                              Inl e \<Rightarrow> (Inl e, r, g)
                            | Inr links \<Rightarrow>
                                (let g = note (link_id link) links g
                                 in case enqueueAll infos links (queue, scheduled) of
                                      Inl e \<Rightarrow> (Inl e, r, g)
                                    | Inr st \<Rightarrow> walkLoop ctx infos get note st result tot r g))))))))"
  by pat_completeness auto
termination
  by (relation "measure (\<lambda>(ctx, infos, get, note, st, _). pending infos st)")
    (simp_all add: pending_def enqueueAll_pending [unfolded pending_def])

declare walkLoop.simps [simp del]

definition walkObjectsIndexed :: "ctx \<Rightarrow> refs \<Rightarrow> infos \<Rightarrow> 'r gitGetter \<Rightarrow> (string \<Rightarrow> objectLink list \<Rightarrow> 'g \<Rightarrow> 'g) \<Rightarrow> 'r \<Rightarrow> 'g
    \<Rightarrow> infos result \<times> 'r \<times> 'g" where
  "walkObjectsIndexed ctx refs infos get note r g =
     (case enqueueAll infos (map refLink refs) ([], []) of
        Inl e \<Rightarrow> (Inl e, r, g)
      | Inr st \<Rightarrow> walkLoop ctx infos get note st [] 0 r g)"

definition walkObjects :: "ctx \<Rightarrow> refs \<Rightarrow> infos \<Rightarrow> 'r gitGetter \<Rightarrow> 'r \<Rightarrow> infos result \<times> 'r" where
  "walkObjects ctx refs infos get r =
     (case walkObjectsIndexed ctx refs infos get (\<lambda>_ _ u. u) r () of (res, r, _) \<Rightarrow> (res, r))"

section \<open>Connectivity\<close>

text \<open>The graph that the manifest and the stored objects describe, independently of any walk.\<close>

definition nodeLinks :: "infos \<Rightarrow> (string \<Rightarrow> GitObject option) \<Rightarrow> string \<Rightarrow> objectLink list" where
  "nodeLinks infos content ident =
     (case map_of infos ident of
        None \<Rightarrow> []
      | Some info \<Rightarrow>
          if oi_Type info = ''blob'' then []
          else (case content ident of None \<Rightarrow> [] | Some object \<Rightarrow>
                (case gitLinks object of Inl _ \<Rightarrow> [] | Inr links \<Rightarrow> links)))"

definition linkOk :: "infos \<Rightarrow> objectLink \<Rightarrow> bool" where
  "linkOk infos link \<longleftrightarrow>
     (\<exists>info. map_of infos (link_id link) = Some info \<and> (link_kind link = [] \<or> oi_Type info = link_kind link))"

definition nodeOk :: "infos \<Rightarrow> (string \<Rightarrow> GitObject option) \<Rightarrow> string \<Rightarrow> bool" where
  "nodeOk infos content ident \<longleftrightarrow>
     (\<exists>info. map_of infos ident = Some info \<and> 0 \<le> oi_Size info \<and> oi_Size info \<le> MaxGitObjectBytes \<and> objectIDPattern ident \<and>
        (oi_Type info = ''blob'' \<or>
         (\<exists>object links. content ident = Some object \<and> GitObjectID object = ident \<and> ObjectType object = oi_Type info \<and>
            oi_SHA256 (gitObjectInfo object) = oi_SHA256 info \<and> gitLinks object = Inr links)))"

inductive reachable :: "infos \<Rightarrow> (string \<Rightarrow> GitObject option) \<Rightarrow> refs \<Rightarrow> string \<Rightarrow> bool" for infos content refs where
  ref: "p \<in> set refs \<Longrightarrow> reachable infos content refs (snd p)"
| link: "reachable infos content refs ident \<Longrightarrow> l \<in> set (nodeLinks infos content ident) \<Longrightarrow>
    reachable infos content refs (link_id l)"

definition sizeIn :: "infos \<Rightarrow> string \<Rightarrow> int" where
  "sizeIn infos ident = (case map_of infos ident of None \<Rightarrow> 0 | Some info \<Rightarrow> oi_Size info)"

definition connected :: "infos \<Rightarrow> (string \<Rightarrow> GitObject option) \<Rightarrow> refs \<Rightarrow> bool" where
  "connected infos content refs \<longleftrightarrow>
     (\<forall>p \<in> set refs. linkOk infos (refLink p)) \<and>
     (\<forall>ident. reachable infos content refs ident \<longrightarrow>
        nodeOk infos content ident \<and> (\<forall>l \<in> set (nodeLinks infos content ident). linkOk infos l)) \<and>
     card {ident. reachable infos content refs ident} \<le> MaxGitObjects \<and>
     (\<Sum>ident | reachable infos content refs ident. sizeIn infos ident) \<le> MaxGitBytes"

section \<open>Scheduling\<close>

lemma enqueue_Inr:
  "enqueue infos l (q, s) = Inr (q', s') \<longleftrightarrow>
     linkOk infos l \<and>
     (if link_id l \<in> set s then q' = q \<and> s' = s
      else length s < MaxGitObjects \<and> q' = l # q \<and> s' = link_id l # s)"
  by (auto simp: enqueue_def linkOk_def split: option.splits)

lemma enqueueAll_sound:
  assumes "enqueueAll infos links (q, s) = Inr (q', s')" and "length s \<le> MaxGitObjects"
  shows "(\<forall>l \<in> set links. linkOk infos l) \<and> length s' \<le> MaxGitObjects \<and> link_id ` set links \<subseteq> set s' \<and>
    (\<exists>new. q' = new @ q \<and> s' = map link_id new @ s \<and> set new \<subseteq> set links \<and> distinct (map link_id new) \<and>
       link_id ` set new \<inter> set s = {})"
  using assms
proof (induction links arbitrary: q s)
  case (Cons l links)
  obtain q1 s1 where e: "enqueue infos l (q, s) = Inr (q1, s1)" "enqueueAll infos links (q1, s1) = Inr (q', s')"
    using Cons.prems(1) by (auto simp: rbind_Inr)
  have len: "length s1 \<le> MaxGitObjects" using e(1) Cons.prems(2) by (auto simp: enqueue_Inr split: if_splits)
  obtain new where new: "\<forall>l \<in> set links. linkOk infos l" "length s' \<le> MaxGitObjects" "link_id ` set links \<subseteq> set s'"
    "q' = new @ q1" "s' = map link_id new @ s1" "set new \<subseteq> set links" "distinct (map link_id new)" "link_id ` set new \<inter> set s1 = {}"
    using Cons.IH [OF e(2) len] by blast
  have ok: "linkOk infos l" using e(1) by (auto simp: enqueue_Inr)
  show ?case
  proof (cases "link_id l \<in> set s")
    case True
    then have "q1 = q" "s1 = s" using e(1) by (auto simp: enqueue_Inr)
    with new ok True show ?thesis by (intro conjI exI [of _ new]) auto
  next
    case False
    then have "q1 = l # q" "s1 = link_id l # s" using e(1) by (auto simp: enqueue_Inr)
    with new ok False show ?thesis by (intro conjI exI [of _ "new @ [l]"]) auto
  qed
qed auto

lemma enqueueAll_complete:
  assumes "\<forall>l \<in> set links. linkOk infos l" and "distinct s" and "card (set s \<union> link_id ` set links) \<le> MaxGitObjects"
  shows "\<exists>st. enqueueAll infos links (q, s) = Inr st"
  using assms
proof (induction links arbitrary: q s)
  case (Cons l links)
  show ?case
  proof (cases "link_id l \<in> set s")
    case True
    then have "enqueue infos l (q, s) = Inr (q, s)" using Cons.prems by (simp add: enqueue_Inr)
    moreover have "card (set s \<union> link_id ` set links) \<le> MaxGitObjects" using Cons.prems(3) True by (simp add: insert_absorb)
    ultimately show ?thesis using Cons.IH Cons.prems by (simp add: rbind_def)
  next
    case False
    have "Suc (length s) = card (insert (link_id l) (set s))" using False Cons.prems(2) by (simp add: distinct_card)
    also have "\<dots> \<le> card (set s \<union> link_id ` set (l # links))" by (intro card_mono) auto
    finally have "enqueue infos l (q, s) = Inr (l # q, link_id l # s)" using False Cons.prems by (simp add: enqueue_Inr)
    moreover have "card (set (link_id l # s) \<union> link_id ` set links) \<le> MaxGitObjects" using Cons.prems(3) by simp
    ultimately show ?thesis using Cons.IH [of "link_id l # s" "l # q"] Cons.prems False by (simp add: rbind_def)
  qed
qed simp

section \<open>The invariant of the walk\<close>

definition walk_ok :: "infos \<Rightarrow> (string \<Rightarrow> GitObject option) \<Rightarrow> refs \<Rightarrow> objectLink list \<times> string list \<Rightarrow> infos \<Rightarrow> int \<Rightarrow> bool" where
  "walk_ok infos content refs = (\<lambda>(queue, scheduled) result tot.
     distinct scheduled \<and> length scheduled \<le> MaxGitObjects \<and> set scheduled = fst ` set result \<union> link_id ` set queue \<and>
     distinct (map fst result @ map link_id queue) \<and> (\<forall>l \<in> set queue. linkOk infos l) \<and>
     (\<forall>ident \<in> set scheduled. reachable infos content refs ident) \<and>
     (\<forall>p \<in> set refs. linkOk infos (refLink p) \<and> snd p \<in> set scheduled) \<and>
     (\<forall>(ident, info) \<in> set result. map_of infos ident = Some info \<and> nodeOk infos content ident \<and>
        (\<forall>l \<in> set (nodeLinks infos content ident). linkOk infos l \<and> link_id l \<in> set scheduled)) \<and>
     tot = sum_list (map (\<lambda>p. oi_Size (snd p)) result) \<and> 0 \<le> tot \<and> tot \<le> MaxGitBytes)"

lemma walk_ok_visit:
  assumes "walk_ok infos content refs (link # q, s) result tot" and "map_of infos (link_id link) = Some info"
    and "nodeOk infos content (link_id link)" and "enqueueAll infos (nodeLinks infos content (link_id link)) (q, s) = Inr st"
    and "tot + oi_Size info \<le> MaxGitBytes"
  shows "walk_ok infos content refs st (result @ [(link_id link, info)]) (tot + oi_Size info)"
proof -
  obtain q' s' where st: "st = (q', s')" by (cases st)
  note w = assms(1) [unfolded walk_ok_def prod.case]
  have len: "length s \<le> MaxGitObjects" using w by blast
  obtain new where new: "\<forall>l \<in> set (nodeLinks infos content (link_id link)). linkOk infos l" "length s' \<le> MaxGitObjects"
    "link_id ` set (nodeLinks infos content (link_id link)) \<subseteq> set s'"
    "q' = new @ q" "s' = map link_id new @ s" "set new \<subseteq> set (nodeLinks infos content (link_id link))"
    "distinct (map link_id new)" "link_id ` set new \<inter> set s = {}"
    using enqueueAll_sound [OF assms(4) [unfolded st] len] by blast
  have sched: "set s = fst ` set result \<union> link_id ` set (link # q)" and dist: "distinct s" "distinct (map fst result @ map link_id (link # q))"
    using w by blast+
  have "0 \<le> oi_Size info" using assms(2,3) by (auto simp: nodeOk_def)
  moreover have "reachable infos content refs (link_id link)" using w by auto
  then have "\<forall>l \<in> set new. reachable infos content refs (link_id l)" using new(6) by (auto intro: reachable.link)
  then have "\<forall>ident \<in> set s'. reachable infos content refs ident" using w new(5) by auto
  moreover have "distinct s'" "set s' = fst ` set (result @ [(link_id link, info)]) \<union> link_id ` set q'"
    using new(4,5,7,8) sched dist(1) by auto
  moreover have "link_id ` set new \<inter> (fst ` set result \<union> link_id ` set (link # q)) = {}" using new(8) sched by simp
  then have "distinct (map fst (result @ [(link_id link, info)]) @ map link_id q')"
    using new(4,7) dist(2) by auto
  moreover have "\<forall>l \<in> set q'. linkOk infos l" using w new(1,4,6) by auto
  moreover have "\<forall>p \<in> set refs. linkOk infos (refLink p) \<and> snd p \<in> set s'" using w new(5) by auto
  moreover have "\<forall>(ident, info) \<in> set (result @ [(link_id link, info)]). map_of infos ident = Some info \<and> nodeOk infos content ident \<and>
        (\<forall>l \<in> set (nodeLinks infos content ident). linkOk infos l \<and> link_id l \<in> set s')"
  proof -
    have sub: "set s \<subseteq> set s'" using new(5) by simp
    have "\<forall>(ident, info) \<in> set result. map_of infos ident = Some info \<and> nodeOk infos content ident \<and>
        (\<forall>l \<in> set (nodeLinks infos content ident). linkOk infos l \<and> link_id l \<in> set s)" using w by blast
    with sub have "\<forall>(ident, info) \<in> set result. map_of infos ident = Some info \<and> nodeOk infos content ident \<and>
        (\<forall>l \<in> set (nodeLinks infos content ident). linkOk infos l \<and> link_id l \<in> set s')" by blast
    then show ?thesis using new(1,3) assms(2,3) unfolding set_append list.set by blast
  qed
  moreover have "tot + oi_Size info = sum_list (map (\<lambda>p. oi_Size (snd p)) (result @ [(link_id link, info)]))" "0 \<le> tot"
    using w by simp_all
  ultimately show ?thesis using new(2) assms(5) unfolding st walk_ok_def prod.case by simp
qed

lemma walk_ok_start:
  assumes "enqueueAll infos (map refLink refs) ([], []) = Inr st"
  shows "walk_ok infos content refs st [] 0"
proof -
  obtain q s where st: "st = (q, s)" by (cases st)
  obtain new where new: "\<forall>p \<in> set refs. linkOk infos (refLink p)" "length s \<le> MaxGitObjects"
    "link_id ` refLink ` set refs \<subseteq> set s" "q = new" "s = map link_id new" "set new \<subseteq> refLink ` set refs" "distinct (map link_id new)"
    using enqueueAll_sound [OF assms [unfolded st]] by auto
  have lid: "link_id (refLink p) = snd p" for p by (auto simp: refLink_def split: prod.splits)
  have ids: "\<forall>p \<in> set refs. snd p \<in> set s"
  proof
    fix p assume "p \<in> set refs"
    then have "link_id (refLink p) \<in> set s" using new(3) by blast
    then show "snd p \<in> set s" unfolding lid .
  qed
  have "ident \<in> snd ` set refs" if sched: "ident \<in> set s" for ident
  proof -
    obtain l where "l \<in> set new" "ident = link_id l" using sched new(5) by auto
    then obtain p where "p \<in> set refs" "l = refLink p" using new(6) by blast
    then show ?thesis using lid \<open>ident = link_id l\<close> by simp
  qed
  then have "\<forall>ident \<in> set s. reachable infos content refs ident" by (auto intro: reachable.ref)
  moreover have "\<forall>l \<in> set q. linkOk infos l" using new(1,4,6) by auto
  ultimately show ?thesis using new ids unfolding st walk_ok_def by (simp add: MaxGitBytes_def)
qed

lemma walk_ok_total:
  assumes "walk_ok infos content refs (q, s) result tot"
  shows "tot = sum (sizeIn infos) (fst ` set result)"
proof -
  note w = assms [unfolded walk_ok_def prod.case]
  have "sizeIn infos (fst p) = oi_Size (snd p)" if "p \<in> set result" for p
    using w that by (cases p) (auto simp: sizeIn_def)
  then have "sum_list (map (\<lambda>p. oi_Size (snd p)) result) = sum_list (map (sizeIn infos) (map fst result))"
    by (simp add: comp_def cong: map_cong)
  also have "\<dots> = sum (sizeIn infos) (set (map fst result))"
    using w by (intro sum_list_distinct_conv_sum_set) simp
  finally show ?thesis using w by simp
qed

lemma nodeOk_info:
  "nodeOk infos content ident \<Longrightarrow> \<exists>info. map_of infos ident = Some info \<and> 0 \<le> oi_Size info"
  by (auto simp: nodeOk_def)

lemma connected_node:
  "connected infos content refs \<Longrightarrow> reachable infos content refs ident \<Longrightarrow>
     nodeOk infos content ident \<and> (\<forall>l \<in> set (nodeLinks infos content ident). linkOk infos l)"
  by (simp add: connected_def)

lemma connected_finite:
  assumes "connected infos content refs"
  shows "finite {ident. reachable infos content refs ident}"
proof (rule finite_subset)
  show "{ident. reachable infos content refs ident} \<subseteq> fst ` set infos"
  proof
    fix ident assume "ident \<in> {ident. reachable infos content refs ident}"
    then obtain info where "map_of infos ident = Some info" using connected_node [OF assms] nodeOk_info by blast
    then show "ident \<in> fst ` set infos" by (force dest: map_of_SomeD)
  qed
qed simp

lemma walk_ok_end:
  assumes "walk_ok infos content refs ([], s) result tot" and "al_wf infos"
  shows "connected infos content refs \<and> al_wf result \<and> fst ` set result = {ident. reachable infos content refs ident} \<and>
    (\<forall>ident info. map_of result ident = Some info \<longrightarrow> map_of infos ident = Some info)"
proof -
  note w = assms(1) [unfolded walk_ok_def prod.case]
  have sched: "set s = fst ` set result" "distinct s" "length s \<le> MaxGitObjects" and wf: "al_wf result"
    using w by (auto simp: al_wf_def)
  have reach: "ident \<in> set s" if "reachable infos content refs ident" for ident
    using that
  proof (induction rule: reachable.induct)
    case (link ident l)
    then show ?case using w sched(1) by fastforce
  qed (use w in blast)
  have keys: "set s = {ident. reachable infos content refs ident}" using reach w by blast
  have nodes: "\<forall>ident info. map_of result ident = Some info \<longrightarrow> map_of infos ident = Some info"
    using w by (fastforce dest: map_of_SomeD)
  have "nodeOk infos content ident \<and> (\<forall>l \<in> set (nodeLinks infos content ident). linkOk infos l)"
    if "reachable infos content refs ident" for ident
    using reach [OF that] w unfolding sched(1) by fastforce
  moreover have "card (set s) \<le> MaxGitObjects" using sched(2,3) by (simp add: distinct_card)
  moreover have "(\<Sum>ident | reachable infos content refs ident. sizeIn infos ident) \<le> MaxGitBytes"
    using walk_ok_total [OF assms(1)] w sched(1) keys by simp
  ultimately show ?thesis using w wf keys sched(1) nodes unfolding connected_def by simp
qed

lemma walkLoop_Nil: "walkLoop ctx infos get note ([], s) result tot r g = (Inr result, r, g)"
  by (subst walkLoop.simps) simp

lemma walkLoop_Cons:
  assumes "walk_ok infos content refs (link # q, s) result tot" and "map_of infos (link_id link) = Some info"
  shows "walkLoop ctx infos get note (link # q, s) result tot r g =
    (case ctx_Err ctx of Some e \<Rightarrow> (Inl e, r, g) | None \<Rightarrow>
     if oi_Size info < 0 \<or> oi_Size info > MaxGitObjectBytes \<or> \<not> objectIDPattern (link_id link) then (Inl RepoErrInvalid, r, g)
     else if tot + oi_Size info > MaxGitBytes then (Inl RepoErrLimit, r, g)
     else if oi_Type info = ''blob''
       then walkLoop ctx infos get note (q, s) (result @ [(link_id link, info)]) (tot + oi_Size info) r g
     else (case get ctx (link_id link) r of
         (Inl e, r) \<Rightarrow> (Inl e, r, g)
       | (Inr object, r) \<Rightarrow>
           if GitObjectID object \<noteq> link_id link \<or> ObjectType object \<noteq> oi_Type info \<or>
              oi_SHA256 (gitObjectInfo object) \<noteq> oi_SHA256 info then (Inl RepoErrCorrupt, r, g)
           else (case gitLinks object of
               Inl e \<Rightarrow> (Inl e, r, g)
             | Inr links \<Rightarrow>
                 (case enqueueAll infos links (q, s) of
                    Inl e \<Rightarrow> (Inl e, r, note (link_id link) links g)
                  | Inr st \<Rightarrow> walkLoop ctx infos get note st (result @ [(link_id link, info)]) (tot + oi_Size info) r
                      (note (link_id link) links g)))))"
proof -
  note w = assms(1) [unfolded walk_ok_def prod.case]
  have "linkOk infos link" using w by simp
  then have kind: "\<not> (link_kind link \<noteq> [] \<and> oi_Type info \<noteq> link_kind link)" using assms(2) by (auto simp: linkOk_def)
  have "link_id link \<notin> fst ` set result" using w by auto
  then have new: "map_of result (link_id link) = None" by (simp add: map_of_eq_None_iff)
  have d: "distinct s" "length s \<le> MaxGitObjects" "set s = set (map fst result @ map link_id (link # q))"
    and dq: "distinct (map fst result @ map link_id (link # q))" using w by auto
  have "length (map fst result @ map link_id (link # q)) = length s"
    by (simp only: distinct_card [OF dq, symmetric] d(3) [symmetric] distinct_card [OF d(1)])
  then have len: "\<not> length result \<ge> MaxGitObjects" using d(2) by simp
  have tot: "0 \<le> tot" "tot \<le> MaxGitBytes" using w by blast+
  show ?thesis
  proof (cases "oi_Size info < 0 \<or> oi_Size info > MaxGitObjectBytes \<or> \<not> objectIDPattern (link_id link)")
    case True
    then show ?thesis using kind new by (subst walkLoop.simps) (simp add: assms(2) split: option.splits)
  next
    case False
    then have sum: "int64 (tot + oi_Size info) = tot + oi_Size info"
      using tot by (intro int64_id) (simp add: is_int64_def MaxInt64_def repository_limits)
    show ?thesis
      using kind new len False
      by (subst walkLoop.simps, unfold Let_def list.case assms(2) option.case if_not_P [OF kind] al_put_new [OF new] sum) (simp split: option.splits)
  qed
qed

definition visit :: "infos \<Rightarrow> (string \<Rightarrow> GitObject option) \<Rightarrow> (string \<Rightarrow> objectLink list \<Rightarrow> 'g \<Rightarrow> 'g) \<Rightarrow> string \<times> objectInfo \<Rightarrow> 'g \<Rightarrow> 'g" where
  "visit infos content note p g =
     (if oi_Type (snd p) = ''blob'' then g else note (fst p) (nodeLinks infos content (fst p)) g)"

text \<open>
  What the walk relies on from its getter: it keeps its own state in order, never returns anything but
  the object it stands for, and returns that object when the context is not done.
\<close>

locale object_source =
  fixes get :: "'r gitGetter" and ready :: "'r \<Rightarrow> bool" and content :: "string \<Rightarrow> GitObject option"
  assumes get_ready: "ready r \<Longrightarrow> get ctx ident r = (res, r') \<Longrightarrow> ready r'"
    and get_content: "ready r \<Longrightarrow> get ctx ident r = (Inr object, r') \<Longrightarrow> content ident = Some object"
    and get_succeeds: "ready r \<Longrightarrow> content ident = Some object \<Longrightarrow> \<exists>r'. get Background ident r = (Inr object, r')"
begin

lemma walkLoop_sound:
  assumes "walkLoop ctx infos get note st result tot r g = (Inr result', r', g')"
    and "walk_ok infos content refs st result tot" and "ready r"
  shows "ready r' \<and> (\<exists>s tot' new. walk_ok infos content refs ([], s) result' tot' \<and> result' = result @ new \<and>
    g' = fold (visit infos content note) new g)"
  using assms
proof (induction "pending infos st" arbitrary: st result tot r g rule: less_induct)
  case less
  obtain q0 s where st: "st = (q0, s)" by (cases st)
  show ?case
  proof (cases q0)
    case Nil
    then show ?thesis using less.prems unfolding st by (auto simp: walkLoop_Nil)
  next
    case (Cons link q)
    note w = less.prems(2) [unfolded st Cons]
    have "linkOk infos link" using w by (simp add: walk_ok_def)
    then obtain info where info: "map_of infos (link_id link) = Some info" by (auto simp: linkOk_def)
    note eq = less.prems(1) [unfolded st Cons walkLoop_Cons [OF w info]]
    have size: "0 \<le> oi_Size info" "oi_Size info \<le> MaxGitObjectBytes" "objectIDPattern (link_id link)"
      "tot + oi_Size info \<le> MaxGitBytes" and ctx: "ctx_Err ctx = None" using eq by (auto split: option.splits if_splits)
    have pend: "enqueueAll infos links (q, s) = Inr st' \<Longrightarrow> pending infos st' < pending infos st" for links st'
      using enqueueAll_pending [of infos links "(q, s)" st'] by (simp add: st Cons pending_def)
    show ?thesis
    proof (cases "oi_Type info = ''blob''")
      case True
      have ok: "nodeOk infos content (link_id link)" "nodeLinks infos content (link_id link) = []"
        using info size True by (auto simp: nodeOk_def nodeLinks_def)
      have w': "walk_ok infos content refs (q, s) (result @ [(link_id link, info)]) (tot + oi_Size info)"
        using walk_ok_visit [OF w info ok(1) _ size(4)] ok(2) by simp
      have eq': "walkLoop ctx infos get note (q, s) (result @ [(link_id link, info)]) (tot + oi_Size info) r g = (Inr result', r', g')"
        using eq size True ctx by simp
      obtain s' tot' new where "ready r'" "walk_ok infos content refs ([], s') result' tot'"
        "result' = (result @ [(link_id link, info)]) @ new" "g' = fold (visit infos content note) new g"
        using less.hyps [OF pend [of "[]"] eq' w' less.prems(3)] by auto
      then show ?thesis using True
        by (intro conjI exI [of _ s'] exI [of _ tot'] exI [of _ "(link_id link, info) # new"]) (simp_all add: visit_def)
    next
      case False
      obtain object r1 where got: "get ctx (link_id link) r = (Inr object, r1)"
        using eq size False ctx by (auto split: prod.splits sum.splits)
      have obj: "GitObjectID object = link_id link" "ObjectType object = oi_Type info" "oi_SHA256 (gitObjectInfo object) = oi_SHA256 info"
        using eq size False ctx got by (auto split: if_splits)
      obtain links where links: "gitLinks object = Inr links" using eq size False ctx got obj by (auto split: sum.splits)
      obtain st' where st': "enqueueAll infos links (q, s) = Inr st'" using eq size False ctx got obj links by (auto split: sum.splits)
      have cont: "content (link_id link) = Some object" "ready r1" using get_content get_ready less.prems(3) got by blast+
      have ok: "nodeOk infos content (link_id link)" "nodeLinks infos content (link_id link) = links"
        using info size False cont obj links by (auto simp: nodeOk_def nodeLinks_def)
      have w': "walk_ok infos content refs st' (result @ [(link_id link, info)]) (tot + oi_Size info)"
        using walk_ok_visit [OF w info ok(1) _ size(4)] ok(2) st' by simp
      have eq': "walkLoop ctx infos get note st' (result @ [(link_id link, info)]) (tot + oi_Size info) r1 (note (link_id link) links g) =
          (Inr result', r', g')"
        using eq size False ctx got obj links st' by simp
      obtain s' tot' new where "ready r'" "walk_ok infos content refs ([], s') result' tot'"
        "result' = (result @ [(link_id link, info)]) @ new"
        "g' = fold (visit infos content note) new (note (link_id link) links g)"
        using less.hyps [OF pend [OF st'] eq' w' cont(2)] by auto
      then show ?thesis using False ok(2)
        by (intro conjI exI [of _ s'] exI [of _ tot'] exI [of _ "(link_id link, info) # new"]) (simp_all add: visit_def)
    qed
  qed
qed

lemma walkLoop_complete:
  assumes "walk_ok infos content refs st result tot" and "ready r" and "connected infos content refs" and "al_wf infos"
  shows "\<exists>result' r' g'. walkLoop Background infos get note st result tot r g = (Inr result', r', g')"
  using assms
proof (induction "pending infos st" arbitrary: st result tot r g rule: less_induct)
  case less
  obtain q0 s where st: "st = (q0, s)" by (cases st)
  show ?case
  proof (cases q0)
    case Nil
    then show ?thesis unfolding st by (simp add: walkLoop_Nil)
  next
    case (Cons link q)
    note w = less.prems(1) [unfolded st Cons]
    note wu = w [unfolded walk_ok_def prod.case]
    let ?R = "{ident. reachable infos content refs ident}"
    have reach: "reachable infos content refs (link_id link)" "\<forall>ident \<in> fst ` set result. reachable infos content refs ident"
      using wu by auto
    have node: "nodeOk infos content (link_id link)" "\<forall>l \<in> set (nodeLinks infos content (link_id link)). linkOk infos l"
      using less.prems(3) reach(1) unfolding connected_def by blast+
    then obtain info where info: "map_of infos (link_id link) = Some info" by (auto simp: nodeOk_def)
    have fin: "finite ?R" using connected_finite [OF less.prems(3)] .
    have pos: "0 \<le> sizeIn infos ident" if "ident \<in> ?R" for ident
      using connected_node [OF less.prems(3)] nodeOk_info that by (fastforce simp: sizeIn_def)
    have new: "link_id link \<notin> fst ` set result" using wu by auto
    have "tot + oi_Size info = sum (sizeIn infos) (insert (link_id link) (fst ` set result))"
      using walk_ok_total [OF w] new info by (simp add: sizeIn_def)
    also have "\<dots> \<le> sum (sizeIn infos) ?R"
      using reach pos by (intro sum_mono2 [OF fin]) auto
    finally have tot: "tot + oi_Size info \<le> MaxGitBytes" using less.prems(3) by (simp add: connected_def)
    have size: "0 \<le> oi_Size info" "oi_Size info \<le> MaxGitObjectBytes" "objectIDPattern (link_id link)"
      using node(1) info by (auto simp: nodeOk_def)
    have "set s \<union> link_id ` set (nodeLinks infos content (link_id link)) \<subseteq> ?R"
      using wu reach(1) by (auto intro: reachable.link)
    then have "card (set s \<union> link_id ` set (nodeLinks infos content (link_id link))) \<le> MaxGitObjects"
      using card_mono [OF fin] less.prems(3) unfolding connected_def by (meson order_trans)
    then obtain st' where st': "enqueueAll infos (nodeLinks infos content (link_id link)) (q, s) = Inr st'"
      using enqueueAll_complete [OF node(2), of s q] wu by auto
    note w' = walk_ok_visit [OF w info node(1) st' tot]
    have pend: "pending infos st' < pending infos st"
      using enqueueAll_pending [OF st'] by (simp add: st Cons pending_def)
    note ih = less.hyps [OF pend w' _ less.prems(3,4)]
    show ?thesis
    proof (cases "oi_Type info = ''blob''")
      case True
      then have "st' = (q, s)" using st' info by (simp add: nodeLinks_def)
      then show ?thesis unfolding st Cons walkLoop_Cons [OF w info] using size tot True ih [OF less.prems(2)] by simp
    next
      case False
      obtain object links where o1: "content (link_id link) = Some object" "GitObjectID object = link_id link"
        "ObjectType object = oi_Type info" "oi_SHA256 (gitObjectInfo object) = oi_SHA256 info" "gitLinks object = Inr links"
        using node(1) info False by (auto simp: nodeOk_def)
      obtain r1 where got: "get Background (link_id link) r = (Inr object, r1)" using get_succeeds [OF less.prems(2) o1(1)] by blast
      have "nodeLinks infos content (link_id link) = links" using info False o1 by (simp add: nodeLinks_def)
      then show ?thesis unfolding st Cons walkLoop_Cons [OF w info]
        using size tot False got o1 st' ih [OF get_ready [OF less.prems(2) got]] by simp
    qed
  qed
qed

theorem walk_exact:
  assumes "al_wf infos" and "ready r"
  shows "(\<exists>result r' g'. walkObjectsIndexed Background refs infos get note r g = (Inr result, r', g')) \<longleftrightarrow> connected infos content refs"
    and "walkObjectsIndexed ctx refs infos get note r g = (Inr result, r', g') \<Longrightarrow>
      ready r' \<and> connected infos content refs \<and> al_wf result \<and>
      fst ` set result = {ident. reachable infos content refs ident} \<and>
      (\<forall>ident info. map_of result ident = Some info \<longrightarrow> map_of infos ident = Some info) \<and>
      g' = fold (visit infos content note) result g"
proof -
  have sound: "ready r' \<and> connected infos content refs \<and> al_wf result \<and>
      fst ` set result = {ident. reachable infos content refs ident} \<and>
      (\<forall>ident info. map_of result ident = Some info \<longrightarrow> map_of infos ident = Some info) \<and>
      g' = fold (visit infos content note) result g"
    if walk: "walkObjectsIndexed ctx refs infos get note r g = (Inr result, r', g')" for ctx result r' g'
  proof -
    obtain st where st: "enqueueAll infos (map refLink refs) ([], []) = Inr st"
      using walk by (auto simp: walkObjectsIndexed_def split: sum.splits)
    then have "walkLoop ctx infos get note st [] 0 r g = (Inr result, r', g')" using walk by (simp add: walkObjectsIndexed_def)
    from walkLoop_sound [OF this walk_ok_start [OF st] assms(2)] obtain s tot' where
      "ready r'" "walk_ok infos content refs ([], s) result tot'" "g' = fold (visit infos content note) result g" by auto
    then show ?thesis using walk_ok_end [OF _ assms(1)] by blast
  qed
  then show "walkObjectsIndexed ctx refs infos get note r g = (Inr result, r', g') \<Longrightarrow>
      ready r' \<and> connected infos content refs \<and> al_wf result \<and>
      fst ` set result = {ident. reachable infos content refs ident} \<and>
      (\<forall>ident info. map_of result ident = Some info \<longrightarrow> map_of infos ident = Some info) \<and>
      g' = fold (visit infos content note) result g" .
  have "\<exists>result r' g'. walkObjectsIndexed Background refs infos get note r g = (Inr result, r', g')"
    if con: "connected infos content refs"
  proof -
    let ?R = "{ident. reachable infos content refs ident}"
    have "link_id (refLink p) = snd p" for p by (auto simp: refLink_def split: prod.splits)
    then have "link_id ` set (map refLink refs) \<subseteq> ?R" by (force dest: reachable.ref)
    then have "card (link_id ` set (map refLink refs)) \<le> card ?R" by (rule card_mono [OF connected_finite [OF con]])
    then have "card (set [] \<union> link_id ` set (map refLink refs)) \<le> MaxGitObjects" using con by (simp add: connected_def)
    moreover have "\<forall>l \<in> set (map refLink refs). linkOk infos l" using con by (auto simp: connected_def)
    ultimately obtain st where st: "enqueueAll infos (map refLink refs) ([], []) = Inr st"
      using enqueueAll_complete [of "map refLink refs" infos "[]" "[]"] by auto
    show ?thesis using walkLoop_complete [OF walk_ok_start [OF st] assms(2) con assms(1)] by (simp add: walkObjectsIndexed_def st)
  qed
  then show "(\<exists>result r' g'. walkObjectsIndexed Background refs infos get note r g = (Inr result, r', g')) \<longleftrightarrow> connected infos content refs"
    using sound by blast
qed

end

end
