(* ===== verification/GitReach.thy ===== *)
theory GitReach
  imports GitGraph
begin

text \<open>
  The walks besides the one of a publication: \<^verbatim>\<open>ReachableGit\<close> of \<^verbatim>\<open>internal/repository/transport.go\<close> over objects in
  memory, and the index of \<^verbatim>\<open>graph_cache.go\<close> with which a fetch negotiation avoids repeated walks; and the
  properties of all three.
\<close>

section \<open>The walk over objects in memory\<close>

function reachLoop :: "ctx \<Rightarrow> (string \<times> GitObject) list \<Rightarrow> objectLink list \<Rightarrow> (string \<times> GitObject) list \<Rightarrow> int
    \<Rightarrow> (string \<times> GitObject) list result" where
  "reachLoop ctx objs queue result tot =
     (case queue of
        [] \<Rightarrow> Inr result
      | link # queue \<Rightarrow>
     (case ctx_Err ctx of Some e \<Rightarrow> Inl e | None \<Rightarrow>
     (case map_of objs (link_id link) of
        None \<Rightarrow> Inl RepoErrInvalid
      | Some object \<Rightarrow>
          if link_kind link \<noteq> [] \<and> ObjectType object \<noteq> link_kind link then Inl RepoErrInvalid
          else if map_of result (link_id link) \<noteq> None then reachLoop ctx objs queue result tot
          else if int (length (ObjectData object)) > MaxGitObjectBytes \<or> GitObjectID object \<noteq> link_id link then Inl RepoErrInvalid
          else (let tot = tot + int (length (ObjectData object))
            in if tot > MaxGitBytes \<or> length result \<ge> MaxGitObjects then Inl RepoErrLimit
               else (case gitLinks object of
                   Inl e \<Rightarrow> Inl e
                 | Inr links \<Rightarrow>
                     (let queue = rev links @ queue
                      in if length queue > MaxGitObjects * 64 then Inl RepoErrLimit
                         else reachLoop ctx objs queue (al_put (link_id link) object result) tot))))))"
  by pat_completeness auto
termination
proof (relation "measures [\<lambda>(ctx, objs, queue, result, tot). card (fst ` set objs - fst ` set result), \<lambda>(ctx, objs, queue, result, tot). length queue]",
    goal_cases)
  case (3 ctx objs queue result tot link rest object tot' links queue')
  have "link_id link \<in> fst ` set objs - fst ` set result"
    using 3 by (force dest: map_of_SomeD simp: map_of_eq_None_iff)
  then have "card (fst ` set objs - fst ` set (al_put (link_id link) object result)) < card (fst ` set objs - fst ` set result)"
    by (intro psubset_card_mono) auto
  then show ?case by simp
qed auto

declare reachLoop.simps [simp del]

definition ReachableGit :: "ctx \<Rightarrow> refs \<Rightarrow> (string \<times> GitObject) list \<Rightarrow> (string \<times> GitObject) list result" where
  "ReachableGit ctx refs objs = reachLoop ctx objs (rev (map refLink refs)) [] 0"

definition objectInfos :: "(string \<times> GitObject) list \<Rightarrow> infos" where
  "objectInfos objs = map (\<lambda>(ident, object). (ident, gitObjectInfo object)) objs"

lemma map_of_objectInfos [simp]: "map_of (objectInfos objs) ident = map_option gitObjectInfo (map_of objs ident)"
  by (induction objs) (auto simp: objectInfos_def)

lemma keys_objectInfos [simp]: "map fst (objectInfos objs) = map fst objs"
  by (induction objs) (auto simp: objectInfos_def)

text \<open>A link is settled when its target has been visited with the right type.\<close>

definition settled :: "(string \<times> GitObject) list \<Rightarrow> objectLink \<Rightarrow> bool" where
  "settled result link \<longleftrightarrow>
     (\<exists>object. map_of result (link_id link) = Some object \<and> (link_kind link = [] \<or> ObjectType object = link_kind link))"

definition visited :: "(string \<times> GitObject) list \<Rightarrow> refs \<Rightarrow> objectLink list \<Rightarrow> (string \<times> GitObject) list \<Rightarrow> string \<times> GitObject \<Rightarrow> bool" where
  "visited objs refs queue result = (\<lambda>(ident, object).
     reachable (objectInfos objs) (map_of objs) refs ident \<and> map_of objs ident = Some object \<and>
     int (length (ObjectData object)) \<le> MaxGitObjectBytes \<and> GitObjectID object = ident \<and>
     (\<exists>links. gitLinks object = Inr links \<and> (\<forall>l \<in> set links. settled result l \<or> l \<in> set queue)))"

lemma visited_mono:
  assumes "\<And>l. settled result l \<or> l \<in> set queue \<Longrightarrow> settled result' l \<or> l \<in> set queue'" and "visited objs refs queue result p"
  shows "visited objs refs queue' result' p"
proof -
  obtain ident object where p: "p = (ident, object)" by (cases p)
  obtain links where l: "gitLinks object = Inr links" "\<forall>l \<in> set links. settled result l \<or> l \<in> set queue"
    using assms(2) by (auto simp: visited_def p)
  have "\<forall>l \<in> set links. settled result' l \<or> l \<in> set queue'" using l(2) assms(1) by blast
  then show ?thesis using assms(2) l(1) by (simp add: visited_def p)
qed

definition reach_ok :: "(string \<times> GitObject) list \<Rightarrow> refs \<Rightarrow> objectLink list \<Rightarrow> (string \<times> GitObject) list \<Rightarrow> int \<Rightarrow> bool" where
  "reach_ok objs refs queue result tot \<longleftrightarrow>
     al_wf result \<and> length result \<le> MaxGitObjects \<and>
     (\<forall>l \<in> set queue. reachable (objectInfos objs) (map_of objs) refs (link_id l)) \<and>
     (\<forall>p \<in> set refs. settled result (refLink p) \<or> refLink p \<in> set queue) \<and>
     (\<forall>p \<in> set result. visited objs refs queue result p) \<and>
     tot = sum_list (map (\<lambda>p. int (length (ObjectData (snd p)))) result) \<and> tot \<le> MaxGitBytes"

lemma nodeLinks_objects:
  "map_of objs ident = Some object \<Longrightarrow> gitLinks object = Inr links \<Longrightarrow> nodeLinks (objectInfos objs) (map_of objs) ident = links"
proof (cases "ObjectType object = ''blob''")
  case True
  then have "gitLinks object = Inr []" by (simp add: gitLinks_def)
  then show "map_of objs ident = Some object \<Longrightarrow> gitLinks object = Inr links \<Longrightarrow> nodeLinks (objectInfos objs) (map_of objs) ident = links"
    using True by (simp add: nodeLinks_def)
qed (simp add: nodeLinks_def)

lemma settled_mono: "settled result l \<Longrightarrow> map_of result ident = None \<Longrightarrow> settled (result @ [(ident, object)]) l"
  by (auto simp: settled_def map_add_def split: option.splits)

lemma settled_linkOk:
  "settled result l \<Longrightarrow> \<forall>(ident, object) \<in> set result. map_of objs ident = Some object \<Longrightarrow> linkOk (objectInfos objs) l"
proof -
  assume "settled result l" and objs: "\<forall>(ident, object) \<in> set result. map_of objs ident = Some object"
  then obtain object where "map_of result (link_id l) = Some object" "link_kind l = [] \<or> ObjectType object = link_kind l"
    by (auto simp: settled_def)
  moreover from this have "map_of objs (link_id l) = Some object" using objs map_of_SomeD by fast
  ultimately show ?thesis by (simp add: linkOk_def)
qed

lemma reach_ok_skip:
  assumes "reach_ok objs refs (link # q) result tot" and "map_of objs (link_id link) = Some object"
    and "link_kind link = [] \<or> ObjectType object = link_kind link" and "map_of result (link_id link) = Some object'"
  shows "reach_ok objs refs q result tot"
proof -
  note w = assms(1) [unfolded reach_ok_def]
  have "(link_id link, object') \<in> set result" using assms(4) by (rule map_of_SomeD)
  then have "map_of objs (link_id link) = Some object'" using w by (auto simp: visited_def)
  then have "object' = object" using assms(2) by simp
  then have "settled result link" using assms(3,4) by (auto simp: settled_def)
  then have drop: "settled result l \<or> l \<in> set (link # q) \<Longrightarrow> settled result l \<or> l \<in> set q" for l by auto
  have "\<forall>p \<in> set refs. settled result (refLink p) \<or> refLink p \<in> set q" using w drop by blast
  moreover have "\<forall>p \<in> set result. visited objs refs q result p" using w visited_mono [OF drop] by blast
  ultimately show ?thesis using w unfolding reach_ok_def by simp
qed

lemma reach_ok_visit:
  assumes "reach_ok objs refs (link # q) result tot" and "map_of objs (link_id link) = Some object"
    and "link_kind link = [] \<or> ObjectType object = link_kind link" and "map_of result (link_id link) = None"
    and "int (length (ObjectData object)) \<le> MaxGitObjectBytes" "GitObjectID object = link_id link" "gitLinks object = Inr links"
    and "tot + int (length (ObjectData object)) \<le> MaxGitBytes" "length result < MaxGitObjects"
  shows "reach_ok objs refs (rev links @ q) (result @ [(link_id link, object)]) (tot + int (length (ObjectData object)))"
proof -
  note w = assms(1) [unfolded reach_ok_def]
  let ?R = "result @ [(link_id link, object)]"
  have "map_of ?R (link_id link) = Some object" using assms(4) by (simp add: map_add_def)
  then have "settled ?R link" using assms(3) by (auto simp: settled_def)
  then have keep: "settled result l \<or> l \<in> set (link # q) \<Longrightarrow> settled ?R l \<or> l \<in> set (rev links @ q)" for l
    using settled_mono [OF _ assms(4), of l object] by fastforce
  have reach: "reachable (objectInfos objs) (map_of objs) refs (link_id link)" using w by simp
  then have "\<forall>l \<in> set links. reachable (objectInfos objs) (map_of objs) refs (link_id l)"
    using reachable.link [OF reach] unfolding nodeLinks_objects [OF assms(2,7)] by blast
  then have "\<forall>l \<in> set (rev links @ q). reachable (objectInfos objs) (map_of objs) refs (link_id l)" using w by auto
  moreover have "\<forall>p \<in> set refs. settled ?R (refLink p) \<or> refLink p \<in> set (rev links @ q)" using w keep by blast
  moreover have "\<forall>p \<in> set result. visited objs refs (rev links @ q) ?R p" using w visited_mono [OF keep] by blast
  then have "\<forall>p \<in> set ?R. visited objs refs (rev links @ q) ?R p" using reach assms(2,5-7) by (auto simp: visited_def)
  moreover have "al_wf ?R" using w assms(4) by (auto simp: al_wf_def map_of_eq_None_iff)
  ultimately show ?thesis using w assms(8,9) unfolding reach_ok_def by simp
qed

lemma reach_ok_end:
  assumes "reach_ok objs refs [] result tot" and "al_wf objs"
  shows "connected (objectInfos objs) (map_of objs) refs \<and> al_wf result \<and>
    fst ` set result = {ident. reachable (objectInfos objs) (map_of objs) refs ident} \<and>
    (\<forall>ident object. map_of result ident = Some object \<longrightarrow> map_of objs ident = Some object)"
proof -
  note w = assms(1) [unfolded reach_ok_def]
  let ?reach = "reachable (objectInfos objs) (map_of objs) refs"
  have objs: "\<forall>(ident, object) \<in> set result. map_of objs ident = Some object" using w by (auto simp: visited_def)
  have closed: "\<exists>object links. (ident, object) \<in> set result \<and> map_of objs ident = Some object \<and>
      int (length (ObjectData object)) \<le> MaxGitObjectBytes \<and> GitObjectID object = ident \<and> gitLinks object = Inr links \<and>
      (\<forall>l \<in> set links. settled result l) \<and> nodeLinks (objectInfos objs) (map_of objs) ident = links"
    if "ident \<in> fst ` set result" for ident
  proof -
    obtain object where "(ident, object) \<in> set result" using \<open>ident \<in> fst ` set result\<close> by force
    moreover from this obtain links where "gitLinks object = Inr links" "\<forall>l \<in> set links. settled result l"
      using w by (auto simp: visited_def)
    moreover have "map_of objs ident = Some object" "int (length (ObjectData object)) \<le> MaxGitObjectBytes" "GitObjectID object = ident"
      using w \<open>(ident, object) \<in> set result\<close> by (auto simp: visited_def)
    ultimately show ?thesis using nodeLinks_objects by blast
  qed
  have sid: "settled result l \<Longrightarrow> link_id l \<in> fst ` set result" for l by (force simp: settled_def dest: map_of_SomeD)
  have lid: "link_id (refLink p) = snd p" for p by (auto simp: refLink_def split: prod.splits)
  have reach: "ident \<in> fst ` set result" if "?reach ident" for ident
    using that
  proof (induction rule: reachable.induct)
    case (ref p)
    then have "settled result (refLink p)" using w by simp
    from sid [OF this] show ?case unfolding lid .
  next
    case (link ident l)
    then show ?case using closed [OF link.IH] sid by metis
  qed
  have keys: "fst ` set result = {ident. ?reach ident}" using reach w by (auto simp: visited_def)
  have "nodeOk (objectInfos objs) (map_of objs) ident \<and> (\<forall>l \<in> set (nodeLinks (objectInfos objs) (map_of objs) ident). linkOk (objectInfos objs) l)"
    if reached: "?reach ident" for ident
  proof -
    obtain object links where o1: "map_of objs ident = Some object" "int (length (ObjectData object)) \<le> MaxGitObjectBytes"
      "GitObjectID object = ident" "gitLinks object = Inr links" "\<forall>l \<in> set links. settled result l"
      "nodeLinks (objectInfos objs) (map_of objs) ident = links"
      using closed [OF reach [OF reached]] by blast
    have "objectIDPattern ident" using lowerHex_EncodeToString [of _ 20] o1(3) [symmetric]
      by (simp add: objectIDPattern_def GitObjectID_eq objectID_def)
    then show ?thesis using o1 settled_linkOk [OF _ objs] by (auto simp: nodeOk_def)
  qed
  moreover have "card (fst ` set result) \<le> MaxGitObjects" using w card_image_le [of "set result" fst] card_length [of result] by simp
  moreover have "(\<Sum>ident \<in> fst ` set result. sizeIn (objectInfos objs) ident) \<le> MaxGitBytes"
  proof -
    have "map (\<lambda>p. int (length (ObjectData (snd p)))) result = map (sizeIn (objectInfos objs)) (map fst result)"
      using objs by (auto simp: sizeIn_def)
    moreover have "sum_list (map (sizeIn (objectInfos objs)) (map fst result)) = sum (sizeIn (objectInfos objs)) (set (map fst result))"
      using w unfolding al_wf_def by (intro sum_list_distinct_conv_sum_set) simp
    ultimately have "tot = sum (sizeIn (objectInfos objs)) (fst ` set result)" using w by (metis list.set_map)
    then show ?thesis using w by simp
  qed
  moreover have "\<forall>p \<in> set refs. linkOk (objectInfos objs) (refLink p)" using w settled_linkOk [OF _ objs] by simp
  moreover have "\<forall>ident object. map_of result ident = Some object \<longrightarrow> map_of objs ident = Some object"
    using objs by (auto dest: map_of_SomeD)
  ultimately show ?thesis using w keys unfolding connected_def by auto
qed

lemma reachLoop_sound:
  assumes "reachLoop ctx objs queue result tot = Inr result'" and "reach_ok objs refs queue result tot"
  shows "\<exists>tot'. reach_ok objs refs [] result' tot'"
  using assms
proof (induction ctx objs queue result tot rule: reachLoop.induct)
  case (1 ctx objs queue result tot)
  show ?case
  proof (cases queue)
    case Nil
    then have "result' = result" using 1(3) by (simp add: reachLoop.simps)
    then show ?thesis using 1(4) Nil by blast
  next
    case (Cons link q)
    note w = 1(4) [unfolded Cons]
    note eq = 1(3) [unfolded Cons]
    obtain object where ob: "ctx_Err ctx = None" "map_of objs (link_id link) = Some object"
      "link_kind link = [] \<or> ObjectType object = link_kind link"
      using eq by (subst (asm) reachLoop.simps) (auto split: option.splits if_splits)
    show ?thesis
    proof (cases "map_of result (link_id link)")
      case (Some object')
      then have "reachLoop ctx objs q result tot = Inr result'" using eq ob by (subst (asm) reachLoop.simps) (auto split: if_splits)
      then show ?thesis using 1(1) [OF Cons ob(1,2)] ob Some reach_ok_skip [OF w ob(2,3) Some] by auto
    next
      case None
      obtain links where ch: "int (length (ObjectData object)) \<le> MaxGitObjectBytes" "GitObjectID object = link_id link"
        "tot + int (length (ObjectData object)) \<le> MaxGitBytes" "length result < MaxGitObjects" "gitLinks object = Inr links"
        "length (rev links @ q) \<le> MaxGitObjects * 64"
        "reachLoop ctx objs (rev links @ q) (result @ [(link_id link, object)]) (tot + int (length (ObjectData object))) = Inr result'"
        using eq ob None by (subst (asm) reachLoop.simps) (auto simp: Let_def al_put_new split: if_splits sum.splits)
      have "reach_ok objs refs (rev links @ q) (result @ [(link_id link, object)]) (tot + int (length (ObjectData object)))"
        by (rule reach_ok_visit [OF w ob(2,3) None ch(1,2,5,3,4)])
      then show ?thesis using 1(2) [OF Cons ob(1,2) _ _ _ refl _ ch(5) refl] ob None ch al_put_new [OF None, of object] by auto
    qed
  qed
qed

lemma ReachableGit_sound:
  assumes "ReachableGit ctx refs objs = Inr result" and "al_wf objs"
  shows "connected (objectInfos objs) (map_of objs) refs \<and> al_wf result \<and>
    fst ` set result = {ident. reachable (objectInfos objs) (map_of objs) refs ident} \<and>
    (\<forall>ident object. map_of result ident = Some object \<longrightarrow> map_of objs ident = Some object)"
proof -
  have lid: "link_id (refLink p) = snd p" for p by (auto simp: refLink_def split: prod.splits)
  have "reach_ok objs refs (rev (map refLink refs)) [] 0"
    by (auto simp: reach_ok_def MaxGitBytes_def lid reachable.ref simp flip: snd_conv)
  from reachLoop_sound [OF assms(1) [unfolded ReachableGit_def] this] show ?thesis using reach_ok_end [OF _ assms(2)] by blast
qed


section \<open>Where the objects of a push come from\<close>

text \<open>The getters that \<^verbatim>\<open>PublishGit\<close> and \<^verbatim>\<open>PublishPack\<close> give to the publication.\<close>

definition incomingGetter :: "(string \<times> GitObject) list \<Rightarrow> unit gitGetter" where
  "incomingGetter incoming ctx ident r = (case map_of incoming ident of None \<Rightarrow> Inl RepoErrNotFound | Some object \<Rightarrow> Inr object, r)"

definition workspaceGetter :: "Workspace option \<Rightarrow> unit gitGetter" where
  "workspaceGetter incoming ctx ident r = (case incoming of None \<Rightarrow> Inl RepoErrNotFound | Some w \<Rightarrow> GetObject w ctx ident, r)"

definition workspaceContent :: "Workspace option \<Rightarrow> string \<Rightarrow> GitObject option" where
  "workspaceContent incoming ident =
     (case incoming of None \<Rightarrow> None | Some w \<Rightarrow> (case GetObject w Background ident of Inl _ \<Rightarrow> None | Inr object \<Rightarrow> Some object))"

interpretation incoming: object_source "incomingGetter objs" "\<lambda>_. True" "map_of objs" for objs
  by unfold_locales (auto simp: incomingGetter_def split: option.splits)

interpretation workspace: object_source "workspaceGetter w" "\<lambda>_. True" "workspaceContent w" for w
proof unfold_locales
  fix r ctx ident object r'
  assume "workspaceGetter w ctx ident r = (Inr object, r')"
  then obtain w' where w: "w = Some w'" "GetObject w' ctx ident = Inr object" by (auto simp: workspaceGetter_def split: option.splits)
  then have "ctx = Background" by (auto simp: GetObject_def Let_def split: option.splits if_splits)
  then show "workspaceContent w ident = Some object" using w by (simp add: workspaceContent_def)
qed (auto simp: workspaceGetter_def workspaceContent_def split: option.splits sum.splits)

section \<open>The index of a validated graph\<close>

definition maxGraphIndexBytes :: int where "maxGraphIndexBytes = 67108864"

record validatedGraph =
  vg_objects :: infos
  vg_links :: "(string \<times> objectLink list) list option"

definition graphNote :: "int \<Rightarrow> string \<Rightarrow> objectLink list \<Rightarrow> (string \<times> objectLink list) list option \<times> int
    \<Rightarrow> (string \<times> objectLink list) list option \<times> int" where
  "graphNote limit ident links = (\<lambda>(known, sz).
     (case known of
        None \<Rightarrow> (None, sz)
      | Some m \<Rightarrow>
          (let charge = 128 + int (length ident) + (\<Sum>link \<leftarrow> links. 64 + int (length (link_id link)) + int (length (link_kind link)))
           in if charge > limit - sz then (None, 128) else (Some (al_put ident links m), sz + charge))))"

definition manifestMemoryBytes :: "objectManifest \<Rightarrow> int" where
  "manifestMemoryBytes manifest =
     256 + (\<Sum>(ident, info) \<leftarrow> (case mf_Objects manifest of None \<Rightarrow> [] | Some objs \<Rightarrow> objs).
              256 + int (length ident) + int (length (oi_Type info)) + int (length (oi_SHA256 info)) + int (length (oi_PackKey info))) +
     (case mf_LFS manifest of None \<Rightarrow> 0 | Some index \<Rightarrow>
        128 + int (length (case lfs_Objects index of None \<Rightarrow> [] | Some objs \<Rightarrow> objs)) * 128)"

text \<open>The loader of \<^verbatim>\<open>validateCachedGraph\<close>: the graph and the size it reports to the cache.\<close>

definition loadGraph :: "ctx \<Rightarrow> int \<Rightarrow> refs \<Rightarrow> infos \<Rightarrow> 'r gitGetter \<Rightarrow> 'r \<Rightarrow> (validatedGraph \<times> int) result \<times> 'r" where
  "loadGraph ctx memoryLimit refs infos get r =
     (case walkObjectsIndexed ctx refs infos get (graphNote (min maxGraphIndexBytes memoryLimit)) r (Some [], 128) of
        (Inl e, r, _) \<Rightarrow> (Inl (ErrJoin RepoErrCorrupt e), r)
      | (Inr objs, r, (links, sz)) \<Rightarrow>
          (Inr (\<lparr>vg_objects = objs, vg_links = links\<rparr>,
             sz + manifestMemoryBytes \<lparr>mf_Schema = 0, mf_ObjectFormat = [], mf_Objects = Some objs, mf_LFS = None\<rparr>), r))"

definition graphAdd :: "infos \<Rightarrow> objectLink \<Rightarrow> string list \<times> string list \<Rightarrow> (string list \<times> string list) result" where
  "graphAdd objs link = (\<lambda>(queue, seen).
     (case map_of objs (link_id link) of
        None \<Rightarrow> Inl RepoErrInvalid
      | Some info \<Rightarrow>
          if link_kind link \<noteq> [] \<and> link_kind link \<noteq> oi_Type info then Inl RepoErrInvalid
          else if link_id link \<in> set seen then Inr (queue, seen)
          else Inr (link_id link # queue, link_id link # seen)))"

fun graphAddAll :: "infos \<Rightarrow> objectLink list \<Rightarrow> string list \<times> string list \<Rightarrow> (string list \<times> string list) result" where
  "graphAddAll objs [] st = Inr st"
| "graphAddAll objs (link # links) st = rbind (graphAdd objs link st) (graphAddAll objs links)"

text \<open>A missing entry of a Go map of slices is the empty slice.\<close>

definition linksIn :: "(string \<times> objectLink list) list \<Rightarrow> string \<Rightarrow> objectLink list" where
  "linksIn m ident = (case map_of m ident of None \<Rightarrow> [] | Some links \<Rightarrow> links)"

definition waiting_ids :: "infos \<Rightarrow> string list \<times> string list \<Rightarrow> nat" where
  "waiting_ids objs st = length (fst st) + card (fst ` set objs - set (snd st))"

text \<open>Without the limit, the stack of the index walk is the stack of the object walk with the kinds dropped.\<close>

lemma graphAdd_Inr:
  "graphAdd objs l (q, s) = Inr (q', s') \<longleftrightarrow>
     linkOk objs l \<and> (if link_id l \<in> set s then q' = q \<and> s' = s else q' = link_id l # q \<and> s' = link_id l # s)"
  by (auto simp: graphAdd_def linkOk_def split: option.splits)

lemma graphAdd_waiting:
  assumes "graphAdd objs l st = Inr st'"
  shows "waiting_ids objs st' = waiting_ids objs st"
proof -
  obtain q s q' s' where st: "st = (q, s)" "st' = (q', s')" by (cases st, cases st')
  note a = assms [unfolded st graphAdd_Inr]
  show ?thesis
  proof (cases "link_id l \<in> set s")
    case False
    have "link_id l \<in> fst ` set objs - set s" using a False by (force simp: linkOk_def dest: map_of_SomeD)
    then have "Suc (card (fst ` set objs - insert (link_id l) (set s))) = card (fst ` set objs - set s)"
      using card_Suc_Diff1 [of "fst ` set objs - set s" "link_id l"] Diff_insert [of "fst ` set objs" "link_id l" "set s"] by simp
    then show ?thesis using a False by (simp add: waiting_ids_def st)
  qed (use a in \<open>simp add: waiting_ids_def st\<close>)
qed

lemma graphAddAll_waiting: "graphAddAll objs links st = Inr st' \<Longrightarrow> waiting_ids objs st' = waiting_ids objs st"
proof (induction links arbitrary: st)
  case (Cons link links)
  then obtain st1 where "graphAdd objs link st = Inr st1" "graphAddAll objs links st1 = Inr st'" by (auto simp: rbind_Inr)
  then show ?case using Cons.IH graphAdd_waiting by metis
qed simp

function graphLoop :: "ctx \<Rightarrow> infos \<Rightarrow> (string \<times> objectLink list) list \<Rightarrow> string list \<times> string list \<Rightarrow> string list result" where
  "graphLoop ctx objs m (queue, seen) =
     (case queue of
        [] \<Rightarrow> Inr (sort seen)
      | ident # queue \<Rightarrow>
          (case ctx_Err ctx of Some e \<Rightarrow> Inl e | None \<Rightarrow>
          (case graphAddAll objs (linksIn m ident) (queue, seen) of Inl e \<Rightarrow> Inl e | Inr st \<Rightarrow> graphLoop ctx objs m st)))"
  by pat_completeness auto
termination
  by (relation "measure (\<lambda>(ctx, objs, m, st). waiting_ids objs st)")
    (simp_all add: waiting_ids_def graphAddAll_waiting [unfolded waiting_ids_def])

declare graphLoop.simps [simp del]

definition graphReachable :: "ctx \<Rightarrow> validatedGraph \<Rightarrow> refs \<Rightarrow> string list result" where
  "graphReachable ctx graph refs =
     (case graphAddAll (vg_objects graph) (map refLink refs) ([], []) of
        Inl e \<Rightarrow> Inl e
      | Inr st \<Rightarrow> graphLoop ctx (vg_objects graph) (case vg_links graph of None \<Rightarrow> [] | Some m \<Rightarrow> m) st)"

text \<open>\<^verbatim>\<open>Reachable\<close> of a reader: the index when it was kept, else the object walk over the validated objects.\<close>

definition Reachable :: "ctx \<Rightarrow> validatedGraph option \<Rightarrow> infos \<Rightarrow> 'r gitGetter \<Rightarrow> refs \<Rightarrow> 'r \<Rightarrow> string list result \<times> 'r" where
  "Reachable ctx graph available get refs r =
     (if (case graph of None \<Rightarrow> False | Some g \<Rightarrow> vg_links g \<noteq> None)
      then (case ctx_Err ctx of Some e \<Rightarrow> (Inl e, r) | None \<Rightarrow> (graphReachable ctx (the graph) refs, r))
      else (case walkObjects ctx refs available get r of
              (Inl e, r) \<Rightarrow> (Inl e, r)
            | (Inr objs, r) \<Rightarrow> (Inr (sort (map fst objs)), r)))"

section \<open>The index answers like the walk\<close>

lemma graphAddAll_fail: "\<not> (\<forall>l \<in> set links. linkOk objs l) \<Longrightarrow> graphAddAll objs links st = Inl RepoErrInvalid"
proof (induction links arbitrary: st)
  case (Cons l links)
  obtain q s where st: "st = (q, s)" by (cases st)
  have bad: "\<not> linkOk objs l \<Longrightarrow> graphAdd objs l st = Inl RepoErrInvalid"
    by (auto simp: graphAdd_def linkOk_def st split: option.splits)
  show ?case
  proof (cases "linkOk objs l")
    case True
    then have "\<exists>st'. graphAdd objs l st = Inr st'" by (auto simp: graphAdd_def linkOk_def st split: option.splits)
    then show ?thesis using Cons True by (auto simp: rbind_def)
  qed (simp add: bad rbind_def)
qed simp

lemma graphAddAll_ok:
  assumes "\<forall>l \<in> set links. linkOk objs l"
  shows "\<exists>new. graphAddAll objs links (q, s) = Inr (new @ q, new @ s) \<and> set new \<subseteq> link_id ` set links \<and> distinct new \<and>
    set new \<inter> set s = {} \<and> link_id ` set links \<subseteq> set new \<union> set s"
  using assms
proof (induction links arbitrary: q s)
  case (Cons l links)
  show ?case
  proof (cases "link_id l \<in> set s")
    case True
    then have "graphAdd objs l (q, s) = Inr (q, s)" using Cons.prems by (simp add: graphAdd_Inr)
    moreover obtain new where "graphAddAll objs links (q, s) = Inr (new @ q, new @ s)" "set new \<subseteq> link_id ` set links" "distinct new"
      "set new \<inter> set s = {}" "link_id ` set links \<subseteq> set new \<union> set s" using Cons.IH [of q s] Cons.prems by auto
    ultimately show ?thesis using True by (intro exI [of _ new]) (auto simp: rbind_def)
  next
    case False
    then have "graphAdd objs l (q, s) = Inr (link_id l # q, link_id l # s)" using Cons.prems by (simp add: graphAdd_Inr)
    moreover obtain new where "graphAddAll objs links (link_id l # q, link_id l # s) = Inr (new @ link_id l # q, new @ link_id l # s)"
      "set new \<subseteq> link_id ` set links" "distinct new" "set new \<inter> set (link_id l # s) = {}"
      "link_id ` set links \<subseteq> set new \<union> set (link_id l # s)"
      using Cons.IH [of "link_id l # q" "link_id l # s"] Cons.prems by auto
    ultimately show ?thesis using False by (intro exI [of _ "new @ [link_id l]"]) (auto simp: rbind_def)
  qed
qed simp

lemma enqueueAll_fail:
  assumes "\<not> (\<forall>l \<in> set links. linkOk objs l)" and "distinct s" "set s \<subseteq> fst ` set objs" "card (fst ` set objs) \<le> MaxGitObjects"
  shows "enqueueAll objs links (q, s) = Inl RepoErrInvalid"
  using assms(1-3)
proof (induction links arbitrary: q s)
  case (Cons l links)
  show ?case
  proof (cases "linkOk objs l")
    case True
    then have key: "link_id l \<in> fst ` set objs" by (force simp: linkOk_def dest: map_of_SomeD)
    show ?thesis
    proof (cases "link_id l \<in> set s")
      case True
      then have "enqueue objs l (q, s) = Inr (q, s)" using \<open>linkOk objs l\<close> by (simp add: enqueue_Inr)
      then show ?thesis using Cons \<open>linkOk objs l\<close> by (simp add: rbind_def)
    next
      case False
      have "Suc (length s) = card (insert (link_id l) (set s))" using False Cons.prems(2) by (simp add: distinct_card)
      also have "\<dots> \<le> card (fst ` set objs)" using key Cons.prems(3) by (intro card_mono) auto
      finally have "enqueue objs l (q, s) = Inr (l # q, link_id l # s)"
        using False \<open>linkOk objs l\<close> assms(4) by (simp add: enqueue_Inr)
      then show ?thesis using Cons.IH [of "link_id l # s" "l # q"] Cons.prems False key \<open>linkOk objs l\<close> by (simp add: rbind_def)
    qed
  next
    case False
    then have "enqueue objs l (q, s) = Inl RepoErrInvalid" by (auto simp: enqueue_def linkOk_def split: option.splits)
    then show ?thesis by (simp add: rbind_def)
  qed
qed simp

lemma graphLoop_exact:
  assumes "\<forall>ident \<in> fst ` set objs. linksIn m ident = nodeLinks objs content ident \<and> (\<forall>l \<in> set (linksIn m ident). linkOk objs l)"
    and "distinct (snd st)" "set (fst st) \<subseteq> set (snd st)" "set (snd st) \<subseteq> fst ` set objs"
    and "\<forall>ident \<in> set (snd st). reachable objs content refs ident" "snd ` set refs \<subseteq> set (snd st)"
    and "\<forall>ident \<in> set (snd st) - set (fst st). link_id ` set (linksIn m ident) \<subseteq> set (snd st)"
  shows "graphLoop Background objs m st = Inr (sorted_list_of_set {ident. reachable objs content refs ident})"
  using assms
proof (induction "waiting_ids objs st" arbitrary: st rule: less_induct)
  case less
  obtain q0 s where st: "st = (q0, s)" by (cases st)
  note p = less.prems [unfolded st fst_conv snd_conv]
  show ?case
  proof (cases q0)
    case Nil
    have "ident \<in> set s" if "reachable objs content refs ident" for ident
      using that
    proof (induction rule: reachable.induct)
      case (link ident l)
      moreover from this have "linksIn m ident = nodeLinks objs content ident" using p(1,4) by blast
      ultimately have "l \<in> set (linksIn m ident)" by simp
      then show ?case using p(7) link.IH unfolding Nil by auto
    qed (use p(6) in auto)
    then have "{ident. reachable objs content refs ident} = set s" using p(5) by blast
    then show ?thesis using p(2) by (simp add: st Nil graphLoop.simps sorted_list_of_set_sort_remdups distinct_remdups_id)
  next
    case (Cons ident q)
    have key: "ident \<in> fst ` set objs" "reachable objs content refs ident" "ident \<in> set s" using p(3,4,5) Cons by auto
    obtain new where new: "graphAddAll objs (linksIn m ident) (q, s) = Inr (new @ q, new @ s)"
      "set new \<subseteq> link_id ` set (linksIn m ident)" "distinct new" "set new \<inter> set s = {}"
      "link_id ` set (linksIn m ident) \<subseteq> set new \<union> set s"
      using graphAddAll_ok [of "linksIn m ident" objs q s] p(1) key(1) by auto
    have "waiting_ids objs (new @ q, new @ s) < waiting_ids objs st"
      using graphAddAll_waiting [OF new(1)] by (simp add: st Cons waiting_ids_def)
    moreover have "\<forall>x \<in> set new. reachable objs content refs x"
      using new(2) p(1) key(1,2) by (auto intro: reachable.link)
    moreover have "set new \<subseteq> fst ` set objs"
      using new(2) p(1) key(1) by (force simp: linkOk_def dest: map_of_SomeD)
    moreover have "\<forall>x \<in> set (new @ s) - set (new @ q). link_id ` set (linksIn m x) \<subseteq> set (new @ s)"
    proof
      fix x assume x: "x \<in> set (new @ s) - set (new @ q)"
      show "link_id ` set (linksIn m x) \<subseteq> set (new @ s)"
      proof (cases "x = ident")
        case False
        then have "x \<in> set s - set q0" using x Cons by auto
        then show ?thesis using p(7) by auto
      qed (use new(5) in auto)
    qed
    ultimately have "graphLoop Background objs m (new @ q, new @ s) = Inr (sorted_list_of_set {ident. reachable objs content refs ident})"
      using p new(3,4) key(3) Cons by (intro less.hyps) auto
    then show ?thesis by (simp add: st Cons graphLoop.simps [of _ _ _ "ident # q"] new(1))
  qed
qed

lemma fold_graphNote_None: "fold (visit infos content (graphNote lim)) result (None, sz) = (None, sz)"
  by (induction result) (auto simp: visit_def graphNote_def)

lemma fold_graphNote:
  "fold (visit infos content (graphNote lim)) result (Some m0, sz0) = (Some m, sz) \<Longrightarrow>
     map_of m ident = (if \<exists>info. (ident, info) \<in> set result \<and> oi_Type info \<noteq> ''blob''
       then Some (nodeLinks infos content ident) else map_of m0 ident)"
proof (induction result arbitrary: m0 sz0)
  case (Cons p result)
  obtain i1 info1 where p: "p = (i1, info1)" by (cases p)
  show ?case
  proof (cases "oi_Type info1 = ''blob''")
    case True
    then show ?thesis using Cons by (simp add: visit_def p) blast
  next
    case False
    obtain known sz1 where k: "graphNote lim i1 (nodeLinks infos content i1) (Some m0, sz0) = (known, sz1)" by force
    have "fold (visit infos content (graphNote lim)) result (known, sz1) = (Some m, sz)"
      using Cons.prems False k by (simp add: p) (simp add: visit_def [of _ _ _ "(i1, info1)"])
    then obtain m1 where "known = Some m1" using fold_graphNote_None by (cases known) auto
    moreover from this have "m1 = al_put i1 (nodeLinks infos content i1) m0" using k by (auto simp: graphNote_def Let_def split: if_splits)
    ultimately show ?thesis using Cons.IH [of m1 sz1] False \<open>fold _ result (known, sz1) = _\<close> by (auto simp: p)
  qed
qed simp

text \<open>Every part of a connected graph is connected.\<close>

lemma connected_part:
  assumes "connected infos content refs" and "al_wf objs" and "fst ` set objs = {ident. reachable infos content refs ident}"
    and "\<forall>ident info. map_of objs ident = Some info \<longrightarrow> map_of infos ident = Some info"
  shows "\<forall>ident \<in> fst ` set objs. nodeLinks objs content ident = nodeLinks infos content ident \<and>
      (\<forall>l \<in> set (nodeLinks objs content ident). linkOk objs l)"
    and "\<forall>p \<in> set refs'. linkOk objs (refLink p) \<Longrightarrow> connected objs content refs'"
proof -
  have same: "map_of objs ident = map_of infos ident" if key: "ident \<in> fst ` set objs" for ident
  proof -
    obtain info where "map_of objs ident = Some info" using key by (metis map_of_eq_None_iff not_Some_eq)
    then show ?thesis using assms(4) by simp
  qed
  have links: "nodeLinks objs content ident = nodeLinks infos content ident" if "ident \<in> fst ` set objs" for ident
    by (simp add: nodeLinks_def same [OF that])
  have ok: "linkOk objs l" if "ident \<in> fst ` set objs" "l \<in> set (nodeLinks infos content ident)" for ident l
  proof -
    have r: "reachable infos content refs ident" using that(1) assms(3) by simp
    then have "link_id l \<in> fst ` set objs" using assms(3) that(2) by (auto intro: reachable.link)
    then show ?thesis using connected_node [OF assms(1) r] that(2) same [of "link_id l"] by (auto simp: linkOk_def)
  qed
  show "\<forall>ident \<in> fst ` set objs. nodeLinks objs content ident = nodeLinks infos content ident \<and>
      (\<forall>l \<in> set (nodeLinks objs content ident). linkOk objs l)"
    using links ok by simp
  show "connected objs content refs'" if refs: "\<forall>p \<in> set refs'. linkOk objs (refLink p)"
  proof -
    have target: "linkOk objs l \<Longrightarrow> link_id l \<in> fst ` set objs" for l by (force simp: linkOk_def dest: map_of_SomeD)
    have lid: "link_id (refLink p) = snd p" for p by (auto simp: refLink_def split: prod.splits)
    have key: "ident \<in> fst ` set objs" if "reachable objs content refs' ident" for ident
      using that
    proof (induction rule: reachable.induct)
      case (ref p)
      then have "link_id (refLink p) \<in> fst ` set objs" using refs target by blast
      then show ?case unfolding lid .
    next
      case (link ident l)
      then show ?case using links ok target by metis
    qed
    then have sub: "{ident. reachable objs content refs' ident} \<subseteq> {ident. reachable infos content refs ident}" using assms(3) by auto
    have node: "nodeOk objs content ident" if "reachable objs content refs' ident" for ident
    proof -
      have "nodeOk infos content ident" using connected_node [OF assms(1)] key [OF that] assms(3) by blast
      then show ?thesis by (simp add: nodeOk_def same [OF key [OF that]])
    qed
    have pos: "0 \<le> sizeIn infos ident" if "reachable infos content refs ident" for ident
      using connected_node [OF assms(1) that] nodeOk_info by (fastforce simp: sizeIn_def)
    have "(\<Sum>ident | reachable objs content refs' ident. sizeIn objs ident) = (\<Sum>ident | reachable objs content refs' ident. sizeIn infos ident)"
      using key same by (intro sum.cong) (auto simp: sizeIn_def)
    also have "\<dots> \<le> (\<Sum>ident | reachable infos content refs ident. sizeIn infos ident)"
      using pos by (intro sum_mono2 [OF connected_finite [OF assms(1)] sub]) auto
    finally have "(\<Sum>ident | reachable objs content refs' ident. sizeIn objs ident) \<le> MaxGitBytes"
      using assms(1) by (simp add: connected_def)
    moreover have "card {ident. reachable objs content refs' ident} \<le> MaxGitObjects"
      using card_mono [OF connected_finite [OF assms(1)] sub] assms(1) by (simp add: connected_def)
    moreover have "\<forall>l \<in> set (nodeLinks objs content ident). linkOk objs l" if "reachable objs content refs' ident" for ident
      using links [OF key [OF that]] ok [OF key [OF that]] by simp
    ultimately show ?thesis using refs node unfolding connected_def by blast
  qed
qed

context object_source
begin

lemma walkObjects_walk:
  "walkObjects ctx refs infos get r = (res, r') \<longleftrightarrow> walkObjectsIndexed ctx refs infos get (\<lambda>_ _ u. u) r () = (res, r', ())"
  by (auto simp: walkObjects_def split: prod.splits)

lemma walkObjects_spec:
  assumes "al_wf infos" and "ready r"
  shows "(\<exists>result r'. walkObjects Background refs infos get r = (Inr result, r')) \<longleftrightarrow> connected infos content refs"
    and "walkObjects ctx refs infos get r = (Inr result, r') \<Longrightarrow>
      ready r' \<and> connected infos content refs \<and> al_wf result \<and> fst ` set result = {ident. reachable infos content refs ident} \<and>
      (\<forall>ident info. map_of result ident = Some info \<longrightarrow> map_of infos ident = Some info)"
  using walk_exact(1) [OF assms, of refs "\<lambda>_ _ u. u" "()"] walk_exact(2) [OF assms, of ctx refs "\<lambda>_ _ u. u" "()" result r' "()"]
  unfolding walkObjects_walk by auto

lemma Reachable_same:
  assumes "loadGraph ctx memoryLimit refs infos get r = (Inr (graph, sz), r')" and "al_wf infos" and "ready r" and "ready r''"
  shows "fst (Reachable Background (Some graph) (vg_objects graph) get refs' r'') = fst (Reachable Background None (vg_objects graph) get refs' r'')"
proof (cases "vg_links graph")
  case (Some m)
  let ?objs = "vg_objects graph"
  obtain links sz' where walk: "walkObjectsIndexed ctx refs infos get (graphNote (min maxGraphIndexBytes memoryLimit)) r (Some [], 128) =
      (Inr ?objs, r', (links, sz'))" and "graph = \<lparr>vg_objects = ?objs, vg_links = links\<rparr>"
    using assms(1) by (auto simp: loadGraph_def split: prod.splits sum.splits)
  then have links: "links = Some m" using Some by (metis validatedGraph.select_convs(2))
  have con: "connected infos content refs" and wf: "al_wf ?objs" and keys: "fst ` set ?objs = {ident. reachable infos content refs ident}"
    and sub: "\<forall>ident info. map_of ?objs ident = Some info \<longrightarrow> map_of infos ident = Some info"
    and fold: "fold (visit infos content (graphNote (min maxGraphIndexBytes memoryLimit))) ?objs (Some [], 128) = (Some m, sz')"
    using walk_exact(2) [OF assms(2,3) walk] links by auto
  note part = connected_part [OF con wf keys sub]
  have index: "linksIn m ident = nodeLinks ?objs content ident" if key: "ident \<in> fst ` set ?objs" for ident
  proof -
    obtain info where info: "map_of ?objs ident = Some info" using key by (metis map_of_eq_None_iff not_Some_eq)
    have "\<And>i. (ident, i) \<in> set ?objs \<Longrightarrow> i = info" using wf info by (simp add: al_wf_map_of)
    then have "map_of m ident = (if oi_Type info \<noteq> ''blob'' then Some (nodeLinks infos content ident) else None)"
      using fold_graphNote [OF fold, of ident] info by (auto dest: map_of_SomeD)
    then show ?thesis using part(1) key info by (auto simp: linksIn_def nodeLinks_def)
  qed
  have graph: "Reachable Background (Some graph) ?objs get refs' r'' = (graphReachable Background graph refs', r'')"
    using Some by (simp add: Reachable_def)
  show ?thesis
  proof (cases "\<forall>p \<in> set refs'. linkOk ?objs (refLink p)")
    case True
    obtain result r3 where w: "walkObjects Background refs' ?objs get r'' = (Inr result, r3)"
      using walkObjects_spec(1) [OF wf assms(4)] part(2) [OF True] by blast
    have "al_wf result" "fst ` set result = {ident. reachable ?objs content refs' ident}"
      using walkObjects_spec(2) [OF wf assms(4) w] by blast+
    then have "sort (map fst result) = sorted_list_of_set {ident. reachable ?objs content refs' ident}"
      using sorted_list_of_set_sort_remdups [of "map fst result"] by (simp add: al_wf_def distinct_remdups_id)
    moreover obtain new where new: "graphAddAll ?objs (map refLink refs') ([], []) = Inr (new, new)"
      "set new \<subseteq> link_id ` set (map refLink refs')" "distinct new" "link_id ` set (map refLink refs') \<subseteq> set new"
      using graphAddAll_ok [of "map refLink refs'" ?objs "[]" "[]"] True by auto
    have lid: "link_id (refLink p) = snd p" for p by (auto simp: refLink_def split: prod.splits)
    have ids: "set new = snd ` set refs'" using new(2,4) by (simp add: image_image lid subset_antisym)
    have "snd p \<in> fst ` set ?objs" if "p \<in> set refs'" for p
    proof -
      have "linkOk ?objs (refLink p)" using True that by blast
      then obtain info where "map_of ?objs (snd p) = Some info" by (auto simp: linkOk_def lid)
      then show ?thesis by (force dest: map_of_SomeD)
    qed
    then have "graphLoop Background ?objs m (new, new) = Inr (sorted_list_of_set {ident. reachable ?objs content refs' ident})"
      using index part(1) new(3) ids by (intro graphLoop_exact) (auto intro: reachable.ref)
    ultimately show ?thesis unfolding graph by (simp add: Reachable_def w graphReachable_def new(1) Some)
  next
    case False
    have "card (fst ` set ?objs) \<le> MaxGitObjects" using con keys by (simp add: connected_def)
    then have "enqueueAll ?objs (map refLink refs') ([], []) = Inl RepoErrInvalid"
      using False by (intro enqueueAll_fail) auto
    moreover have "graphAddAll ?objs (map refLink refs') ([], []) = Inl RepoErrInvalid" using False by (intro graphAddAll_fail) auto
    ultimately show ?thesis unfolding graph by (simp add: Reachable_def graphReachable_def walkObjects_def walkObjectsIndexed_def)
  qed
qed (simp add: Reachable_def)

end


section \<open>Properties of the walks\<close>

text \<open>
  C30. The object walk of a publication is exact: it succeeds precisely when every reference and every link
  that can be reached from the references leads to a known object of the expected type, every reached
  object other than a blob reads back under its ID and its SHA-256 and parses, and the reached objects keep within the count and byte limits;
  and then it returns precisely the reached objects, each once and with its manifest entry. It holds for every order of the references and for every getter that keeps the
  contract of an object source.
\<close>

theorem walkObjects_exact:
  assumes "object_source get ready content" and "al_wf infos" and "ready r"
  shows "((\<exists>result r'. walkObjects Background refs infos get r = (Inr result, r')) \<longleftrightarrow> connected infos content refs) \<and>
    (\<forall>ctx result r'. walkObjects ctx refs infos get r = (Inr result, r') \<longrightarrow>
       connected infos content refs \<and> distinct (map fst result) \<and>
       fst ` set result = {ident. reachable infos content refs ident} \<and>
       (\<forall>(ident, info) \<in> set result. map_of infos ident = Some info))"
proof (intro conjI allI impI)
  show "(\<exists>result r'. walkObjects Background refs infos get r = (Inr result, r')) \<longleftrightarrow> connected infos content refs"
    by (rule object_source.walkObjects_spec(1) [OF assms])
  fix ctx result r'
  assume "walkObjects ctx refs infos get r = (Inr result, r')"
  note spec = object_source.walkObjects_spec(2) [OF assms this]
  then show "connected infos content refs" "distinct (map fst result)" "fst ` set result = {ident. reachable infos content refs ident}"
    by (simp_all add: al_wf_def)
  show "\<forall>(ident, info) \<in> set result. map_of infos ident = Some info"
    using spec by (auto simp: al_wf_map_of)
qed

text \<open>A tree with a submodule, referred to by a tag.\<close>

definition sampleTree :: GitObject where
  "sampleTree = \<lparr>ObjectType = ''tree'', ObjectData = bytes_of ''160000 sub'' @ 0 # replicate 20 7\<rparr>"

definition sampleObjects :: "(string \<times> GitObject) list" where
  "sampleObjects = [(GitObjectID sampleTree, sampleTree)]"

definition sampleRefs :: refs where
  "sampleRefs = [(''refs/tags/v1'', GitObjectID sampleTree)]"

lemma GitObjectID_pattern: "objectIDPattern (GitObjectID o1)"
  using lowerHex_EncodeToString [of _ 20] by (simp add: objectIDPattern_def GitObjectID_eq objectID_def)

lemma sampleTree_links: "gitLinks sampleTree = Inr []"
  by code_simp

lemma sample_graph:
  "al_wf (objectInfos sampleObjects)" "al_wf sampleObjects" "connected (objectInfos sampleObjects) (map_of sampleObjects) sampleRefs"
  "reachable (objectInfos sampleObjects) (map_of sampleObjects) sampleRefs ident \<longleftrightarrow> ident = GitObjectID sampleTree"
proof -
  show wf: "al_wf (objectInfos sampleObjects)" "al_wf sampleObjects"
    unfolding al_wf_def keys_objectInfos by (simp_all add: sampleObjects_def)
  have links: "nodeLinks (objectInfos sampleObjects) (map_of sampleObjects) (GitObjectID sampleTree) = []"
    by (rule nodeLinks_objects [OF _ sampleTree_links]) (simp add: sampleObjects_def)
  have "ident = GitObjectID sampleTree" if "reachable (objectInfos sampleObjects) (map_of sampleObjects) sampleRefs ident" for ident
    using that by (induction rule: reachable.induct) (use links in \<open>auto simp: sampleRefs_def\<close>)
  moreover have "reachable (objectInfos sampleObjects) (map_of sampleObjects) sampleRefs (GitObjectID sampleTree)"
    using reachable.ref [of "hd sampleRefs" sampleRefs] by (simp add: sampleRefs_def)
  ultimately show reach: "reachable (objectInfos sampleObjects) (map_of sampleObjects) sampleRefs ident \<longleftrightarrow> ident = GitObjectID sampleTree" for ident
    by blast
  have size: "length (ObjectData sampleTree) = 31" by (simp add: sampleTree_def)
  have "linkOk (objectInfos sampleObjects) (refLink p)" if "p \<in> set sampleRefs" for p
    using that by (simp add: linkOk_def refLink_def sampleRefs_def sampleObjects_def)
  moreover have "nodeOk (objectInfos sampleObjects) (map_of sampleObjects) (GitObjectID sampleTree)"
    using GitObjectID_pattern [of sampleTree] sampleTree_links size by (simp add: nodeOk_def sampleObjects_def MaxGitObjectBytes_def)
  ultimately show "connected (objectInfos sampleObjects) (map_of sampleObjects) sampleRefs"
    unfolding connected_def reach using links size
    by (simp add: MaxGitObjects_def MaxGitBytes_def sizeIn_def sampleObjects_def)
qed

theorem walkObjects_exact_witness:
  "\<exists>result. walkObjects Background sampleRefs (objectInfos sampleObjects) (incomingGetter sampleObjects) () = (Inr result, ()) \<and>
     fst ` set result = {GitObjectID sampleTree}"
proof -
  note ex = walkObjects_exact [OF incoming.object_source_axioms [of sampleObjects] sample_graph(1) TrueI, of sampleRefs]
  obtain result where w: "walkObjects Background sampleRefs (objectInfos sampleObjects) (incomingGetter sampleObjects) () = (Inr result, ())"
    using ex sample_graph(3) by auto
  then have "fst ` set result = {ident. ident = GitObjectID sampleTree}" using ex unfolding sample_graph(4) by blast
  then show ?thesis using w by auto
qed



text \<open>
  The walk over objects in memory and the walk over manifest entries agree: whatever \<open>ReachableGit\<close> accepts,
  the object walk accepts as well with the same objects, all of which are unchanged objects of the input.
\<close>

theorem ReachableGit_walkObjects:
  assumes "ReachableGit ctx refs objs = Inr result" and "al_wf objs"
  shows "\<exists>reached. walkObjects Background refs (objectInfos objs) (incomingGetter objs) () = (Inr reached, ()) \<and>
    fst ` set reached = fst ` set result \<and> distinct (map fst result) \<and> set result \<subseteq> set objs"
proof -
  have con: "connected (objectInfos objs) (map_of objs) refs" "al_wf result"
    "fst ` set result = {ident. reachable (objectInfos objs) (map_of objs) refs ident}"
    "\<forall>ident object. map_of result ident = Some object \<longrightarrow> map_of objs ident = Some object"
    using ReachableGit_sound [OF assms] by blast+
  have wf: "al_wf (objectInfos objs)" using assms(2) unfolding al_wf_def keys_objectInfos .
  obtain reached where w: "walkObjects Background refs (objectInfos objs) (incomingGetter objs) () = (Inr reached, ())"
    using incoming.walkObjects_spec(1) [OF wf TrueI] con(1) by auto
  have "fst ` set reached = fst ` set result" using incoming.walkObjects_spec(2) [OF wf TrueI w] con(3) by auto
  moreover have "set result \<subseteq> set objs"
    using con(4) by (auto simp: al_wf_map_of [OF con(2)] al_wf_map_of [OF assms(2)])
  ultimately show ?thesis using w con(2) by (auto simp: al_wf_def)
qed

theorem ReachableGit_walkObjects_witness:
  "\<exists>result. ReachableGit Background sampleRefs sampleObjects = Inr result \<and> set result \<subseteq> set sampleObjects"
proof -
  have "reachLoop Background sampleObjects [] result tot = Inr result" for result tot by (simp add: reachLoop.simps)
  moreover have "length (ObjectData sampleTree) = 31" by (simp add: sampleTree_def)
  ultimately have r: "ReachableGit Background sampleRefs sampleObjects = Inr sampleObjects"
    unfolding ReachableGit_def
    by (subst reachLoop.simps)
      (simp add: sampleRefs_def refLink_def sampleTree_links prefix_def repository_limits Let_def, simp add: sampleObjects_def
        reachLoop.simps sampleTree_links repository_limits)
  show ?thesis using ReachableGit_walkObjects [OF r sample_graph(2)] r by blast
qed

end
