(* ===== verification/GoTime.thy ===== *)
theory GoTime
  imports RepositoryStore
begin

text \<open>
  What the code uses of \<^verbatim>\<open>time.Time\<close>: the calendar fields with the zone offset in minutes, the JSON form
  (RFC 3339 with nanoseconds), \<^verbatim>\<open>IsZero\<close> and \<^verbatim>\<open>Unix\<close>.
\<close>

record Time =
  tm_year :: nat
  tm_month :: nat
  tm_day :: nat
  tm_hour :: nat
  tm_minute :: nat
  tm_second :: nat
  tm_nano :: nat
  tm_offset :: int

definition leapYear :: "nat \<Rightarrow> bool" where
  "leapYear y \<longleftrightarrow> 4 dvd y \<and> (\<not> 100 dvd y \<or> 400 dvd y)"

definition daysIn :: "nat \<Rightarrow> nat \<Rightarrow> nat" where
  "daysIn m y = (if m = 2 then (if leapYear y then 29 else 28) else if m \<in> {4, 6, 9, 11} then 30 else 31)"

definition validTime :: "Time \<Rightarrow> bool" where
  "validTime t \<longleftrightarrow>
     tm_year t \<le> 9999 \<and> 1 \<le> tm_month t \<and> tm_month t \<le> 12 \<and> 1 \<le> tm_day t \<and> tm_day t \<le> daysIn (tm_month t) (tm_year t) \<and>
     tm_hour t < 24 \<and> tm_minute t < 60 \<and> tm_second t < 60 \<and> tm_nano t < 1000000000 \<and>
     - 1440 < tm_offset t \<and> tm_offset t < 1440"

section \<open>Instants\<close>

text \<open>Days since 1970-01-01 of a date of the proleptic Gregorian calendar, with years that start in March.\<close>

definition daysFromCivil :: "nat \<Rightarrow> nat \<Rightarrow> nat \<Rightarrow> int" where
  "daysFromCivil y m d =
     (let y' = int y - (if m \<le> 2 then 1 else 0);
          era = y' div 400;
          yoe = y' - era * 400;
          doy = (153 * (int m + (if m > 2 then - 3 else 9)) + 2) div 5 + int d - 1;
          doe = yoe * 365 + yoe div 4 - yoe div 100 + doy
      in era * 146097 + doe - 719468)"

definition Unix :: "Time \<Rightarrow> int" where
  "Unix t = daysFromCivil (tm_year t) (tm_month t) (tm_day t) * 86400 + int (tm_hour t) * 3600 + int (tm_minute t) * 60 +
     int (tm_second t) - tm_offset t * 60"

definition IsZero :: "Time \<Rightarrow> bool" where
  "IsZero t \<longleftrightarrow> Unix t = - 62135596800 \<and> tm_nano t = 0"

definition zeroTime :: Time where
  "zeroTime = \<lparr>tm_year = 1, tm_month = 1, tm_day = 1, tm_hour = 0, tm_minute = 0, tm_second = 0, tm_nano = 0, tm_offset = 0\<rparr>"

lemma IsZero_zeroTime: "IsZero zeroTime"
  by (simp add: IsZero_def zeroTime_def Unix_def daysFromCivil_def)

section \<open>The JSON form\<close>

definition padded :: "nat \<Rightarrow> nat \<Rightarrow> string" where
  "padded w n = replicate (w - length (FormatUint n)) CHR ''0'' @ FormatUint n"

definition stripZeros :: "string \<Rightarrow> string" where
  "stripZeros s = rev (dropWhile (\<lambda>c. c = CHR ''0'') (rev s))"

definition formatZone :: "int \<Rightarrow> string" where
  "formatZone off =
     (if off = 0 then ''Z''
      else (if off < 0 then ''-'' else ''+'') @ padded 2 (nat (\<bar>off\<bar> div 60)) @ '':'' @ padded 2 (nat (\<bar>off\<bar> mod 60)))"

definition formatTime :: "Time \<Rightarrow> string" where
  "formatTime t =
     padded 4 (tm_year t) @ ''-'' @ padded 2 (tm_month t) @ ''-'' @ padded 2 (tm_day t) @ ''T'' @
     padded 2 (tm_hour t) @ '':'' @ padded 2 (tm_minute t) @ '':'' @ padded 2 (tm_second t) @
     (if tm_nano t = 0 then [] else ''.'' @ stripZeros (padded 9 (tm_nano t))) @ formatZone (tm_offset t)"

text \<open>A number of exactly \<open>w\<close> digits within bounds at the front, and a byte at the front.\<close>

definition takeNumber :: "nat \<Rightarrow> nat \<Rightarrow> nat \<Rightarrow> string \<Rightarrow> (nat \<times> string) option" where
  "takeNumber w lo hi s =
     (if w \<le> length s \<and> list_all is_digit (take w s) \<and> lo \<le> decimalValue (take w s) \<and> decimalValue (take w s) \<le> hi
      then Some (decimalValue (take w s), drop w s) else None)"

definition takeByte :: "char \<Rightarrow> string \<Rightarrow> string option" where
  "takeByte c s = (case s of x # r \<Rightarrow> if x = c then Some r else None | [] \<Rightarrow> None)"

definition parseZone :: "string \<Rightarrow> int option" where
  "parseZone s =
     (if s = ''Z'' then Some 0
      else (case s of
          [] \<Rightarrow> None
        | sign # r \<Rightarrow>
            if length s \<noteq> 6 \<or> sign \<noteq> CHR ''+'' \<and> sign \<noteq> CHR ''-'' then None
            else Option.bind (takeNumber 2 0 23 r) (\<lambda>(hr, r).
                 Option.bind (takeByte CHR '':'' r) (\<lambda>r.
                 Option.bind (takeNumber 2 0 59 r) (\<lambda>(mn, _).
                   Some ((if sign = CHR ''-'' then - 1 else 1) * int (hr * 60 + mn)))))))"

definition parseFraction :: "string \<Rightarrow> nat \<times> string" where
  "parseFraction s =
     (case s of
        c # d # r \<Rightarrow>
          if c = CHR ''.'' \<and> is_digit d
          then (let ds = takeWhile is_digit (d # r)
                in (decimalValue (take 9 ds) * 10 ^ (9 - length ds), dropWhile is_digit (d # r)))
          else (0, s)
      | _ \<Rightarrow> (0, s))"

definition parseTime :: "string \<Rightarrow> Time option" where
  "parseTime s =
     Option.bind (takeNumber 4 0 9999 s) (\<lambda>(y, s). Option.bind (takeByte CHR ''-'' s) (\<lambda>s.
     Option.bind (takeNumber 2 1 12 s) (\<lambda>(m, s). Option.bind (takeByte CHR ''-'' s) (\<lambda>s.
     Option.bind (takeNumber 2 1 (daysIn m y) s) (\<lambda>(d, s). Option.bind (takeByte CHR ''T'' s) (\<lambda>s.
     Option.bind (takeNumber 2 0 23 s) (\<lambda>(hh, s). Option.bind (takeByte CHR '':'' s) (\<lambda>s.
     Option.bind (takeNumber 2 0 59 s) (\<lambda>(mm, s). Option.bind (takeByte CHR '':'' s) (\<lambda>s.
     Option.bind (takeNumber 2 0 59 s) (\<lambda>(ss, s).
     (let (nano, s) = parseFraction s in
     Option.bind (parseZone s) (\<lambda>off.
       Some \<lparr>tm_year = y, tm_month = m, tm_day = d, tm_hour = hh, tm_minute = mm, tm_second = ss, tm_nano = nano, tm_offset = off\<rparr>)))))))))))))"

section \<open>Round trip\<close>

lemma decimalValue_zeros: "decimalValue (replicate k CHR ''0'' @ s) = decimalValue s"
proof -
  have "foldl (\<lambda>n c. 10 * n + (code c - 48)) 0 (replicate k CHR ''0'') = 0" by (induction k) auto
  then show ?thesis by simp
qed

lemma padded_facts:
  assumes "n < 10 ^ w" and "0 < w"
  shows "length (padded w n) = w" "list_all is_digit (padded w n)" "decimalValue (padded w n) = n"
proof -
  obtain k where "w = Suc k" using assms(2) by (cases w) auto
  then have "length (FormatUint n) \<le> w" using length_FormatUint [of n k] assms(1) by simp
  then show "length (padded w n) = w" by (simp add: padded_def)
  show "list_all is_digit (padded w n)" using FormatUint_digits [of n] by (auto simp: padded_def list_all_iff is_digit_def)
  show "decimalValue (padded w n) = n" unfolding padded_def decimalValue_zeros by (rule decimalValue_FormatUint)
qed

lemma takeNumber_padded:
  assumes "n < 10 ^ w" "0 < w" "lo \<le> n" "n \<le> hi"
  shows "takeNumber w lo hi (padded w n @ s) = Some (n, s)"
  using padded_facts [OF assms(1,2)] assms(3,4) by (simp add: takeNumber_def del: decimalValue.simps)

lemma takeByte_Cons: "takeByte c (c # s) = Some s"
  by (simp add: takeByte_def)

lemma parseZone_formatZone:
  assumes "- 1440 < off" "off < 1440"
  shows "parseZone (formatZone off) = Some off"
proof (cases "off = 0")
  case False
  define h m where "h = nat (\<bar>off\<bar> div 60)" and "m = nat (\<bar>off\<bar> mod 60)"
  have hm: "h < 24" "m < 60" and off: "\<bar>off\<bar> = int (h * 60 + m)" using assms by (auto simp: h_def m_def)
  have len: "length (padded 2 h) = 2" "length (padded 2 m) = 2" using padded_facts(1) hm by simp_all
  have z: "formatZone off = (if off < 0 then CHR ''-'' else CHR ''+'') # padded 2 h @ CHR '':'' # padded 2 m @ []"
    using False by (simp add: formatZone_def h_def m_def)
  have "formatZone off \<noteq> ''Z''" unfolding z by auto
  moreover have "takeNumber 2 0 23 (padded 2 h @ CHR '':'' # padded 2 m @ []) = Some (h, CHR '':'' # padded 2 m @ [])"
    using hm by (intro takeNumber_padded) simp_all
  moreover have "takeNumber 2 0 59 (padded 2 m @ []) = Some (m, [])" using hm by (intro takeNumber_padded) simp_all
  moreover have "off < 0 \<Longrightarrow> - (int h * 60) - int m = off" "\<not> off < 0 \<Longrightarrow> int h * 60 + int m = off" using off by auto
  ultimately show ?thesis unfolding parseZone_def z using len by (simp add: takeByte_Cons)
qed (simp add: formatZone_def parseZone_def)

lemma formatZone_hd: "\<exists>c r. formatZone off = c # r \<and> c \<in> {CHR ''Z'', CHR ''+'', CHR ''-''}"
  by (auto simp: formatZone_def)

lemma stripZeros_append: "\<exists>k. s = stripZeros s @ replicate k CHR ''0''"
proof -
  have "rev s = takeWhile (\<lambda>c. c = CHR ''0'') (rev s) @ dropWhile (\<lambda>c. c = CHR ''0'') (rev s)" by simp
  moreover have "takeWhile (\<lambda>c. c = CHR ''0'') (rev s) = replicate (length (takeWhile (\<lambda>c. c = CHR ''0'') (rev s))) CHR ''0''"
    by (rule replicate_length_same [symmetric]) (auto dest: set_takeWhileD)
  ultimately have "rev (rev s) = stripZeros s @ replicate (length (takeWhile (\<lambda>c. c = CHR ''0'') (rev s))) CHR ''0''"
    unfolding stripZeros_def by (metis rev_append rev_replicate)
  then show ?thesis by auto
qed

lemma decimalValue_append_zeros: "decimalValue (s @ replicate k CHR ''0'') = decimalValue s * 10 ^ k"
proof (induction k)
  case (Suc k)
  have "replicate (Suc k) CHR ''0'' = replicate k CHR ''0'' @ [CHR ''0'']" by (simp add: replicate_append_same)
  then show ?case using Suc by (simp add: algebra_simps)
qed simp

lemma parseFraction_format:
  assumes "n < 1000000000" and "z = c # r" and "c \<in> {CHR ''Z'', CHR ''+'', CHR ''-''}"
  shows "parseFraction ((if n = 0 then [] else ''.'' @ stripZeros (padded 9 n)) @ z) = (n, z)"
proof (cases "n = 0")
  case True
  have "c \<noteq> CHR ''.''" using assms(3) by auto
  then show ?thesis using True assms(2) by (cases r) (simp_all add: parseFraction_def)
next
  case False
  define ds where "ds = stripZeros (padded 9 n)"
  obtain k where k: "padded 9 n = ds @ replicate k CHR ''0''" using stripZeros_append [of "padded 9 n"] by (auto simp: ds_def)
  have facts: "length (padded 9 n) = 9" "list_all is_digit (padded 9 n)" "decimalValue (padded 9 n) = n"
    using padded_facts [of n 9] assms(1) by simp_all
  have len: "length ds + k = 9" using facts(1) unfolding k by simp
  have val: "decimalValue ds * 10 ^ k = n" using facts(3) unfolding k decimalValue_append_zeros .
  have "ds \<noteq> []" using val False by auto
  then obtain d t where dt: "ds = d # t" by (cases ds) auto
  have dig: "list_all is_digit ds" using facts(2) unfolding k by simp
  have "\<not> is_digit c" using assms(3) by (auto simp: is_digit_def)
  then have tw: "takeWhile is_digit (ds @ z) = ds" "dropWhile is_digit (ds @ z) = z"
    using dig assms(2) by (simp_all add: list_all_iff takeWhile_append dropWhile_append)
  have "is_digit d" "take 9 ds = ds" "9 - length ds = k" using dig dt len by simp_all
  then show ?thesis using False tw val unfolding ds_def [symmetric]
    by (simp add: parseFraction_def dt del: decimalValue.simps)
qed

lemma parseTime_formatTime:
  assumes "validTime t"
  shows "parseTime (formatTime t) = Some t"
proof -
  note v = assms [unfolded validTime_def]
  have day: "tm_day t < 10 ^ 2" using v by (auto simp: daysIn_def split: if_splits)
  obtain c r where z: "formatZone (tm_offset t) = c # r" "c \<in> {CHR ''Z'', CHR ''+'', CHR ''-''}" using formatZone_hd by blast
  have frac: "parseFraction ((if tm_nano t = 0 then [] else ''.'' @ stripZeros (padded 9 (tm_nano t))) @ formatZone (tm_offset t)) =
      (tm_nano t, formatZone (tm_offset t))"
    using parseFraction_format [of "tm_nano t", OF _ z] v by simp
  have n4: "takeNumber 4 0 9999 (padded 4 (tm_year t) @ s) = Some (tm_year t, s)" for s using v by (intro takeNumber_padded) simp_all
  have n2: "takeNumber 2 1 12 (padded 2 (tm_month t) @ s) = Some (tm_month t, s)"
    "takeNumber 2 1 (daysIn (tm_month t) (tm_year t)) (padded 2 (tm_day t) @ s) = Some (tm_day t, s)"
    "takeNumber 2 0 23 (padded 2 (tm_hour t) @ s) = Some (tm_hour t, s)"
    "takeNumber 2 0 59 (padded 2 (tm_minute t) @ s) = Some (tm_minute t, s)"
    "takeNumber 2 0 59 (padded 2 (tm_second t) @ s) = Some (tm_second t, s)" for s
    using v day by (simp_all add: takeNumber_padded)
  have "parseZone (formatZone (tm_offset t)) = Some (tm_offset t)" using v by (intro parseZone_formatZone) simp_all
  then show ?thesis unfolding parseTime_def formatTime_def
    using frac by (simp add: n4 n2 takeByte_Cons del: One_nat_def)
qed

lemma formatTime_ascii: "ascii (formatTime t)"
proof -
  have d: "is_digit c \<Longrightarrow> code c < 128" for c by (simp add: is_digit_def)
  have p: "list_all (\<lambda>c. code c < 128) (padded w n)" for w n
    using FormatUint_digits [of n] d by (auto simp: padded_def list_all_iff)
  have s: "list_all (\<lambda>c. code c < 128) (stripZeros (padded w n))" for w n
  proof -
    obtain k where "padded w n = stripZeros (padded w n) @ replicate k CHR ''0''" using stripZeros_append by blast
    then show ?thesis using p [of w n] by (metis list_all_append)
  qed
  show ?thesis unfolding ascii_def formatTime_def formatZone_def using p s by simp
qed

end
