(* ===== verification/RepositorySnapshots.thy ===== *)
theory RepositorySnapshots
  imports GitReach GoTime ShardPath Publication
begin

text \<open>
  \<^verbatim>\<open>internal/repository/repository.go\<close> and \<^verbatim>\<open>git.go\<close>: the records that describe a repository, their JSON form, and the immutable
  reference and manifest snapshots in the object store. The store is the one without a cache (\<^verbatim>\<open>withoutCache\<close>, or \<^verbatim>\<open>New\<close> without
  \<^verbatim>\<open>WithCache\<close>): every read reaches the object store.
\<close>

section \<open>Records\<close>

record Metadata =
  md_ID :: string
  md_Namespace :: string
  md_Name :: string
  md_Description :: string
  md_DefaultBranch :: string
  md_CreatedAt :: Time
  md_CreatedBy :: string
  md_Visibility :: string
  md_IsEmpty :: bool

record metadataRecord =
  mr_Schema :: int
  mr_Metadata :: Metadata

record refsSnapshot =
  rs_Schema :: int
  rs_Refs :: "refs option"

record snapshot =
  sn_metadata :: Metadata
  sn_refs :: refsSnapshot
  sn_manifest :: objectManifest
  sn_state :: RepositoryState
  sn_version :: Version

record GitSnapshot =
  gs_DefaultBranch :: string
  gs_References :: refs
  gs_Objects :: "(string \<times> GitObject) list"
  gs_original :: snapshot
  gs_available :: "infos option"

record RefUpdate =
  ru_Name :: string
  ru_Old :: string
  ru_New :: string

section \<open>Their JSON form\<close>

text \<open>\<^verbatim>\<open>encoding/json\<close> writes a map with its keys sorted, a nil map or pointer as \<^verbatim>\<open>null\<close>, and leaves an empty \<^verbatim>\<open>omitempty\<close> field out.\<close>

definition mapJson :: "('v \<Rightarrow> json) \<Rightarrow> (string \<times> 'v) list option \<Rightarrow> json" where
  "mapJson f m = (case m of None \<Rightarrow> JNull | Some m \<Rightarrow> JObj (map (\<lambda>(k, v). (k, f v)) (sort_key fst m)))"

definition omitEmpty :: "bool \<Rightarrow> string \<Rightarrow> json \<Rightarrow> (string \<times> json) list" where
  "omitEmpty isEmpty name v = (if isEmpty then [] else [(name, v)])"

definition refsJson :: "refsSnapshot \<Rightarrow> json" where
  "refsJson r = JObj [(''schemaVersion'', JNum (FormatInt (rs_Schema r))), (''refs'', mapJson JStr (rs_Refs r))]"

definition objectInfoJson :: "objectInfo \<Rightarrow> json" where
  "objectInfoJson info = JObj
     ([(''type'', JStr (oi_Type info)), (''size'', JNum (FormatInt (oi_Size info))), (''sha256'', JStr (oi_SHA256 info))] @
      omitEmpty (oi_PackKey info = []) ''packKey'' (JStr (oi_PackKey info)) @
      omitEmpty (oi_Offset info = 0) ''offset'' (JNum (FormatInt (oi_Offset info))) @
      omitEmpty (oi_Length info = 0) ''length'' (JNum (FormatInt (oi_Length info))) @
      omitEmpty (oi_CRC32 info = 0) ''crc32'' (JNum (FormatUint (unat (oi_CRC32 info)))))"

definition lfsIndexJson :: "lfsIndex \<Rightarrow> json" where
  "lfsIndexJson index = JObj
     [(''version'', JNum (FormatInt (lfs_Version index))), (''objects'', mapJson (\<lambda>n. JNum (FormatInt n)) (lfs_Objects index))]"

definition manifestJson :: "objectManifest \<Rightarrow> json" where
  "manifestJson manifest = JObj
     ([(''schemaVersion'', JNum (FormatInt (mf_Schema manifest))), (''objectFormat'', JStr (mf_ObjectFormat manifest)),
       (''objects'', mapJson objectInfoJson (mf_Objects manifest))] @
      (case mf_LFS manifest of None \<Rightarrow> [] | Some index \<Rightarrow> [(''lfs'', lfsIndexJson index)]))"

definition metadataJson :: "Metadata \<Rightarrow> json" where
  "metadataJson m = JObj
     [(''id'', JStr (md_ID m)), (''namespace'', JStr (md_Namespace m)), (''name'', JStr (md_Name m)),
      (''description'', JStr (md_Description m)), (''defaultBranch'', JStr (md_DefaultBranch m)),
      (''createdAt'', JStr (formatTime (md_CreatedAt m))), (''createdBy'', JStr (md_CreatedBy m)),
      (''visibility'', JStr (md_Visibility m)), (''empty'', JBool (md_IsEmpty m))]"

definition metadataRecordJson :: "metadataRecord \<Rightarrow> json" where
  "metadataRecordJson r = JObj
     [(''schemaVersion'', JNum (FormatInt (mr_Schema r))), (''repository'', metadataJson (mr_Metadata r))]"

section \<open>Decoding\<close>

text \<open>A map member is decoded on its own and replaces an earlier one, a second object is merged into the map of the first, \<^verbatim>\<open>null\<close> gives a nil map.\<close>

fun putMembers :: "(json \<Rightarrow> 'v option) \<Rightarrow> (string \<times> json) list \<Rightarrow> (string \<times> 'v) list \<Rightarrow> (string \<times> 'v) list option" where
  "putMembers dec [] m = Some m"
| "putMembers dec ((k, v) # ms) m = (case dec v of None \<Rightarrow> None | Some x \<Rightarrow> putMembers dec ms (al_put k x m))"

definition map_field :: "(json \<Rightarrow> 'v option) \<Rightarrow> ('r \<Rightarrow> (string \<times> 'v) list option) \<Rightarrow> ((string \<times> 'v) list option \<Rightarrow> 'r \<Rightarrow> 'r)
    \<Rightarrow> json \<Rightarrow> 'r \<Rightarrow> 'r option" where
  "map_field dec sel upd v r =
     (case v of
        JNull \<Rightarrow> Some (upd None r)
      | JObj ms \<Rightarrow> map_option (\<lambda>m. upd (Some m) r) (putMembers dec ms (case sel r of None \<Rightarrow> [] | Some m \<Rightarrow> m))
      | _ \<Rightarrow> None)"

definition pointer_field :: "'a field list \<Rightarrow> 'a \<Rightarrow> ('r \<Rightarrow> 'a option) \<Rightarrow> ('a option \<Rightarrow> 'r \<Rightarrow> 'r) \<Rightarrow> json \<Rightarrow> 'r \<Rightarrow> 'r option" where
  "pointer_field fs zero sel upd v r =
     (if v = JNull then Some (upd None r)
      else map_option (\<lambda>a. upd (Some a) r) (decode_struct fs v (case sel r of None \<Rightarrow> zero | Some a \<Rightarrow> a)))"

definition uint32_field :: "(32 word \<Rightarrow> 'r \<Rightarrow> 'r) \<Rightarrow> json \<Rightarrow> 'r \<Rightarrow> 'r option" where
  "uint32_field upd v r =
     (case v of
        JNum l \<Rightarrow> (case ParseUint l of Some n \<Rightarrow> if n < 2 ^ 32 then Some (upd (of_nat n) r) else None | None \<Rightarrow> None)
      | JNull \<Rightarrow> Some r
      | _ \<Rightarrow> None)"

text \<open>\<^verbatim>\<open>Time.UnmarshalJSON\<close>, for strings without escapes.\<close>

definition time_field :: "(Time \<Rightarrow> 'r \<Rightarrow> 'r) \<Rightarrow> json \<Rightarrow> 'r \<Rightarrow> 'r option" where
  "time_field upd v r =
     (case v of JStr s \<Rightarrow> map_option (\<lambda>t. upd t r) (parseTime s) | JNull \<Rightarrow> Some r | _ \<Rightarrow> None)"

definition refsFields :: "refsSnapshot field list" where
  "refsFields =
     [(''schemaVersion'', int_field (\<lambda>x r. r\<lparr>rs_Schema := x\<rparr>)),
      (''refs'', map_field (\<lambda>v. string_field (\<lambda>s _. s) v []) rs_Refs (\<lambda>x r. r\<lparr>rs_Refs := x\<rparr>))]"

definition zeroInfo :: objectInfo where
  "zeroInfo = \<lparr>oi_Type = [], oi_Size = 0, oi_SHA256 = [], oi_PackKey = [], oi_Offset = 0, oi_Length = 0, oi_CRC32 = 0\<rparr>"

definition objectInfoFields :: "objectInfo field list" where
  "objectInfoFields =
     [(''type'', string_field (\<lambda>x r. r\<lparr>oi_Type := x\<rparr>)),
      (''size'', int_field (\<lambda>x r. r\<lparr>oi_Size := x\<rparr>)),
      (''sha256'', string_field (\<lambda>x r. r\<lparr>oi_SHA256 := x\<rparr>)),
      (''packKey'', string_field (\<lambda>x r. r\<lparr>oi_PackKey := x\<rparr>)),
      (''offset'', int_field (\<lambda>x r. r\<lparr>oi_Offset := x\<rparr>)),
      (''length'', int_field (\<lambda>x r. r\<lparr>oi_Length := x\<rparr>)),
      (''crc32'', uint32_field (\<lambda>x r. r\<lparr>oi_CRC32 := x\<rparr>))]"

definition lfsIndexFields :: "lfsIndex field list" where
  "lfsIndexFields =
     [(''version'', int_field (\<lambda>x r. r\<lparr>lfs_Version := x\<rparr>)),
      (''objects'', map_field (\<lambda>v. int_field (\<lambda>n _. n) v 0) lfs_Objects (\<lambda>x r. r\<lparr>lfs_Objects := x\<rparr>))]"

definition manifestFields :: "objectManifest field list" where
  "manifestFields =
     [(''schemaVersion'', int_field (\<lambda>x r. r\<lparr>mf_Schema := x\<rparr>)),
      (''objectFormat'', string_field (\<lambda>x r. r\<lparr>mf_ObjectFormat := x\<rparr>)),
      (''objects'', map_field (\<lambda>v. decode_struct objectInfoFields v zeroInfo) mf_Objects (\<lambda>x r. r\<lparr>mf_Objects := x\<rparr>)),
      (''lfs'', pointer_field lfsIndexFields \<lparr>lfs_Version = 0, lfs_Objects = None\<rparr> mf_LFS (\<lambda>x r. r\<lparr>mf_LFS := x\<rparr>))]"

definition metadataFields :: "Metadata field list" where
  "metadataFields =
     [(''id'', string_field (\<lambda>x r. r\<lparr>md_ID := x\<rparr>)),
      (''namespace'', string_field (\<lambda>x r. r\<lparr>md_Namespace := x\<rparr>)),
      (''name'', string_field (\<lambda>x r. r\<lparr>md_Name := x\<rparr>)),
      (''description'', string_field (\<lambda>x r. r\<lparr>md_Description := x\<rparr>)),
      (''defaultBranch'', string_field (\<lambda>x r. r\<lparr>md_DefaultBranch := x\<rparr>)),
      (''createdAt'', time_field (\<lambda>x r. r\<lparr>md_CreatedAt := x\<rparr>)),
      (''createdBy'', string_field (\<lambda>x r. r\<lparr>md_CreatedBy := x\<rparr>)),
      (''visibility'', string_field (\<lambda>x r. r\<lparr>md_Visibility := x\<rparr>)),
      (''empty'', bool_field (\<lambda>x r. r\<lparr>md_IsEmpty := x\<rparr>))]"

definition metadataRecordFields :: "metadataRecord field list" where
  "metadataRecordFields =
     [(''schemaVersion'', int_field (\<lambda>x r. r\<lparr>mr_Schema := x\<rparr>)),
      (''repository'', struct_field metadataFields mr_Metadata (\<lambda>x r. r\<lparr>mr_Metadata := x\<rparr>))]"

definition zeroMetadata :: Metadata where
  "zeroMetadata = \<lparr>md_ID = [], md_Namespace = [], md_Name = [], md_Description = [], md_DefaultBranch = [],
     md_CreatedAt = zeroTime, md_CreatedBy = [], md_Visibility = [], md_IsEmpty = False\<rparr>"

definition zeroRecord :: metadataRecord where
  "zeroRecord = \<lparr>mr_Schema = 0, mr_Metadata = zeroMetadata\<rparr>"

definition zeroRefs :: refsSnapshot where
  "zeroRefs = \<lparr>rs_Schema = 0, rs_Refs = None\<rparr>"

definition zeroManifest :: objectManifest where
  "zeroManifest = \<lparr>mf_Schema = 0, mf_ObjectFormat = [], mf_Objects = None, mf_LFS = None\<rparr>"

definition decodeJSON :: "'r field list \<Rightarrow> 'r \<Rightarrow> bytes \<Rightarrow> 'r result" where
  "decodeJSON fs target b =
     (case decode_single (string_of b) of
        None \<Rightarrow> Inl RepoErrCorrupt
      | Some v \<Rightarrow> (case decode_struct fs v target of None \<Rightarrow> Inl RepoErrCorrupt | Some r \<Rightarrow> Inr r))"

section \<open>Round trips\<close>

text \<open>A map read back has its keys in order; it is the same map.\<close>

definition sortedMap :: "(string \<times> 'v) list \<Rightarrow> (string \<times> 'v) list" where
  "sortedMap m = sort_key fst m"

lemma al_wf_sortedMap [simp]: "al_wf (sortedMap m) \<longleftrightarrow> al_wf m"
proof -
  have "mset (map fst (sortedMap m)) = mset (map fst m)" by (simp add: sortedMap_def)
  then show ?thesis unfolding al_wf_def by (metis mset_eq_imp_distinct_iff)
qed

lemma map_of_sortedMap [simp]: "al_wf m \<Longrightarrow> map_of (sortedMap m) = map_of m"
  using al_wf_sortedMap [of m] by (intro map_of_eqI) (auto simp: sortedMap_def al_wf_def map_of_eq_Some_iff)

lemma set_sortedMap [simp]: "set (sortedMap m) = set m"
  by (simp add: sortedMap_def)

lemma length_sortedMap [simp]: "length (sortedMap m) = length m"
  by (simp add: sortedMap_def)

lemma sortedMap_Nil [simp]: "sortedMap m = [] \<longleftrightarrow> m = []"
  by (metis length_0_conv length_sortedMap)

lemma putMembers_new:
  assumes "\<And>x. x \<in> snd ` set m \<Longrightarrow> dec (f x) = Some x" and "al_wf (acc @ m)"
  shows "putMembers dec (map (\<lambda>(k, v). (k, f v)) m) acc = Some (acc @ m)"
  using assms
proof (induction m arbitrary: acc)
  case (Cons p m)
  obtain k v where p: "p = (k, v)" by (cases p)
  have "map_of acc k = None" using Cons.prems(2) by (auto simp: p al_wf_def map_of_eq_None_iff)
  then have "al_put k v acc @ m = acc @ p # m" by (simp add: al_put_new p)
  then show ?case using Cons.IH [of "al_put k v acc"] Cons.prems by (simp add: p)
qed simp

lemma map_field_mapJson:
  assumes "case m of None \<Rightarrow> True | Some m \<Rightarrow> al_wf m \<and> (\<forall>(k, x) \<in> set m. dec (f x) = Some x)" and "sel r = None"
  shows "map_field dec sel upd (mapJson f m) r = Some (upd (map_option sortedMap m) r)"
proof (cases m)
  case (Some l)
  have "putMembers dec (map (\<lambda>(k, v). (k, f v)) (sortedMap l)) [] = Some ([] @ sortedMap l)"
    using assms(1) Some by (intro putMembers_new) auto
  then show ?thesis using Some assms(2) by (simp add: map_field_def mapJson_def sortedMap_def)
qed (simp add: map_field_def mapJson_def)

text \<open>Maps and records whose strings are valid UTF-8 and whose numbers fit their fields.\<close>

definition map_ok :: "('v \<Rightarrow> bool) \<Rightarrow> (string \<times> 'v) list option \<Rightarrow> bool" where
  "map_ok ok m = (case m of None \<Rightarrow> True | Some m \<Rightarrow> al_wf m \<and> (\<forall>(k, x) \<in> set m. ValidString k \<and> ok x))"

definition refs_ok :: "refsSnapshot \<Rightarrow> bool" where
  "refs_ok r \<longleftrightarrow> is_int64 (rs_Schema r) \<and> map_ok ValidString (rs_Refs r)"

definition info_ok :: "objectInfo \<Rightarrow> bool" where
  "info_ok i \<longleftrightarrow> ValidString (oi_Type i) \<and> ValidString (oi_SHA256 i) \<and> ValidString (oi_PackKey i) \<and>
     is_int64 (oi_Size i) \<and> is_int64 (oi_Offset i) \<and> is_int64 (oi_Length i)"

definition lfs_ok :: "lfsIndex \<Rightarrow> bool" where
  "lfs_ok index \<longleftrightarrow> is_int64 (lfs_Version index) \<and> map_ok is_int64 (lfs_Objects index)"

definition manifest_ok :: "objectManifest \<Rightarrow> bool" where
  "manifest_ok m \<longleftrightarrow> is_int64 (mf_Schema m) \<and> ValidString (mf_ObjectFormat m) \<and> map_ok info_ok (mf_Objects m) \<and>
     (case mf_LFS m of None \<Rightarrow> True | Some index \<Rightarrow> lfs_ok index)"

definition metadata_ok :: "Metadata \<Rightarrow> bool" where
  "metadata_ok m \<longleftrightarrow> list_all ValidString [md_ID m, md_Namespace m, md_Name m, md_Description m, md_DefaultBranch m,
     md_CreatedBy m, md_Visibility m] \<and> validTime (md_CreatedAt m)"

lemma ValidString_names [simp]:
  "list_all ValidString [''schemaVersion'', ''refs'', ''type'', ''size'', ''sha256'', ''packKey'', ''offset'', ''length'', ''crc32'',
     ''version'', ''objects'', ''objectFormat'', ''lfs'', ''id'', ''namespace'', ''name'', ''description'', ''defaultBranch'',
     ''createdAt'', ''createdBy'', ''visibility'', ''empty'', ''repository'', ''token'']"
  by (simp add: ValidString_ascii ascii_def)

lemma json_wf_mapJson:
  assumes "map_ok ok m" and "\<And>x. ok x \<Longrightarrow> json_wf (f x)"
  shows "json_wf (mapJson f m)"
  using assms by (auto simp: mapJson_def map_ok_def list_all_iff split: option.splits)

lemma decodeJSON_marshal:
  assumes "json_wf v"
  shows "decodeJSON fs target (marshal v) = (case decode_struct fs v target of None \<Rightarrow> Inl RepoErrCorrupt | Some r \<Rightarrow> Inr r)"
  using decode_print [OF assms] by (simp add: decodeJSON_def marshal_def)

lemma decode_struct_JObj [simp]: "decode_struct fs (JObj ms) r = set_members fs ms r"
  by (simp add: decode_struct_def)

lemma refs_roundtrip:
  assumes "refs_ok r"
  shows "decodeJSON refsFields zeroRefs (marshal (refsJson r)) = Inr (r\<lparr>rs_Refs := map_option sortedMap (rs_Refs r)\<rparr>)"
proof -
  have "json_wf (mapJson JStr (rs_Refs r))" using assms by (intro json_wf_mapJson [of ValidString]) (auto simp: refs_ok_def)
  then have "json_wf (refsJson r)" using ValidString_names by (simp add: refsJson_def del: json_wf.simps(1))
  moreover have "map_field (\<lambda>v. string_field (\<lambda>s _. s) v []) rs_Refs (\<lambda>x r. r\<lparr>rs_Refs := x\<rparr>) (mapJson JStr (rs_Refs r))
      (zeroRefs\<lparr>rs_Schema := rs_Schema r\<rparr>) = Some (zeroRefs\<lparr>rs_Schema := rs_Schema r, rs_Refs := map_option sortedMap (rs_Refs r)\<rparr>)"
    using assms by (subst map_field_mapJson) (auto simp: refs_ok_def map_ok_def zeroRefs_def string_field_def split: option.splits)
  ultimately show ?thesis
    using assms by (simp add: decodeJSON_marshal refsJson_def refsFields_def decode_struct_def find_field_def int_field_def refs_ok_def zeroRefs_def)
qed

lemma info_roundtrip:
  assumes "info_ok i"
  shows "json_wf (objectInfoJson i)" "decode_struct objectInfoFields (objectInfoJson i) zeroInfo = Some i"
proof -
  show "json_wf (objectInfoJson i)"
    using assms ValidString_names by (simp add: objectInfoJson_def omitEmpty_def info_ok_def del: json_wf.simps(1))
  have "unat (oi_CRC32 i) < 2 ^ 32" using unsigned_less [of "oi_CRC32 i", where ?'a = nat] by simp
  then have c: "unat (oi_CRC32 i) < 4294967296" "unat (oi_CRC32 i) < 2 ^ 64" by simp_all
  have "i = \<lparr>oi_Type = oi_Type i, oi_Size = oi_Size i, oi_SHA256 = oi_SHA256 i, oi_PackKey = oi_PackKey i, oi_Offset = oi_Offset i,
      oi_Length = oi_Length i, oi_CRC32 = oi_CRC32 i\<rparr>" by simp
  then show "decode_struct objectInfoFields (objectInfoJson i) zeroInfo = Some i"
    using assms c by (cases "oi_PackKey i = []"; cases "oi_Offset i = 0"; cases "oi_Length i = 0"; cases "oi_CRC32 i = 0")
      (simp_all add: objectInfoJson_def omitEmpty_def objectInfoFields_def zeroInfo_def info_ok_def decode_struct_def find_field_def
        string_field_def int_field_def uint32_field_def)
qed

definition sortedIndex :: "lfsIndex \<Rightarrow> lfsIndex" where
  "sortedIndex index = index\<lparr>lfs_Objects := map_option sortedMap (lfs_Objects index)\<rparr>"

lemma lfs_roundtrip:
  assumes "lfs_ok index"
  shows "json_wf (lfsIndexJson index)" "decode_struct lfsIndexFields (lfsIndexJson index) \<lparr>lfs_Version = 0, lfs_Objects = None\<rparr> = Some (sortedIndex index)"
proof -
  have "json_wf (mapJson (\<lambda>n. JNum (FormatInt n)) (lfs_Objects index))"
    using assms by (intro json_wf_mapJson [of is_int64]) (auto simp: lfs_ok_def simp del: json_wf.simps(1))
  then show "json_wf (lfsIndexJson index)" using ValidString_names by (simp add: lfsIndexJson_def del: json_wf.simps(1))
  have "map_field (\<lambda>v. int_field (\<lambda>n _. n) v 0) lfs_Objects (\<lambda>x r. r\<lparr>lfs_Objects := x\<rparr>) (mapJson (\<lambda>n. JNum (FormatInt n)) (lfs_Objects index))
      \<lparr>lfs_Version = lfs_Version index, lfs_Objects = None\<rparr> = Some \<lparr>lfs_Version = lfs_Version index, lfs_Objects = map_option sortedMap (lfs_Objects index)\<rparr>"
    using assms by (subst map_field_mapJson) (auto simp: lfs_ok_def map_ok_def int_field_def split: option.splits)
  then show "decode_struct lfsIndexFields (lfsIndexJson index) \<lparr>lfs_Version = 0, lfs_Objects = None\<rparr> = Some (sortedIndex index)"
    using assms by (simp add: lfsIndexJson_def lfsIndexFields_def decode_struct_def find_field_def int_field_def lfs_ok_def sortedIndex_def)
qed

definition sortedManifest :: "objectManifest \<Rightarrow> objectManifest" where
  "sortedManifest m = m\<lparr>mf_Objects := map_option sortedMap (mf_Objects m), mf_LFS := map_option sortedIndex (mf_LFS m)\<rparr>"

lemma manifest_roundtrip:
  assumes "manifest_ok m"
  shows "decodeJSON manifestFields zeroManifest (marshal (manifestJson m)) = Inr (sortedManifest m)"
proof -
  have "json_wf (mapJson objectInfoJson (mf_Objects m))"
    using assms info_roundtrip(1) by (intro json_wf_mapJson [of info_ok]) (auto simp: manifest_ok_def)
  moreover have "mf_LFS m = Some index \<Longrightarrow> json_wf (lfsIndexJson index)" for index
    using assms lfs_roundtrip(1) by (auto simp: manifest_ok_def)
  ultimately have "json_wf (manifestJson m)"
    using assms ValidString_names by (auto simp: manifestJson_def manifest_ok_def simp del: json_wf.simps(1) split: option.splits)
  moreover have "map_field (\<lambda>v. decode_struct objectInfoFields v zeroInfo) mf_Objects (\<lambda>x r. r\<lparr>mf_Objects := x\<rparr>) (mapJson objectInfoJson (mf_Objects m)) r =
      Some (r\<lparr>mf_Objects := map_option sortedMap (mf_Objects m)\<rparr>)" if "mf_Objects r = None" for r :: objectManifest
    using assms info_roundtrip(2) that by (subst map_field_mapJson) (auto simp: manifest_ok_def map_ok_def split: option.splits)
  moreover have "pointer_field lfsIndexFields \<lparr>lfs_Version = 0, lfs_Objects = None\<rparr> mf_LFS (\<lambda>x r. r\<lparr>mf_LFS := x\<rparr>) (lfsIndexJson index) r =
      Some (r\<lparr>mf_LFS := Some (sortedIndex index)\<rparr>)" if "mf_LFS m = Some index" "mf_LFS r = None" for index and r :: objectManifest
    using assms lfs_roundtrip(2) [of index] that by (simp add: pointer_field_def manifest_ok_def lfsIndexJson_def)
  ultimately show ?thesis using assms
    by (cases "mf_LFS m") (simp_all add: decodeJSON_marshal manifestJson_def manifestFields_def find_field_def
        int_field_def string_field_def manifest_ok_def zeroManifest_def sortedManifest_def)
qed

lemma metadata_roundtrip:
  assumes "metadata_ok m" "is_int64 n"
  shows "decodeJSON metadataRecordFields zeroRecord (marshal (metadataRecordJson \<lparr>mr_Schema = n, mr_Metadata = m\<rparr>)) = Inr \<lparr>mr_Schema = n, mr_Metadata = m\<rparr>"
proof -
  have t: "parseTime (formatTime (md_CreatedAt m)) = Some (md_CreatedAt m)" "ValidString (formatTime (md_CreatedAt m))"
    using assms parseTime_formatTime formatTime_ascii ValidString_ascii by (auto simp: metadata_ok_def)
  then have "json_wf (metadataRecordJson \<lparr>mr_Schema = n, mr_Metadata = m\<rparr>)"
    using assms ValidString_names by (simp add: metadataRecordJson_def metadataJson_def metadata_ok_def del: json_wf.simps(1))
  moreover have "decode_struct metadataFields (metadataJson m) zeroMetadata = Some m"
    using t by (simp add: metadataJson_def metadataFields_def zeroMetadata_def find_field_def string_field_def
        time_field_def bool_field_def)
  ultimately show ?thesis using assms
    by (simp add: decodeJSON_marshal metadataRecordJson_def metadataRecordFields_def zeroRecord_def find_field_def int_field_def struct_field_def)
qed

section \<open>Reading and writing snapshots\<close>

definition read :: "'s ObjectStore \<Rightarrow> ctx \<Rightarrow> string \<Rightarrow> nat \<Rightarrow> 's \<Rightarrow> bytes result" where
  "read ops ctx key limit s =
     (case os_Get ops ctx key s of
        Inl e \<Rightarrow> Inl e
      | Inr (body, info) \<Rightarrow>
          (let b = take (limit + 1) body
           in if length b > limit \<or> int (length b) \<noteq> Size info then Inl RepoErrCorrupt else Inr b))"

definition snapshotData :: "'s ObjectStore \<Rightarrow> ctx \<Rightarrow> string \<Rightarrow> string \<Rightarrow> nat \<Rightarrow> 's \<Rightarrow> bytes result" where
  "snapshotData ops ctx repositoryID relative limit s =
     (case read ops ctx (''repos/'' @ repositoryID @ ''/'' @ relative) limit s of
        Inl e \<Rightarrow> Inl (ErrJoin RepoErrCorrupt e)
      | Inr b \<Rightarrow>
          if \<not> HasSuffix relative (''-'' @ EncodeToString (Sum256 b) @ ''.json'') then Inl RepoErrCorrupt else Inr b)"

definition readSnapshotLimit :: "'s ObjectStore \<Rightarrow> ctx \<Rightarrow> string \<Rightarrow> string \<Rightarrow> 'r field list \<Rightarrow> 'r \<Rightarrow> nat \<Rightarrow> 's \<Rightarrow> 'r result" where
  "readSnapshotLimit ops ctx repositoryID relative fs target limit s =
     rbind (snapshotData ops ctx repositoryID relative limit s) (decodeJSON fs target)"

definition readSnapshot :: "'s ObjectStore \<Rightarrow> ctx \<Rightarrow> string \<Rightarrow> string \<Rightarrow> 's \<Rightarrow> refsSnapshot result" where
  "readSnapshot ops ctx repositoryID relative s =
     readSnapshotLimit ops ctx repositoryID relative refsFields zeroRefs maxJSONBytes s"

definition readManifest :: "'s ObjectStore \<Rightarrow> ctx \<Rightarrow> string \<Rightarrow> string \<Rightarrow> 's \<Rightarrow> objectManifest result" where
  "readManifest ops ctx repositoryID relative s =
     rbind (readSnapshotLimit ops ctx repositoryID relative manifestFields zeroManifest maxManifestBytes s) (\<lambda>result.
     case validateManifest ctx result of Some e \<Rightarrow> Inl e | None \<Rightarrow> Inr result)"

definition snapshotLimit :: "string \<Rightarrow> nat" where
  "snapshotLimit kind = (if kind = ''manifest'' then maxManifestBytes else maxJSONBytes)"

definition snapshotName :: "string \<Rightarrow> bytes \<Rightarrow> string" where
  "snapshotName kind b = ''states/00000000000000000001-'' @ kind @ ''-'' @ EncodeToString (Sum256 b) @ ''.json''"

definition putSnapshot :: "'s ObjectStore \<Rightarrow> ctx \<Rightarrow> string \<Rightarrow> string \<Rightarrow> json \<Rightarrow> 's \<Rightarrow> string result \<times> 's" where
  "putSnapshot ops ctx repositoryID kind v s =
     (let b = marshal v in
      if length b > snapshotLimit kind then (Inl RepoErrLimit, s)
      else (case PutImmutable ops ctx (''repos/'' @ repositoryID @ ''/'' @ snapshotName kind b) (Some (bytes_NewReader b)) (int (length b)) s of
          (Some e, s) \<Rightarrow> (Inl e, s)
        | (None, s) \<Rightarrow> (Inr (snapshotName kind b), s)))"

definition existingSnapshot :: "'s ObjectStore \<Rightarrow> ctx \<Rightarrow> string \<Rightarrow> string \<Rightarrow> json \<Rightarrow> 's \<Rightarrow> string result" where
  "existingSnapshot ops ctx repositoryID kind v s =
     (let b = marshal v in
      case read ops ctx (''repos/'' @ repositoryID @ ''/'' @ snapshotName kind b) (snapshotLimit kind) s of
        Inl e \<Rightarrow> Inl e
      | Inr actual \<Rightarrow> if actual \<noteq> b then Inl RepoErrCorrupt else Inr (snapshotName kind b))"

definition snapshotKeyOf :: "'s ObjectStore \<Rightarrow> ctx \<Rightarrow> string \<Rightarrow> string \<Rightarrow> json \<Rightarrow> 's \<Rightarrow> string result \<times> 's" where
  "snapshotKeyOf ops ctx repositoryID kind v s =
     (case putSnapshot ops ctx repositoryID kind v s of
        (Inl e, s) \<Rightarrow> if errors_Is e ErrAlreadyExists then (existingSnapshot ops ctx repositoryID kind v s, s) else (Inl e, s)
      | (Inr key, s) \<Rightarrow> (Inr key, s))"

definition snapshotPath :: "string \<Rightarrow> string \<Rightarrow> json \<Rightarrow> string" where
  "snapshotPath repositoryID kind v = ''repos/'' @ repositoryID @ ''/'' @ snapshotName kind (marshal v)"

lemma PutImmutable_bytes:
  "PutImmutable ops ctx key (Some (bytes_NewReader b)) (int (length b)) s =
     (case put_bytes ops ctx key b if_absent s of (Inl e, s) \<Rightarrow> (Some e, s) | (Inr _, s) \<Rightarrow> (None, s))"
  by (simp add: PutImmutable_def put_bytes_def)

lemma HasSuffix_snapshotName: "HasSuffix (snapshotName kind b) (''-'' @ EncodeToString (Sum256 b) @ ''.json'')"
proof -
  have "snapshotName kind b = (''states/00000000000000000001-'' @ kind) @ ''-'' @ EncodeToString (Sum256 b) @ ''.json''"
    by (simp add: snapshotName_def)
  then show ?thesis by (simp only: suffix_def) blast
qed

lemma validLFSIndex_sorted: "validLFSIndex (map_option sortedIndex x) = validLFSIndex x"
  by (auto simp: validLFSIndex_def sortedIndex_def list_all_iff split: option.splits)

lemma validateManifest_sorted: "validateManifest ctx (sortedManifest m) = validateManifest ctx m"
proof (cases "mf_Objects m")
  case (Some objs)
  have "list_all P (sortedMap objs) \<longleftrightarrow> list_all P objs" for P by (simp add: list_all_iff)
  then show ?thesis using Some by (simp add: validateManifest_def sortedManifest_def validLFSIndex_sorted)
qed (simp add: validateManifest_def sortedManifest_def)

context sized_store
begin

lemma read_Inr: "inv s \<Longrightarrow> read ops ctx key limit s = Inr b \<Longrightarrow> \<exists>v. contents s key = Some (b, v) \<and> length b \<le> limit"
  by (auto simp: read_def Let_def min_def split: sum.splits if_splits dest!: get_ok)

lemma read_stored:
  assumes "inv s" "contents s key = Some (b, v)" "length b \<le> limit"
  shows "read ops Background key limit s = Inr b"
proof -
  obtain info where "os_Get ops Background key s = Inr (b, info)" using get_live [OF assms(1,2)] by blast
  with get_size [OF assms(1) this] assms(3) show ?thesis by (simp add: read_def)
qed

lemma PutImmutable_ok:
  assumes "inv s" "room (Suc n) s" "PutImmutable ops ctx key (Some (bytes_NewReader b)) (int (length b)) s = (e, s')"
  shows "inv s' \<and> room n s' \<and> contents s \<subseteq>\<^sub>m contents s' \<and> (\<forall>k. k \<noteq> key \<longrightarrow> contents s' k = contents s k) \<and>
    (e = None \<longrightarrow> contents s key = None \<and> (\<exists>v. contents s' key = Some (b, v))) \<and> (e \<noteq> None \<longrightarrow> s' = s)"
proof (cases "put_bytes ops ctx key b if_absent s")
  case (Pair r s1)
  show ?thesis
  proof (cases r)
    case (Inl x)
    then have "s1 = s" "e = Some x" "s' = s1" using Pair put_error assms(3) by (auto simp: PutImmutable_bytes)
    then show ?thesis using assms(1) room_less [OF assms(2)] by simp
  next
    case (Inr info)
    then have "e = None" "s' = s1" using Pair assms(3) by (auto simp: PutImmutable_bytes)
    then show ?thesis using put_ok [OF assms(1,2) Pair [unfolded Inr]] by (auto simp: put_allowed_def map_le_def)
  qed
qed

lemma snapshotKeyOf_ok:
  assumes "inv s" "room (Suc n) s" "snapshotKeyOf ops ctx i kind v s = (r, s')"
  shows "inv s' \<and> room n s' \<and> contents s \<subseteq>\<^sub>m contents s' \<and> (\<forall>k. k \<noteq> snapshotPath i kind v \<longrightarrow> contents s' k = contents s k) \<and>
    (\<forall>key. r = Inr key \<longrightarrow> key = snapshotName kind (marshal v) \<and> length (marshal v) \<le> snapshotLimit kind \<and>
       (\<exists>ver. contents s' (snapshotPath i kind v) = Some (marshal v, ver)))"
proof (cases "length (marshal v) > snapshotLimit kind")
  case True
  then have "s' = s" "r = Inl RepoErrLimit" using assms(3) by (simp_all add: snapshotKeyOf_def putSnapshot_def)
  then show ?thesis using assms(1) room_less [OF assms(2)] by simp
next
  case False
  obtain e s1 where put: "PutImmutable ops ctx (snapshotPath i kind v) (Some (bytes_NewReader (marshal v))) (int (length (marshal v))) s = (e, s1)" by force
  note ok = PutImmutable_ok [OF assms(1,2) put]
  show ?thesis
  proof (cases e)
    case None
    then have "s' = s1" "r = Inr (snapshotName kind (marshal v))"
      using assms(3) put False by (simp_all add: snapshotKeyOf_def putSnapshot_def snapshotPath_def)
    then show ?thesis using ok None False by simp
  next
    case (Some x)
    have "s' = s1 \<and> (\<forall>key. r = Inr key \<longrightarrow> existingSnapshot ops ctx i kind v s1 = Inr key)"
      using assms(3) put False Some by (auto simp: snapshotKeyOf_def putSnapshot_def snapshotPath_def split: if_splits)
    moreover have "s1 = s" using ok Some by simp
    moreover have "key = snapshotName kind (marshal v) \<and> (\<exists>ver. contents s (snapshotPath i kind v) = Some (marshal v, ver))"
      if "existingSnapshot ops ctx i kind v s = Inr key" for key
      using that read_Inr [OF assms(1)] by (auto simp: existingSnapshot_def Let_def snapshotPath_def split: sum.splits if_splits)
    ultimately show ?thesis using ok False by auto
  qed
qed

lemma putSnapshot_ok:
  assumes "inv s" "room (Suc n) s" "putSnapshot ops ctx i kind v s = (Inr key, s')"
  shows "inv s' \<and> room n s' \<and> contents s \<subseteq>\<^sub>m contents s' \<and> (\<forall>k. k \<noteq> snapshotPath i kind v \<longrightarrow> contents s' k = contents s k) \<and>
    key = snapshotName kind (marshal v) \<and> length (marshal v) \<le> snapshotLimit kind \<and>
    (\<exists>ver. contents s' (snapshotPath i kind v) = Some (marshal v, ver))"
proof -
  have "snapshotKeyOf ops ctx i kind v s = (Inr key, s')" using assms(3) by (simp add: snapshotKeyOf_def)
  then show ?thesis using snapshotKeyOf_ok [OF assms(1,2)] by blast
qed

lemma snapshotData_stored:
  assumes "inv s" "contents s (snapshotPath i kind v) = Some (marshal v, ver)" "length (marshal v) \<le> limit"
  shows "snapshotData ops Background i (snapshotName kind (marshal v)) limit s = Inr (marshal v)"
  using read_stored [OF assms(1) assms(2) [unfolded snapshotPath_def] assms(3)] HasSuffix_snapshotName [where kind = kind and b = "marshal v"]
  by (simp add: snapshotData_def)

lemma readSnapshot_stored:
  assumes "inv s" "contents s (snapshotPath i ''refs'' (refsJson r)) = Some (marshal (refsJson r), ver)"
    "length (marshal (refsJson r)) \<le> maxJSONBytes" "refs_ok r"
  shows "readSnapshot ops Background i (snapshotName ''refs'' (marshal (refsJson r))) s = Inr (r\<lparr>rs_Refs := map_option sortedMap (rs_Refs r)\<rparr>)"
  using snapshotData_stored [OF assms(1-3)] refs_roundtrip [OF assms(4)]
  by (simp add: readSnapshot_def readSnapshotLimit_def rbind_def)

lemma readManifest_stored:
  assumes "inv s" "contents s (snapshotPath i ''manifest'' (manifestJson m)) = Some (marshal (manifestJson m), ver)"
    "length (marshal (manifestJson m)) \<le> maxManifestBytes" "manifest_ok m" "validateManifest Background m = None"
  shows "readManifest ops Background i (snapshotName ''manifest'' (marshal (manifestJson m))) s = Inr (sortedManifest m)"
  using snapshotData_stored [OF assms(1-3)] manifest_roundtrip [OF assms(4)] validateManifest_sorted assms(5)
  by (simp add: readManifest_def readSnapshotLimit_def rbind_def)

end

end
