(* ===== verification/RepositoryCreate.thy ===== *)
theory RepositoryCreate
  imports RepositorySnapshots
begin

text \<open>
  \<^verbatim>\<open>internal/repository/repository.go\<close> and \<^verbatim>\<open>git.go\<close>: creating a repository, loading its published generation, and the
  loose objects of the first commit. Random bytes and the current time are arguments.
\<close>

section \<open>The store\<close>

record 's Store =
  st_objects :: "'s ObjectStore"
  st_parser :: Parser

definition New :: "'s ObjectStore \<Rightarrow> 's Store result" where
  "New ops = rbind (NewParser DefaultPathPolicy) (\<lambda>parser. Inr \<lparr>st_objects = ops, st_parser = parser\<rparr>)"

definition validNamespace :: "'s Store \<Rightarrow> string \<Rightarrow> bool" where
  "validNamespace st namespace =
     (if namespace = ''auth'' \<or> CHR ''/'' \<in> set namespace then False
      else (case Parse (st_parser st) (Some \<lparr>RequestURI = [], RequestURL = Some \<lparr>Opaque = [], Path = ''/'' @ namespace, RawPath = []\<rparr>\<rparr>) of
          Inl _ \<Rightarrow> False
        | Inr _ \<Rightarrow> True))"

definition metadataKey :: "string \<Rightarrow> string \<Rightarrow> string" where
  "metadataKey namespace name = ''repositories/'' @ namespace @ ''/'' @ name @ ''.json''"

text \<open>Sequencing of calls that may fail and change the store.\<close>

definition sbind :: "'a result \<times> 's \<Rightarrow> ('a \<Rightarrow> 's \<Rightarrow> 'b result \<times> 's) \<Rightarrow> 'b result \<times> 's" where
  "sbind m f = (case m of (Inl e, s) \<Rightarrow> (Inl e, s) | (Inr x, s) \<Rightarrow> f x s)"

lemma sbind_simps [simp]: "sbind (Inl e, s) f = (Inl e, s)" "sbind (Inr x, s) f = f x s"
  by (simp_all add: sbind_def)

lemma sbind_Inr: "sbind m f = (Inr y, s') \<longleftrightarrow> (\<exists>x s1. m = (Inr x, s1) \<and> f x s1 = (Inr y, s'))"
  by (cases m; cases "fst m") auto

section \<open>Loading\<close>

text \<open>\<^verbatim>\<open>maintenanceMetadata\<close>, which is also the first part of \<^verbatim>\<open>load\<close>.\<close>

definition maintenanceMetadata :: "'s Store \<Rightarrow> ctx \<Rightarrow> string \<Rightarrow> string \<Rightarrow> 's \<Rightarrow> Metadata result" where
  "maintenanceMetadata st ctx namespace name s =
     (if \<not> validNamespace st namespace \<or> \<not> ValidName name then Inl RepoErrInvalid
      else (case read (st_objects st) ctx (metadataKey namespace name) maxJSONBytes s of
          Inl e \<Rightarrow> Inl (if errors_Is e ErrNotFound then RepoErrNotFound else e)
        | Inr b \<Rightarrow>
            rbind (decodeJSON metadataRecordFields zeroRecord b) (\<lambda>record.
            let m = mr_Metadata record in
            if mr_Schema record \<noteq> 1 \<or> md_Namespace m \<noteq> namespace \<or> md_Name m \<noteq> name \<or> \<not> idPattern (md_ID m) \<or>
               md_Visibility m \<noteq> ''private'' \<or> \<not> validBranch (md_DefaultBranch m) \<or> IsZero (md_CreatedAt m) \<or>
               \<not> validDescription (md_Description m) \<or> md_CreatedBy m = [] \<or> \<not> validText (md_CreatedBy m) 512
            then Inl RepoErrCorrupt else Inr m)))"

definition infoAt :: "objectManifest \<Rightarrow> string \<Rightarrow> objectInfo" where
  "infoAt manifest ident =
     (case map_of (case mf_Objects manifest of None \<Rightarrow> [] | Some objs \<Rightarrow> objs) ident of None \<Rightarrow> zeroInfo | Some info \<Rightarrow> info)"

definition loadedRef :: "objectManifest \<Rightarrow> string \<times> string \<Rightarrow> bool" where
  "loadedRef manifest = (\<lambda>(ref, ident).
     \<not> (\<not> ValidRef ref \<or> \<not> objectIDPattern ident \<or> oi_Type (infoAt manifest ident) = [] \<or>
        HasPrefix ref ''refs/heads/'' \<and> oi_Type (infoAt manifest ident) \<noteq> ''commit''))"

definition load :: "'s Store \<Rightarrow> ctx \<Rightarrow> string \<Rightarrow> string \<Rightarrow> 's \<Rightarrow> snapshot result" where
  "load st ctx namespace name s =
     rbind (maintenanceMetadata st ctx namespace name s) (\<lambda>m.
     case LoadState (st_objects st) ctx (md_ID m) s of
       Inl e \<Rightarrow> Inl (ErrJoin RepoErrCorrupt e)
     | Inr (state, ver) \<Rightarrow>
         rbind (readSnapshot (st_objects st) ctx (md_ID m) (RefsSnapshot state) s) (\<lambda>refs.
         rbind (readManifest (st_objects st) ctx (md_ID m) (PackManifest state) s) (\<lambda>manifest.
         case rs_Refs refs of
           None \<Rightarrow> Inl RepoErrCorrupt
         | Some refMap \<Rightarrow>
             if rs_Schema refs \<noteq> 1 \<or> length refMap > MaxGitObjects then Inl RepoErrCorrupt
             else if \<not> list_all (loadedRef manifest) refMap then Inl RepoErrCorrupt
             else (let branch = TrimPrefix (DefaultBranch state) ''refs/heads/'' in
               if \<not> validBranch branch then Inl RepoErrCorrupt
               else Inr \<lparr>sn_metadata = m\<lparr>md_DefaultBranch := branch, md_IsEmpty := (refMap = [])\<rparr>, sn_refs = refs,
                 sn_manifest = manifest, sn_state = state, sn_version = ver\<rparr>))))"

definition StoreGetMetadata :: "'s Store \<Rightarrow> ctx \<Rightarrow> string \<Rightarrow> string \<Rightarrow> 's \<Rightarrow> Metadata result" where
  "StoreGetMetadata st ctx namespace name s = rbind (load st ctx namespace name s) (\<lambda>snap. Inr (sn_metadata snap))"

section \<open>Loose objects\<close>

text \<open>Only called with identifiers of 40 characters.\<close>

definition objectKey :: "string \<Rightarrow> string \<Rightarrow> string" where
  "objectKey repositoryID ident = ''repos/'' @ repositoryID @ ''/objects/'' @ take 2 ident @ ''/'' @ drop 2 ident"

definition putObject :: "zlib \<Rightarrow> 's Store \<Rightarrow> ctx \<Rightarrow> string \<Rightarrow> string \<Rightarrow> bytes \<Rightarrow> infos \<Rightarrow> 's \<Rightarrow> (string \<times> infos) result \<times> 's" where
  "putObject z st ctx repositoryID kind content objs s =
     (let raw = objectHeader kind (int (length content)) @ content;
          ident = EncodeToString (Sum1 raw);
          compressed = concat (zl_write z raw)
      in case PutImmutable (st_objects st) ctx (objectKey repositoryID ident) (Some (bytes_NewReader compressed)) (int (length compressed)) s of
           (Some e, s) \<Rightarrow> (Inl e, s)
         | (None, s) \<Rightarrow>
             (Inr (ident, al_put ident (zeroInfo\<lparr>oi_Type := kind, oi_Size := int (length content),
                oi_SHA256 := EncodeToString (Sum256 raw)\<rparr>) objs), s))"

text \<open>\<^verbatim>\<open>hex.DecodeString\<close>.\<close>

fun DecodeString :: "string \<Rightarrow> bytes option" where
  "DecodeString [] = Some []"
| "DecodeString [c] = None"
| "DecodeString (h # l # r) =
     (case (hex_digit h, hex_digit l, DecodeString r) of
        (Some a, Some b, Some bs) \<Rightarrow> Some (of_nat (16 * a + b) # bs)
      | _ \<Rightarrow> None)"

record CreateInput =
  ci_Name :: string
  ci_Description :: string
  ci_DefaultBranch :: string
  ci_InitializeReadme :: bool
  ci_CreatedBy :: string
  ci_AuthorName :: string
  ci_AuthorEmail :: string

definition newline :: string where "newline = [CHR 0x0A]"

definition initializeReadme :: "zlib \<Rightarrow> 's Store \<Rightarrow> ctx \<Rightarrow> Metadata \<Rightarrow> CreateInput \<Rightarrow> infos \<Rightarrow> 's \<Rightarrow> (string \<times> infos) result \<times> 's" where
  "initializeReadme z st ctx metadata input objs s =
     (let content = ''# '' @ md_Name metadata @ newline @
            (if md_Description metadata \<noteq> [] then newline @ md_Description metadata @ newline else [])
      in sbind (putObject z st ctx (md_ID metadata) ''blob'' (bytes_of content) objs s) (\<lambda>(blob, objs) s.
         case DecodeString blob of
           None \<Rightarrow> (Inl (ErrMsg ''decode blob id''), s)
         | Some blobID \<Rightarrow>
             sbind (putObject z st ctx (md_ID metadata) ''tree'' (bytes_of ''100644 README.md'' @ [0] @ blobID) objs s) (\<lambda>(tree, objs) s.
             let signature = ci_AuthorName input @ '' <'' @ ci_AuthorEmail input @ ''> '' @ FormatInt (Unix (md_CreatedAt metadata)) @ '' +0000'';
                 commit = ''tree '' @ tree @ newline @ ''author '' @ signature @ newline @ ''committer '' @ signature @ newline @ newline @
                   ''Initial commit'' @ newline
             in putObject z st ctx (md_ID metadata) ''commit'' (bytes_of commit) objs s)))"

section \<open>Creating\<close>

definition claimName :: "'s Store \<Rightarrow> ctx \<Rightarrow> Metadata \<Rightarrow> 's \<Rightarrow> Metadata result \<times> 's" where
  "claimName st ctx metadata s =
     (let key = metadataKey (md_Namespace metadata) (md_Name metadata);
          b = marshal (metadataRecordJson \<lparr>mr_Schema = 1, mr_Metadata = metadata\<rparr>)
      in case put_bytes (st_objects st) ctx key b if_absent s of
           (Inr _, s) \<Rightarrow> (Inr metadata, s)
         | (Inl e, s) \<Rightarrow>
             if errors_Is e ErrAlreadyExists \<or> errors_Is e ErrPreconditionFailed then (Inl RepoErrAlreadyExists, s)
             else if errors_Is e ErrConditionalConflict \<and> (case os_Head (st_objects st) ctx key s of Inr _ \<Rightarrow> True | Inl _ \<Rightarrow> False)
               then (Inl RepoErrAlreadyExists, s)
             else (Inl e, s))"

definition validInput :: "'s Store \<Rightarrow> string \<Rightarrow> CreateInput \<Rightarrow> bool" where
  "validInput st namespace input \<longleftrightarrow>
     \<not> (\<not> validNamespace st namespace \<or> \<not> ValidName (ci_Name input) \<or> \<not> validBranch (ci_DefaultBranch input) \<or>
        \<not> validDescription (ci_Description input) \<or> \<not> validText (ci_CreatedBy input) 512 \<or> ci_CreatedBy input = []) \<and>
     \<not> (ci_InitializeReadme input \<and> (\<not> validIdentityPart (ci_AuthorName input) \<or> \<not> validIdentityPart (ci_AuthorEmail input)))"

definition newMetadata :: "bytes \<Rightarrow> Time \<Rightarrow> string \<Rightarrow> CreateInput \<Rightarrow> Metadata" where
  "newMetadata randomID now namespace input =
     \<lparr>md_ID = EncodeToString randomID, md_Namespace = namespace, md_Name = ci_Name input, md_Description = ci_Description input,
      md_DefaultBranch = ci_DefaultBranch input, md_CreatedAt = now\<lparr>tm_nano := 0\<rparr>, md_CreatedBy = ci_CreatedBy input,
      md_Visibility = ''private'', md_IsEmpty = (\<not> ci_InitializeReadme input)\<rparr>"

definition firstState :: "CreateInput \<Rightarrow> string \<Rightarrow> string \<Rightarrow> RepositoryState" where
  "firstState input refsKey manifestKey =
     \<lparr>SchemaVersion = 1, Generation = 1, DefaultBranch = ''refs/heads/'' @ ci_DefaultBranch input, RefsSnapshot = refsKey,
      PackManifest = manifestKey\<rparr>"

definition withBranch :: "CreateInput \<Rightarrow> CreateInput" where
  "withBranch input = (if ci_DefaultBranch input = [] then input\<lparr>ci_DefaultBranch := ''main''\<rparr> else input)"

definition Create :: "zlib \<Rightarrow> 's Store \<Rightarrow> bytes \<Rightarrow> Time \<Rightarrow> ctx \<Rightarrow> string \<Rightarrow> CreateInput \<Rightarrow> 's \<Rightarrow> Metadata result \<times> 's" where
  "Create z st randomID now ctx namespace input s =
     (let input = withBranch input; ops = st_objects st in
      if \<not> validInput st namespace input then (Inl RepoErrInvalid, s)
      else (case os_Head ops ctx (metadataKey namespace (ci_Name input)) s of
          Inr _ \<Rightarrow> (Inl RepoErrAlreadyExists, s)
        | Inl e \<Rightarrow>
            if \<not> errors_Is e ErrNotFound then (Inl e, s)
            else (let metadata = newMetadata randomID now namespace input in
              sbind (if ci_InitializeReadme input
                  then sbind (initializeReadme z st ctx metadata input [] s) (\<lambda>(commit, objs) s.
                    (Inr ([(''refs/heads/'' @ ci_DefaultBranch input, commit)], objs), s))
                  else (Inr ([], []), s)) (\<lambda>(refs, objs) s.
              sbind (putSnapshot ops ctx (md_ID metadata) ''refs'' (refsJson \<lparr>rs_Schema = 1, rs_Refs = Some refs\<rparr>) s) (\<lambda>refsKey s.
              sbind (putSnapshot ops ctx (md_ID metadata) ''manifest''
                  (manifestJson \<lparr>mf_Schema = 1, mf_ObjectFormat = ''sha1'', mf_Objects = Some objs, mf_LFS = None\<rparr>) s) (\<lambda>manifestKey s.
              case CompareAndSwapState ops ctx (md_ID metadata) [] (firstState input refsKey manifestKey) s of
                (Some e, s) \<Rightarrow> (Inl e, s)
              | (None, s) \<Rightarrow> claimName st ctx metadata s))))))"

section \<open>Valid values have valid JSON\<close>

lemma ValidString_lowerHex: "lowerHex n s \<Longrightarrow> ValidString s"
proof -
  assume "lowerHex n s"
  then have "\<forall>c \<in> set s. c \<in> set ''0123456789abcdef''" by (simp add: lowerHex_def list_all_iff lower_hex_char_def)
  then have "ascii s" unfolding ascii_def list_all_iff by fastforce
  then show ?thesis by (rule ValidString_ascii)
qed

lemma ValidString_append: "ascii a \<Longrightarrow> ValidString b \<Longrightarrow> ValidString (a @ b)"
  by (simp add: ValidString_ascii_append)

lemma lowerHex_ascii: "lowerHex n s \<Longrightarrow> ascii s"
  unfolding lowerHex_def ascii_def list_all_iff lower_hex_char_def by fastforce

lemma validObjectInfo_ok:
  assumes "validObjectInfo ident info"
  shows "info_ok info" "ValidString ident"
proof -
  have id: "lowerHex 40 ident" and sha: "lowerHex 64 (oi_SHA256 info)"
    and sz: "0 \<le> oi_Size info" "oi_Size info \<le> MaxGitObjectBytes"
    and ty: "oi_Type info \<in> {''blob'', ''tree'', ''commit'', ''tag''}"
    using assms by (auto simp: validObjectInfo_def objectIDPattern_def digestPattern_def)
  show "ValidString ident" using ValidString_lowerHex [OF id] .
  have "ascii (oi_Type info)" using ty by (auto simp: ascii_def)
  then have ty: "ValidString (oi_Type info)" by (rule ValidString_ascii)
  have "ValidString (oi_PackKey info) \<and> is_int64 (oi_Offset info) \<and> is_int64 (oi_Length info)"
  proof (cases "oi_PackKey info = []")
    case True
    then show ?thesis using assms by (simp add: validObjectInfo_def is_int64_def MaxInt64_def ValidString_ascii ascii_def)
  next
    case False
    then obtain d where d: "digestPattern d" "oi_PackKey info = ''packs/'' @ d @ ''.pack''"
      and b: "12 \<le> oi_Offset info" "0 < oi_Length info" "oi_Length info \<le> MaxGitObjectBytes + 1048576"
        "oi_Offset info \<le> RepositoryRules.MaxPackBytes - 20 - oi_Length info"
      using assms by (auto simp: validObjectInfo_def Let_def)
    have "ascii (oi_PackKey info)" using d lowerHex_ascii [of 64 d] by (simp add: digestPattern_def ascii_def)
    then show ?thesis using b ValidString_ascii by (auto simp: is_int64_def MaxInt64_def repository_limits)
  qed
  then show "info_ok info" using ty sz ValidString_lowerHex [OF sha] by (simp add: info_ok_def is_int64_def MaxInt64_def repository_limits)
qed

lemma manifest_ok_valid:
  assumes "validateManifest Background m = None" and "\<And>objs. mf_Objects m = Some objs \<Longrightarrow> al_wf objs"
    and "\<And>index objs. mf_LFS m = Some index \<Longrightarrow> lfs_Objects index = Some objs \<Longrightarrow> al_wf objs \<and> (\<forall>(k, n) \<in> set objs. is_int64 n)"
  shows "manifest_ok m"
proof -
  obtain objs where objs: "mf_Objects m = Some objs" using assms(1) by (auto simp: validateManifest_def split: option.splits)
  have v: "mf_Schema m \<in> {1, 2}" "mf_ObjectFormat m = ''sha1''" "validLFSIndex (mf_LFS m)"
    "\<forall>(i, info) \<in> set objs. validObjectInfo i info"
    using assms(1) objs by (auto simp: validateManifest_def list_all_iff split: if_splits)
  have "map_ok info_ok (mf_Objects m)" using v(4) validObjectInfo_ok assms(2) objs by (fastforce simp: map_ok_def)
  moreover have "lfs_ok index" if lfs: "mf_LFS m = Some index" for index
  proof -
    obtain es where es: "lfs_Objects index = Some es" "lfs_Version index = 1" "\<forall>(oid, n) \<in> set es. ValidLFSOID oid"
      using v(3) lfs by (auto simp: validLFSIndex_def list_all_iff split: option.splits)
    then show ?thesis using assms(3) [OF lfs es(1)] ValidString_lowerHex
      by (fastforce simp: lfs_ok_def map_ok_def ValidLFSOID_def digestPattern_def is_int64_def MaxInt64_def)
  qed
  moreover have "ValidString ''sha1''" by (simp add: ValidString_ascii ascii_def)
  ultimately show ?thesis using v by (auto simp: manifest_ok_def is_int64_def MaxInt64_def split: option.splits)
qed

lemma validNamespace_facts:
  assumes "New ops = Inr st" and "validNamespace st namespace"
  shows "canonicalTopLevel namespace" "length namespace \<le> 63" "ValidString namespace"
proof -
  have st: "st_parser st = demoParser" using assms(1) demoParser_new by (auto simp: New_def rbind_def)
  have "namespace \<noteq> []" 
  proof
    assume "namespace = []"
    moreover have "Parse demoParser (Some \<lparr>RequestURI = [], RequestURL = Some \<lparr>Opaque = [], Path = ''/'', RawPath = []\<rparr>\<rparr>) = Inl ErrInvalidPath"
      by code_simp
    ultimately show False using assms(2) st by (simp add: validNamespace_def)
  qed
  have sl: "CHR ''/'' \<notin> set namespace" using assms(2) by (auto simp: validNamespace_def split: if_splits)
  obtain path where "Parse demoParser (Some \<lparr>RequestURI = [], RequestURL = Some \<lparr>Opaque = [], Path = ''/'' @ namespace, RawPath = []\<rparr>\<rparr>) = Inr path"
    using assms(2) st by (auto simp: validNamespace_def split: if_splits sum.splits)
  from Parse_sound [OF this] obtain components where c: "CHR ''/'' # namespace = CHR ''/'' # Join CHR ''/'' components"
    "canonicalTopLevel (hd components)" "int (length (hd components)) \<le> 63" "\<forall>c \<in> set components. CHR ''/'' \<notin> set c"
    by (auto simp: demoParser_def)
  have "namespace = hd components"
  proof (cases components)
    case (Cons a cs)
    then show ?thesis using c sl by (cases cs) auto
  qed (use c \<open>namespace \<noteq> []\<close> in simp)
  then show t: "canonicalTopLevel namespace" and "length namespace \<le> 63" using c by simp_all
  have "c \<in> set namespace \<Longrightarrow> code c < 128" for c using t by (auto simp: canonicalTopLevel_def)
  then have "ascii namespace" by (auto simp: ascii_def list_all_iff)
  then show "ValidString namespace" by (rule ValidString_ascii)
qed

lemma length_FormatInt_day: "\<bar>n\<bar> < 10 ^ 12 \<Longrightarrow> length (FormatInt n) \<le> 13"
  using length_FormatUint [of "nat \<bar>n\<bar>" 11] by (auto simp: FormatInt_def abs_if nat_less_iff split: if_splits)

lemma length_padded: "0 < w \<Longrightarrow> n < 10 ^ w \<Longrightarrow> length (padded w n) = w"
  by (rule padded_facts(1))

lemma length_formatTime:
  assumes "validTime t"
  shows "length (formatTime t) \<le> 40"
proof -
  have day: "tm_day t < 10 ^ 2" using assms by (auto simp: validTime_def daysIn_def split: if_splits)
  have "length (stripZeros xs) \<le> length xs" for xs using length_dropWhile_le [of _ "rev xs"] by (simp add: stripZeros_def)
  then have "length (stripZeros (padded 9 (tm_nano t))) \<le> length (padded 9 (tm_nano t))" .
  then have strip: "length (stripZeros (padded 9 (tm_nano t))) \<le> 9" using assms by (simp add: length_padded validTime_def)
  have "length (formatZone (tm_offset t)) \<le> 6"
  proof -
    have "nat (\<bar>tm_offset t\<bar> div 60) < 10 ^ 2" "nat (\<bar>tm_offset t\<bar> mod 60) < 10 ^ 2" using assms by (auto simp: validTime_def)
    then show ?thesis by (simp add: formatZone_def length_padded)
  qed
  then show ?thesis using strip day assms by (simp add: formatTime_def length_padded validTime_def)
qed

lemma length_metadata:
  assumes "validTime (md_CreatedAt m)" "length (md_ID m) \<le> 64" "length (md_Namespace m) \<le> 64" "length (md_Name m) \<le> 64"
    "length (md_Description m) \<le> 2000" "length (md_DefaultBranch m) \<le> 128" "length (md_CreatedBy m) \<le> 512" "length (md_Visibility m) \<le> 64"
  shows "length (marshal (metadataRecordJson \<lparr>mr_Schema = 1, mr_Metadata = m\<rparr>)) \<le> maxJSONBytes"
proof -
  have "FormatInt 1 = FormatUint 1" by (simp add: FormatInt_def)
  then have one: "length (FormatInt 1) \<le> 20" using length_FormatUint [of 1 0] by simp
  have names: "length (quote k) \<le> 100" if "length k \<le> 16" for k using length_quote [of k] that by simp
  have n: "length (quote ''schemaVersion'') \<le> 100" "length (quote ''repository'') \<le> 100" "length (quote ''id'') \<le> 100"
    "length (quote ''namespace'') \<le> 100" "length (quote ''name'') \<le> 100" "length (quote ''description'') \<le> 100"
    "length (quote ''defaultBranch'') \<le> 100" "length (quote ''createdAt'') \<le> 100" "length (quote ''createdBy'') \<le> 100"
    "length (quote ''visibility'') \<le> 100" "length (quote ''empty'') \<le> 100"
    by (rule names, simp)+
  have "length (formatTime (md_CreatedAt m)) \<le> 40" using assms(1) by (rule length_formatTime)
  then show ?thesis
    using assms one n length_quote [of "md_ID m"] length_quote [of "md_Namespace m"] length_quote [of "md_Name m"]
      length_quote [of "md_Description m"] length_quote [of "md_DefaultBranch m"] length_quote [of "md_CreatedBy m"]
      length_quote [of "md_Visibility m"] length_quote [of "formatTime (md_CreatedAt m)"]
    by (simp add: marshal_def metadataRecordJson_def metadataJson_def maxJSONBytes_def)
qed

lemma newMetadata_ok:
  assumes "New ops = Inr st" "validInput st namespace input" "length randomID = 16" "validTime now"
  shows "metadata_ok (newMetadata randomID now namespace input)"
    "length (marshal (metadataRecordJson \<lparr>mr_Schema = 1, mr_Metadata = newMetadata randomID now namespace input\<rparr>)) \<le> maxJSONBytes"
proof -
  let ?m = "newMetadata randomID now namespace input"
  have ns: "length namespace \<le> 63" "ValidString namespace"
    using assms(2) validNamespace_facts [OF assms(1)] by (auto simp: validInput_def)
  have name: "namePattern (ci_Name input)" using assms(2) by (simp add: validInput_def ValidName_def)
  have "ascii (ci_Name input)" unfolding ascii_def list_all_iff
  proof
    fix c assume "c \<in> set (ci_Name input)"
    then have "lower_alnum c \<or> c \<in> set ''._-''" using name by (auto simp: namePattern_def list_all_iff)
    then show "code c < 128" by (auto simp: lower_alnum_def is_digit_def)
  qed
  then have nm: "ValidString (ci_Name input)" by (rule ValidString_ascii)
  have t: "validTime (now\<lparr>tm_nano := 0\<rparr>)" using assms(4) by (simp add: validTime_def)
  have "lowerHex 32 (EncodeToString randomID)" using lowerHex_EncodeToString [OF assms(3)] by simp
  then have i: "ValidString (EncodeToString randomID)" by (rule ValidString_lowerHex)
  have "ValidString ''private''" by (simp add: ValidString_ascii ascii_def)
  then show "metadata_ok ?m" using ns nm t i assms(2)
    by (simp add: metadata_ok_def newMetadata_def validInput_def validDescription_def validBranch_def validText_def)
  show "length (marshal (metadataRecordJson \<lparr>mr_Schema = 1, mr_Metadata = ?m\<rparr>)) \<le> maxJSONBytes"
    using t ns name assms(2,3)
    by (intro length_metadata) (simp_all add: newMetadata_def validInput_def validDescription_def validBranch_def validText_def namePattern_def)
qed

section \<open>What a creation does to the store\<close>

text \<open>Objects are only added, and only below a prefix.\<close>

definition grown :: "('s \<Rightarrow> string \<Rightarrow> 'v option) \<Rightarrow> string \<Rightarrow> 's \<Rightarrow> 's \<Rightarrow> bool" where
  "grown cts pre s s' \<longleftrightarrow> cts s \<subseteq>\<^sub>m cts s' \<and> (\<forall>k. \<not> prefix pre k \<longrightarrow> cts s' k = cts s k)"

lemma grown_refl [simp]: "grown cts pre s s"
  by (simp add: grown_def)

lemma grown_trans: "grown cts pre s t \<Longrightarrow> grown cts pre t u \<Longrightarrow> grown cts pre s u"
  by (auto simp: grown_def intro: map_le_trans)

lemma grown_Some: "grown cts pre s s' \<Longrightarrow> cts s k = Some x \<Longrightarrow> cts s' k = Some x"
  by (force simp: grown_def map_le_def dom_def)

definition repositoryPrefix :: "string \<Rightarrow> string" where
  "repositoryPrefix i = ''repos/'' @ i @ ''/''"

lemma under_repository [simp]:
  "prefix (repositoryPrefix i) (''repos/'' @ i @ ''/'' @ rel)" "prefix (repositoryPrefix i) (objectKey i ident)"
  "prefix (repositoryPrefix i) (snapshotPath i kind v)" "prefix (repositoryPrefix i) (stateKey i)"
  "prefix (repositoryPrefix i) (snapshotKey i state)" "\<not> prefix (repositoryPrefix i) (metadataKey namespace name)"
  by (auto simp: repositoryPrefix_def objectKey_def snapshotPath_def stateKey_def snapshotKey_def metadataKey_def prefix_def)

text \<open>The manifest of a new repository.\<close>

definition looseInfos :: "infos \<Rightarrow> bool" where
  "looseInfos objs \<longleftrightarrow> al_wf objs \<and> length objs \<le> 3 \<and> (\<forall>(i, info) \<in> set objs. validObjectInfo i info \<and> oi_PackKey info = [])"

definition looseInfo :: "string \<Rightarrow> bytes \<Rightarrow> objectInfo" where
  "looseInfo kind content = zeroInfo\<lparr>oi_Type := kind, oi_Size := int (length content), oi_SHA256 := objectSHA256 kind content\<rparr>"

lemma validObjectInfo_loose:
  assumes "kind \<in> {''blob'', ''tree'', ''commit'', ''tag''}" "int (length content) \<le> maxObjectBytes"
  shows "validObjectInfo (objectID kind content) (looseInfo kind content)"
  using assms lowerHex_EncodeToString [of "Sum1 b" 20 for b] lowerHex_EncodeToString [of "Sum256 b" 32 for b]
  by (auto simp: validObjectInfo_def looseInfo_def zeroInfo_def objectIDPattern_def digestPattern_def objectID_def objectSHA256_def repository_limits)

lemma looseInfos_put:
  assumes "looseInfos objs" "length objs < 3" "kind \<in> {''blob'', ''tree'', ''commit'', ''tag''}" "int (length content) \<le> maxObjectBytes"
  shows "looseInfos (al_put (objectID kind content) (looseInfo kind content) objs)"
    "length (al_put (objectID kind content) (looseInfo kind content) objs) \<le> Suc (length objs)"
proof -
  show len: "length (al_put i x objs) \<le> Suc (length objs)" for i x by (induction objs) auto
  show "looseInfos (al_put (objectID kind content) (looseInfo kind content) objs)"
    using assms validObjectInfo_loose [OF assms(3,4)] len [of "objectID kind content" "looseInfo kind content"]
    by (auto simp: looseInfos_def looseInfo_def zeroInfo_def dest!: al_put_snd)
qed

lemma DecodeString_EncodeToString: "DecodeString (EncodeToString b) = Some b"
proof (induction b)
  case (Cons x b)
  have hex: "hex_digit (hex_char n) = Some n" if "n < 16" for n
  proof -
    have "hex_char n = lower_hex n" by (simp add: hex_char_def lower_hex_def)
    then show ?thesis using that by simp
  qed
  have "of_nat (16 * (unat x div 16) + unat x mod 16) = x" by (simp only: mult_div_mod_eq) simp
  moreover have "EncodeToString (x # b) = hex_char (unat x div 16) # hex_char (unat x mod 16) # EncodeToString b" by (simp add: EncodeToString_def)
  ultimately show ?case using Cons hex unat_byte_bounds [of x] by simp
qed (simp add: EncodeToString_def)

context sized_store
begin

lemma putObject_ok:
  assumes "st_objects st = ops" "inv s" "room (Suc n) s" "putObject z st ctx i kind content objs s = (r, s')"
  shows "inv s' \<and> room n s' \<and> grown contents (repositoryPrefix i) s s' \<and>
    (\<forall>ident objs'. r = Inr (ident, objs') \<longrightarrow> ident = objectID kind content \<and> objs' = al_put ident (looseInfo kind content) objs \<and>
       (\<exists>v. contents s' (objectKey i ident) = Some (concat (zl_write z (objectHeader kind (int (length content)) @ content)), v)))"
proof -
  let ?c = "concat (zl_write z (objectHeader kind (int (length content)) @ content))"
  obtain e s1 where put: "PutImmutable ops ctx (objectKey i (objectID kind content)) (Some (bytes_NewReader ?c)) (int (length ?c)) s = (e, s1)" by force
  note ok = PutImmutable_ok [OF assms(2,3) put]
  have eq: "s' = s1" "r = (case e of Some e \<Rightarrow> Inl e | None \<Rightarrow> Inr (objectID kind content, al_put (objectID kind content) (looseInfo kind content) objs))"
    using assms(1,4) put by (auto simp: putObject_def Let_def objectID_def objectSHA256_def looseInfo_def split: option.splits)
  have "grown contents (repositoryPrefix i) s s'" unfolding grown_def
    using ok under_repository(2) eq(1) by metis
  then show ?thesis using ok eq by (auto split: option.splits)
qed

lemma initializeReadme_ok:
  assumes "st_objects st = ops" "inv s" "room (Suc (Suc (Suc n))) s" "initializeReadme z st ctx m input [] s = (r, s')"
    and "length (md_Name m) \<le> 63" "length (md_Description m) \<le> 2000" "length (ci_AuthorName input) \<le> 254" "length (ci_AuthorEmail input) \<le> 254"
    and "\<bar>Unix (md_CreatedAt m)\<bar> < 10 ^ 12"
  shows "inv s' \<and> room n s' \<and> grown contents (repositoryPrefix (md_ID m)) s s' \<and>
    (\<forall>commit objs. r = Inr (commit, objs) \<longrightarrow> objectIDPattern commit \<and> looseInfos objs \<and>
       (\<exists>info. map_of objs commit = Some info \<and> oi_Type info = ''commit''))"
proof -
  define content where "content = ''# '' @ md_Name m @ newline @ (if md_Description m \<noteq> [] then newline @ md_Description m @ newline else [])"
  obtain r1 s1 where p1: "putObject z st ctx (md_ID m) ''blob'' (bytes_of content) [] s = (r1, s1)" by force
  note ok1 = putObject_ok [OF assms(1-3) p1]
  have i1: "inv s1" "room (Suc (Suc n)) s1" using ok1 by auto
  show ?thesis
  proof (cases r1)
    case (Inl e)
    then have "s' = s1" "r = Inl e" using assms(4) p1 by (simp_all add: initializeReadme_def content_def Let_def)
    then show ?thesis using ok1 room_less by auto
  next
    case (Inr bo)
    obtain blob objs1 where bo: "r1 = Inr (blob, objs1)" using Inr by (cases bo) simp
    define treeData where "treeData = bytes_of ''100644 README.md'' @ [0] @ Sum1 (objectHeader ''blob'' (int (length (bytes_of content))) @ bytes_of content)"
    have blob: "blob = objectID ''blob'' (bytes_of content)" using ok1 bo by blast
    have dec: "DecodeString blob = Some (Sum1 (objectHeader ''blob'' (int (length (bytes_of content))) @ bytes_of content))"
      unfolding blob objectID_def by (rule DecodeString_EncodeToString)
    have l1: "looseInfos objs1" "length objs1 \<le> 1"
      using ok1 bo looseInfos_put [of "[]" "''blob''" "bytes_of content"] assms(5,6)
      by (auto simp: looseInfos_def content_def newline_def repository_limits)
    obtain r2 s2 where p2: "putObject z st ctx (md_ID m) ''tree'' treeData objs1 s1 = (r2, s2)" by force
    note ok2 = putObject_ok [OF assms(1) i1 p2]
    have i2: "inv s2" "room (Suc n) s2" using ok2 by auto
    show ?thesis
    proof (cases r2)
      case (Inl e)
      then have "s' = s2" "r = Inl e" using assms(4) p1 bo dec p2 by (simp_all add: initializeReadme_def content_def Let_def treeData_def)
      then show ?thesis using ok1 ok2 room_less grown_trans by (metis Inl_Inr_False)
    next
      case (Inr to)
      obtain tree objs2 where to: "r2 = Inr (tree, objs2)" using Inr by (cases to) simp
      have tree: "tree = objectID ''tree'' treeData" using ok2 to by blast
      have l2: "looseInfos objs2" "length objs2 \<le> 2"
        using ok2 to looseInfos_put [OF l1(1), of "''tree''" treeData] l1(2) by (auto simp: treeData_def repository_limits)
      define sig where "sig = ci_AuthorName input @ '' <'' @ ci_AuthorEmail input @ ''> '' @ FormatInt (Unix (md_CreatedAt m)) @ '' +0000''"
      define commit where "commit = bytes_of (''tree '' @ tree @ newline @ ''author '' @ sig @ newline @ ''committer '' @ sig @ newline @ newline @ ''Initial commit'' @ newline)"
      have p3: "putObject z st ctx (md_ID m) ''commit'' commit objs2 s2 = (r, s')"
        using assms(4) p1 bo dec p2 to by (simp add: initializeReadme_def content_def Let_def treeData_def commit_def sig_def)
      note ok3 = putObject_ok [OF assms(1) i2 p3]
      have "length sig \<le> 600" using assms(7-8) length_FormatInt_day [OF assms(9)] by (simp add: sig_def)
      then have len: "int (length commit) \<le> maxObjectBytes" using tree by (simp add: commit_def newline_def objectID_def repository_limits)
      have "objectIDPattern (objectID ''commit'' commit)" using lowerHex_EncodeToString [of "Sum1 b" 20 for b] by (simp add: objectIDPattern_def objectID_def)
      moreover have "looseInfos (al_put (objectID ''commit'' commit) (looseInfo ''commit'' commit) objs2)"
        using looseInfos_put(1) [OF l2(1) _ _ len, of "''commit''"] l2(2) by simp
      ultimately have "\<forall>c objs. r = Inr (c, objs) \<longrightarrow> objectIDPattern c \<and> looseInfos objs \<and> (\<exists>info. map_of objs c = Some info \<and> oi_Type info = ''commit'')"
        using ok3 by (auto simp: looseInfo_def)
      moreover have "grown contents (repositoryPrefix (md_ID m)) s s'" using ok1 ok2 ok3 grown_trans by metis
      ultimately show ?thesis using ok3 by blast
    qed
  qed
qed

end

end
