(* ===== verification/CreateProperties.thy ===== *)
theory CreateProperties
  imports RepositoryCreate
begin

text \<open>
  What \<^verbatim>\<open>Create\<close> of \<^verbatim>\<open>internal/repository/repository.go\<close> guarantees over any object store, and that the repository it returns is the one \<^verbatim>\<open>load\<close> reads.
\<close>

lemma Unix_bound:
  assumes "validTime t"
  shows "\<bar>Unix t\<bar> < 10 ^ 12"
proof -
  define y where "y = int (tm_year t) - (if tm_month t \<le> 2 then 1 else 0)"
  define doy where "doy = (153 * (int (tm_month t) + (if tm_month t > 2 then - 3 else 9)) + 2) div 5 + int (tm_day t) - 1"
  have v: "tm_year t \<le> 9999" "1 \<le> tm_month t" "tm_month t \<le> 12" "tm_day t \<le> 31"
    using assms by (auto simp: validTime_def daysIn_def split: if_splits)
  have y: "- 1 \<le> y" "y \<le> 9999" using v by (auto simp: y_def)
  define era yoe where "era = y div 400" and "yoe = y mod 400"
  have era: "- 1 \<le> era" "era \<le> 24" "0 \<le> yoe" "yoe < 400" using y by (auto simp: era_def yoe_def)
  then have q: "0 \<le> yoe div 4" "yoe div 4 < 100" "0 \<le> yoe div 100" "yoe div 100 < 4" by auto
  have doy: "- 1 \<le> doy" "doy \<le> 400" using v unfolding doy_def by (auto split: if_splits)
  have "y - y div 400 * 400 = yoe" by (simp add: yoe_def minus_div_mult_eq_mod)
  then have "daysFromCivil (tm_year t) (tm_month t) (tm_day t) = era * 146097 + (yoe * 365 + yoe div 4 - yoe div 100 + doy) - 719468"
    unfolding daysFromCivil_def y_def [symmetric] doy_def [symmetric] Let_def era_def by simp
  then have "- 10000000 < daysFromCivil (tm_year t) (tm_month t) (tm_day t)" "daysFromCivil (tm_year t) (tm_month t) (tm_day t) < 10000000"
    using era doy q by linarith+
  then show ?thesis using assms by (auto simp: Unix_def validTime_def)
qed

lemma Create_Inr:
  assumes "Create z st randomID now ctx namespace input s = (Inr m, s')"
  obtains refs objs s1 refsKey s2 manifestKey s3 s4 where
    "validInput st namespace (withBranch input)" "m = newMetadata randomID now namespace (withBranch input)"
    "if ci_InitializeReadme input
     then \<exists>commit. initializeReadme z st ctx m (withBranch input) [] s = (Inr (commit, objs), s1) \<and>
       refs = [(''refs/heads/'' @ ci_DefaultBranch (withBranch input), commit)]
     else s1 = s \<and> refs = [] \<and> objs = []"
    "putSnapshot (st_objects st) ctx (md_ID m) ''refs'' (refsJson \<lparr>rs_Schema = 1, rs_Refs = Some refs\<rparr>) s1 = (Inr refsKey, s2)"
    "putSnapshot (st_objects st) ctx (md_ID m) ''manifest''
       (manifestJson \<lparr>mf_Schema = 1, mf_ObjectFormat = ''sha1'', mf_Objects = Some objs, mf_LFS = None\<rparr>) s2 = (Inr manifestKey, s3)"
    "CompareAndSwapState (st_objects st) ctx (md_ID m) [] (firstState (withBranch input) refsKey manifestKey) s3 = (None, s4)"
    "claimName st ctx m s4 = (Inr m, s')"
proof -
  define i where "i = withBranch input"
  define md where "md = newMetadata randomID now namespace i"
  have v: "validInput st namespace i" using assms by (simp add: Create_def Let_def i_def split: if_splits)
  have ri: "ci_InitializeReadme i = ci_InitializeReadme input" by (simp add: i_def withBranch_def)
  obtain refs objs s1 refsKey s2 manifestKey s3 where st1: "(if ci_InitializeReadme i
        then sbind (initializeReadme z st ctx md i [] s) (\<lambda>(commit, objs) s. (Inr ([(''refs/heads/'' @ ci_DefaultBranch i, commit)], objs), s))
        else (Inr ([], []), s)) = (Inr (refs, objs), s1)"
    "putSnapshot (st_objects st) ctx (md_ID md) ''refs'' (refsJson \<lparr>rs_Schema = 1, rs_Refs = Some refs\<rparr>) s1 = (Inr refsKey, s2)"
    "putSnapshot (st_objects st) ctx (md_ID md) ''manifest''
       (manifestJson \<lparr>mf_Schema = 1, mf_ObjectFormat = ''sha1'', mf_Objects = Some objs, mf_LFS = None\<rparr>) s2 = (Inr manifestKey, s3)"
    and rest: "(case CompareAndSwapState (st_objects st) ctx (md_ID md) [] (firstState i refsKey manifestKey) s3 of
                (Some e, s) \<Rightarrow> (Inl e, s) | (None, s) \<Rightarrow> claimName st ctx md s) = (Inr m, s')"
    using assms v unfolding Create_def Let_def i_def [symmetric] md_def [symmetric]
    by (auto simp: sbind_Inr split: sum.splits if_splits)
  obtain s4 where cas: "CompareAndSwapState (st_objects st) ctx (md_ID md) [] (firstState i refsKey manifestKey) s3 = (None, s4)"
    and claim: "claimName st ctx md s4 = (Inr m, s')" using rest by (auto split: prod.splits option.splits)
  have "m = md" using claim by (auto simp: claimName_def Let_def split: prod.splits sum.splits if_splits)
  moreover have "if ci_InitializeReadme input
     then \<exists>commit. initializeReadme z st ctx md i [] s = (Inr (commit, objs), s1) \<and> refs = [(''refs/heads/'' @ ci_DefaultBranch i, commit)]
     else s1 = s \<and> refs = [] \<and> objs = []"
    using st1(1) ri by (auto simp: sbind_Inr)
  ultimately show thesis using v st1(2,3) cas claim by (intro that [of objs s1 refs refsKey s2 manifestKey s3 s4]) (simp_all only: i_def md_def)
qed

lemma refs_ok_branch:
  assumes "validBranch branch" "objectIDPattern commit"
  shows "refs_ok \<lparr>rs_Schema = 1, rs_Refs = Some [(''refs/heads/'' @ branch, commit)]\<rparr>" "loadedRef m (''refs/heads/'' @ branch, commit) \<longleftrightarrow> oi_Type (infoAt m commit) = ''commit''"
proof -
  have "ValidString branch" using assms(1) by (simp add: validBranch_def)
  moreover have "ascii ''refs/heads/''" by (simp add: ascii_def)
  ultimately have v: "ValidString (''refs/heads/'' @ branch)" by (simp only: ValidString_append)
  then show "refs_ok \<lparr>rs_Schema = 1, rs_Refs = Some [(''refs/heads/'' @ branch, commit)]\<rparr>"
    using assms(2) ValidString_lowerHex [of 40 commit] by (simp add: refs_ok_def map_ok_def al_wf_def is_int64_def MaxInt64_def objectIDPattern_def)
  show "loadedRef m (''refs/heads/'' @ branch, commit) \<longleftrightarrow> oi_Type (infoAt m commit) = ''commit''"
    using assms by (auto simp: loadedRef_def ValidRef_def TrimPrefix_def)
qed

lemma looseManifest_ok:
  assumes "looseInfos objs"
  shows "manifest_ok \<lparr>mf_Schema = 1, mf_ObjectFormat = ''sha1'', mf_Objects = Some objs, mf_LFS = None\<rparr>"
    "validateManifest Background \<lparr>mf_Schema = 1, mf_ObjectFormat = ''sha1'', mf_Objects = Some objs, mf_LFS = None\<rparr> = None"
proof -
  show v: "validateManifest Background \<lparr>mf_Schema = 1, mf_ObjectFormat = ''sha1'', mf_Objects = Some objs, mf_LFS = None\<rparr> = None"
    using assms by (auto simp: validateManifest_def looseInfos_def validLFSIndex_def list_all_iff repository_limits)
  show "manifest_ok \<lparr>mf_Schema = 1, mf_ObjectFormat = ''sha1'', mf_Objects = Some objs, mf_LFS = None\<rparr>"
    using assms by (intro manifest_ok_valid [OF v]) (auto simp: looseInfos_def)
qed

context sized_store
begin

lemma claimName_ok:
  assumes "st_objects st = ops" "inv s" "room (Suc n) s" "claimName st ctx m s = (r, s')"
  defines "key \<equiv> metadataKey (md_Namespace m) (md_Name m)"
  shows "inv s' \<and> room n s' \<and> contents s \<subseteq>\<^sub>m contents s' \<and> (\<forall>k. k \<noteq> key \<longrightarrow> contents s' k = contents s k) \<and> ((\<exists>e. r = Inl e) \<longrightarrow> s' = s) \<and>
    (r = Inr m \<longrightarrow> contents s key = None \<and> (\<exists>v. contents s' key = Some (marshal (metadataRecordJson \<lparr>mr_Schema = 1, mr_Metadata = m\<rparr>), v)))"
proof -
  obtain x s1 where put: "put_bytes ops ctx key (marshal (metadataRecordJson \<lparr>mr_Schema = 1, mr_Metadata = m\<rparr>)) if_absent s = (x, s1)" by force
  show ?thesis
  proof (cases x)
    case (Inl e)
    then have "s1 = s" using put put_error by blast
    then have "s' = s" "\<exists>e. r = Inl e" using assms(1,4) put Inl by (auto simp: claimName_def Let_def key_def split: if_splits)
    then show ?thesis using assms(2) room_less [OF assms(3)] by auto
  next
    case (Inr info)
    then have "s' = s1" "r = Inr m" using assms(1,4) put by (auto simp: claimName_def Let_def key_def)
    then show ?thesis using put_ok [OF assms(2,3) put [unfolded Inr]] by (auto simp: put_allowed_def map_le_def)
  qed
qed

end

context sized_store
begin

lemma CompareAndSwapState_first:
  assumes "inv s" "room (Suc (Suc n)) s" "CompareAndSwapState ops ctx i [] st s = (e, s')"
  shows "inv s' \<and> room n s' \<and> grown contents (repositoryPrefix i) s s' \<and>
    (e = None \<longrightarrow> (\<exists>v. LoadState ops Background i s' = Inr (withSchema st, v)))"
proof (cases e)
  case None
  note ok = CompareAndSwapState_publishes [OF assms(1,2) assms(3) [unfolded None], unfolded Let_def]
  have "contents s (stateKey i) = None" using ok by simp
  moreover have keep: "k \<noteq> stateKey i \<Longrightarrow> contents s k = Some x \<Longrightarrow> contents s' k = Some x" for k x using ok by blast
  ultimately have "contents s k = Some x \<Longrightarrow> contents s' k = Some x" for k x by (cases "k = stateKey i") simp_all
  then have "contents s \<subseteq>\<^sub>m contents s'" by (auto simp: map_le_def)
  moreover have "contents s' k = contents s k" if "\<not> prefix (repositoryPrefix i) k" for k
  proof -
    have "k \<noteq> stateKey i" "k \<noteq> snapshotKey i (withSchema st)" using that under_repository(4,5) by blast+
    then show ?thesis using ok by simp
  qed
  ultimately have "grown contents (repositoryPrefix i) s s'" by (simp add: grown_def)
  then show ?thesis using ok None by blast
next
  case (Some x)
  note ok = CompareAndSwapState_refused [OF assms(1,2) assms(3) [unfolded Some]]
  have "contents s k = Some x \<Longrightarrow> contents s' k = Some x" for k x using ok by blast
  then have "contents s \<subseteq>\<^sub>m contents s'" by (auto simp: map_le_def)
  moreover have "contents s' k = contents s k" if "\<not> prefix (repositoryPrefix i) k" for k
  proof -
    have "k \<noteq> snapshotKey i (withSchema st)" using that under_repository(5) by blast
    then show ?thesis using ok by simp
  qed
  ultimately have "grown contents (repositoryPrefix i) s s'" by (simp add: grown_def)
  then show ?thesis using ok Some room_less by blast
qed

lemma putSnapshot_grown:
  assumes "inv s" "room (Suc n) s" "putSnapshot ops ctx i kind v s = (r, s')"
  shows "inv s' \<and> room n s' \<and> grown contents (repositoryPrefix i) s s'"
proof (cases r)
  case (Inr key)
  note ok = putSnapshot_ok [OF assms(1,2) assms(3) [unfolded Inr]]
  then show ?thesis unfolding grown_def using under_repository(3) by metis
next
  case (Inl e)
  have "s' = s \<or> (\<exists>x. PutImmutable ops ctx (snapshotPath i kind v) (Some (bytes_NewReader (marshal v))) (int (length (marshal v))) s = (x, s'))"
    using assms(3) by (auto simp: putSnapshot_def Let_def snapshotPath_def split: if_splits prod.splits option.splits)
  then show ?thesis using assms(1) room_less [OF assms(2)] PutImmutable_ok [OF assms(1,2)] under_repository(3) unfolding grown_def
    by (metis map_le_refl)
qed

lemma maintenanceMetadata_stored:
  assumes new: "New ops = Inr st" and "inv s" and valid: "validInput st namespace input" and len: "length randomID = 16"
    and time: "validTime now" "0 \<le> Unix now"
  defines "m \<equiv> newMetadata randomID now namespace input"
  assumes meta: "contents s (metadataKey namespace (ci_Name input)) = Some (marshal (metadataRecordJson \<lparr>mr_Schema = 1, mr_Metadata = m\<rparr>), v)"
  shows "maintenanceMetadata st Background namespace (ci_Name input) s = Inr m"
proof -
  have ops: "st_objects st = ops" using new demoParser_new by (auto simp: New_def rbind_def)
  have i: "idPattern (md_ID m)" using lowerHex_EncodeToString [OF len] by (simp add: idPattern_def m_def newMetadata_def)
  have nz: "\<not> IsZero (md_CreatedAt m)" using time(2) by (simp add: IsZero_def Unix_def m_def newMetadata_def)
  have rd: "read ops Background (metadataKey namespace (ci_Name input)) maxJSONBytes s = Inr (marshal (metadataRecordJson \<lparr>mr_Schema = 1, mr_Metadata = m\<rparr>))"
    using read_stored [OF assms(2) meta] newMetadata_ok(2) [OF new valid len time(1)] by (simp add: m_def)
  have "is_int64 1" by (simp add: is_int64_def MaxInt64_def)
  then have dec: "decodeJSON metadataRecordFields zeroRecord (marshal (metadataRecordJson \<lparr>mr_Schema = 1, mr_Metadata = m\<rparr>)) = Inr \<lparr>mr_Schema = 1, mr_Metadata = m\<rparr>"
    using metadata_roundtrip newMetadata_ok(1) [OF new valid len time(1)] by (simp add: m_def)
  have flds: "md_Namespace m = namespace" "md_Name m = ci_Name input" "md_Visibility m = ''private''" "md_DefaultBranch m = ci_DefaultBranch input"
    "md_Description m = ci_Description input" "md_CreatedBy m = ci_CreatedBy input" "md_IsEmpty m = (\<not> ci_InitializeReadme input)"
    by (simp_all add: m_def newMetadata_def)
  show ?thesis
    using valid i nz rd dec by (simp add: maintenanceMetadata_def ops rbind_def flds validInput_def)
qed

lemma load_stored:
  assumes new: "New ops = Inr st" and "inv s" and valid: "validInput st namespace input" and len: "length randomID = 16"
    and time: "validTime now" "0 \<le> Unix now"
  defines "m \<equiv> newMetadata randomID now namespace input"
  assumes refs: "refs = [] \<and> \<not> ci_InitializeReadme input \<or>
      (\<exists>commit info. refs = [(''refs/heads/'' @ ci_DefaultBranch input, commit)] \<and> ci_InitializeReadme input \<and> objectIDPattern commit \<and>
        map_of objs commit = Some info \<and> oi_Type info = ''commit'')"
    and objs: "looseInfos objs"
    and refsKey: "refsKey = snapshotName ''refs'' (marshal (refsJson \<lparr>rs_Schema = 1, rs_Refs = Some refs\<rparr>))"
      "length (marshal (refsJson \<lparr>rs_Schema = 1, rs_Refs = Some refs\<rparr>)) \<le> maxJSONBytes"
      "contents s (snapshotPath (md_ID m) ''refs'' (refsJson \<lparr>rs_Schema = 1, rs_Refs = Some refs\<rparr>)) =
         Some (marshal (refsJson \<lparr>rs_Schema = 1, rs_Refs = Some refs\<rparr>), v1)"
    and manifest: "manifest = \<lparr>mf_Schema = 1, mf_ObjectFormat = ''sha1'', mf_Objects = Some objs, mf_LFS = None\<rparr>"
    and manifestKey: "manifestKey = snapshotName ''manifest'' (marshal (manifestJson manifest))"
      "length (marshal (manifestJson manifest)) \<le> maxManifestBytes"
      "contents s (snapshotPath (md_ID m) ''manifest'' (manifestJson manifest)) = Some (marshal (manifestJson manifest), v2)"
    and state: "LoadState ops Background (md_ID m) s = Inr (firstState input refsKey manifestKey, v3)"
    and meta: "contents s (metadataKey namespace (ci_Name input)) = Some (marshal (metadataRecordJson \<lparr>mr_Schema = 1, mr_Metadata = m\<rparr>), v4)"
  shows "load st Background namespace (ci_Name input) s = Inr \<lparr>sn_metadata = m, sn_refs = \<lparr>rs_Schema = 1, rs_Refs = Some refs\<rparr>,
    sn_manifest = sortedManifest manifest, sn_state = firstState input refsKey manifestKey, sn_version = v3\<rparr>"
proof -
  have ops: "st_objects st = ops" using new demoParser_new by (auto simp: New_def rbind_def)
  have md: "maintenanceMetadata st Background namespace (ci_Name input) s = Inr m"
    using maintenanceMetadata_stored [OF new assms(2) valid len time] meta by (simp add: m_def)
  have flds: "md_DefaultBranch m = ci_DefaultBranch input" "md_IsEmpty m = (\<not> ci_InitializeReadme input)" by (simp_all add: m_def newMetadata_def)
  have ok: "refs_ok \<lparr>rs_Schema = 1, rs_Refs = Some refs\<rparr>" "sortedMap refs = refs" "list_all (loadedRef (sortedManifest manifest)) refs" "length refs \<le> 1"
  proof -
    have "infoAt (sortedManifest manifest) c = (case map_of objs c of None \<Rightarrow> zeroInfo | Some info \<Rightarrow> info)" for c
      using objs by (simp add: infoAt_def sortedManifest_def manifest looseInfos_def)
    then show "refs_ok \<lparr>rs_Schema = 1, rs_Refs = Some refs\<rparr>" "sortedMap refs = refs" "list_all (loadedRef (sortedManifest manifest)) refs" "length refs \<le> 1"
      using refs valid refs_ok_branch by (auto simp: validInput_def sortedMap_def refs_ok_def map_ok_def is_int64_def MaxInt64_def)
  qed
  have rs: "readSnapshot ops Background (md_ID m) refsKey s = Inr \<lparr>rs_Schema = 1, rs_Refs = Some refs\<rparr>"
    using readSnapshot_stored [OF assms(2) refsKey(3,2) ok(1)] ok(2) by (simp add: refsKey(1))
  have ms: "readManifest ops Background (md_ID m) manifestKey s = Inr (sortedManifest manifest)"
    using readManifest_stored [OF assms(2) manifestKey(3,2)] looseManifest_ok [OF objs] by (simp add: manifestKey(1) manifest)
  have empty: "m\<lparr>md_DefaultBranch := ci_DefaultBranch input, md_IsEmpty := (refs = [])\<rparr> = m"
    using refs flds by auto
  show ?thesis unfolding load_def ops md
    using state rs ms ok(3,4) valid empty
    by (simp add: rbind_def firstState_def TrimPrefix_def validInput_def repository_limits)
qed

end

lemma withBranch_simps [simp]:
  "ci_Name (withBranch input) = ci_Name input" "ci_InitializeReadme (withBranch input) = ci_InitializeReadme input"
  by (simp_all add: withBranch_def)

context sized_store
begin

text \<open>What a load returns depends on the stored state object only.\<close>

lemma LoadState_same:
  assumes "inv s" "inv s'" "contents s' (stateKey i) = contents s (stateKey i)" "LoadState ops Background i s = Inr (st, v)"
  shows "LoadState ops Background i s' = Inr (st, v)"
proof -
  have i: "repositoryIDPattern i" using assms(4) by (auto simp: LoadState_def repositoryKey_def split: if_splits)
  obtain b info where get: "os_Get ops Background (stateKey i) s = Inr (b, info)"
    using assms(4) repositoryKey_stateKey [OF i] by (auto simp: LoadState_def split: sum.splits)
  then have "contents s' (stateKey i) = Some (b, InfoVersion info)" using get_ok [OF assms(1)] assms(3) by simp
  then obtain info' where "os_Get ops Background (stateKey i) s' = Inr (b, info')" "InfoVersion info' = InfoVersion info"
    using get_live [OF assms(2)] by blast
  then have "LoadState ops Background i s' = LoadState ops Background i s"
    using get repositoryKey_stateKey [OF i] by (simp add: LoadState_def Let_def cong: if_cong option.case_cong)
  then show ?thesis using assms(4) by simp
qed

lemma Create_created:
  assumes new: "New ops = Inr st" and "inv s" "room (Suc (Suc (Suc (Suc (Suc (Suc (Suc (Suc n)))))))) s"
    and cr: "Create z st randomID now ctx namespace input s = (Inr m, s')"
    and env: "length randomID = 16" "validTime now" "0 \<le> Unix now"
  shows "inv s' \<and> room n s' \<and> contents s (metadataKey namespace (ci_Name input)) = None \<and> contents s \<subseteq>\<^sub>m contents s' \<and>
    (\<forall>k. \<not> prefix (repositoryPrefix (EncodeToString randomID)) k \<and> k \<noteq> metadataKey namespace (ci_Name input) \<longrightarrow> contents s' k = contents s k) \<and>
    (\<exists>snap refs. load st Background namespace (ci_Name input) s' = Inr snap \<and> sn_metadata snap = m \<and> Generation (sn_state snap) = 1 \<and>
       rs_Refs (sn_refs snap) = Some refs \<and>
       (if ci_InitializeReadme input then \<exists>commit. refs = [(''refs/heads/'' @ md_DefaultBranch m, commit)] \<and> oi_Type (infoAt (sn_manifest snap) commit) = ''commit''
        else refs = [] \<and> mf_Objects (sn_manifest snap) = Some []))"
proof -
  have ops: "st_objects st = ops" using new demoParser_new by (auto simp: New_def rbind_def)
  define i where "i = withBranch input"
  define pre where "pre = repositoryPrefix (md_ID m)"
  obtain refs objs s1 refsKey s2 manifestKey s3 s4 where valid: "validInput st namespace i" and m: "m = newMetadata randomID now namespace i"
    and first: "if ci_InitializeReadme input then \<exists>commit. initializeReadme z st ctx m i [] s = (Inr (commit, objs), s1) \<and>
         refs = [(''refs/heads/'' @ ci_DefaultBranch i, commit)] else s1 = s \<and> refs = [] \<and> objs = []"
    and p2: "putSnapshot ops ctx (md_ID m) ''refs'' (refsJson \<lparr>rs_Schema = 1, rs_Refs = Some refs\<rparr>) s1 = (Inr refsKey, s2)"
    and p3: "putSnapshot ops ctx (md_ID m) ''manifest'' (manifestJson \<lparr>mf_Schema = 1, mf_ObjectFormat = ''sha1'', mf_Objects = Some objs, mf_LFS = None\<rparr>) s2 = (Inr manifestKey, s3)"
    and cas: "CompareAndSwapState ops ctx (md_ID m) [] (firstState i refsKey manifestKey) s3 = (None, s4)"
    and claim: "claimName st ctx m s4 = (Inr m, s')"
    by (rule Create_Inr [OF cr]) (metis i_def ops)
  have names: "md_Namespace m = namespace" "md_Name m = ci_Name input" "md_DefaultBranch m = ci_DefaultBranch i" "md_ID m = EncodeToString randomID"
    by (simp_all add: m newMetadata_def i_def)
  have i1: "inv s1 \<and> room (Suc (Suc (Suc (Suc (Suc n))))) s1 \<and> grown contents pre s s1 \<and> looseInfos objs \<and>
      (refs = [] \<and> \<not> ci_InitializeReadme i \<or> (\<exists>commit info. refs = [(''refs/heads/'' @ ci_DefaultBranch i, commit)] \<and> ci_InitializeReadme i \<and>
        objectIDPattern commit \<and> map_of objs commit = Some info \<and> oi_Type info = ''commit''))"
  proof (cases "ci_InitializeReadme input")
    case True
    then obtain commit where c: "initializeReadme z st ctx m i [] s = (Inr (commit, objs), s1)" "refs = [(''refs/heads/'' @ ci_DefaultBranch i, commit)]"
      using first by auto
    have "\<bar>Unix (md_CreatedAt m)\<bar> < 10 ^ 12" using Unix_bound [OF env(2)] by (simp add: m newMetadata_def Unix_def)
    with initializeReadme_ok [OF ops assms(2,3) c(1)] show ?thesis using valid True c(2)
      by (simp add: pre_def m newMetadata_def validInput_def ValidName_def namePattern_def validDescription_def validIdentityPart_def validText_def i_def)
  next
    case False
    then have "s1 = s" "refs = []" "objs = []" using first by auto
    then show ?thesis using assms(2,3) room_less False by (simp add: looseInfos_def i_def)
  qed
  note ok2 = putSnapshot_ok [OF conjunct1 [OF i1] conjunct1 [OF conjunct2 [OF i1]] p2]
  have g2: "grown contents pre s1 s2" using putSnapshot_grown i1 p2 unfolding pre_def by blast
  note ok3 = putSnapshot_ok [OF conjunct1 [OF ok2] conjunct1 [OF conjunct2 [OF ok2]] p3]
  have i2: "inv s2" "room (Suc (Suc (Suc (Suc n)))) s2" using ok2 by auto
  have g3: "grown contents pre s2 s3" using putSnapshot_grown [OF i2 p3] unfolding pre_def by blast
  have i3: "inv s3" "room (Suc (Suc (Suc n))) s3" using ok3 by auto
  note ok4 = CompareAndSwapState_first [OF i3 cas]
  have i4: "inv s4" "room (Suc n) s4" and g4: "grown contents pre s3 s4" using ok4 by (auto simp: pre_def)
  note ok5 = claimName_ok [OF ops i4 claim, unfolded names(1,2)]
  have keep: "contents s3 k = Some x \<Longrightarrow> contents s' k = Some x" for k x
    using grown_Some [OF g4] ok5 by (metis domI map_le_def)
  have s24: "contents s2 k = Some x \<Longrightarrow> contents s' k = Some x" for k x using keep grown_Some [OF g3] by blast
  obtain v1 where v1: "contents s' (snapshotPath (md_ID m) ''refs'' (refsJson \<lparr>rs_Schema = 1, rs_Refs = Some refs\<rparr>)) =
      Some (marshal (refsJson \<lparr>rs_Schema = 1, rs_Refs = Some refs\<rparr>), v1)" using ok2 s24 by blast
  obtain v2 where v2: "contents s' (snapshotPath (md_ID m) ''manifest'' (manifestJson \<lparr>mf_Schema = 1, mf_ObjectFormat = ''sha1'', mf_Objects = Some objs, mf_LFS = None\<rparr>)) =
      Some (marshal (manifestJson \<lparr>mf_Schema = 1, mf_ObjectFormat = ''sha1'', mf_Objects = Some objs, mf_LFS = None\<rparr>), v2)" using ok3 keep by blast
  obtain v4 where v4: "contents s' (metadataKey namespace (ci_Name i)) = Some (marshal (metadataRecordJson \<lparr>mr_Schema = 1, mr_Metadata = m\<rparr>), v4)"
    using ok5 by (auto simp: i_def)
  obtain v3 where v3: "LoadState ops Background (md_ID m) s4 = Inr (firstState i refsKey manifestKey, v3)"
    using ok4 by (auto simp: withSchema_def firstState_def)
  have "stateKey (md_ID m) \<noteq> metadataKey namespace (ci_Name input)" by (metis under_repository(4,6))
  then have "contents s' (stateKey (md_ID m)) = contents s4 (stateKey (md_ID m))" using ok5 by simp
  then have st: "LoadState ops Background (md_ID m) s' = Inr (firstState i refsKey manifestKey, v3)"
    using LoadState_same [OF i4(1) _ _ v3] ok5 by simp
  have refsKey: "refsKey = snapshotName ''refs'' (marshal (refsJson \<lparr>rs_Schema = 1, rs_Refs = Some refs\<rparr>))"
    "length (marshal (refsJson \<lparr>rs_Schema = 1, rs_Refs = Some refs\<rparr>)) \<le> maxJSONBytes"
    using ok2 by (simp_all add: snapshotLimit_def)
  have manifestKey: "manifestKey = snapshotName ''manifest'' (marshal (manifestJson \<lparr>mf_Schema = 1, mf_ObjectFormat = ''sha1'', mf_Objects = Some objs, mf_LFS = None\<rparr>))"
    "length (marshal (manifestJson \<lparr>mf_Schema = 1, mf_ObjectFormat = ''sha1'', mf_Objects = Some objs, mf_LFS = None\<rparr>)) \<le> maxManifestBytes"
    using ok3 by (simp_all add: snapshotLimit_def)
  have i5: "inv s'" using ok5 by simp
  note ld = load_stored [OF new i5 valid env, folded m, OF conjunct2 [OF conjunct2 [OF conjunct2 [OF conjunct2 [OF i1]]]] conjunct1 [OF conjunct2 [OF conjunct2 [OF conjunct2 [OF i1]]]]
      refsKey v1 refl manifestKey v2 st v4]
  have shape: "if ci_InitializeReadme input then \<exists>commit. refs = [(''refs/heads/'' @ ci_DefaultBranch i, commit)] \<and>
      oi_Type (infoAt (sortedManifest \<lparr>mf_Schema = 1, mf_ObjectFormat = ''sha1'', mf_Objects = Some objs, mf_LFS = None\<rparr>) commit) = ''commit''
    else refs = [] \<and> objs = []"
    using i1 first by (auto simp: infoAt_def sortedManifest_def looseInfos_def i_def)
  have g: "grown contents pre s s4" using i1 g2 g3 g4 grown_trans by metis
  have "contents s \<subseteq>\<^sub>m contents s'" using g ok5 by (auto simp: grown_def intro: map_le_trans)
  moreover have "contents s (metadataKey namespace (ci_Name input)) = None" using g ok5 by (simp add: grown_def pre_def)
  moreover have "contents s' k = contents s k" if "\<not> prefix pre k" "k \<noteq> metadataKey namespace (ci_Name input)" for k
    using that g ok5 by (simp add: grown_def)
  ultimately have "inv s' \<and> room n s' \<and> contents s (metadataKey namespace (ci_Name input)) = None \<and> contents s \<subseteq>\<^sub>m contents s' \<and>
    (\<forall>k. \<not> prefix (repositoryPrefix (EncodeToString randomID)) k \<and> k \<noteq> metadataKey namespace (ci_Name input) \<longrightarrow> contents s' k = contents s k)"
    using i5 ok5 by (simp add: pre_def names)
  moreover have "ci_Name i = ci_Name input" by (simp add: i_def)
  note ld [unfolded this]
  moreover have "Generation (firstState i refsKey manifestKey) = 1" by (simp add: firstState_def)
  ultimately show ?thesis using shape names(3)
    by (intro conjI exI [of _ refs] exI [of _ "\<lparr>sn_metadata = m, sn_refs = \<lparr>rs_Schema = 1, rs_Refs = Some refs\<rparr>,
      sn_manifest = sortedManifest \<lparr>mf_Schema = 1, mf_ObjectFormat = ''sha1'', mf_Objects = Some objs, mf_LFS = None\<rparr>,
      sn_state = firstState i refsKey manifestKey, sn_version = v3\<rparr>"]) (auto simp: sortedManifest_def split: if_splits)
qed

end

lemma sbind_Inl: "sbind m f = (Inl e, s') \<longleftrightarrow> m = (Inl e, s') \<or> (\<exists>x s1. m = (Inr x, s1) \<and> f x s1 = (Inl e, s'))"
  by (cases m; cases "fst m") auto

context sized_store
begin

lemma Create_failed:
  assumes new: "New ops = Inr st" and "inv s" "room (Suc (Suc (Suc (Suc (Suc (Suc (Suc (Suc n)))))))) s"
    and cr: "Create z st randomID now ctx namespace input s = (Inl e, s')" and "validTime now"
  shows "inv s' \<and> grown contents (repositoryPrefix (EncodeToString randomID)) s s'"
proof -
  have ops: "st_objects st = ops" using new demoParser_new by (auto simp: New_def rbind_def)
  define i where "i = withBranch input"
  define m where "m = newMetadata randomID now namespace i"
  define readme where "readme = (if ci_InitializeReadme i
      then sbind (initializeReadme z st ctx m i [] s) (\<lambda>(commit, objs) s. (Inr ([(''refs/heads/'' @ ci_DefaultBranch i, commit)], objs), s))
      else (Inr ([], []), s))"
  define manifest where "manifest = (\<lambda>objs. \<lparr>mf_Schema = 1, mf_ObjectFormat = ''sha1'', mf_Objects = Some objs, mf_LFS = None\<rparr> :: objectManifest)"
  have id: "md_ID m = EncodeToString randomID" by (simp add: m_def newMetadata_def)
  consider "s' = s" | "validInput st namespace i"
    "sbind readme (\<lambda>(refs, objs) s. sbind (putSnapshot ops ctx (md_ID m) ''refs'' (refsJson \<lparr>rs_Schema = 1, rs_Refs = Some refs\<rparr>) s) (\<lambda>refsKey s.
       sbind (putSnapshot ops ctx (md_ID m) ''manifest'' (manifestJson (manifest objs)) s) (\<lambda>manifestKey s.
       case CompareAndSwapState ops ctx (md_ID m) [] (firstState i refsKey manifestKey) s of
         (Some e, s) \<Rightarrow> (Inl e, s) | (None, s) \<Rightarrow> claimName st ctx m s))) = (Inl e, s')"
    using cr unfolding Create_def Let_def i_def [symmetric] m_def [symmetric] readme_def [symmetric] ops manifest_def
    by (auto split: if_splits sum.splits)
  then show ?thesis
  proof cases
    case 1
    then show ?thesis using assms(2) by simp
  next
    case 2
    have first: "inv s1 \<and> room (Suc (Suc (Suc (Suc (Suc n))))) s1 \<and> grown contents (repositoryPrefix (md_ID m)) s s1" if "readme = (r, s1)" for r s1
    proof (cases "ci_InitializeReadme i")
      case True
      obtain r2 s2 where rd: "initializeReadme z st ctx m i [] s = (r2, s2)" by force
      have "\<bar>Unix (md_CreatedAt m)\<bar> < 10 ^ 12" using Unix_bound [OF assms(5)] by (simp add: m_def newMetadata_def Unix_def)
      with initializeReadme_ok [OF ops assms(2,3) rd] 2(1) True
      have "inv s2 \<and> room (Suc (Suc (Suc (Suc (Suc n))))) s2 \<and> grown contents (repositoryPrefix (md_ID m)) s s2"
        by (simp add: m_def newMetadata_def validInput_def ValidName_def namePattern_def validDescription_def validIdentityPart_def validText_def)
      moreover have "s1 = s2" using that rd True by (cases r2) (auto simp: readme_def)
      ultimately show ?thesis by simp
    next
      case False
      then show ?thesis using that assms(2,3) room_less by (simp add: readme_def)
    qed
    obtain r1 s1 where r1: "readme = (r1, s1)" by force
    note ok1 = first [OF r1]
    show ?thesis
    proof (cases r1)
      case (Inl x)
      then show ?thesis using 2(2) r1 ok1 id by simp
    next
      case (Inr ro)
      obtain refs objs where ro: "ro = (refs, objs)" by force
      obtain r2 s2 where p2: "putSnapshot ops ctx (md_ID m) ''refs'' (refsJson \<lparr>rs_Schema = 1, rs_Refs = Some refs\<rparr>) s1 = (r2, s2)" by force
      have ok2: "inv s2 \<and> room (Suc (Suc (Suc (Suc n)))) s2 \<and> grown contents (repositoryPrefix (md_ID m)) s1 s2"
        using putSnapshot_grown [OF _ _ p2] ok1 by blast
      obtain r3 s3 where p3: "putSnapshot ops ctx (md_ID m) ''manifest'' (manifestJson (manifest objs)) s2 = (r3, s3)" by force
      have ok3: "inv s3 \<and> room (Suc (Suc (Suc n))) s3 \<and> grown contents (repositoryPrefix (md_ID m)) s2 s3"
        using putSnapshot_grown [OF _ _ p3] ok2 by blast
      have g12: "grown contents (repositoryPrefix (md_ID m)) s s2" by (rule grown_trans [OF conjunct2 [OF conjunct2 [OF ok1]] conjunct2 [OF conjunct2 [OF ok2]]])
      have g13: "grown contents (repositoryPrefix (md_ID m)) s s3" by (rule grown_trans [OF g12 conjunct2 [OF conjunct2 [OF ok3]]])
      show ?thesis
      proof (cases "\<exists>refsKey manifestKey. r2 = Inr refsKey \<and> r3 = Inr manifestKey")
        case False
        then have "s' = s2 \<or> s' = s3" using 2(2) r1 Inr ro p2 p3 by (cases r2; cases r3) auto
        then show ?thesis using ok2 ok3 g12 g13 id by auto
      next
        case True
        then obtain refsKey manifestKey where k: "r2 = Inr refsKey" "r3 = Inr manifestKey" by blast
        obtain x s4 where cas: "CompareAndSwapState ops ctx (md_ID m) [] (firstState i refsKey manifestKey) s3 = (x, s4)" by force
        have ok4: "inv s4 \<and> room (Suc n) s4 \<and> grown contents (repositoryPrefix (md_ID m)) s3 s4"
          using CompareAndSwapState_first [OF _ _ cas] ok3 by blast
        have g14: "grown contents (repositoryPrefix (md_ID m)) s s4" by (rule grown_trans [OF g13 conjunct2 [OF conjunct2 [OF ok4]]])
        have "s' = s4"
        proof (cases x)
          case (Some y)
          then show ?thesis using 2(2) r1 Inr ro p2 p3 k cas by simp
        next
          case None
          then have "claimName st ctx m s4 = (Inl e, s')" using 2(2) r1 Inr ro p2 p3 k cas by simp
          then show ?thesis using claimName_ok [OF ops] ok4 by blast
        qed
        then show ?thesis using ok4 g14 id by simp
      qed
    qed
  qed
qed

end

section \<open>Snapshot names are valid references\<close>

lemma plain_states_reference:
  assumes "repositoryIDPattern i" "list_all plain_char name" "name \<noteq> []" "hd name \<noteq> CHR ''.''" "length name \<le> 500"
  shows "repositoryKey i (''states/'' @ name) = Inr (''repos/'' @ i @ ''/states/'' @ name)" "validReference i (''states/'' @ name)"
proof -
  have pl: "\<forall>c \<in> set name. plain_char c" using assms(2) by (simp add: list_all_iff)
  have part: "canonical_part name" using assms(3,4) by (auto simp: canonical_part_def)
  have "CHR ''/'' \<notin> set name" using pl plain_char_facts(1) by blast
  then have split: "Split CHR ''/'' (''states/'' @ name) = [''states'', name]"
    using Split_append_sep [of "CHR ''/''" "''states''" name] by simp
  have bs: "CHR 0x5C \<notin> set (''states/'' @ name)" using pl plain_char_facts(2) by auto
  have "\<forall>c \<in> set ''states/''. \<not> ascii_control c" by (simp add: ascii_control_def)
  then have ctl: "\<forall>c \<in> set (''states/'' @ name). \<not> ascii_control c" using pl plain_char_facts(3) unfolding set_append by blast
  have "ascii ''states/''" by (simp add: ascii_def)
  then have v: "ValidString (''states/'' @ name)" using ValidString_plain [OF assms(2)] by (simp only: ValidString_ascii_append)
  have parts: "\<forall>part \<in> set (Split CHR ''/'' (''states/'' @ name)). canonical_part part" unfolding split using part by (simp add: canonical_part_def)
  show key: "repositoryKey i (''states/'' @ name) = Inr (''repos/'' @ i @ ''/states/'' @ name)"
    unfolding repositoryKey_iff using assms(1,5) repositoryID_plain [OF assms(1)] bs ctl v parts by simp
  have "path_Clean (''states/'' @ name) = ''states/'' @ name" using parts by (intro path_Clean_canonical) (auto simp: split)
  then show "validReference i (''states/'' @ name)" using v ctl key by (simp add: validReference_def hasASCIIControl_def list_ex_iff prefix_def)
qed

lemma snapshotName_plain:
  assumes "kind \<in> {''refs'', ''manifest''}"
  obtains name where "snapshotName kind b = ''states/'' @ name" "list_all plain_char name" "name \<noteq> []" "hd name \<noteq> CHR ''.''" "length name \<le> 500"
proof -
  define name where "name = ''00000000000000000001-'' @ kind @ ''-'' @ EncodeToString (Sum256 b) @ ''.json''"
  have hex: "lower_hex_char c \<Longrightarrow> plain_char c" for c
    by (simp only: plain_char_def is_alnum_def is_digit_def lower_hex_char_def set_simps insert_iff empty_iff) (elim disjE FalseE; simp)
  have "list_all plain_char (EncodeToString (Sum256 b))" using hex EncodeToString_chars by (auto simp: list_all_iff)
  moreover have "list_all plain_char ''00000000000000000001-''" "list_all plain_char ''-''" "list_all plain_char ''.json''" "list_all plain_char kind"
    using assms by (auto simp: plain_char_def is_alnum_def is_digit_def)
  ultimately have "list_all plain_char name" unfolding name_def list_all_append by blast
  moreover have "length name \<le> 500" using assms by (auto simp: name_def)
  ultimately show thesis by (intro that [of name]) (simp_all add: name_def snapshotName_def)
qed

lemma snapshotName_reference:
  assumes "repositoryIDPattern i" "kind \<in> {''refs'', ''manifest''}"
  shows "validateKey (snapshotPath i kind v) = None" "validReference i (snapshotName kind b)"
proof -
  obtain name where n: "snapshotName kind (marshal v) = ''states/'' @ name" "list_all plain_char name" "name \<noteq> []" "hd name \<noteq> CHR ''.''" "length name \<le> 500"
    using snapshotName_plain [OF assms(2)] by metis
  have "repositoryKey i (snapshotName kind (marshal v)) = Inr (snapshotPath i kind v)"
    using plain_states_reference(1) [OF assms(1) n(2-5)] by (simp add: n(1) snapshotPath_def)
  then show "validateKey (snapshotPath i kind v) = None" by (rule repositoryKey_valid)
  show "validReference i (snapshotName kind b)" using snapshotName_plain [OF assms(2)] plain_states_reference(2) [OF assms(1)] by metis
qed

lemma idPattern_repositoryID: "idPattern i \<Longrightarrow> repositoryIDPattern i"
proof -
  assume "idPattern i"
  then have "length i = 32" "\<forall>c \<in> set i. lower_hex_char c" by (auto simp: idPattern_def lowerHex_def list_all_iff)
  moreover have "lower_hex_char c \<Longrightarrow> is_alnum c" for c
    by (simp only: is_alnum_def is_digit_def lower_hex_char_def set_simps insert_iff empty_iff) (elim disjE FalseE; simp)
  ultimately show ?thesis by (cases i) (auto simp: repositoryIDPattern_def list_all_iff)
qed

context sized_store
begin

lemma putSnapshot_live:
  assumes "inv s" "room (Suc n) s" "repositoryIDPattern i" "kind \<in> {''refs'', ''manifest''}" "length (marshal v) \<le> snapshotLimit kind"
    "contents s (snapshotPath i kind v) = None"
  shows "\<exists>s'. putSnapshot ops Background i kind v s = (Inr (snapshotName kind (marshal v)), s')"
proof -
  have "put_allowed if_absent (contents s (snapshotPath i kind v))" using assms(6) by (simp add: put_allowed_def)
  then obtain info s' where "put_bytes ops Background (snapshotPath i kind v) (marshal v) if_absent s = (Inr info, s')"
    using put_live [OF assms(1) snapshotName_reference(1) [OF assms(3,4)], of if_absent] by auto blast
  then show ?thesis using assms(5) by (simp add: putSnapshot_def Let_def PutImmutable_bytes snapshotPath_def)
qed

end

lemma snapshotPath_neq: "snapshotPath i ''refs'' v \<noteq> snapshotPath i ''manifest'' w"
  by (simp add: snapshotPath_def snapshotName_def)

lemma length_empty_snapshots:
  "length (marshal (refsJson \<lparr>rs_Schema = 1, rs_Refs = Some []\<rparr>)) \<le> snapshotLimit ''refs''"
  "length (marshal (manifestJson \<lparr>mf_Schema = 1, mf_ObjectFormat = ''sha1'', mf_Objects = Some [], mf_LFS = None\<rparr>)) \<le> snapshotLimit ''manifest''"
proof -
  have "FormatInt 1 = FormatUint 1" by (simp add: FormatInt_def)
  then have one: "length (FormatInt 1) \<le> 20" using length_FormatUint [of 1 0] by simp
  note q = length_quote [of "''schemaVersion''"] length_quote [of "''refs''"] length_quote [of "''objectFormat''"] length_quote [of "''sha1''"] length_quote [of "''objects''"]
  show "length (marshal (refsJson \<lparr>rs_Schema = 1, rs_Refs = Some []\<rparr>)) \<le> snapshotLimit ''refs''"
    using one q by (simp add: marshal_def refsJson_def mapJson_def snapshotLimit_def maxJSONBytes_def)
  show "length (marshal (manifestJson \<lparr>mf_Schema = 1, mf_ObjectFormat = ''sha1'', mf_Objects = Some [], mf_LFS = None\<rparr>)) \<le> snapshotLimit ''manifest''"
    using one q by (simp add: marshal_def manifestJson_def mapJson_def snapshotLimit_def maxManifestBytes_def)
qed

text \<open>Without a README, a creation on the in-memory store succeeds when its name and its random identifier are unused.\<close>

lemma Create_live:
  assumes new: "New memoryOps = Inr st" and s: "store_wf s" "has_room (Suc (Suc (Suc (Suc (Suc (Suc (Suc (Suc n)))))))) s"
    and valid: "validInput st namespace (withBranch input)" and "\<not> ci_InitializeReadme input" and "length randomID = 16"
    and key: "validateKey (metadataKey namespace (ci_Name input)) = None" "contents s (metadataKey namespace (ci_Name input)) = None"
    and fresh: "\<And>k. prefix (repositoryPrefix (EncodeToString randomID)) k \<Longrightarrow> contents s k = None"
    and branch: "validGitRefName (''refs/heads/'' @ ci_DefaultBranch (withBranch input))"
  shows "\<exists>m s'. Create z st randomID now Background namespace input s = (Inr m, s')"
proof -
  have ops: "st_objects st = memoryOps" using new demoParser_new by (auto simp: New_def rbind_def)
  define i m where "i = withBranch input" and "m = newMetadata randomID now namespace i"
  define rj mj where "rj = refsJson \<lparr>rs_Schema = 1, rs_Refs = Some []\<rparr>"
    and "mj = manifestJson \<lparr>mf_Schema = 1, mf_ObjectFormat = ''sha1'', mf_Objects = Some [], mf_LFS = None\<rparr>"
  have id: "md_ID m = EncodeToString randomID" by (simp add: m_def newMetadata_def)
  have "lowerHex 32 (EncodeToString randomID)" using lowerHex_EncodeToString [OF assms(6)] by simp
  then have rid: "repositoryIDPattern (md_ID m)" using idPattern_repositoryID by (simp add: idPattern_def id)
  have len: "length (marshal rj) \<le> snapshotLimit ''refs''" "length (marshal mj) \<le> snapshotLimit ''manifest''"
    unfolding rj_def mj_def by (rule length_empty_snapshots)+
  have room: "has_room (Suc (Suc (Suc (Suc (Suc n))))) s" using s(2) by (simp add: has_room_def)
  obtain s2 where p2: "putSnapshot memoryOps Background (md_ID m) ''refs'' rj s = (Inr (snapshotName ''refs'' (marshal rj)), s2)"
    using memory.putSnapshot_live [OF s(1) room rid _ len(1)] fresh id by auto
  note ok2 = memory.putSnapshot_ok [OF s(1) room p2]
  have i2: "store_wf s2" "has_room (Suc (Suc (Suc (Suc n)))) s2" using ok2 by auto
  have "contents s2 (snapshotPath (md_ID m) ''manifest'' mj) = None" using ok2 snapshotPath_neq fresh id under_repository(3) by metis
  then obtain s3 where p3: "putSnapshot memoryOps Background (md_ID m) ''manifest'' mj s2 = (Inr (snapshotName ''manifest'' (marshal mj)), s3)"
    using memory.putSnapshot_live [OF i2 rid _ len(2)] by auto
  note ok3 = memory.putSnapshot_ok [OF i2 p3]
  have i3: "store_wf s3" "has_room (Suc (Suc (Suc n))) s3" using ok3 by auto
  define state where "state = firstState i (snapshotName ''refs'' (marshal rj)) (snapshotName ''manifest'' (marshal mj))"
  have vs: "validateState (md_ID m) (withSchema state) = None"
    using rid branch snapshotName_reference(2) [OF rid]
    by (simp add: validateState_def withSchema_def state_def firstState_def repositoryStateSchema_def i_def)
  have ws: "withSchema state = state" by (simp add: withSchema_def state_def firstState_def)
  have gen: "Generation state = 1" by (simp add: state_def firstState_def)
  have sl: "length (snapshotName kind b) \<le> 600" if "kind \<in> {''refs'', ''manifest''}" for kind b using that by (auto simp: snapshotName_def)
  have small: "length (envelopeOf (withSchema state)) \<le> maxRepositoryStateBytes"
    using length_envelopeOf [of state] valid sl [of "''refs''" "marshal rj"] sl [of "''manifest''" "marshal mj"] unfolding ws
    by (simp add: state_def firstState_def validInput_def validBranch_def maxRepositoryStateBytes_def i_def)
  have absent: "contents s3 k = None" if "prefix (repositoryPrefix (md_ID m)) k" "k \<notin> {snapshotPath (md_ID m) ''refs'' rj, snapshotPath (md_ID m) ''manifest'' mj}" for k
    using that ok2 ok3 fresh id by auto
  have st0: "contents s3 (stateKey (md_ID m)) = None" by (rule absent [OF under_repository(4)]) (auto simp: stateKey_def snapshotPath_def snapshotName_def)
  have sk0: "contents s3 (snapshotKey (md_ID m) (withSchema state)) = None"
  proof (rule absent)
    have "\<exists>r. snapshotKey (md_ID m) (withSchema state) = ''repos/'' @ md_ID m @ ''/states/'' @ pad20 1 @ ''-state-'' @ r"
      unfolding ws using gen by (simp add: snapshotKey_def marshalStateSnapshot_def Let_def del: One_nat_def)
    moreover have "pad20 1 = ''00000000000000000001''" by code_simp
    ultimately show "snapshotKey (md_ID m) (withSchema state) \<notin> {snapshotPath (md_ID m) ''refs'' rj, snapshotPath (md_ID m) ''manifest'' mj}"
      by (auto simp: snapshotPath_def snapshotName_def)
  qed simp
  have durable: "\<forall>ref \<in> {RefsSnapshot state, PackManifest state}. contents s3 (referenceKey (md_ID m) ref) \<noteq> None"
  proof -
    have "contents s3 (snapshotPath (md_ID m) ''refs'' rj) = contents s2 (snapshotPath (md_ID m) ''refs'' rj)" using ok3 snapshotPath_neq by metis
    then have "contents s3 (snapshotPath (md_ID m) ''refs'' rj) \<noteq> None" "contents s3 (snapshotPath (md_ID m) ''manifest'' mj) \<noteq> None"
      using ok2 ok3 by auto
    moreover have "referenceKey (md_ID m) (RefsSnapshot state) = snapshotPath (md_ID m) ''refs'' rj"
      "referenceKey (md_ID m) (PackManifest state) = snapshotPath (md_ID m) ''manifest'' mj"
      by (simp_all add: state_def firstState_def referenceKey_def snapshotPath_def)
    ultimately show ?thesis by simp
  qed
  obtain s4 where cas: "CompareAndSwapState memoryOps Background (md_ID m) [] state s3 = (None, s4)"
    using memory.CompareAndSwapState_live [OF i3(1) _ vs small _ durable, of "Suc n" "[]"] i3(2) st0 sk0 gen
    unfolding ws by auto
  note ok4 = memory.CompareAndSwapState_first [OF i3 cas]
  have "contents s4 (metadataKey namespace (ci_Name input)) = None"
    using ok4 ok3 ok2 key(2) under_repository(3,6) unfolding grown_def by metis
  then obtain info s5 where "put_bytes memoryOps Background (metadataKey namespace (ci_Name input))
      (marshal (metadataRecordJson \<lparr>mr_Schema = 1, mr_Metadata = m\<rparr>)) if_absent s4 = (Inr info, s5)"
    using memory_put_live [OF key(1), of if_absent s4] by (auto simp: put_allowed_def) blast
  then have "claimName st Background m s4 = (Inr m, s5)"
    by (simp add: claimName_def ops Let_def m_def newMetadata_def i_def)
  moreover have "Head Background (metadataKey namespace (ci_Name input)) s = Inl ErrNotFound" using key by (simp add: Head_def contents_def)
  moreover have stq: "firstState (withBranch input) (snapshotName ''refs'' (marshal rj)) (snapshotName ''manifest'' (marshal mj)) = state"
    by (simp only: state_def i_def)
  ultimately show ?thesis using valid assms(5) p2 p3 cas
    unfolding Create_def Let_def i_def [symmetric] m_def [symmetric] rj_def [symmetric] mj_def [symmetric] state_def [symmetric]
    by (simp add: ops i_def rj_def [symmetric] mj_def [symmetric] stq)
qed

section \<open>Creation is all or nothing\<close>

text \<open>
  C34. Creating a repository never replaces or removes an object, whatever its outcome. When it fails, the name stays unclaimed
  and only objects below the new random identifier can have been added. When it returns metadata, the name was free, and
  loading the repository by its name gives exactly that metadata with generation one, and the one branch that points to the initial
  commit when a README was asked for, no reference and no object otherwise.
\<close>

theorem Create_all_or_nothing:
  assumes "New memoryOps = Inr st" and "store_wf s" and "has_room (Suc (Suc (Suc (Suc (Suc (Suc (Suc (Suc n)))))))) s"
    and "Create z st randomID now ctx namespace input s = (r, s')"
    and "length randomID = 16" and "validTime now" and "0 \<le> Unix now"
  shows "store_wf s' \<and> contents s \<subseteq>\<^sub>m contents s' \<and>
    (\<forall>k. \<not> prefix (repositoryPrefix (EncodeToString randomID)) k \<longrightarrow>
       contents s' k = contents s k \<or> k = metadataKey namespace (ci_Name input) \<and> contents s k = None \<and> (\<exists>m. r = Inr m)) \<and>
    (\<forall>m. r = Inr m \<longrightarrow> contents s (metadataKey namespace (ci_Name input)) = None \<and>
      (\<exists>snap refs. load st Background namespace (ci_Name input) s' = Inr snap \<and> sn_metadata snap = m \<and>
         Generation (sn_state snap) = 1 \<and> rs_Refs (sn_refs snap) = Some refs \<and>
         (if ci_InitializeReadme input
          then \<exists>commit. refs = [(''refs/heads/'' @ md_DefaultBranch m, commit)] \<and> oi_Type (infoAt (sn_manifest snap) commit) = ''commit''
          else refs = [] \<and> mf_Objects (sn_manifest snap) = Some [])))"
proof (cases r)
  case (Inl e)
  with memory.Create_failed [OF assms(1-3) _ assms(6)] assms(4) show ?thesis by (auto simp: grown_def)
next
  case (Inr m)
  note created = memory.Create_created [OF assms(1-3) assms(4) [unfolded Inr] assms(5-7)]
  have same: "contents s' k = contents s k \<or> k = metadataKey namespace (ci_Name input) \<and> contents s k = None"
    if "\<not> prefix (repositoryPrefix (EncodeToString randomID)) k" for k
    using created that by (cases "k = metadataKey namespace (ci_Name input)") simp_all
  show ?thesis using created same unfolding Inr by blast
qed

definition demoInput :: CreateInput where
  "demoInput = \<lparr>ci_Name = ''app'', ci_Description = ''d'', ci_DefaultBranch = [], ci_InitializeReadme = False, ci_CreatedBy = ''u'',
     ci_AuthorName = [], ci_AuthorEmail = []\<rparr>"

definition demoTime :: Time where
  "demoTime = \<lparr>tm_year = 2026, tm_month = 1, tm_day = 2, tm_hour = 3, tm_minute = 4, tm_second = 5, tm_nano = 6, tm_offset = 0\<rparr>"

lemma demo_input_valid: "validInput \<lparr>st_objects = memoryOps, st_parser = demoParser\<rparr> ''acme'' (withBranch demoInput)"
proof -
  have "validNamespace \<lparr>st_objects = memoryOps, st_parser = demoParser\<rparr> ''acme'' \<longleftrightarrow>
      (case Parse demoParser (Some \<lparr>RequestURI = [], RequestURL = Some \<lparr>Opaque = [], Path = ''/acme'', RawPath = []\<rparr>\<rparr>) of Inl _ \<Rightarrow> False | Inr _ \<Rightarrow> True)"
    by (simp add: validNamespace_def)
  moreover have "(case Parse demoParser (Some \<lparr>RequestURI = [], RequestURL = Some \<lparr>Opaque = [], Path = ''/acme'', RawPath = []\<rparr>\<rparr>) of Inl _ \<Rightarrow> False | Inr _ \<Rightarrow> True)"
    by code_simp
  moreover have "ValidName ''app''" "validBranch ''main''" "validDescription ''d''" "validText ''u'' 512" by code_simp+
  ultimately show ?thesis by (simp add: validInput_def withBranch_def demoInput_def)
qed

lemma demo_time: "validTime demoTime \<and> 0 \<le> Unix demoTime"
  by (simp add: validTime_def demoTime_def daysIn_def Unix_def daysFromCivil_def)

lemma demo_created:
  assumes "has_room (Suc (Suc (Suc (Suc (Suc (Suc (Suc (Suc n)))))))) (NewMemoryStore 0)"
  shows "\<exists>m s'. Create unaryZlib \<lparr>st_objects = memoryOps, st_parser = demoParser\<rparr> (replicate 16 0) demoTime Background ''acme'' demoInput (NewMemoryStore 0) = (Inr m, s')"
proof -
  have new: "New memoryOps = Inr \<lparr>st_objects = memoryOps, st_parser = demoParser\<rparr>" by (simp add: New_def demoParser_new rbind_def)
  have empty: "contents (NewMemoryStore 0) k = None" for k by (simp add: contents_def NewMemoryStore_def)
  have key: "validateKey (metadataKey ''acme'' (ci_Name demoInput)) = None" unfolding demoInput_def by code_simp
  have branch: "validGitRefName (''refs/heads/'' @ ci_DefaultBranch (withBranch demoInput))" unfolding demoInput_def by code_simp
  show ?thesis using Create_live [OF new store_wf_New assms demo_input_valid _ _ key empty empty branch, of "replicate 16 0"] by (auto simp: demoInput_def)
qed

theorem Create_all_or_nothing_witness:
  "\<exists>m s' snap. Create unaryZlib \<lparr>st_objects = memoryOps, st_parser = demoParser\<rparr> (replicate 16 0) demoTime Background ''acme'' demoInput (NewMemoryStore 0) = (Inr m, s') \<and>
     load \<lparr>st_objects = memoryOps, st_parser = demoParser\<rparr> Background ''acme'' ''app'' s' = Inr snap \<and> sn_metadata snap = m"
proof -
  have new: "New memoryOps = Inr \<lparr>st_objects = memoryOps, st_parser = demoParser\<rparr>" by (simp add: New_def demoParser_new rbind_def)
  have room: "has_room (Suc (Suc (Suc (Suc (Suc (Suc (Suc (Suc 0)))))))) (NewMemoryStore 0)" by (simp add: has_room_def NewMemoryStore_def)
  have time: "validTime demoTime" "0 \<le> Unix demoTime" using demo_time by simp_all
  obtain m s' where cr: "Create unaryZlib \<lparr>st_objects = memoryOps, st_parser = demoParser\<rparr> (replicate 16 0) demoTime Background ''acme'' demoInput (NewMemoryStore 0) = (Inr m, s')"
    using demo_created [OF room] by blast
  from Create_all_or_nothing [OF new store_wf_New room cr _ time] show ?thesis
    using cr by (auto simp: demoInput_def)
qed

end
