(* ===== verification/RepositoryLock.thy ===== *)
theory RepositoryLock
  imports CreateProperties
begin

text \<open>
  \<^verbatim>\<open>internal/repository/maintenance_lock.go\<close>: the durable lock that serializes the writers of a repository with its garbage
  collection. The unlock closure that \<^verbatim>\<open>lockRepository\<close> returns is represented by the version it remembers. Random bytes and the
  time are arguments.
\<close>

section \<open>The lock\<close>

record MaintenanceLock =
  ml_Token :: string
  ml_CreatedAt :: Time

definition maintenanceLockKey :: "string \<Rightarrow> string" where
  "maintenanceLockKey repositoryID = ''repos/'' @ repositoryID @ ''/maintenance-lock''"

definition lockJson :: "MaintenanceLock \<Rightarrow> json" where
  "lockJson lock = JObj [(''token'', JStr (ml_Token lock)), (''createdAt'', JStr (formatTime (ml_CreatedAt lock)))]"

definition lockFields :: "MaintenanceLock field list" where
  "lockFields =
     [(''token'', string_field (\<lambda>x r. r\<lparr>ml_Token := x\<rparr>)), (''createdAt'', time_field (\<lambda>x r. r\<lparr>ml_CreatedAt := x\<rparr>))]"

definition zeroLock :: MaintenanceLock where
  "zeroLock = \<lparr>ml_Token = [], ml_CreatedAt = zeroTime\<rparr>"

definition newLock :: "bytes \<Rightarrow> Time \<Rightarrow> MaintenanceLock" where
  "newLock randomToken now = \<lparr>ml_Token = EncodeToString randomToken, ml_CreatedAt = now\<rparr>"

definition lockRepository :: "'s Store \<Rightarrow> ctx \<Rightarrow> bytes \<Rightarrow> Time \<Rightarrow> string \<Rightarrow> 's \<Rightarrow> Version result \<times> 's" where
  "lockRepository st ctx randomToken now repositoryID s =
     (if \<not> idPattern repositoryID then (Inl RepoErrInvalid, s)
      else (case put_bytes (st_objects st) ctx (maintenanceLockKey repositoryID) (marshal (lockJson (newLock randomToken now))) if_absent s of
          (Inl e, s) \<Rightarrow>
            if errors_Is e ErrAlreadyExists \<or> errors_Is e ErrPreconditionFailed \<or> errors_Is e ErrConditionalConflict
            then (Inl (ErrJoin ErrMaintenanceBusy RepoErrConflict), s)
            else (Inl e, s)
        | (Inr info, s) \<Rightarrow> if InfoVersion info = [] then (Inl ErrConditionalUnsupported, s) else (Inr (InfoVersion info), s)))"

definition unlockRepository :: "'s Store \<Rightarrow> ctx \<Rightarrow> string \<Rightarrow> Version \<Rightarrow> 's \<Rightarrow> err option \<times> 's" where
  "unlockRepository st releaseCtx repositoryID held s = os_Delete (st_objects st) releaseCtx (maintenanceLockKey repositoryID) held s"

definition GetMaintenanceLock :: "'s Store \<Rightarrow> ctx \<Rightarrow> string \<Rightarrow> string \<Rightarrow> 's \<Rightarrow> MaintenanceLock result" where
  "GetMaintenanceLock st ctx namespace name s =
     rbind (maintenanceMetadata st ctx namespace name s) (\<lambda>metadata.
     case read (st_objects st) ctx (maintenanceLockKey (md_ID metadata)) 4096 s of
       Inl e \<Rightarrow> Inl (if errors_Is e ErrNotFound then RepoErrNotFound else e)
     | Inr b \<Rightarrow> rbind (decodeJSON lockFields zeroLock b) (\<lambda>lock.
         if \<not> idPattern (ml_Token lock) \<or> IsZero (ml_CreatedAt lock) then Inl RepoErrCorrupt else Inr lock))"

text \<open>The two \<^verbatim>\<open>Decode\<close> calls of \<^verbatim>\<open>UnlockMaintenance\<close>: a first value of the right shape, then the end of the input.\<close>

definition decodeLock :: "bytes \<Rightarrow> MaintenanceLock result" where
  "decodeLock b =
     (case parse_value (length b + 1) (string_of b) of
        None \<Rightarrow> Inl (ErrMsg ''invalid json'')
      | Some (v, rest) \<Rightarrow>
          (case decode_struct lockFields v zeroLock of
             None \<Rightarrow> Inl (ErrMsg ''invalid json'')
           | Some lock \<Rightarrow> if skip_ws rest \<noteq> [] then Inl RepoErrCorrupt else Inr lock))"

definition UnlockMaintenance :: "'s Store \<Rightarrow> ctx \<Rightarrow> string \<Rightarrow> string \<Rightarrow> string \<Rightarrow> bool \<Rightarrow> 's \<Rightarrow> err option \<times> 's" where
  "UnlockMaintenance st ctx namespace name token offline s =
     (if \<not> offline \<or> \<not> idPattern token then (Some RepoErrInvalid, s)
      else (case maintenanceMetadata st ctx namespace name s of Inl e \<Rightarrow> (Some e, s) | Inr metadata \<Rightarrow>
      (case os_Get (st_objects st) ctx (maintenanceLockKey (md_ID metadata)) s of Inl e \<Rightarrow> (Some e, s) | Inr (body, info) \<Rightarrow>
      (case decodeLock (take 4097 body) of Inl e \<Rightarrow> (Some e, s) | Inr lock \<Rightarrow>
       if ml_Token lock \<noteq> token \<or> InfoVersion info = [] \<or> IsZero (ml_CreatedAt lock) \<or> Size info > 4096 then (Some RepoErrConflict, s)
       else os_Delete (st_objects st) ctx (maintenanceLockKey (md_ID metadata)) (InfoVersion info) s))))"

section \<open>Its encoding\<close>

lemma lock_roundtrip:
  assumes "length randomToken = 16" "validTime now"
  defines "b \<equiv> marshal (lockJson (newLock randomToken now))"
  shows "decodeJSON lockFields zeroLock b = Inr (newLock randomToken now)" "decodeLock (take 4097 b) = Inr (newLock randomToken now)" "length b \<le> 4096"
    "idPattern (ml_Token (newLock randomToken now))"
proof -
  have hex: "lowerHex 32 (EncodeToString randomToken)" using lowerHex_EncodeToString [OF assms(1)] by simp
  then show "idPattern (ml_Token (newLock randomToken now))" by (simp add: idPattern_def newLock_def)
  have tok: "ValidString (EncodeToString randomToken)" "length (EncodeToString randomToken) = 32" using ValidString_lowerHex [OF hex] assms(1) by simp_all
  have t: "parseTime (formatTime now) = Some now" "ValidString (formatTime now)" "length (formatTime now) \<le> 40"
    using parseTime_formatTime [OF assms(2)] ValidString_ascii [OF formatTime_ascii] length_formatTime [OF assms(2)] by simp_all
  have names: "ValidString ''token''" "ValidString ''createdAt''" by (simp_all add: ValidString_ascii ascii_def)
  have w: "json_wf (lockJson (newLock randomToken now))" using tok t names by (simp add: lockJson_def newLock_def)
  have dec: "decode_struct lockFields (lockJson (newLock randomToken now)) zeroLock = Some (newLock randomToken now)"
    using t by (simp add: lockJson_def lockFields_def newLock_def zeroLock_def find_field_def string_field_def time_field_def)
  then show "decodeJSON lockFields zeroLock b = Inr (newLock randomToken now)" unfolding b_def by (simp add: decodeJSON_marshal [OF w])
  show len: "length b \<le> 4096"
    using tok t length_quote [of "EncodeToString randomToken"] length_quote [of "formatTime now"] length_quote [of "''token''"] length_quote [of "''createdAt''"]
    by (simp add: b_def marshal_def lockJson_def newLock_def)
  have "decode_single (print (lockJson (newLock randomToken now))) = Some (lockJson (newLock randomToken now))" by (rule decode_print [OF w])
  then obtain rest where "parse_value (length b + 1) (string_of b) = Some (lockJson (newLock randomToken now), rest)" "skip_ws rest = []"
    by (auto simp: decode_single_def b_def marshal_def split: option.splits if_splits)
  then show "decodeLock (take 4097 b) = Inr (newLock randomToken now)" using len dec by (simp add: decodeLock_def)
qed

section \<open>Concurrent holders\<close>

text \<open>
  Any number of processes take and release the lock of one repository while others write and delete other objects.
  \<open>holds\<close> is the version that the unlock closure of a process remembers; a process whose release failed, or that was
  terminated, no longer holds the lock, and the lock object stays.
\<close>

record 's lockWorld =
  lw_store :: 's
  holds :: "nat \<Rightarrow> Version option"

inductive lock_step :: "'s Store \<Rightarrow> string \<Rightarrow> 's lockWorld \<Rightarrow> 's lockWorld \<Rightarrow> bool" for st i where
  acquire: "holds w c = None \<Longrightarrow> lockRepository st ctx token now i (lw_store w) = (Inr v, s') \<Longrightarrow>
    lock_step st i w (w\<lparr>lw_store := s', holds := (holds w)(c := Some v)\<rparr>)"
| refused: "lockRepository st ctx token now i (lw_store w) = (Inl e, s') \<Longrightarrow> lock_step st i w (w\<lparr>lw_store := s'\<rparr>)"
| release: "holds w c = Some v \<Longrightarrow> unlockRepository st ctx i v (lw_store w) = (r, s') \<Longrightarrow>
    lock_step st i w (w\<lparr>lw_store := s', holds := (holds w)(c := None)\<rparr>)"
| crash: "lock_step st i w (w\<lparr>holds := (holds w)(c := None)\<rparr>)"
| other_put: "key \<noteq> maintenanceLockKey i \<Longrightarrow> put_bytes (st_objects st) ctx key b opts (lw_store w) = (r, s') \<Longrightarrow>
    lock_step st i w (w\<lparr>lw_store := s'\<rparr>)"
| other_delete: "key \<noteq> maintenanceLockKey i \<Longrightarrow> os_Delete (st_objects st) ctx key v (lw_store w) = (e, s') \<Longrightarrow>
    lock_step st i w (w\<lparr>lw_store := s'\<rparr>)"

definition lock_ok :: "('s \<Rightarrow> string \<Rightarrow> (bytes \<times> Version) option) \<Rightarrow> string \<Rightarrow> 's lockWorld \<Rightarrow> bool" where
  "lock_ok view i w \<longleftrightarrow>
     (\<forall>c v. holds w c = Some v \<longrightarrow> (\<exists>b. view (lw_store w) (maintenanceLockKey i) = Some (b, v))) \<and>
     (\<forall>c d. holds w c \<noteq> None \<longrightarrow> holds w d \<noteq> None \<longrightarrow> c = d)"

lemma lock_ok_same:
  assumes "lock_ok view i w" "view s' (maintenanceLockKey i) = view (lw_store w) (maintenanceLockKey i)"
    and "\<And>c. h c = holds w c \<or> h c = None"
  shows "lock_ok view i (w\<lparr>lw_store := s', holds := h\<rparr>)"
  using assms unfolding lock_ok_def by (simp, metis option.distinct(1))

context sized_store
begin

lemma lockRepository_Inr:
  assumes "st_objects st = ops" "inv s" "room (Suc n) s" "lockRepository st ctx token now i s = (Inr v, s')"
  shows "inv s' \<and> room n s' \<and> contents s (maintenanceLockKey i) = None \<and>
    contents s' = (contents s)(maintenanceLockKey i \<mapsto> (marshal (lockJson (newLock token now)), v)) \<and> idPattern i"
proof -
  obtain info where "put_bytes ops ctx (maintenanceLockKey i) (marshal (lockJson (newLock token now))) if_absent s = (Inr info, s')" "v = InfoVersion info" "idPattern i"
    using assms(1,4) by (auto simp: lockRepository_def split: if_splits prod.splits sum.splits)
  then show ?thesis using put_ok [OF assms(2,3)] by (auto simp: put_allowed_def)
qed

lemma lockRepository_Inl:
  assumes "st_objects st = ops" "inv s" "room (Suc n) s" "lockRepository st ctx token now i s = (Inl e, s')"
  shows "s' = s"
proof -
  obtain r s1 where put: "put_bytes ops ctx (maintenanceLockKey i) (marshal (lockJson (newLock token now))) if_absent s = (r, s1)" by force
  show ?thesis
  proof (cases r)
    case (Inl x)
    then have "s1 = s" using put put_error by blast
    then show ?thesis using assms(1,4) put Inl by (auto simp: lockRepository_def split: if_splits)
  next
    case (Inr info)
    have "InfoVersion info \<noteq> []" using put_ok [OF assms(2,3) put [unfolded Inr]] by blast
    then show ?thesis using assms(1,4) put Inr by (auto simp: lockRepository_def split: if_splits)
  qed
qed

lemma lock_step_ok:
  assumes "st_objects st = ops" "lock_step st i w w'" "inv (lw_store w)" "room (Suc n) (lw_store w)" "lock_ok contents i w"
  shows "inv (lw_store w') \<and> room n (lw_store w') \<and> lock_ok contents i w'"
proof -
  have less: "room n (lw_store w)" by (rule room_less [OF assms(4)])
  have deleted: "inv s' \<and> room n s' \<and> (key \<noteq> maintenanceLockKey i \<longrightarrow> contents s' (maintenanceLockKey i) = contents (lw_store w) (maintenanceLockKey i))"
    if "os_Delete ops ctx key v (lw_store w) = (e, s')" for ctx key v e s'
    using that delete_ok [OF assms(3)] delete_room [OF _ less] delete_error [of ctx key v "lw_store w"] assms(3) less by (cases e) auto
  from assms(2) show ?thesis
  proof (cases rule: lock_step.cases)
    case 1: (acquire c ctx token now v s')
    note ok = lockRepository_Inr [OF assms(1,3,4) 1(3)]
    have free: "holds w d = None" for d using ok assms(5) by (cases "holds w d") (auto simp: lock_ok_def)
    then have "lock_ok contents i w'" using ok unfolding 1(1) lock_ok_def by simp
    then show ?thesis using ok 1(1) by simp
  next
    case 2: (refused ctx token now e s')
    then have "w' = w" using lockRepository_Inl [OF assms(1,3,4)] by simp
    then show ?thesis using assms(3,5) less by simp
  next
    case 3: (release c v ctx r s')
    note d = deleted [OF 3(3) [unfolded unlockRepository_def assms(1)]]
    have "lock_ok contents i w'" unfolding 3(1) lock_ok_def
    proof (intro conjI allI impI)
      fix d u assume h: "holds (w\<lparr>lw_store := s', holds := (holds w)(c := None)\<rparr>) d = Some u"
      then have "d \<noteq> c" "holds w d = Some u" by (auto split: if_splits)
      then have False using 3(2) assms(5) unfolding lock_ok_def by (metis option.distinct(1))
      then show "\<exists>b. contents (lw_store (w\<lparr>lw_store := s', holds := (holds w)(c := None)\<rparr>)) (maintenanceLockKey i) = Some (b, u)" ..
    next
      fix a b assume "holds (w\<lparr>lw_store := s', holds := (holds w)(c := None)\<rparr>) a \<noteq> None" "holds (w\<lparr>lw_store := s', holds := (holds w)(c := None)\<rparr>) b \<noteq> None"
      then have "holds w a \<noteq> None" "holds w b \<noteq> None" by (auto split: if_splits)
      then show "a = b" using assms(5) unfolding lock_ok_def by blast
    qed
    then show ?thesis using d 3(1) by simp
  next
    case 4: (crash c)
    have "lock_ok contents i (w\<lparr>lw_store := lw_store w, holds := (holds w)(c := None)\<rparr>)" by (rule lock_ok_same [OF assms(5) refl]) simp
    then show ?thesis using assms(3) less 4 by simp
  next
    case 5: (other_put key ctx b opts r s')
    have "inv s' \<and> room n s' \<and> contents s' (maintenanceLockKey i) = contents (lw_store w) (maintenanceLockKey i)"
      using 5(2,3) put_ok [OF assms(3,4)] put_error [of ctx key b opts "lw_store w"] assms(1,3) less by (cases r) auto
    moreover from this have "lock_ok contents i (w\<lparr>lw_store := s', holds := holds w\<rparr>)" using lock_ok_same [OF assms(5), of s' "holds w"] by blast
    ultimately show ?thesis using 5(1) by simp
  next
    case 6: (other_delete key ctx v e s')
    note d = deleted [OF 6(3) [unfolded assms(1)]]
    then have "lock_ok contents i (w\<lparr>lw_store := s', holds := holds w\<rparr>)" using lock_ok_same [OF assms(5), of s' "holds w"] 6(2) by blast
    then show ?thesis using d 6(1) by simp
  qed
qed

lemma lock_steps_ok:
  assumes "st_objects st = ops" "(lock_step st i ^^ n) w w'" "inv (lw_store w)" "room (n + m) (lw_store w)" "lock_ok contents i w"
  shows "inv (lw_store w') \<and> room m (lw_store w') \<and> lock_ok contents i w'"
  using assms(2-5)
proof (induction n arbitrary: m w')
  case (Suc n)
  from Suc.prems(1) obtain u where u: "(lock_step st i ^^ n) w u" "lock_step st i u w'" by auto
  have "inv (lw_store u) \<and> room (Suc m) (lw_store u) \<and> lock_ok contents i u" using Suc.IH [OF u(1) Suc.prems(2), of "Suc m"] Suc.prems(3,4) by simp
  then show ?case using lock_step_ok [OF assms(1) u(2)] by blast
qed simp

lemma lockRepository_busy:
  assumes "st_objects st = ops" "inv s" "contents s (maintenanceLockKey i) \<noteq> None" "idPattern i"
  shows "lockRepository st Background token now i s = (Inl (ErrJoin ErrMaintenanceBusy RepoErrConflict), s)"
  using put_conflict [OF assms(2,3)] assms(1,4) by (simp add: lockRepository_def)

lemma maintenanceMetadata_same:
  assumes "st_objects st = ops" "inv s" "inv s'" "contents s' (metadataKey namespace name) = contents s (metadataKey namespace name)"
    and "maintenanceMetadata st Background namespace name s = Inr m"
  shows "maintenanceMetadata st Background namespace name s' = Inr m"
proof -
  obtain b where b: "read ops Background (metadataKey namespace name) maxJSONBytes s = Inr b"
    using assms(1,5) by (auto simp: maintenanceMetadata_def split: if_splits sum.splits)
  obtain v where "contents s (metadataKey namespace name) = Some (b, v)" "length b \<le> maxJSONBytes" using read_Inr [OF assms(2) b] by blast
  then have "read ops Background (metadataKey namespace name) maxJSONBytes s' = Inr b" using read_stored [OF assms(3)] assms(4) by simp
  then have "maintenanceMetadata st Background namespace name s' = maintenanceMetadata st Background namespace name s"
    unfolding maintenanceMetadata_def assms(1) using b by simp
  then show ?thesis using assms(5) by simp
qed

lemma UnlockMaintenance_locked:
  assumes "st_objects st = ops" "inv s" "room (Suc n) s" "lockRepository st ctx random now i s = (Inr v, s')"
    and "length random = 16" "validTime now" "0 \<le> Unix now"
    and meta: "maintenanceMetadata st Background namespace name s = Inr m" and "md_ID m = i"
  shows "GetMaintenanceLock st Background namespace name s' = Inr (newLock random now)"
    "token \<noteq> EncodeToString random \<or> \<not> offline \<Longrightarrow> \<exists>e. UnlockMaintenance st Background namespace name token offline s' = (Some e, s')"
    "\<exists>s''. UnlockMaintenance st Background namespace name (EncodeToString random) True s' = (None, s'') \<and> contents s'' (maintenanceLockKey i) = None"
proof -
  note ok = lockRepository_Inr [OF assms(1-4)]
  note rt = lock_roundtrip [OF assms(5,6)]
  have "metadataKey namespace name \<noteq> maintenanceLockKey i" by (simp add: metadataKey_def maintenanceLockKey_def)
  then have md: "maintenanceMetadata st Background namespace name s' = Inr m"
    using maintenanceMetadata_same [OF assms(1,2) _ _ meta] ok by simp
  let ?b = "marshal (lockJson (newLock random now))"
  have c: "contents s' (maintenanceLockKey i) = Some (?b, v)" and inv': "inv s'" using ok by auto
  have nz: "\<not> IsZero (ml_CreatedAt (newLock random now))" using assms(7) by (simp add: newLock_def IsZero_def)
  show "GetMaintenanceLock st Background namespace name s' = Inr (newLock random now)"
    using read_stored [OF inv' c rt(3)] rt(1,4) nz assms(1,9) md by (simp add: GetMaintenanceLock_def rbind_def)
  obtain info where get: "os_Get ops Background (maintenanceLockKey i) s' = Inr (?b, info)" "InfoVersion info = v" using get_live [OF inv' c] by blast
  have size: "Size info \<le> 4096" using get_size [OF inv' get(1)] rt(3) by simp
  have v: "v \<noteq> []" using version_seen [OF inv' c] by simp
  show "\<exists>e. UnlockMaintenance st Background namespace name token offline s' = (Some e, s')" if "token \<noteq> EncodeToString random \<or> \<not> offline"
    using that assms(1,9) md get rt(2) by (auto simp: UnlockMaintenance_def newLock_def)
  obtain s'' where del: "os_Delete ops Background (maintenanceLockKey i) v s' = (None, s'')" using delete_live [OF inv' c] by blast
  then show "\<exists>s''. UnlockMaintenance st Background namespace name (EncodeToString random) True s' = (None, s'') \<and> contents s'' (maintenanceLockKey i) = None"
    using delete_ok [OF inv' del] assms(1,9) md get rt(2,4) size nz v by (simp add: UnlockMaintenance_def newLock_def)
qed

end

section \<open>Properties\<close>

text \<open>
  C35. At most one process at a time is between taking the lock of a repository and releasing it, under every interleaving with
  other lockers, crashed holders and any other writes and deletions. While a process holds the lock, the lock object is the one it wrote, and
  every other attempt is refused as busy and changes nothing.
\<close>

theorem lock_exclusive:
  assumes "st_objects st = memoryOps" and "(lock_step st i ^^ n) w w'" and "store_wf (lw_store w)" and "has_room (n + m) (lw_store w)"
    and "\<forall>c. holds w c = None" and "idPattern i"
  shows "(\<forall>c d. holds w' c \<noteq> None \<longrightarrow> holds w' d \<noteq> None \<longrightarrow> c = d) \<and>
    (\<forall>c v. holds w' c = Some v \<longrightarrow> (\<exists>b. contents (lw_store w') (maintenanceLockKey i) = Some (b, v)) \<and>
       (\<forall>token now. lockRepository st Background token now i (lw_store w') = (Inl (ErrJoin ErrMaintenanceBusy RepoErrConflict), lw_store w')))"
proof -
  have "lock_ok contents i w" using assms(5) by (simp add: lock_ok_def)
  then have ok: "store_wf (lw_store w') \<and> lock_ok contents i w'" using memory.lock_steps_ok [OF assms(1-4)] by blast
  then show ?thesis using memory.lockRepository_busy [OF assms(1) _ _ assms(6)] unfolding lock_ok_def by (metis option.distinct(1))
qed

definition demoLockStore :: "MemoryStore Store" where
  "demoLockStore = \<lparr>st_objects = memoryOps, st_parser = demoParser\<rparr>"

lemma lockRepository_live:
  assumes "st_objects st = memoryOps" "store_wf s" "has_room (Suc n) s" "idPattern i" "contents s (maintenanceLockKey i) = None"
  shows "\<exists>v s'. lockRepository st Background token now i s = (Inr v, s')"
proof -
  have rid: "repositoryIDPattern i" by (rule idPattern_repositoryID [OF assms(4)])
  have "repositoryKey i ''maintenance-lock'' = Inr (maintenanceLockKey i)"
    using rid repositoryID_plain [OF rid]
    by (auto simp: repositoryKey_iff maintenanceLockKey_def ValidString_ascii ascii_def ascii_control_def canonical_part_def)
  then have "validateKey (maintenanceLockKey i) = None" by (rule repositoryKey_valid)
  moreover have "put_allowed if_absent (contents s (maintenanceLockKey i))" using assms(5) by (simp add: put_allowed_def)
  ultimately obtain info s' where put: "put_bytes memoryOps Background (maintenanceLockKey i) (marshal (lockJson (newLock token now))) if_absent s = (Inr info, s')"
    using memory_put_live [of "maintenanceLockKey i" if_absent s] by auto blast
  then have "InfoVersion info \<noteq> []" using memory_put_ok [OF assms(2,3) put] by blast
  then show ?thesis using put assms(1,4) by (simp add: lockRepository_def)
qed

theorem lock_exclusive_witness:
  "\<exists>w' v. (lock_step demoLockStore (replicate 32 CHR ''0'') ^^ 1) \<lparr>lw_store = NewMemoryStore 0, holds = (\<lambda>_. None)\<rparr> w' \<and> holds w' 7 = Some v \<and>
     (\<forall>d. d \<noteq> 7 \<longrightarrow> holds w' d = None)"
proof -
  let ?i = "replicate 32 CHR ''0''" and ?w = "\<lparr>lw_store = NewMemoryStore 0, holds = (\<lambda>_. None)\<rparr> :: MemoryStore lockWorld"
  have i: "idPattern ?i" by (simp add: idPattern_def lowerHex_def lower_hex_char_def list_all_iff)
  have st: "st_objects demoLockStore = memoryOps" by (simp add: demoLockStore_def)
  have room: "has_room (Suc 0) (NewMemoryStore 0)" by (simp add: has_room_def NewMemoryStore_def)
  obtain v s' where l: "lockRepository demoLockStore Background [] zeroTime ?i (NewMemoryStore 0) = (Inr v, s')"
    using lockRepository_live [OF st store_wf_New room i] by (auto simp: contents_def NewMemoryStore_def) blast
  have step: "(lock_step demoLockStore ?i ^^ 1) ?w (?w\<lparr>lw_store := s', holds := (holds ?w)(7 := Some v)\<rparr>)"
    using acquire [of ?w 7 demoLockStore Background "[]" zeroTime ?i v s'] l by (simp add: eq_OO)
  have w: "store_wf (lw_store ?w)" "has_room (1 + 0) (lw_store ?w)" "\<forall>c. holds ?w c = None" using room store_wf_New by simp_all
  define w1 where "w1 = ?w\<lparr>lw_store := s', holds := (holds ?w)(7 := Some v)\<rparr>"
  have h7: "holds w1 7 = Some v" by (simp add: w1_def)
  have only: "holds w1 c \<noteq> None \<Longrightarrow> holds w1 7 \<noteq> None \<Longrightarrow> c = 7" for c
    by (rule lock_exclusive [OF st step w i, folded w1_def, THEN conjunct1, rule_format])
  have "holds w1 d = None" if "d \<noteq> 7" for d
  proof (rule ccontr)
    assume "holds w1 d \<noteq> None"
    then show False using only [of d] h7 that by simp
  qed
  then show ?thesis using step h7 unfolding w1_def [symmetric] by blast
qed

text \<open>
  C36. The lock that a writer took can be read back under the repository's name with the writer's token; an operator can remove it with
  exactly that token and the explicit acknowledgement that everything is offline, and every other request is refused and leaves the lock in place.
\<close>

theorem lock_recovery:
  assumes "st_objects st = memoryOps" and "store_wf s" and "has_room (Suc n) s"
    and "maintenanceMetadata st Background namespace name s = Inr m"
    and "lockRepository st ctx random now (md_ID m) s = (Inr v, s')"
    and "length random = 16" and "validTime now" and "0 \<le> Unix now"
  shows "GetMaintenanceLock st Background namespace name s' = Inr (newLock random now) \<and>
    (\<forall>token offline. if token = EncodeToString random \<and> offline
       then \<exists>s''. UnlockMaintenance st Background namespace name token offline s' = (None, s'') \<and> contents s'' (maintenanceLockKey (md_ID m)) = None
       else \<exists>e. UnlockMaintenance st Background namespace name token offline s' = (Some e, s'))"
  using memory.UnlockMaintenance_locked [OF assms(1-3,5-8,4) refl] by auto

theorem lock_recovery_witness:
  "\<exists>s namespace name. GetMaintenanceLock demoLockStore Background namespace name s = Inr (newLock (replicate 16 1) demoTime)"
proof -
  let ?i = "withBranch demoInput"
  define md where "md = newMetadata (replicate 16 0) demoTime ''acme'' ?i"
  have new: "New memoryOps = Inr demoLockStore" by (simp add: New_def demoParser_new rbind_def demoLockStore_def)
  have room: "has_room (Suc 1) (NewMemoryStore 0)" by (simp add: has_room_def NewMemoryStore_def)
  have st: "st_objects demoLockStore = memoryOps" by (simp add: demoLockStore_def)
  have time: "validTime demoTime" "0 \<le> Unix demoTime" using demo_time by simp_all
  have names: "md_Namespace md = ''acme''" "md_Name md = ci_Name ?i" "ci_Name ?i = ''app''" by (simp_all add: md_def newMetadata_def demoInput_def)
  have "validateKey (metadataKey ''acme'' ''app'') = None" by code_simp
  moreover have "put_allowed if_absent (contents (NewMemoryStore 0) (metadataKey ''acme'' ''app''))" by (simp add: put_allowed_def contents_def NewMemoryStore_def)
  ultimately obtain info s where "put_bytes memoryOps Background (metadataKey ''acme'' ''app'') (marshal (metadataRecordJson \<lparr>mr_Schema = 1, mr_Metadata = md\<rparr>)) if_absent
      (NewMemoryStore 0) = (Inr info, s)"
    using memory_put_live [of "metadataKey ''acme'' ''app''" if_absent "NewMemoryStore 0"] by auto blast
  note ok = memory_put_ok [OF store_wf_New room this]
  then have s: "store_wf s" "has_room (Suc 0) s" by simp_all
  have valid: "validInput demoLockStore ''acme'' ?i" using demo_input_valid by (simp add: demoLockStore_def)
  have meta: "maintenanceMetadata demoLockStore Background ''acme'' ''app'' s = Inr md"
    using memory.maintenanceMetadata_stored [OF new s(1) valid _ time, of "replicate 16 0"] ok names by (simp add: md_def)
  have "lowerHex 32 (EncodeToString (replicate 16 0))" using lowerHex_EncodeToString [of "replicate 16 0" 16] by simp
  then have id: "idPattern (md_ID md)" by (simp add: md_def newMetadata_def idPattern_def)
  have "contents s (maintenanceLockKey (md_ID md)) = None"
  proof -
    have "contents (NewMemoryStore 0) k = None" for k by (simp add: contents_def NewMemoryStore_def)
    moreover have "maintenanceLockKey (md_ID md) \<noteq> metadataKey ''acme'' ''app''" by (simp add: metadataKey_def maintenanceLockKey_def)
    ultimately show ?thesis using ok by simp
  qed
  then obtain v s' where lock: "lockRepository demoLockStore Background (replicate 16 1) demoTime (md_ID md) s = (Inr v, s')"
    using lockRepository_live [OF st s id] by blast
  have "GetMaintenanceLock demoLockStore Background ''acme'' ''app'' s' = Inr (newLock (replicate 16 1) demoTime)"
    using lock_recovery [OF st s meta lock _ time] by simp
  then show ?thesis by blast
qed

end
