(* ===== verification/LfsPointer.thy ===== *)
theory LfsPointer
  imports GitReach
begin

text \<open>
  \<^verbatim>\<open>internal/repository/lfs_pointer.go\<close>: recognizing Git LFS pointers in blobs and collecting the index of LFS
  objects that a generation refers to.
\<close>

section \<open>The model\<close>

definition maxLFSPointerBytes :: nat where "maxLFSPointerBytes = 1024"

definition pointerVersions :: "string list" where
  "pointerVersions = [''version https://git-lfs.github.com/spec/v1'', ''version https://hawser.github.com/spec/v1'',
     ''version http://git-media.io/v/2'']"

definition carriageReturn :: string where "carriageReturn = [CHR 0x0D]"

text \<open>The index of the version line; \<open>None\<close> when a line before it, or its absence, shows that this is no pointer.\<close>

fun versionLine :: "nat \<Rightarrow> string list \<Rightarrow> nat option" where
  "versionLine i [] = None"
| "versionLine i (line # rest) =
     (let line = TrimSuffix line carriageReturn
      in if line \<in> set pointerVersions then Some i
         else if line \<noteq> [] \<and> \<not> HasPrefix line ''ext-'' then None
         else versionLine (Suc i) rest)"

text \<open>One line of the second loop with the object and the keys so far; \<open>Inl\<close> is the object returned with \<^verbatim>\<open>ErrInvalid\<close>.\<close>

definition pointerField :: "string \<Rightarrow> LFSObject \<times> string list \<Rightarrow> LFSObject + (LFSObject \<times> string list)" where
  "pointerField line = (\<lambda>(result, seen).
     (let line = TrimSuffix line carriageReturn
      in if line = [] then Inr (result, seen)
         else (let (key, v, ok) = Cut CHR '' '' line
           in if \<not> ok \<or> v = [] \<or> key \<in> set seen then Inl result
              else if key = ''oid'' then
                (let result = result\<lparr>lfs_OID := TrimPrefix v ''sha256:''\<rparr>
                 in if v \<noteq> ''sha256:'' @ lfs_OID result \<or> \<not> ValidLFSOID (lfs_OID result) then Inl result
                    else Inr (result, key # seen))
              else if key = ''size'' then
                (case ParseInt v of
                   None \<Rightarrow> Inl result
                 | Some sz \<Rightarrow> if sz < 0 then Inl result else Inr (result\<lparr>lfs_Size := sz\<rparr>, key # seen))
              else if \<not> HasPrefix key ''ext-'' \<or> ContainsAny v [CHR 0x00, CHR 0x0D] then Inl result
              else Inr (result, key # seen))))"

fun pointerFields :: "nat \<Rightarrow> nat \<Rightarrow> string list \<Rightarrow> LFSObject \<times> string list \<Rightarrow> LFSObject + (LFSObject \<times> string list)" where
  "pointerFields skip i [] st = Inr st"
| "pointerFields skip i (line # rest) st =
     (if i = skip then pointerFields skip (Suc i) rest st
      else (case pointerField line st of Inl result \<Rightarrow> Inl result | Inr st \<Rightarrow> pointerFields skip (Suc i) rest st))"

definition emptyLFS :: LFSObject where "emptyLFS = \<lparr>lfs_OID = [], lfs_Size = 0\<rparr>"

definition parseLFSPointer :: "bytes \<Rightarrow> LFSObject \<times> bool \<times> err option" where
  "parseLFSPointer d =
     (if length d \<ge> maxLFSPointerBytes then (emptyLFS, False, None)
      else (let lines = Split newline (TrimSpace (string_of d))
        in case versionLine 0 lines of
             None \<Rightarrow> (emptyLFS, False, None)
           | Some skip \<Rightarrow>
               (case pointerFields skip 0 lines (emptyLFS, []) of
                  Inl result \<Rightarrow> (result, True, Some RepoErrInvalid)
                | Inr (result, seen) \<Rightarrow>
                    if ''oid'' \<notin> set seen \<or> ''size'' \<notin> set seen then (result, True, Some RepoErrInvalid)
                    else (result, True, None))))"

definition addLFSPointer :: "(string \<times> int) list \<Rightarrow> bytes \<Rightarrow> (string \<times> int) list result" where
  "addLFSPointer index d =
     (let (object, pointer, err) = parseLFSPointer d
      in case err of
           Some e \<Rightarrow> Inl e
         | None \<Rightarrow>
             if \<not> pointer then Inr index
             else if (case map_of index (lfs_OID object) of None \<Rightarrow> False | Some prior \<Rightarrow> prior \<noteq> lfs_Size object)
               then Inl (ErrJoin RepoErrInvalid ErrLFSHashMismatch)
             else Inr (al_put (lfs_OID object) (lfs_Size object) index))"

fun collectLoop :: "ctx \<Rightarrow> 'r gitGetter \<Rightarrow> infos \<Rightarrow> (string \<times> int) list \<Rightarrow> 'r \<Rightarrow> (string \<times> int) list result \<times> 'r" where
  "collectLoop ctx get [] index r = (Inr index, r)"
| "collectLoop ctx get ((ident, info) # rest) index r =
     (if oi_Type info \<noteq> ''blob'' \<or> oi_Size info > int maxLFSPointerBytes then collectLoop ctx get rest index r
      else (case get ctx ident r of
        (Inl e, r) \<Rightarrow> (Inl e, r)
      | (Inr object, r) \<Rightarrow>
          (case addLFSPointer index (ObjectData object) of
             Inl e \<Rightarrow> (Inl e, r)
           | Inr index \<Rightarrow> collectLoop ctx get rest index r)))"

definition collectLFSPointers :: "ctx \<Rightarrow> infos \<Rightarrow> 'r gitGetter \<Rightarrow> 'r \<Rightarrow> (string \<times> int) list result \<times> 'r" where
  "collectLFSPointers ctx objs get r = collectLoop ctx get objs [] r"

definition compareLFSIndex :: "lfsIndex option \<Rightarrow> (string \<times> int) list \<Rightarrow> err option" where
  "compareLFSIndex index actual =
     (if \<not> validLFSIndex index then Some RepoErrCorrupt
      else (case index of
          None \<Rightarrow> None
        | Some index \<Rightarrow>
            (let objs = (case lfs_Objects index of None \<Rightarrow> [] | Some objs \<Rightarrow> objs)
             in if length objs = length actual \<and> list_all (\<lambda>(oid, sz). map_of actual oid = Some sz) objs
                then None else Some RepoErrCorrupt)))"

section \<open>Accepted pointers\<close>

lemma pointerField_keeps:
  assumes "pointerField line (result, seen) = Inr (result', seen')"
    and "''oid'' \<in> set seen \<longrightarrow> ValidLFSOID (lfs_OID result)" and "is_int64 (lfs_Size result)" "0 \<le> lfs_Size result"
  shows "(''oid'' \<in> set seen' \<longrightarrow> ValidLFSOID (lfs_OID result')) \<and> is_int64 (lfs_Size result') \<and> 0 \<le> lfs_Size result'"
  using assms by (auto simp: pointerField_def Let_def ParseInt_def split: prod.splits if_splits option.splits)

lemma pointerFields_keeps:
  assumes "pointerFields skip i lines (result, seen) = Inr (result', seen')"
    and "''oid'' \<in> set seen \<longrightarrow> ValidLFSOID (lfs_OID result)" and "is_int64 (lfs_Size result)" "0 \<le> lfs_Size result"
  shows "(''oid'' \<in> set seen' \<longrightarrow> ValidLFSOID (lfs_OID result')) \<and> is_int64 (lfs_Size result') \<and> 0 \<le> lfs_Size result'"
  using assms
proof (induction lines arbitrary: i result seen)
  case (Cons line lines)
  show ?case
  proof (cases "i = skip")
    case False
    then obtain result1 seen1 where f: "pointerField line (result, seen) = Inr (result1, seen1)"
      "pointerFields skip (Suc i) lines (result1, seen1) = Inr (result', seen')"
      using Cons.prems(1) by (auto split: sum.splits)
    then show ?thesis using Cons.IH [OF f(2)] pointerField_keeps [OF f(1) Cons.prems(2-4)] by blast
  qed (use Cons in auto)
qed simp

lemma parseLFSPointer_valid:
  assumes "parseLFSPointer d = (object, True, None)"
  shows "ValidLFSOID (lfs_OID object) \<and> 0 \<le> lfs_Size object \<and> lfs_Size object \<le> MaxInt64"
proof -
  obtain skip lines seen where "pointerFields skip 0 lines (emptyLFS, []) = Inr (object, seen)" "''oid'' \<in> set seen"
    using assms by (auto simp: parseLFSPointer_def Let_def split: if_splits option.splits sum.splits)
  from pointerFields_keeps [OF this(1)] this(2) show ?thesis by (auto simp: emptyLFS_def is_int64_def MaxInt64_def)
qed

section \<open>The canonical pointer\<close>

definition canonicalPointer :: "string \<Rightarrow> int \<Rightarrow> string" where
  "canonicalPointer oid sz =
     ''version https://git-lfs.github.com/spec/v1'' @ [newline] @ ''oid sha256:'' @ oid @ [newline] @ ''size '' @ FormatInt sz @ [newline]"

lemma TrimSpace_ascii_newline:
  assumes "ascii s" and "s \<noteq> []" and "\<not> IsSpace (Some (code (hd s)))" and "\<not> IsSpace (Some (code (last s)))"
  shows "TrimSpace (s @ [newline]) = s"
proof -
  have "ascii (s @ [newline])" using assms(1) by (simp add: ascii_def newline_def)
  then have seg: "segments (s @ [newline]) = map (\<lambda>c. (Some (code c), [c])) s @ [(Some 10, [newline])]"
    by (simp add: segments_ascii newline_def)
  obtain c t where s: "s = c # t" using assms(2) by (cases s) auto
  have "dropWhile (\<lambda>p. IsSpace (fst p)) (segments (s @ [newline])) = map (\<lambda>c. (Some (code c), [c])) s @ [(Some 10, [newline])]"
    using assms(3) by (simp only: seg) (simp add: s)
  moreover have "rev (map (\<lambda>c. (Some (code c), [c])) s @ [(Some 10, [newline])]) =
      (Some 10, [newline]) # (Some (code (last s)), [last s]) # rev (map (\<lambda>c. (Some (code c), [c])) (butlast s))"
  proof -
    obtain t c where "s = t @ [c]" using assms(2) by (cases s rule: rev_cases) auto
    then show ?thesis by simp
  qed
  moreover have "IsSpace (Some 10)" by (simp add: IsSpace_def)
  ultimately have "TrimSpace (s @ [newline]) = concat (map snd (rev ((Some (code (last s)), [last s]) # rev (map (\<lambda>c. (Some (code c), [c])) (butlast s)))))"
    using assms(4) by (simp add: TrimSpace_def)
  also have "\<dots> = concat (map (\<lambda>c. [c]) (butlast s @ [last s]))" by (simp add: comp_def)
  also have "\<dots> = s" using assms(2) by simp
  finally show ?thesis .
qed

lemma TrimSuffix_other: "s = [] \<or> last s \<noteq> c \<Longrightarrow> TrimSuffix s [c] = s"
  by (auto simp: TrimSuffix_def suffix_def)

lemma hex_not_space: "lower_hex_char c \<Longrightarrow> c \<noteq> newline \<and> c \<noteq> CHR 0x0D \<and> code c < 128"
  unfolding lower_hex_char_def newline_def by auto

lemma digit_facts: "is_digit c \<Longrightarrow> c \<noteq> newline \<and> c \<noteq> CHR 0x0D \<and> code c < 128 \<and> \<not> IsSpace (Some (code c))"
  by (auto simp: is_digit_def newline_def IsSpace_def)

text \<open>
  What the server recognizes as a Git LFS pointer is what clients write: for every SHA-256 object ID and every size
  up to the largest 64-bit integer, the canonical pointer file is recognized and gives back exactly this ID and size.
\<close>

theorem parseLFSPointer_canonical:
  assumes "ValidLFSOID oid" and "0 \<le> sz" and "sz \<le> MaxInt64"
  shows "parseLFSPointer (bytes_of (canonicalPointer oid sz)) = (\<lparr>lfs_OID = oid, lfs_Size = sz\<rparr>, True, None)"
proof -
  let ?V = "''version https://git-lfs.github.com/spec/v1''"
  define A where "A = ''oid sha256:'' @ oid"
  define B where "B = ''size '' @ FormatInt sz"
  define s where "s = ?V @ newline # A @ newline # B"
  have num: "FormatInt sz = FormatUint (nat sz)" using assms(2) by (simp add: FormatInt_def)
  have digits: "\<forall>c \<in> set (FormatInt sz). is_digit c" using FormatUint_digits [of "nat sz"] by (simp add: num list_all_iff)
  have hex: "length oid = 64" "\<forall>c \<in> set oid. lower_hex_char c"
    using assms(1) by (simp_all add: ValidLFSOID_def digestPattern_def lowerHex_def list_all_iff)
  have "nat sz < 10 ^ Suc 19" using assms(2,3) by (simp add: MaxInt64_def)
  then have len: "length (FormatInt sz) \<le> 20" unfolding num using length_FormatUint [of "nat sz" 19] by simp
  have last: "last s = last (FormatInt sz)" "FormatInt sz \<noteq> []" by (simp_all add: s_def B_def num)
  have asc: "ascii ?V" "ascii ''oid sha256:''" "ascii ''size ''" by (simp_all add: ascii_def)
  have "ascii oid" "ascii (FormatInt sz)" using hex(2) digits hex_not_space digit_facts by (auto simp: ascii_def list_all_iff)
  then have "ascii s" using asc unfolding s_def A_def B_def ascii_def by (simp add: newline_def)
  moreover have "\<not> IsSpace (Some (code (hd s)))" by (simp add: s_def IsSpace_def)
  moreover have "\<not> IsSpace (Some (code (last s)))" using digits digit_facts last by (metis last_in_set)
  ultimately have trim: "TrimSpace (s @ [newline]) = s" by (intro TrimSpace_ascii_newline) (simp_all add: s_def)
  have nl: "newline \<notin> set ?V" "newline \<notin> set A" "newline \<notin> set B"
    using hex(2) hex_not_space digits digit_facts by (auto simp: A_def B_def newline_def)
  have split: "Split newline s = [?V, A, B]"
    by (simp only: s_def Split_append_sep [OF nl(1)] Split_append_sep [OF nl(2)] Split_no_sep [OF nl(3)])
  have crA: "TrimSuffix A carriageReturn = A"
  proof -
    have "last A = last oid" "oid \<noteq> []" using hex(1) by (auto simp: A_def)
    then show ?thesis unfolding carriageReturn_def using hex(2) hex_not_space by (intro TrimSuffix_other) (metis last_in_set)
  qed
  have crB: "TrimSuffix B carriageReturn = B"
    unfolding carriageReturn_def using last digits digit_facts by (intro TrimSuffix_other) (metis B_def last_appendR last_in_set)
  have "TrimSuffix ?V carriageReturn = ?V" unfolding carriageReturn_def by (intro TrimSuffix_other) simp
  then have version: "versionLine 0 [?V, A, B] = Some 0" by (simp add: pointerVersions_def)
  have fA: "pointerField A (emptyLFS, []) = Inr (\<lparr>lfs_OID = oid, lfs_Size = 0\<rparr>, [''oid''])"
    using assms(1) crA by (simp add: pointerField_def A_def emptyLFS_def TrimPrefix_def)
  have fB: "pointerField B (\<lparr>lfs_OID = oid, lfs_Size = 0\<rparr>, [''oid'']) = Inr (\<lparr>lfs_OID = oid, lfs_Size = sz\<rparr>, [''size'', ''oid''])"
    using crB last(2) assms(2,3) by (simp add: pointerField_def B_def is_int64_def MaxInt64_def)
  have shape: "canonicalPointer oid sz = s @ [newline]" by (simp add: canonicalPointer_def s_def A_def B_def)
  have "length (canonicalPointer oid sz) < 1024" using hex(1) len by (simp add: canonicalPointer_def)
  then show ?thesis unfolding parseLFSPointer_def Let_def string_of_bytes_of shape trim split version
    using fA fB by (simp add: maxLFSPointerBytes_def shape)
qed

theorem parseLFSPointer_canonical_witness:
  "parseLFSPointer (bytes_of (canonicalPointer (replicate 64 CHR ''a'') 5)) = (\<lparr>lfs_OID = replicate 64 CHR ''a'', lfs_Size = 5\<rparr>, True, None)"
proof -
  have "ValidLFSOID (replicate 64 CHR ''a'')" by (simp add: ValidLFSOID_def digestPattern_def lowerHex_def lower_hex_char_def list_all_iff)
  from parseLFSPointer_canonical [OF this, of 5] show ?thesis by (simp add: MaxInt64_def)
qed

section \<open>The collected index\<close>

definition candidate :: "objectInfo \<Rightarrow> bool" where
  "candidate info \<longleftrightarrow> oi_Type info = ''blob'' \<and> oi_Size info \<le> int maxLFSPointerBytes"

text \<open>The pointers among the blobs of a manifest, and the blobs that can be scanned without an error.\<close>

definition pointersOf :: "(string \<Rightarrow> GitObject option) \<Rightarrow> infos \<Rightarrow> LFSObject set" where
  "pointersOf content objs = {p. \<exists>(ident, info) \<in> set objs. candidate info \<and>
     (\<exists>object. content ident = Some object \<and> parseLFSPointer (ObjectData object) = (p, True, None))}"

definition scannable :: "(string \<Rightarrow> GitObject option) \<Rightarrow> infos \<Rightarrow> bool" where
  "scannable content objs \<longleftrightarrow>
     (\<forall>(ident, info) \<in> set objs. candidate info \<longrightarrow>
        (\<exists>object. content ident = Some object \<and> snd (snd (parseLFSPointer (ObjectData object))) = None))"

definition consistent :: "LFSObject set \<Rightarrow> bool" where
  "consistent ps \<longleftrightarrow> (\<forall>p \<in> ps. \<forall>q \<in> ps. lfs_OID p = lfs_OID q \<longrightarrow> lfs_Size p = lfs_Size q)"

definition indexed :: "(string \<times> int) list \<Rightarrow> LFSObject set \<Rightarrow> bool" where
  "indexed index ps \<longleftrightarrow> al_wf index \<and> set index = (\<lambda>p. (lfs_OID p, lfs_Size p)) ` ps"

lemma pointersOf_Cons:
  "pointersOf content ((ident, info) # objs) =
     (if candidate info then {p. \<exists>object. content ident = Some object \<and> parseLFSPointer (ObjectData object) = (p, True, None)} else {}) \<union>
     pointersOf content objs"
  by (auto simp: pointersOf_def)

lemma addLFSPointer_indexed:
  assumes "indexed index ps" and "addLFSPointer index d = Inr index'"
  shows "snd (snd (parseLFSPointer d)) = None \<and> indexed index' (ps \<union> {p. parseLFSPointer d = (p, True, None)})"
proof -
  obtain object pointer e where d: "parseLFSPointer d = (object, pointer, e)" by (cases "parseLFSPointer d")
  have e: "e = None" using assms(2) d by (auto simp: addLFSPointer_def split: option.splits)
  show ?thesis
  proof (cases pointer)
    case False
    then show ?thesis using assms d e by (auto simp: addLFSPointer_def)
  next
    case True
    have wf: "al_wf index" and set: "set index = (\<lambda>p. (lfs_OID p, lfs_Size p)) ` ps" using assms(1) by (simp_all add: indexed_def)
    have i': "index' = al_put (lfs_OID object) (lfs_Size object) index"
      and prior: "map_of index (lfs_OID object) \<in> {None, Some (lfs_Size object)}"
      using assms(2) d e True by (auto simp: addLFSPointer_def split: option.splits if_splits)
    have "set index' = insert (lfs_OID object, lfs_Size object) (set index)"
    proof -
      have "(k, v) \<in> set index' \<longleftrightarrow> (k, v) \<in> insert (lfs_OID object, lfs_Size object) (set index)" for k v
        using prior unfolding i' insert_iff al_wf_map_of [OF wf] al_wf_map_of [OF al_wf_put [OF wf]] by auto
      then show ?thesis by auto
    qed
    then show ?thesis using wf set d e True by (auto simp: indexed_def i')
  qed
qed

lemma addLFSPointer_succeeds:
  assumes "indexed index ps" and "snd (snd (parseLFSPointer d)) = None" and "consistent (ps \<union> {p. parseLFSPointer d = (p, True, None)})"
  shows "\<exists>index'. addLFSPointer index d = Inr index'"
proof -
  obtain object pointer where d: "parseLFSPointer d = (object, pointer, None)" using assms(2) by (cases "parseLFSPointer d") auto
  show ?thesis
  proof (cases "pointer \<and> map_of index (lfs_OID object) \<noteq> None")
    case True
    then obtain prior where p: "map_of index (lfs_OID object) = Some prior" by auto
    then have "(lfs_OID object, prior) \<in> set index" by (rule map_of_SomeD)
    then obtain q where "q \<in> ps" "lfs_OID q = lfs_OID object" "lfs_Size q = prior" using assms(1) by (auto simp: indexed_def)
    moreover have "object \<in> {p. parseLFSPointer d = (p, True, None)}" using d True by simp
    ultimately have "prior = lfs_Size object" using assms(3) unfolding consistent_def by blast
    then show ?thesis using d p True by (simp add: addLFSPointer_def)
  next
    case False
    then show ?thesis using d by (cases pointer) (auto simp: addLFSPointer_def)
  qed
qed

context object_source
begin

lemma collectLoop_sound:
  assumes "collectLoop ctx get objs index r = (Inr index', r')" and "ready r" and "indexed index ps"
  shows "ready r' \<and> scannable content objs \<and> indexed index' (ps \<union> pointersOf content objs)"
  using assms
proof (induction objs arbitrary: index r ps)
  case Nil
  then show ?case by (simp add: scannable_def pointersOf_def)
next
  case (Cons p objs)
  obtain ident info where p: "p = (ident, info)" by (cases p)
  show ?case
  proof (cases "candidate info")
    case False
    then have "collectLoop ctx get objs index r = (Inr index', r')" using Cons.prems(1) by (auto simp: p candidate_def)
    then show ?thesis using Cons.IH Cons.prems False by (auto simp: p pointersOf_Cons scannable_def)
  next
    case True
    obtain object r1 index1 where g: "get ctx ident r = (Inr object, r1)" "addLFSPointer index (ObjectData object) = Inr index1"
      "collectLoop ctx get objs index1 r1 = (Inr index', r')"
      using Cons.prems(1) True by (auto simp: p candidate_def split: prod.splits sum.splits)
    have c: "content ident = Some object" "ready r1" using get_content get_ready Cons.prems(2) g(1) by blast+
    have a: "snd (snd (parseLFSPointer (ObjectData object))) = None"
      "indexed index1 (ps \<union> {p. parseLFSPointer (ObjectData object) = (p, True, None)})"
      using addLFSPointer_indexed [OF Cons.prems(3) g(2)] by blast+
    show ?thesis using Cons.IH [OF g(3) c(2) a(2)] c(1) a(1) True by (simp add: p pointersOf_Cons scannable_def Un_assoc)
  qed
qed

lemma collectLoop_complete:
  assumes "ready r" and "indexed index ps" and "scannable content objs" and "consistent (ps \<union> pointersOf content objs)"
  shows "\<exists>index' r'. collectLoop Background get objs index r = (Inr index', r')"
  using assms
proof (induction objs arbitrary: index r ps)
  case (Cons p objs)
  obtain ident info where p: "p = (ident, info)" by (cases p)
  have scan: "scannable content objs" using Cons.prems(3) by (simp add: scannable_def)
  show ?case
  proof (cases "candidate info")
    case False
    then show ?thesis using Cons.IH [OF Cons.prems(1,2) scan] Cons.prems(4) by (auto simp: p candidate_def pointersOf_Cons)
  next
    case True
    obtain object where o1: "content ident = Some object" "snd (snd (parseLFSPointer (ObjectData object))) = None"
      using Cons.prems(3) True by (auto simp: scannable_def p)
    obtain r1 where g: "get Background ident r = (Inr object, r1)" using get_succeeds [OF Cons.prems(1) o1(1)] by blast
    let ?ps = "ps \<union> {p. parseLFSPointer (ObjectData object) = (p, True, None)}"
    have con: "consistent (?ps \<union> pointersOf content objs)" using Cons.prems(4) True o1(1) by (simp add: p pointersOf_Cons Un_assoc)
    then have "consistent ?ps" by (auto simp: consistent_def)
    then obtain index1 where i: "addLFSPointer index (ObjectData object) = Inr index1"
      using addLFSPointer_succeeds [OF Cons.prems(2) o1(2)] by blast
    have "indexed index1 ?ps" using addLFSPointer_indexed [OF Cons.prems(2) i] by blast
    then show ?thesis using Cons.IH [OF get_ready [OF Cons.prems(1) g] _ scan con] g i True by (simp add: p candidate_def)
  qed
qed simp

end

lemma indexed_consistent: "indexed index ps \<Longrightarrow> consistent ps"
  unfolding indexed_def consistent_def using al_wf_map_of by (metis image_eqI option.inject)

text \<open>
  C33. The LFS index of a generation is exact: collecting it succeeds precisely when every small blob can be read and
  none of them is a malformed pointer, and no two pointers give one object different sizes; it then holds precisely the objects
  that the blobs point to, each once, with a valid ID and a nonnegative size.
\<close>

theorem collectLFSPointers_exact:
  assumes "object_source get ready content" and "ready r"
  shows "((\<exists>index r'. collectLFSPointers Background objs get r = (Inr index, r')) \<longleftrightarrow>
      scannable content objs \<and> consistent (pointersOf content objs)) \<and>
    (\<forall>ctx index r'. collectLFSPointers ctx objs get r = (Inr index, r') \<longrightarrow>
       distinct (map fst index) \<and> set index = (\<lambda>p. (lfs_OID p, lfs_Size p)) ` pointersOf content objs \<and>
       (length index \<le> MaxGitObjects \<longrightarrow> validLFSIndex (Some \<lparr>lfs_Version = 1, lfs_Objects = Some index\<rparr>)))"
proof -
  have start: "indexed [] {}" by (simp add: indexed_def)
  have sound: "scannable content objs \<and> indexed index (pointersOf content objs)"
    if "collectLFSPointers ctx objs get r = (Inr index, r')" for ctx index r'
    using object_source.collectLoop_sound [OF assms(1) that [unfolded collectLFSPointers_def] assms(2) start] by simp
  have "\<exists>index r'. collectLFSPointers Background objs get r = (Inr index, r')"
    if "scannable content objs" "consistent (pointersOf content objs)"
    using object_source.collectLoop_complete [OF assms start, of objs] that by (simp add: collectLFSPointers_def)
  then have iff: "(\<exists>index r'. collectLFSPointers Background objs get r = (Inr index, r')) \<longleftrightarrow>
      scannable content objs \<and> consistent (pointersOf content objs)"
    using sound indexed_consistent by blast
  have "distinct (map fst index) \<and> set index = (\<lambda>p. (lfs_OID p, lfs_Size p)) ` pointersOf content objs \<and>
      (length index \<le> MaxGitObjects \<longrightarrow> validLFSIndex (Some \<lparr>lfs_Version = 1, lfs_Objects = Some index\<rparr>))"
    if run: "collectLFSPointers ctx objs get r = (Inr index, r')" for ctx index r'
  proof -
    have i: "indexed index (pointersOf content objs)" using sound [OF run] by blast
    have "ValidLFSOID oid \<and> 0 \<le> sz" if "(oid, sz) \<in> set index" for oid sz
    proof -
      obtain p where "p \<in> pointersOf content objs" "oid = lfs_OID p" "sz = lfs_Size p" using i \<open>(oid, sz) \<in> set index\<close> by (auto simp: indexed_def)
      then show ?thesis using parseLFSPointer_valid by (fastforce simp: pointersOf_def)
    qed
    then show ?thesis using i by (fastforce simp: indexed_def al_wf_def validLFSIndex_def list_all_iff)
  qed
  then show ?thesis using iff by blast
qed

definition pointerBlob :: GitObject where
  "pointerBlob = \<lparr>ObjectType = ''blob'', ObjectData = bytes_of (canonicalPointer (replicate 64 CHR ''a'') 5)\<rparr>"

theorem collectLFSPointers_exact_witness:
  "\<exists>index. collectLFSPointers Background (objectInfos [(''p'', pointerBlob)]) (incomingGetter [(''p'', pointerBlob)]) () = (Inr index, ()) \<and>
     set index = {(replicate 64 CHR ''a'', 5)}"
proof -
  let ?objs = "[(''p'', pointerBlob)]"
  have "ValidLFSOID (replicate 64 CHR ''a'')" by (simp add: ValidLFSOID_def digestPattern_def lowerHex_def lower_hex_char_def list_all_iff)
  note parse = parseLFSPointer_canonical [OF this, of 5]
  have small: "length (ObjectData pointerBlob) \<le> maxLFSPointerBytes"
    by (simp add: pointerBlob_def canonicalPointer_def FormatInt_def FormatUint.simps maxLFSPointerBytes_def)
  have "candidate (gitObjectInfo pointerBlob)" using small by (simp add: candidate_def) (simp add: pointerBlob_def)
  then have ps: "pointersOf (map_of ?objs) (objectInfos ?objs) = {\<lparr>lfs_OID = replicate 64 CHR ''a'', lfs_Size = 5\<rparr>}"
    and "scannable (map_of ?objs) (objectInfos ?objs)"
    using parse by (auto simp: pointersOf_def scannable_def objectInfos_def pointerBlob_def MaxInt64_def)
  then obtain index where i: "collectLFSPointers Background (objectInfos ?objs) (incomingGetter ?objs) () = (Inr index, ())"
    using collectLFSPointers_exact [OF incoming.object_source_axioms [of ?objs] TrueI, of "objectInfos ?objs" "()"]
    by (auto simp: consistent_def)
  then have "set index = (\<lambda>p. (lfs_OID p, lfs_Size p)) ` pointersOf (map_of ?objs) (objectInfos ?objs)"
    using collectLFSPointers_exact [OF incoming.object_source_axioms [of ?objs] TrueI] by blast
  then show ?thesis using i ps by auto
qed

end
