(* ===== verification/RefUpdates.thy ===== *)
theory RefUpdates
  imports RepositorySnapshots
begin

text \<open>
  \<^verbatim>\<open>applyRefUpdates\<close> of \<^verbatim>\<open>internal/repository/packed.go\<close>: the reference changes of a push against the pinned generation.
\<close>

section \<open>Applying updates\<close>

text \<open>A missing entry of a Go map of strings reads as the empty string.\<close>

definition refAt :: "refs \<Rightarrow> string \<Rightarrow> string" where
  "refAt refs name = (case map_of refs name of None \<Rightarrow> [] | Some ident \<Rightarrow> ident)"

fun applyUpdates :: "RefUpdate list \<Rightarrow> string list \<Rightarrow> refs \<Rightarrow> refs result" where
  "applyUpdates [] seen refs = Inr refs"
| "applyUpdates (update # rest) seen refs =
     (if \<not> ValidRef (ru_Name update) \<or> ru_Name update \<in> set seen \<or>
         ru_Old update \<noteq> [] \<and> \<not> objectIDPattern (ru_Old update) \<or>
         ru_New update \<noteq> [] \<and> \<not> objectIDPattern (ru_New update) \<or> ru_Old update = ru_New update
      then Inl RepoErrInvalid
      else if refAt refs (ru_Name update) \<noteq> ru_Old update then Inl RepoErrConflict
      else applyUpdates rest (ru_Name update # seen)
        (if ru_New update = [] then al_del (ru_Name update) refs else al_put (ru_Name update) (ru_New update) refs))"

definition hidesParent :: "refs \<Rightarrow> string \<Rightarrow> bool" where
  "hidesParent refs ref =
     (let parts = Split CHR ''/'' ref
      in list_ex (\<lambda>i. map_of refs (Join CHR ''/'' (take i parts)) \<noteq> None) [2..<length parts])"

definition applyRefUpdates :: "GitSnapshot option \<Rightarrow> RefUpdate list \<Rightarrow> bool \<Rightarrow> refs result" where
  "applyRefUpdates base updates repack =
     (case base of
        None \<Rightarrow> Inl RepoErrInvalid
      | Some base \<Rightarrow>
          if \<not> idPattern (md_ID (sn_metadata (gs_original base))) \<or> sn_version (gs_original base) = [] \<or>
             \<not> repack \<and> updates = [] \<or> length updates > 1000 then Inl RepoErrInvalid
          else (case applyUpdates updates [] (case rs_Refs (sn_refs (gs_original base)) of None \<Rightarrow> [] | Some refs \<Rightarrow> refs) of
              Inl e \<Rightarrow> Inl e
            | Inr refs \<Rightarrow>
                if length refs > 1000 then Inl RepoErrLimit
                else if list_ex (\<lambda>(ref, _). hidesParent refs ref) refs then Inl RepoErrInvalid
                else Inr refs))"

section \<open>What the updates mean\<close>

definition updateOk :: "refs \<Rightarrow> RefUpdate \<Rightarrow> bool" where
  "updateOk refs u \<longleftrightarrow>
     ValidRef (ru_Name u) \<and> (ru_Old u = [] \<or> objectIDPattern (ru_Old u)) \<and> (ru_New u = [] \<or> objectIDPattern (ru_New u)) \<and>
     ru_Old u \<noteq> ru_New u \<and> refAt refs (ru_Name u) = ru_Old u"

text \<open>The references after all updates, as a map: an empty new value deletes.\<close>

definition updatedRefs :: "refs \<Rightarrow> RefUpdate list \<Rightarrow> string \<Rightarrow> string option" where
  "updatedRefs refs updates name =
     (case List.find (\<lambda>u. ru_Name u = name) updates of
        None \<Rightarrow> map_of refs name
      | Some u \<Rightarrow> if ru_New u = [] then None else Some (ru_New u))"

definition directoryConflict :: "string set \<Rightarrow> bool" where
  "directoryConflict names \<longleftrightarrow> (\<exists>a \<in> names. \<exists>b \<in> names. length (Split CHR ''/'' a) \<ge> 2 \<and> prefix (a @ ''/'') b)"

lemma Join_append: "xs \<noteq> [] \<Longrightarrow> ys \<noteq> [] \<Longrightarrow> Join c (xs @ ys) = Join c xs @ c # Join c ys"
  by (induction c xs rule: Join.induct) (auto simp: Join_Cons)

lemma hidesParent_iff:
  "hidesParent refs ref \<longleftrightarrow>
     (\<exists>a. map_of refs a \<noteq> None \<and> length (Split CHR ''/'' a) \<ge> 2 \<and> prefix (a @ ''/'') ref)"
proof
  let ?parts = "Split CHR ''/'' ref"
  assume "hidesParent refs ref"
  then obtain i where i: "2 \<le> i" "i < length ?parts" "map_of refs (Join CHR ''/'' (take i ?parts)) \<noteq> None"
    by (auto simp: hidesParent_def Let_def list_ex_iff)
  let ?a = "Join CHR ''/'' (take i ?parts)"
  have ne: "take i ?parts \<noteq> []" "drop i ?parts \<noteq> []" using i by auto
  have "Split CHR ''/'' ?a = take i ?parts"
    using ne Split_parts_no_sep by (intro Split_Join) (auto dest: in_set_takeD)
  then have "length (Split CHR ''/'' ?a) \<ge> 2" using i by simp
  moreover have "ref = Join CHR ''/'' (take i ?parts @ drop i ?parts)" by simp
  then have "ref = ?a @ CHR ''/'' # Join CHR ''/'' (drop i ?parts)"
    using Join_append [OF ne, of "CHR ''/''"] by simp
  then have "prefix (?a @ ''/'') ref" by (auto simp: prefix_def)
  ultimately show "\<exists>a. map_of refs a \<noteq> None \<and> length (Split CHR ''/'' a) \<ge> 2 \<and> prefix (a @ ''/'') ref" using i(3) by blast
next
  assume "\<exists>a. map_of refs a \<noteq> None \<and> length (Split CHR ''/'' a) \<ge> 2 \<and> prefix (a @ ''/'') ref"
  then obtain a rest where a: "map_of refs a \<noteq> None" "length (Split CHR ''/'' a) \<ge> 2" "ref = a @ CHR ''/'' # rest"
    by (auto simp: prefix_def)
  have "Split CHR ''/'' ref = Split CHR ''/'' a @ Split CHR ''/'' rest" unfolding a(3) by (rule Split_append)
  then have "take (length (Split CHR ''/'' a)) (Split CHR ''/'' ref) = Split CHR ''/'' a"
    "length (Split CHR ''/'' a) < length (Split CHR ''/'' ref)" by simp_all
  then show "hidesParent refs ref" using a(1,2)
    by (auto simp: hidesParent_def Let_def list_ex_iff intro!: bexI [of _ "length (Split CHR ''/'' a)"])
qed

lemma updatedRefs_Cons:
  assumes "distinct (map ru_Name (u # us))"
  shows "updatedRefs refs (u # us) = updatedRefs (if ru_New u = [] then al_del (ru_Name u) refs else al_put (ru_Name u) (ru_New u) refs) us"
proof
  fix name
  have "List.find (\<lambda>v. ru_Name v = ru_Name u) us = None" using assms by (auto simp: find_None_iff) (metis image_eqI)
  then show "updatedRefs refs (u # us) name =
      updatedRefs (if ru_New u = [] then al_del (ru_Name u) refs else al_put (ru_Name u) (ru_New u) refs) us name"
    by (auto simp: updatedRefs_def split: option.splits)
qed

lemma applyUpdates_iff:
  assumes "al_wf refs"
  shows "(\<exists>refs'. applyUpdates us seen refs = Inr refs') \<longleftrightarrow>
      distinct (map ru_Name us) \<and> ru_Name ` set us \<inter> set seen = {} \<and> (\<forall>u \<in> set us. updateOk refs u)"
    and "applyUpdates us seen refs = Inr refs' \<Longrightarrow> al_wf refs' \<and> map_of refs' = updatedRefs refs us"
proof -
  have "((\<exists>refs'. applyUpdates us seen refs = Inr refs') \<longleftrightarrow>
      distinct (map ru_Name us) \<and> ru_Name ` set us \<inter> set seen = {} \<and> (\<forall>u \<in> set us. updateOk refs u)) \<and>
    (applyUpdates us seen refs = Inr refs' \<longrightarrow> al_wf refs' \<and> map_of refs' = updatedRefs refs us)"
    using assms
  proof (induction us arbitrary: seen refs)
    case Nil
    then show ?case by (auto simp: updatedRefs_def)
  next
    case (Cons u us)
    let ?refs = "if ru_New u = [] then al_del (ru_Name u) refs else al_put (ru_Name u) (ru_New u) refs"
    have other: "updateOk ?refs v \<longleftrightarrow> updateOk refs v" if "ru_Name v \<noteq> ru_Name u" for v
      using that by (simp add: updateOk_def refAt_def)
    show ?case
    proof (cases "updateOk refs u \<and> ru_Name u \<notin> set seen")
      case True
      then have step: "applyUpdates (u # us) seen refs = applyUpdates us (ru_Name u # seen) ?refs" by (auto simp: updateOk_def)
      note ih = Cons.IH [of ?refs "ru_Name u # seen"]
      have wf: "al_wf ?refs" using Cons.prems by simp
      have "(\<exists>refs'. applyUpdates (u # us) seen refs = Inr refs') \<longleftrightarrow>
          distinct (map ru_Name us) \<and> ru_Name ` set us \<inter> set (ru_Name u # seen) = {} \<and> (\<forall>v \<in> set us. updateOk ?refs v)"
        unfolding step using ih [OF wf] by blast
      also have "\<dots> \<longleftrightarrow> distinct (map ru_Name (u # us)) \<and> ru_Name ` set (u # us) \<inter> set seen = {} \<and> (\<forall>v \<in> set (u # us). updateOk refs v)"
      proof (cases "ru_Name u \<in> ru_Name ` set us")
        case False
        then have "updateOk ?refs v \<longleftrightarrow> updateOk refs v" if "v \<in> set us" for v using other that by (metis image_eqI)
        then have "(\<forall>v \<in> set us. updateOk ?refs v) \<longleftrightarrow> (\<forall>v \<in> set us. updateOk refs v)" by blast
        then show ?thesis using True False by auto
      qed auto
      finally have iff: "(\<exists>refs'. applyUpdates (u # us) seen refs = Inr refs') \<longleftrightarrow>
          distinct (map ru_Name (u # us)) \<and> ru_Name ` set (u # us) \<inter> set seen = {} \<and> (\<forall>v \<in> set (u # us). updateOk refs v)" .
      have "al_wf refs' \<and> map_of refs' = updatedRefs refs (u # us)" if ok: "applyUpdates (u # us) seen refs = Inr refs'"
        using ih [OF wf] ok iff updatedRefs_Cons [of u us refs] unfolding step by metis
      then show ?thesis using iff by blast
    next
      case False
      then have "\<exists>e. applyUpdates (u # us) seen refs = Inl e" by (auto simp: updateOk_def)
      then show ?thesis using False by auto
    qed
  qed
  then show "(\<exists>refs'. applyUpdates us seen refs = Inr refs') \<longleftrightarrow>
      distinct (map ru_Name us) \<and> ru_Name ` set us \<inter> set seen = {} \<and> (\<forall>u \<in> set us. updateOk refs u)"
    and "applyUpdates us seen refs = Inr refs' \<Longrightarrow> al_wf refs' \<and> map_of refs' = updatedRefs refs us" by blast+
qed

section \<open>The updates of a push are atomic and conflict-free\<close>

definition pinnedRefs :: "GitSnapshot \<Rightarrow> refs" where
  "pinnedRefs base = (case rs_Refs (sn_refs (gs_original base)) of None \<Rightarrow> [] | Some refs \<Rightarrow> refs)"

lemma hidden_conflict:
  assumes "map_of refs = m"
  shows "list_ex (\<lambda>(ref, _). hidesParent refs ref) refs \<longleftrightarrow> directoryConflict (dom m)"
proof -
  have keys: "(\<exists>ident. (b, ident) \<in> set refs) \<longleftrightarrow> b \<in> dom m" for b
    unfolding assms [symmetric] dom_map_of_conv_image_fst by force
  have "list_ex (\<lambda>(ref, _). hidesParent refs ref) refs \<longleftrightarrow> (\<exists>b \<in> dom m. hidesParent refs b)"
    unfolding list_ex_iff using keys by fastforce
  then show ?thesis unfolding hidesParent_iff directoryConflict_def assms by (auto simp: domIff)
qed

text \<open>
  C32. The reference updates of a push are applied together or not at all: they are accepted precisely when
  every update is well formed, names a reference once, changes it and finds it at the announced old value in the pinned
  generation, and when the outcome has at most 1000 references and no
  reference is a directory of another. The outcome then is the pinned references with exactly these changes,
  whatever the order of the updates.
\<close>

theorem applyRefUpdates_exact:
  assumes "al_wf (pinnedRefs base)"
  shows "((\<exists>refs. applyRefUpdates (Some base) updates repack = Inr refs) \<longleftrightarrow>
      idPattern (md_ID (sn_metadata (gs_original base))) \<and> sn_version (gs_original base) \<noteq> [] \<and>
      (repack \<or> updates \<noteq> []) \<and> length updates \<le> 1000 \<and>
      distinct (map ru_Name updates) \<and> (\<forall>u \<in> set updates. updateOk (pinnedRefs base) u) \<and>
      card (dom (updatedRefs (pinnedRefs base) updates)) \<le> 1000 \<and>
      \<not> directoryConflict (dom (updatedRefs (pinnedRefs base) updates))) \<and>
    (\<forall>refs. applyRefUpdates (Some base) updates repack = Inr refs \<longrightarrow>
       distinct (map fst refs) \<and> map_of refs = updatedRefs (pinnedRefs base) updates)"
proof -
  note it = applyUpdates_iff [OF assms, of updates "[]"]
  have eq: "applyRefUpdates (Some base) updates repack =
      (if \<not> idPattern (md_ID (sn_metadata (gs_original base))) \<or> sn_version (gs_original base) = [] \<or>
          \<not> repack \<and> updates = [] \<or> length updates > 1000 then Inl RepoErrInvalid
       else (case applyUpdates updates [] (pinnedRefs base) of
           Inl e \<Rightarrow> Inl e
         | Inr refs \<Rightarrow>
             if length refs > 1000 then Inl RepoErrLimit
             else if list_ex (\<lambda>(ref, _). hidesParent refs ref) refs then Inl RepoErrInvalid
             else Inr refs))"
    by (simp add: applyRefUpdates_def pinnedRefs_def)
  show ?thesis
  proof (cases "applyUpdates updates [] (pinnedRefs base)")
    case (Inl e)
    then have "\<not> (distinct (map ru_Name updates) \<and> (\<forall>u \<in> set updates. updateOk (pinnedRefs base) u))" using it(1) by auto
    then show ?thesis unfolding eq Inl by auto
  next
    case (Inr refs)
    then have ok: "distinct (map ru_Name updates)" "\<forall>u \<in> set updates. updateOk (pinnedRefs base) u" using it(1) by auto
    have refs: "al_wf refs" "map_of refs = updatedRefs (pinnedRefs base) updates" using it(2) [OF Inr] by blast+
    have "dom (updatedRefs (pinnedRefs base) updates) = set (map fst refs)"
      unfolding refs(2) [symmetric] by (simp add: dom_map_of_conv_image_fst)
    then have "card (dom (updatedRefs (pinnedRefs base) updates)) = length refs"
      using refs(1) distinct_card unfolding al_wf_def by fastforce
    then show ?thesis unfolding eq Inr using ok refs hidden_conflict [OF refs(2)] by (auto simp: al_wf_def)
  qed
qed

definition sampleBase :: GitSnapshot where
  "sampleBase = \<lparr>gs_DefaultBranch = ''main'', gs_References = [], gs_Objects = [],
     gs_original = \<lparr>
       sn_metadata = \<lparr>md_ID = replicate 32 CHR ''a'', md_Namespace = ''acme'', md_Name = ''app'', md_Description = [],
         md_DefaultBranch = ''main'', md_CreatedAt = zeroTime, md_CreatedBy = ''u'', md_Visibility = ''private'', md_IsEmpty = True\<rparr>,
       sn_refs = \<lparr>rs_Schema = 1, rs_Refs = Some [(''refs/heads/main'', replicate 40 CHR ''0'')]\<rparr>,
       sn_manifest = \<lparr>mf_Schema = 1, mf_ObjectFormat = ''sha1'', mf_Objects = Some [], mf_LFS = None\<rparr>,
       sn_state = zeroState, sn_version = ''v1''\<rparr>,
     gs_available = None\<rparr>"

theorem applyRefUpdates_exact_witness:
  "\<exists>refs. applyRefUpdates (Some sampleBase)
       [\<lparr>ru_Name = ''refs/heads/main'', ru_Old = replicate 40 CHR ''0'', ru_New = replicate 40 CHR ''1''\<rparr>,
        \<lparr>ru_Name = ''refs/tags/v1'', ru_Old = [], ru_New = replicate 40 CHR ''2''\<rparr>] False = Inr refs \<and>
     map_of refs ''refs/tags/v1'' = Some (replicate 40 CHR ''2'') \<and> map_of refs ''refs/heads/other'' = None"
proof -
  let ?us = "[\<lparr>ru_Name = ''refs/heads/main'', ru_Old = replicate 40 CHR ''0'', ru_New = replicate 40 CHR ''1''\<rparr>,
        \<lparr>ru_Name = ''refs/tags/v1'', ru_Old = [], ru_New = replicate 40 CHR ''2''\<rparr>]"
  have wf: "al_wf (pinnedRefs sampleBase)" by (simp add: pinnedRefs_def sampleBase_def al_wf_def)
  have "(case applyRefUpdates (Some sampleBase) ?us False of Inl _ \<Rightarrow> False | Inr _ \<Rightarrow> True)" by code_simp
  then obtain refs where r: "applyRefUpdates (Some sampleBase) ?us False = Inr refs" by (auto split: sum.splits)
  then have "map_of refs = updatedRefs (pinnedRefs sampleBase) ?us" using applyRefUpdates_exact [OF wf] by blast
  then show ?thesis using r by (intro exI [of _ refs]) (simp add: updatedRefs_def pinnedRefs_def sampleBase_def)
qed

end
