(* ===== verification/ObjectRead.thy ===== *)
theory ObjectRead
  imports RepositoryLock LfsPointer RefUpdates
begin

text \<open>
  \<^verbatim>\<open>internal/repository/git.go\<close> and \<^verbatim>\<open>cache.go\<close>: reading one object of a pinned generation, loose or from a pack, without a shared cache.
\<close>

section \<open>Reading objects\<close>

definition packEntry :: "string \<Rightarrow> RepositoryRules.objectInfo \<Rightarrow> Entry" where
  "packEntry ident info =
     \<lparr>EntryID = ident, EntryType = oi_Type info, EntrySHA256 = oi_SHA256 info, EntrySize = oi_Size info,
      EntryOffset = oi_Offset info, EntryLength = oi_Length info, EntryCRC32 = oi_CRC32 info\<rparr>"

text \<open>The objects of a manifest; a nil map has none.\<close>

definition manifestObjects :: "objectManifest \<Rightarrow> infos" where
  "manifestObjects manifest = (case mf_Objects manifest of None \<Rightarrow> [] | Some objs \<Rightarrow> objs)"

definition packedObjectData :: "zlib \<Rightarrow> 's Store \<Rightarrow> ctx \<Rightarrow> snapshot \<Rightarrow> string \<Rightarrow> RepositoryRules.objectInfo \<Rightarrow> 's \<Rightarrow> bytes result" where
  "packedObjectData z st ctx snap ident info s =
     (case os_GetRange (st_objects st) ctx (''repos/'' @ md_ID (sn_metadata snap) @ ''/'' @ oi_PackKey info) (oi_Offset info) (oi_Length info) s of
        Inl e \<Rightarrow> Inl (ErrJoin RepoErrCorrupt e)
      | Inr (body, _) \<Rightarrow>
          (case DecodeEntry z ctx body (packEntry ident info) MaxGitObjectBytes of
             Inl e \<Rightarrow> Inl (ErrJoin RepoErrCorrupt e)
           | Inr object \<Rightarrow> Inr (ObjectData object)))"

text \<open>
  The bounded read of a loose object stops at the limit and then no longer sees an error of the compressed stream; the length
  check that follows refuses what it read in every case, because the size of a valid loose object is far below the limit.
\<close>

definition inflateLoose :: "zlib \<Rightarrow> bytes \<Rightarrow> bytes result" where
  "inflateLoose z compressed =
     (case zl_new z compressed ErrEOF of
        Some _ \<Rightarrow> Inl RepoErrCorrupt
      | None \<Rightarrow>
          (let (produced, outcome) = zl_read z compressed ErrEOF; limit = nat (maxObjectBytes + 128)
           in if limit \<le> length produced then Inr (take limit produced)
              else (case outcome of Inl e \<Rightarrow> Inl (ErrJoin RepoErrCorrupt e) | Inr _ \<Rightarrow> Inr produced)))"

definition readObject :: "zlib \<Rightarrow> 's Store \<Rightarrow> ctx \<Rightarrow> snapshot \<Rightarrow> string \<Rightarrow> string \<Rightarrow> 's \<Rightarrow> bytes result" where
  "readObject z st ctx snap ident kind s =
     (case map_of (manifestObjects (sn_manifest snap)) ident of
        None \<Rightarrow> Inl RepoErrCorrupt
      | Some info \<Rightarrow>
          if \<not> objectIDPattern ident \<or> oi_Type info \<noteq> kind then Inl RepoErrCorrupt
          else if oi_PackKey info \<noteq> [] then
            (if \<not> validObjectInfo ident info then Inl RepoErrCorrupt else packedObjectData z st ctx snap ident info s)
          else (case read (st_objects st) ctx (objectKey (md_ID (sn_metadata snap)) ident) (nat (maxObjectBytes + 4096)) s of
              Inl e \<Rightarrow> Inl (ErrJoin RepoErrCorrupt e)
            | Inr compressed \<Rightarrow>
                rbind (inflateLoose z compressed) (\<lambda>raw.
                let header = objectHeader kind (oi_Size info)
                in if int (length raw) \<noteq> int (length header) + oi_Size info \<or> \<not> prefix header raw then Inl RepoErrCorrupt
                   else if EncodeToString (Sum1 raw) \<noteq> ident \<or> EncodeToString (Sum256 raw) \<noteq> oi_SHA256 info then Inl RepoErrCorrupt
                   else Inr (drop (length header) raw))))"

definition cachedObject :: "zlib \<Rightarrow> 's Store \<Rightarrow> ctx \<Rightarrow> snapshot \<Rightarrow> string \<Rightarrow> string \<Rightarrow> 's \<Rightarrow> bytes result" where
  "cachedObject z st ctx snap ident kind s =
     (case map_of (manifestObjects (sn_manifest snap)) ident of
        None \<Rightarrow> Inl RepoErrCorrupt
      | Some info \<Rightarrow>
          if \<not> validObjectInfo ident info \<or> oi_Type info \<noteq> kind then Inl RepoErrCorrupt
          else readObject z st ctx snap ident kind s)"

section \<open>Only verified content is returned\<close>

lemma DecodeEntry_verified:
  assumes "DecodeEntry z ctx input entry n = Inr object"
  shows "ObjectType object = EntryType entry \<and> objectID (EntryType entry) (ObjectData object) = EntryID entry \<and>
    objectSHA256 (EntryType entry) (ObjectData object) = EntrySHA256 entry \<and> int (length (ObjectData object)) = EntrySize entry \<and> ctx = Background"
  using assms by (cases ctx)
    (auto simp: DecodeEntry_def Let_def objectEntry_def split: if_splits option.splits prod.splits sum.splits)

lemma readObject_verified:
  assumes "readObject z st ctx snap ident kind s = Inr b"
  shows "\<exists>info. map_of (manifestObjects (sn_manifest snap)) ident = Some info \<and> oi_Type info = kind \<and> objectID kind b = ident \<and>
    objectSHA256 kind b = oi_SHA256 info \<and> int (length b) = oi_Size info"
proof -
  obtain info where info: "map_of (manifestObjects (sn_manifest snap)) ident = Some info" "oi_Type info = kind"
    using assms by (auto simp: readObject_def split: option.splits if_splits)
  show ?thesis
  proof (cases "oi_PackKey info = []")
    case False
    then obtain body object where "DecodeEntry z ctx body (packEntry ident info) MaxGitObjectBytes = Inr object" "b = ObjectData object"
      using assms info by (auto simp: readObject_def packedObjectData_def split: if_splits sum.splits)
    then show ?thesis using info DecodeEntry_verified by (fastforce simp: packEntry_def)
  next
    case True
    obtain raw where raw: "int (length raw) = int (length (objectHeader kind (oi_Size info))) + oi_Size info" "prefix (objectHeader kind (oi_Size info)) raw"
      "EncodeToString (Sum1 raw) = ident" "EncodeToString (Sum256 raw) = oi_SHA256 info" "b = drop (length (objectHeader kind (oi_Size info))) raw"
      using assms info True by (auto simp: readObject_def rbind_Inr Let_def split: if_splits sum.splits)
    then have split: "raw = objectHeader kind (oi_Size info) @ b" by (auto simp: prefix_def)
    then have len: "int (length b) = oi_Size info" using raw(1) by simp
    show ?thesis using raw(3,4) info unfolding objectID_def objectSHA256_def len split [symmetric] by simp
  qed
qed

lemma cachedObject_verified:
  assumes "cachedObject z st ctx snap ident kind s = Inr b"
  shows "\<exists>info. map_of (manifestObjects (sn_manifest snap)) ident = Some info \<and> validObjectInfo ident info \<and> oi_Type info = kind \<and>
    objectID kind b = ident \<and> objectSHA256 kind b = oi_SHA256 info \<and> int (length b) = oi_Size info"
  using assms readObject_verified [of z st ctx snap ident kind s b] by (auto simp: cachedObject_def split: option.splits if_splits)

section \<open>What was stored is returned\<close>

text \<open>Where the bytes of an object are: a compressed loose object, or the range of a pack.\<close>

definition stored_at :: "zlib \<Rightarrow> ('s \<Rightarrow> string \<Rightarrow> (bytes \<times> Version) option) \<Rightarrow> 's \<Rightarrow> string \<Rightarrow> string \<Rightarrow> RepositoryRules.objectInfo \<Rightarrow> bytes \<Rightarrow> bool" where
  "stored_at z view s i ident info b \<longleftrightarrow>
     (if oi_PackKey info = [] then
        (\<exists>c v. view s (objectKey i ident) = Some (c, v) \<and> int (length c) \<le> maxObjectBytes + 4096 \<and> zl_new z c ErrEOF = None \<and>
           (\<exists>n. zl_read z c ErrEOF = (objectHeader (oi_Type info) (int (length b)) @ b, Inr n)))
      else
        (\<exists>c v. view s (''repos/'' @ i @ ''/'' @ oi_PackKey info) = Some (c, v) \<and> oi_Offset info < int (length c) \<and>
           DecodeEntry z Background (take (nat (oi_Length info)) (drop (nat (oi_Offset info)) c)) (packEntry ident info) MaxGitObjectBytes =
             Inr \<lparr>ObjectType = oi_Type info, ObjectData = b\<rparr>))"

definition matches_info :: "string \<Rightarrow> RepositoryRules.objectInfo \<Rightarrow> bytes \<Rightarrow> bool" where
  "matches_info ident info b \<longleftrightarrow> objectID (oi_Type info) b = ident \<and> objectSHA256 (oi_Type info) b = oi_SHA256 info \<and>
     int (length b) = oi_Size info"

lemma length_objectHeader:
  assumes "validObjectInfo ident info"
  shows "length (objectHeader (oi_Type info) (oi_Size info)) \<le> 21"
proof -
  have "oi_Type info \<in> {''blob'', ''tree'', ''commit'', ''tag''}" and sz: "\<bar>oi_Size info\<bar> < 10 ^ 12"
    using assms by (auto simp: validObjectInfo_def repository_limits)
  then have "length (oi_Type info) \<le> 6" by auto
  then show ?thesis using length_FormatInt_day [OF sz] by (simp add: objectHeader_def)
qed

lemma DecodeEntry_Nil: "DecodeEntry z ctx [] entry n \<noteq> Inr object"
  by (auto simp: DecodeEntry_def readHeader_def split: if_splits option.splits)

context sized_store
begin

lemma cachedObject_stored:
  assumes "st_objects st = ops" "inv s" "map_of (manifestObjects (sn_manifest snap)) ident = Some info" "validObjectInfo ident info"
    "matches_info ident info b" "stored_at z contents s (md_ID (sn_metadata snap)) ident info b"
  shows "cachedObject z st Background snap ident (oi_Type info) s = Inr b"
proof (cases "oi_PackKey info = []")
  case True
  let ?h = "objectHeader (oi_Type info) (oi_Size info)"
  have m: "objectID (oi_Type info) b = ident" "objectSHA256 (oi_Type info) b = oi_SHA256 info" "int (length b) = oi_Size info"
    using assms(5) by (simp_all add: matches_info_def)
  obtain c v n where c: "contents s (objectKey (md_ID (sn_metadata snap)) ident) = Some (c, v)" "int (length c) \<le> maxObjectBytes + 4096"
    "zl_new z c ErrEOF = None" "zl_read z c ErrEOF = (?h @ b, Inr n)"
    using assms(6) True m by (auto simp: stored_at_def)
  have rd: "read ops Background (objectKey (md_ID (sn_metadata snap)) ident) (nat (maxObjectBytes + 4096)) s = Inr c"
    by (rule read_stored [OF assms(2) c(1)]) (use c(2) in simp)
  have "oi_Size info \<le> maxObjectBytes" using assms(4) True by (simp add: validObjectInfo_def)
  then have "\<not> nat (maxObjectBytes + 128) \<le> length (?h @ b)" using length_objectHeader [OF assms(4)] m(3) by simp
  then have "inflateLoose z c = Inr (?h @ b)" using c by (simp add: inflateLoose_def Let_def)
  then show ?thesis using assms(1,3,4) True rd m
    by (simp add: cachedObject_def readObject_def rbind_def validObjectInfo_def objectID_def objectSHA256_def)
next
  case False
  let ?k = "''repos/'' @ md_ID (sn_metadata snap) @ ''/'' @ oi_PackKey info"
  obtain c v where c: "contents s ?k = Some (c, v)" "oi_Offset info < int (length c)"
    "DecodeEntry z Background (take (nat (oi_Length info)) (drop (nat (oi_Offset info)) c)) (packEntry ident info) MaxGitObjectBytes =
       Inr \<lparr>ObjectType = oi_Type info, ObjectData = b\<rparr>"
    using assms(6) False by (auto simp: stored_at_def)
  have "0 \<le> oi_Offset info" "0 < oi_Length info" using assms(4) False by (auto simp: validObjectInfo_def Let_def)
  then obtain i where "os_GetRange ops Background ?k (oi_Offset info) (oi_Length info) s = Inr (take (nat (oi_Length info)) (drop (nat (oi_Offset info)) c), i)"
    using range_live [OF assms(2) c(1) _ _ c(2)] by blast
  then show ?thesis using assms(1,3,4) False c(3)
    by (simp add: cachedObject_def readObject_def packedObjectData_def validObjectInfo_def)
qed

lemma cachedObject_Inr:
  assumes "st_objects st = ops" "inv s" "cachedObject z st ctx snap ident kind s = Inr b"
  shows "\<exists>info. map_of (manifestObjects (sn_manifest snap)) ident = Some info \<and> validObjectInfo ident info \<and> oi_Type info = kind \<and>
    matches_info ident info b \<and> stored_at z contents s (md_ID (sn_metadata snap)) ident info b"
proof -
  obtain info where info: "map_of (manifestObjects (sn_manifest snap)) ident = Some info" "validObjectInfo ident info" "oi_Type info = kind"
    "matches_info ident info b" using cachedObject_verified [OF assms(3)] by (auto simp: matches_info_def)
  have ro: "readObject z st ctx snap ident kind s = Inr b" using assms(3) info by (simp add: cachedObject_def)
  have "stored_at z contents s (md_ID (sn_metadata snap)) ident info b"
  proof (cases "oi_PackKey info = []")
    case True
    let ?h = "objectHeader kind (oi_Size info)"
    obtain c raw where c: "read ops ctx (objectKey (md_ID (sn_metadata snap)) ident) (nat (maxObjectBytes + 4096)) s = Inr c"
      "inflateLoose z c = Inr raw" "int (length raw) = int (length ?h) + oi_Size info" "prefix ?h raw" "b = drop (length ?h) raw"
      using ro info True assms(1) by (auto simp: readObject_def rbind_Inr Let_def split: if_splits sum.splits)
    have raw: "raw = ?h @ b" using c(4,5) by (auto simp: prefix_def)
    have "oi_Size info \<le> maxObjectBytes" using info(2) True by (simp add: validObjectInfo_def)
    then have small: "length raw < nat (maxObjectBytes + 128)" using length_objectHeader [OF info(2)] c(3) info(3) by simp
    then obtain n where "zl_new z c ErrEOF = None" "zl_read z c ErrEOF = (raw, Inr n)"
      using c(2) by (auto simp: inflateLoose_def Let_def split: option.splits prod.splits if_splits sum.splits)
    then show ?thesis using read_Inr [OF assms(2) c(1)] raw True info by (auto simp: stored_at_def matches_info_def repository_limits)
  next
    case False
    let ?k = "''repos/'' @ md_ID (sn_metadata snap) @ ''/'' @ oi_PackKey info"
    obtain body i object where r: "os_GetRange ops ctx ?k (oi_Offset info) (oi_Length info) s = Inr (body, i)"
      "DecodeEntry z ctx body (packEntry ident info) MaxGitObjectBytes = Inr object" "b = ObjectData object"
      using ro info False assms(1) by (auto simp: readObject_def packedObjectData_def split: if_splits sum.splits)
    obtain c v where c: "contents s ?k = Some (c, v)" "body = take (nat (oi_Length info)) (drop (nat (oi_Offset info)) c)"
      using range_ok [OF assms(2) r(1)] by blast
    have ctx: "ctx = Background" and ty: "ObjectType object = oi_Type info" using DecodeEntry_verified [OF r(2)] by (simp_all add: packEntry_def)
    have "oi_Offset info < int (length c)"
    proof (rule ccontr)
      assume "\<not> ?thesis"
      then have "body = []" using c(2) by simp
      then show False using r(2) DecodeEntry_Nil by metis
    qed
    then show ?thesis using False c r ctx ty by (auto simp: stored_at_def)
  qed
  then show ?thesis using info by blast
qed

lemma cachedObject_Background:
  assumes "st_objects st = ops" "inv s" "cachedObject z st ctx snap ident kind s = Inr b"
  shows "cachedObject z st Background snap ident kind s = Inr b"
  using cachedObject_Inr [OF assms] cachedObject_stored [OF assms(1,2)] by blast

text \<open>An object stays readable while the store only grows.\<close>

lemma stored_at_grown: "contents s \<subseteq>\<^sub>m contents s' \<Longrightarrow> stored_at z contents s i ident info b \<Longrightarrow> stored_at z contents s' i ident info b"
proof -
  assume le: "contents s \<subseteq>\<^sub>m contents s'" and at: "stored_at z contents s i ident info b"
  have keep: "contents s' k = Some x" if "contents s k = Some x" for k x using le that by (force simp: map_le_def dom_def)
  show ?thesis using at keep unfolding stored_at_def by (cases "oi_PackKey info = []") (simp_all, blast+)
qed

lemma cachedObject_grown:
  assumes "st_objects st = ops" "inv s" "inv s'" "contents s \<subseteq>\<^sub>m contents s'" "cachedObject z st ctx snap ident kind s = Inr b"
  shows "cachedObject z st Background snap ident kind s' = Inr b"
  using cachedObject_Inr [OF assms(1,2,5)] cachedObject_stored [OF assms(1,3)] stored_at_grown [OF assms(4)] by blast

end

end
