(* ===== verification/GenerationReader.thy ===== *)
theory GenerationReader
  imports ObjectRead
begin

text \<open>
  \<^verbatim>\<open>GitReader\<close> of \<^verbatim>\<open>internal/repository/packed.go\<close>: reading a pinned generation with bounded caches of packs and metadata, and validating its graph.
  The reader is shown to be an \<open>object_source\<close> over every \<open>sized_store\<close>, so that the theorems on the walks apply to it.
\<close>

section \<open>The reader of a pinned generation\<close>

text \<open>
  \<^verbatim>\<open>GitReader\<close> without a shared cache. \<open>gr_cached\<close> holds the temporary files with their contents; \<open>None\<close> is the
  empty name of a pack that did not fit. The private temporary directory does not fail.
\<close>

record GitReader =
  gr_base :: GitSnapshot
  gr_cached :: "(string \<times> bytes option) list"
  gr_packSizes :: "(string \<times> int) list"
  gr_cacheBytes :: int
  gr_metadata :: "(string \<times> Object) list"
  gr_metadataBytes :: int
  gr_closed :: bool

definition maxGitMetadataCacheBytes :: int where "maxGitMetadataCacheBytes = 4194304"
definition maxGitMetadataCacheObjects :: nat where "maxGitMetadataCacheObjects = 4096"

definition openGitSnapshot :: "snapshot \<Rightarrow> GitReader result" where
  "openGitSnapshot snap =
     (if \<not> idPattern (md_ID (sn_metadata snap)) then Inl RepoErrInvalid
      else Inr \<lparr>gr_base = \<lparr>gs_DefaultBranch = md_DefaultBranch (sn_metadata snap),
            gs_References = (case rs_Refs (sn_refs snap) of None \<Rightarrow> [] | Some refs \<Rightarrow> refs), gs_Objects = [], gs_original = snap,
            gs_available = None\<rparr>,
          gr_cached = [], gr_packSizes = [], gr_cacheBytes = 0, gr_metadata = [], gr_metadataBytes = 0, gr_closed = False\<rparr>)"

definition OpenGit :: "GitSnapshot option \<Rightarrow> GitReader result" where
  "OpenGit base =
     (case base of
        None \<Rightarrow> Inl RepoErrInvalid
      | Some base \<Rightarrow>
          if \<not> idPattern (md_ID (sn_metadata (gs_original base))) \<or> sn_version (gs_original base) = [] then Inl RepoErrInvalid
          else rbind (openGitSnapshot (gs_original base)) (\<lambda>reader. Inr (reader\<lparr>gr_base := base\<rparr>)))"

definition readerClose :: "GitReader \<Rightarrow> GitReader" where
  "readerClose r =
     (if gr_closed r then r
      else r\<lparr>gr_closed := True, gr_cached := [], gr_packSizes := [], gr_cacheBytes := 0, gr_metadata := [], gr_metadataBytes := 0\<rparr>)"

definition rememberMetadata :: "string \<Rightarrow> Object \<Rightarrow> GitReader \<Rightarrow> Object \<times> GitReader" where
  "rememberMetadata ident object r =
     (object,
      if ObjectType object \<noteq> ''blob'' \<and> length (gr_metadata r) < maxGitMetadataCacheObjects \<and>
         int (length (ObjectData object)) \<le> maxGitMetadataCacheBytes - gr_metadataBytes r
      then r\<lparr>gr_metadata := al_put ident object (gr_metadata r),
             gr_metadataBytes := gr_metadataBytes r + int (length (ObjectData object))\<rparr>
      else r)"

abbreviation pinned :: "GitReader \<Rightarrow> snapshot" where "pinned r \<equiv> gs_original (gr_base r)"

abbreviation pinnedInfos :: "GitReader \<Rightarrow> infos" where "pinnedInfos r \<equiv> manifestObjects (sn_manifest (pinned r))"

definition readerGet :: "zlib \<Rightarrow> 's Store \<Rightarrow> 's \<Rightarrow> GitReader gitGetter" where
  "readerGet z st s ctx ident r =
     (case ctx_Err ctx of Some e \<Rightarrow> (Inl e, r) | None \<Rightarrow>
      if gr_closed r then (Inl (ErrMsg ''git workspace closed''), r)
      else (case map_of (gr_metadata r) ident of
        Some object \<Rightarrow> (Inr object, r)
      | None \<Rightarrow>
     (case map_of (pinnedInfos r) ident of
        None \<Rightarrow> (Inl ErrObjectNotFound, r)
      | Some info \<Rightarrow>
          if \<not> validObjectInfo ident info then (Inl RepoErrCorrupt, r)
          else (case map_of (gr_cached r) (oi_PackKey info) of
              Some (Some file) \<Rightarrow>
                (case DecodeEntry z ctx (take (nat (oi_Length info)) (drop (nat (oi_Offset info)) file)) (packEntry ident info) MaxGitObjectBytes of
                   Inl e \<Rightarrow> (Inl (ErrJoin RepoErrCorrupt e), r)
                 | Inr object \<Rightarrow> (let (object, r) = rememberMetadata ident object r in (Inr object, r)))
            | _ \<Rightarrow>
                (case cachedObject z st ctx (pinned r) ident (oi_Type info) s of
                   Inl e \<Rightarrow> (Inl e, r)
                 | Inr b \<Rightarrow> (let (object, r) = rememberMetadata ident \<lparr>ObjectType = oi_Type info, ObjectData = b\<rparr> r in (Inr object, r)))))))"

subsection \<open>Prefetching packs\<close>

definition packPath :: "snapshot \<Rightarrow> string \<Rightarrow> string" where
  "packPath snap relative = ''repos/'' @ md_ID (sn_metadata snap) @ ''/'' @ relative"

definition packKey :: "bytes \<Rightarrow> string" where
  "packKey b = ''packs/'' @ EncodeToString (Sum256 b) @ ''.pack''"

definition packSize :: "'s Store \<Rightarrow> ctx \<Rightarrow> string \<Rightarrow> GitReader \<Rightarrow> 's \<Rightarrow> int result \<times> GitReader" where
  "packSize st ctx relative r s =
     (case map_of (gr_packSizes r) relative of
        Some sz \<Rightarrow> (Inr sz, r)
      | None \<Rightarrow>
          (case os_Head (st_objects st) ctx (packPath (pinned r) relative) s of
             Inl e \<Rightarrow> (Inl (ErrJoin RepoErrCorrupt e), r)
           | Inr info \<Rightarrow>
               if Size info < 32 \<or> Size info > RepositoryRules.MaxPackBytes then (Inl RepoErrCorrupt, r)
               else (Inr (Size info), r\<lparr>gr_packSizes := al_put relative (Size info) (gr_packSizes r)\<rparr>)))"

definition downloadPack :: "'s Store \<Rightarrow> ctx \<Rightarrow> string \<Rightarrow> int \<Rightarrow> GitReader \<Rightarrow> 's \<Rightarrow> bytes option result \<times> GitReader" where
  "downloadPack st ctx relative sz r s =
     (case os_Get (st_objects st) ctx (packPath (pinned r) relative) s of
        Inl e \<Rightarrow> (Inl e, r)
      | Inr (body, got) \<Rightarrow>
     (case ctx_Err ctx of Some e \<Rightarrow> (Inl e, r) | None \<Rightarrow>
      (let file = take (nat (sz + 1)) body
       in if int (length file) \<noteq> sz \<or> Size got \<noteq> sz \<or> relative \<noteq> packKey file then (Inl RepoErrCorrupt, r)
          else (Inr (Some file), r\<lparr>gr_cacheBytes := gr_cacheBytes r + int (length file), gr_cached := al_put relative (Some file) (gr_cached r)\<rparr>))))"

definition cachePack :: "'s Store \<Rightarrow> ctx \<Rightarrow> string \<Rightarrow> int \<Rightarrow> GitReader \<Rightarrow> 's \<Rightarrow> bytes option result \<times> GitReader" where
  "cachePack st ctx relative selected r s =
     (case map_of (gr_cached r) relative of
        Some name \<Rightarrow> (Inr name, r)
      | None \<Rightarrow>
          (case packSize st ctx relative r s of
             (Inl e, r) \<Rightarrow> (Inl e, r)
           | (Inr sz, r) \<Rightarrow>
               if selected < (sz + 1) div 2 then (Inr None, r)
               else if sz > RepositoryRules.MaxPackBytes - gr_cacheBytes r then (Inr None, r\<lparr>gr_cached := al_put relative None (gr_cached r)\<rparr>)
               else downloadPack st ctx relative sz r s))"

text \<open>The plan of a pack: the bytes selected from it and a lower bound of its size.\<close>

type_synonym packReadPlans = "(string \<times> int \<times> int) list"

fun readPlans :: "(string \<Rightarrow> RepositoryRules.objectInfo \<Rightarrow> bool) \<Rightarrow> infos \<Rightarrow> packReadPlans \<Rightarrow> packReadPlans result" where
  "readPlans sel [] plans = Inr plans"
| "readPlans sel ((ident, info) # rest) plans =
     (if oi_PackKey info = [] then readPlans sel rest plans
      else if \<not> validObjectInfo ident info then Inl RepoErrCorrupt
      else (let (selected, minimumSize) = (case map_of plans (oi_PackKey info) of None \<Rightarrow> (0, 0) | Some plan \<Rightarrow> plan);
                minimumSize = max minimumSize (oi_Offset info + oi_Length info + 20);
                selected = (if sel ident info then selected + oi_Length info else selected)
            in readPlans sel rest (al_put (oi_PackKey info) (selected, minimumSize) plans)))"

fun cachePlans :: "'s Store \<Rightarrow> ctx \<Rightarrow> packReadPlans \<Rightarrow> GitReader \<Rightarrow> 's \<Rightarrow> err option \<times> GitReader" where
  "cachePlans st ctx [] r s = (None, r)"
| "cachePlans st ctx ((relative, selected, minimumSize) # rest) r s =
     (if selected = 0 \<or> selected < (minimumSize + 1) div 2 then cachePlans st ctx rest r s
      else (case cachePack st ctx relative selected r s of
          (Inl e, r) \<Rightarrow> (Some e, r)
        | (Inr _, r) \<Rightarrow> cachePlans st ctx rest r s))"

definition prefetch :: "'s Store \<Rightarrow> ctx \<Rightarrow> (string \<Rightarrow> RepositoryRules.objectInfo \<Rightarrow> bool) \<Rightarrow> GitReader \<Rightarrow> 's \<Rightarrow> err option \<times> GitReader" where
  "prefetch st ctx sel r s =
     (case ctx_Err ctx of Some e \<Rightarrow> (Some e, r) | None \<Rightarrow>
      if gr_closed r then (Some (ErrMsg ''git workspace closed''), r)
      else (case readPlans sel (pinnedInfos r) [] of
          Inl e \<Rightarrow> (Some e, r)
        | Inr plans \<Rightarrow> cachePlans st ctx plans r s))"

definition Prefetch :: "'s Store \<Rightarrow> ctx \<Rightarrow> string list \<Rightarrow> GitReader \<Rightarrow> 's \<Rightarrow> err option \<times> GitReader" where
  "Prefetch st ctx ids r s =
     (if length ids > MaxGitObjects then (Some RepoErrLimit, r)
      else if \<not> list_all (\<lambda>ident. map_of (pinnedInfos r) ident \<noteq> None) ids then (Some ErrObjectNotFound, r)
      else prefetch st ctx (\<lambda>ident _. ident \<in> set ids) r s)"

subsection \<open>The graph of the generation\<close>

definition readerValidate :: "zlib \<Rightarrow> 's Store \<Rightarrow> ctx \<Rightarrow> GitReader \<Rightarrow> 's \<Rightarrow> err option \<times> GitReader" where
  "readerValidate z st ctx r s =
     (case prefetch st ctx (\<lambda>_ info. oi_Type info \<noteq> ''blob'') r s of
        (Some e, r) \<Rightarrow> (Some e, r)
      | (None, r) \<Rightarrow>
          (case walkObjects ctx (gs_References (gr_base r)) (pinnedInfos r) (readerGet z st s) r of
             (Inl e, r) \<Rightarrow> (Some (ErrJoin RepoErrCorrupt e), r)
           | (Inr objs, r) \<Rightarrow> (None, r\<lparr>gr_base := (gr_base r)\<lparr>gs_available := Some objs\<rparr>\<rparr>)))"

definition HasObject :: "GitSnapshot \<Rightarrow> string \<Rightarrow> bool" where
  "HasObject snap ident =
     (case gs_available snap of
        Some objs \<Rightarrow> map_of objs ident \<noteq> None
      | None \<Rightarrow> map_of (gs_Objects snap) ident \<noteq> None)"

definition readerReachable :: "zlib \<Rightarrow> 's Store \<Rightarrow> ctx \<Rightarrow> refs \<Rightarrow> GitReader \<Rightarrow> 's \<Rightarrow> string list result \<times> GitReader" where
  "readerReachable z st ctx refs r s =
     (case walkObjects ctx refs (case gs_available (gr_base r) of None \<Rightarrow> [] | Some objs \<Rightarrow> objs) (readerGet z st s) r of
        (Inl e, r) \<Rightarrow> (Inl e, r)
      | (Inr objs, r) \<Rightarrow> (Inr (sort (map fst objs)), r))"

section \<open>The reader serves the stored objects\<close>

definition readerContent :: "zlib \<Rightarrow> 's Store \<Rightarrow> snapshot \<Rightarrow> 's \<Rightarrow> string \<Rightarrow> GitObject option" where
  "readerContent z st snap s ident =
     (case map_of (manifestObjects (sn_manifest snap)) ident of
        None \<Rightarrow> None
      | Some info \<Rightarrow>
          (case cachedObject z st Background snap ident (oi_Type info) s of
             Inl _ \<Rightarrow> None
           | Inr b \<Rightarrow> Some \<lparr>ObjectType = oi_Type info, ObjectData = b\<rparr>))"

definition reader_ready :: "zlib \<Rightarrow> 's Store \<Rightarrow> ('s \<Rightarrow> string \<Rightarrow> (bytes \<times> Version) option) \<Rightarrow> snapshot \<Rightarrow> 's \<Rightarrow> GitReader \<Rightarrow> bool" where
  "reader_ready z st view snap s r \<longleftrightarrow> pinned r = snap \<and> \<not> gr_closed r \<and>
     (\<forall>ident object. map_of (gr_metadata r) ident = Some object \<longrightarrow> readerContent z st snap s ident = Some object) \<and>
     map_of (gr_cached r) [] = None \<and>
     (\<forall>relative file. map_of (gr_cached r) relative = Some (Some file) \<longrightarrow> (\<exists>v. view s (packPath snap relative) = Some (file, v)))"

lemma rememberMetadata_ready:
  assumes "reader_ready z st view snap s r" "readerContent z st snap s ident = Some object" "rememberMetadata ident object r = (object', r')"
  shows "reader_ready z st view snap s r' \<and> object' = object"
  using assms by (auto simp: rememberMetadata_def reader_ready_def map_of_al_put split: if_splits)

lemma remembered:
  assumes "reader_ready z st view snap s r" "readerContent z st snap s ident = Some object"
    "(let (object, r) = rememberMetadata ident object r in (Inr object, r)) = (res, r')"
  shows "reader_ready z st view snap s r' \<and> res = Inr object"
  using rememberMetadata_ready [OF assms(1,2)] assms(3) by (cases "rememberMetadata ident object r") auto

lemma readerContent_Some:
  "readerContent z st snap s ident = Some object \<longleftrightarrow>
     (\<exists>info. map_of (manifestObjects (sn_manifest snap)) ident = Some info \<and> ObjectType object = oi_Type info \<and>
        cachedObject z st Background snap ident (oi_Type info) s = Inr (ObjectData object))"
  by (cases object) (auto simp: readerContent_def split: option.splits sum.splits)

context sized_store
begin

lemma cached_file_content:
  assumes "st_objects st = ops" "inv s" "map_of (manifestObjects (sn_manifest snap)) ident = Some info" "validObjectInfo ident info"
    "oi_PackKey info \<noteq> []" "contents s (packPath snap (oi_PackKey info)) = Some (file, v)"
  shows "readerContent z st snap s ident = Some object \<longleftrightarrow>
    DecodeEntry z Background (take (nat (oi_Length info)) (drop (nat (oi_Offset info)) file)) (packEntry ident info) MaxGitObjectBytes = Inr object"
proof
  assume "readerContent z st snap s ident = Some object"
  then have c: "cachedObject z st Background snap ident (oi_Type info) s = Inr (ObjectData object)" "ObjectType object = oi_Type info"
    using assms(3) by (auto simp: readerContent_Some)
  have "stored_at z contents s (md_ID (sn_metadata snap)) ident info (ObjectData object)" using cachedObject_Inr [OF assms(1,2) c(1)] assms(3) by simp
  moreover have "\<lparr>ObjectType = oi_Type info, ObjectData = ObjectData object\<rparr> = object" using c(2) by (cases object) simp
  ultimately show "DecodeEntry z Background (take (nat (oi_Length info)) (drop (nat (oi_Offset info)) file)) (packEntry ident info) MaxGitObjectBytes = Inr object"
    using assms(5,6) by (auto simp: stored_at_def packPath_def)
next
  assume d: "DecodeEntry z Background (take (nat (oi_Length info)) (drop (nat (oi_Offset info)) file)) (packEntry ident info) MaxGitObjectBytes = Inr object"
  note v = DecodeEntry_verified [OF d]
  have "take (nat (oi_Length info)) (drop (nat (oi_Offset info)) file) \<noteq> []" using d DecodeEntry_Nil by metis
  then have "oi_Offset info < int (length file)" using assms(4,5) by (auto simp: validObjectInfo_def Let_def)
  moreover have "\<lparr>ObjectType = oi_Type info, ObjectData = ObjectData object\<rparr> = object" using v by (cases object) (simp add: packEntry_def)
  ultimately have "stored_at z contents s (md_ID (sn_metadata snap)) ident info (ObjectData object)"
    using d assms(5,6) by (auto simp: stored_at_def packPath_def)
  moreover have "matches_info ident info (ObjectData object)" using v by (simp add: matches_info_def packEntry_def)
  ultimately have "cachedObject z st Background snap ident (oi_Type info) s = Inr (ObjectData object)"
    by (rule cachedObject_stored [OF assms(1-4), rotated])
  then show "readerContent z st snap s ident = Some object" using assms(3) v by (auto simp: readerContent_Some packEntry_def)
qed

lemma readerGet_content:
  assumes "st_objects st = ops" "inv s" "reader_ready z st contents snap s r" "readerGet z st s ctx ident r = (res, r')"
  shows "reader_ready z st contents snap s r' \<and>
    (\<forall>object. res = Inr object \<longrightarrow> readerContent z st snap s ident = Some object) \<and>
    (\<forall>e. res = Inl e \<longrightarrow> ctx = Background \<longrightarrow> readerContent z st snap s ident = None)"
proof (cases "ctx_Err ctx")
  case (Some e)
  then show ?thesis using assms(3,4) by (auto simp: readerGet_def)
next
  case ctx: None
  then have bg: "ctx = Background" by (cases ctx) simp_all
  have rdy: "pinned r = snap" "\<not> gr_closed r" using assms(3) by (simp_all add: reader_ready_def)
  show ?thesis
  proof (cases "map_of (gr_metadata r) ident")
    case (Some object)
    then show ?thesis using assms(3,4) ctx rdy by (auto simp: readerGet_def reader_ready_def)
  next
    case meta: None
    show ?thesis
    proof (cases "map_of (manifestObjects (sn_manifest snap)) ident")
      case None
      then show ?thesis using assms(3,4) ctx rdy meta by (auto simp: readerGet_def readerContent_def)
    next
      case (Some info)
      show ?thesis
      proof (cases "validObjectInfo ident info")
        case False
        then show ?thesis using assms(3,4) ctx rdy meta Some by (auto simp: readerGet_def readerContent_def cachedObject_def)
      next
        case valid: True
        show ?thesis
        proof (cases "\<exists>file. map_of (gr_cached r) (oi_PackKey info) = Some (Some file)")
          case True
          then obtain pack where p: "map_of (gr_cached r) (oi_PackKey info) = Some (Some pack)" by blast
          then obtain v where v: "contents s (packPath snap (oi_PackKey info)) = Some (pack, v)" using assms(3) unfolding reader_ready_def by blast
          have ne: "oi_PackKey info \<noteq> []" using assms(3) p by (auto simp: reader_ready_def)
          note f = p v ne
          note c = cached_file_content [OF assms(1,2) Some valid f(3,2), where z = z]
          have eq: "readerGet z st s ctx ident r = (case DecodeEntry z Background (take (nat (oi_Length info)) (drop (nat (oi_Offset info)) pack)) (packEntry ident info) MaxGitObjectBytes of
                   Inl e \<Rightarrow> (Inl (ErrJoin RepoErrCorrupt e), r)
                 | Inr object \<Rightarrow> (let (object, r) = rememberMetadata ident object r in (Inr object, r)))"
            using bg rdy meta Some valid f(1) by (simp add: readerGet_def)
          show ?thesis
          proof (cases "DecodeEntry z Background (take (nat (oi_Length info)) (drop (nat (oi_Offset info)) pack)) (packEntry ident info) MaxGitObjectBytes")
            case (Inl e)
            then have "readerContent z st snap s ident = None" using c by (cases "readerContent z st snap s ident") auto
            then show ?thesis using assms(3,4) eq Inl by auto
          next
            case (Inr object)
            then have "readerContent z st snap s ident = Some object" using c by simp
            then show ?thesis using remembered [OF assms(3), of ident object res r'] assms(4) eq Inr by simp
          qed
        next
          case False
          then have eq: "readerGet z st s ctx ident r = (case cachedObject z st ctx snap ident (oi_Type info) s of
                   Inl e \<Rightarrow> (Inl e, r)
                 | Inr b \<Rightarrow> (let (object, r) = rememberMetadata ident \<lparr>ObjectType = oi_Type info, ObjectData = b\<rparr> r in (Inr object, r)))"
            using ctx rdy meta Some valid by (auto simp: readerGet_def split: option.splits)
          show ?thesis
          proof (cases "cachedObject z st ctx snap ident (oi_Type info) s")
            case (Inl e)
            then show ?thesis using assms(3,4) eq bg Some by (auto simp: readerContent_def)
          next
            case (Inr b)
            then have "readerContent z st snap s ident = Some \<lparr>ObjectType = oi_Type info, ObjectData = b\<rparr>" using bg Some by (simp add: readerContent_def)
            then show ?thesis using remembered [OF assms(3), of ident _ res r'] assms(4) eq Inr by simp
          qed
        qed
      qed
    qed
  qed
qed

lemma reader_source:
  assumes "st_objects st = ops" "inv s"
  shows "object_source (readerGet z st s) (reader_ready z st contents snap s) (readerContent z st snap s)"
proof
  fix r ctx ident res r'
  assume "reader_ready z st contents snap s r" "readerGet z st s ctx ident r = (res, r')"
  then show "reader_ready z st contents snap s r'" using readerGet_content [OF assms] by blast
next
  fix r ctx ident object r'
  assume "reader_ready z st contents snap s r" "readerGet z st s ctx ident r = (Inr object, r')"
  then show "readerContent z st snap s ident = Some object" using readerGet_content [OF assms] by blast
next
  fix r ident object
  assume r: "reader_ready z st contents snap s r" and c: "readerContent z st snap s ident = Some object"
  obtain res r' where g: "readerGet z st s Background ident r = (res, r')" by force
  then show "\<exists>r'. readerGet z st s Background ident r = (Inr object, r')"
    using readerGet_content [OF assms r g] c by (cases res) auto
qed

end

section \<open>Prefetching keeps the reader ready\<close>

lemma packKey_nonempty [simp]: "packKey b \<noteq> []"
  by (simp add: packKey_def)

lemma packSize_ready:
  assumes "packSize st ctx relative r s = (res, r')"
  shows "gr_base r' = gr_base r \<and> gr_cached r' = gr_cached r \<and> gr_cacheBytes r' = gr_cacheBytes r \<and> gr_metadata r' = gr_metadata r \<and>
    gr_metadataBytes r' = gr_metadataBytes r \<and> gr_closed r' = gr_closed r"
  using assms by (auto simp: packSize_def split: option.splits sum.splits if_splits)

lemma reader_ready_same:
  assumes "reader_ready z st view snap s r" "gr_base r' = gr_base r" "gr_cached r' = gr_cached r" "gr_metadata r' = gr_metadata r" "gr_closed r' = gr_closed r"
  shows "reader_ready z st view snap s r'"
  using assms by (simp add: reader_ready_def)

context sized_store
begin

lemma downloadPack_ready:
  assumes "st_objects st = ops" "inv s" "reader_ready z st contents snap s r" "downloadPack st ctx relative sz r s = (res, r')"
  shows "reader_ready z st contents snap s r'"
proof (cases "os_Get ops ctx (packPath (pinned r) relative) s")
  case (Inl e)
  then show ?thesis using assms by (simp add: downloadPack_def)
next
  case (Inr bg)
  obtain body got where g: "os_Get ops ctx (packPath (pinned r) relative) s = Inr (body, got)" using Inr by (cases bg) simp
  let ?f = "take (nat (sz + 1)) body"
  have pin: "pinned r = snap" using assms(3) by (simp add: reader_ready_def)
  show ?thesis
  proof (cases "ctx_Err ctx = None \<and> \<not> (int (length ?f) \<noteq> sz \<or> Size got \<noteq> sz \<or> relative \<noteq> packKey ?f)")
    case True
    then have f: "?f = body" "relative = packKey ?f" using get_size [OF assms(2) g] by auto
    have r': "r' = r\<lparr>gr_cacheBytes := gr_cacheBytes r + int (length ?f), gr_cached := al_put relative (Some ?f) (gr_cached r)\<rparr>"
      using assms(1,4) g True by (auto simp: downloadPack_def Let_def)
    obtain v where "contents s (packPath snap relative) = Some (?f, v)" using get_ok [OF assms(2) g] f pin by auto
    moreover have "relative \<noteq> []" using f(2) by simp
    ultimately show ?thesis using assms(3) unfolding r' reader_ready_def by (auto simp: map_of_al_put)
  next
    case False
    then have "r' = r" using assms(1,4) g by (auto simp: downloadPack_def Let_def split: option.splits)
    then show ?thesis using assms(3) by simp
  qed
qed

lemma cachePack_ready:
  assumes "st_objects st = ops" "inv s" "reader_ready z st contents snap s r" "relative \<noteq> []" "cachePack st ctx relative selected r s = (res, r')"
  shows "reader_ready z st contents snap s r'"
proof (cases "map_of (gr_cached r) relative")
  case (Some name)
  then show ?thesis using assms(3,5) by (simp add: cachePack_def)
next
  case None
  obtain szr r1 where p: "packSize st ctx relative r s = (szr, r1)" by force
  have r1: "reader_ready z st contents snap s r1" using reader_ready_same [OF assms(3)] packSize_ready [OF p] by blast
  show ?thesis
  proof (cases szr)
    case (Inl e)
    then show ?thesis using assms(5) None p r1 by (simp add: cachePack_def)
  next
    case (Inr sz)
    then show ?thesis
      using assms(4,5) None p r1 downloadPack_ready [OF assms(1,2) r1, of ctx relative sz res r']
      by (auto simp: cachePack_def reader_ready_def map_of_al_put split: if_splits)
  qed
qed

lemma cachePlans_ready:
  assumes "st_objects st = ops" "inv s" "reader_ready z st contents snap s r" "\<forall>p \<in> set plans. fst p \<noteq> []" "cachePlans st ctx plans r s = (e, r')"
  shows "reader_ready z st contents snap s r'"
  using assms(3-5)
proof (induction plans arbitrary: r)
  case (Cons p plans)
  obtain relative selected minimumSize where p: "p = (relative, selected, minimumSize)" by (cases p) auto
  show ?case
  proof (cases "selected = 0 \<or> selected < (minimumSize + 1) div 2")
    case True
    then show ?thesis using Cons p by simp
  next
    case False
    obtain res r1 where c: "cachePack st ctx relative selected r s = (res, r1)" by force
    have "reader_ready z st contents snap s r1" using cachePack_ready [OF assms(1,2) Cons.prems(1) _ c] Cons.prems(2) p by simp
    then show ?thesis using Cons False p c by (cases res) auto
  qed
qed simp

end

lemma readPlans_keys: "readPlans sel infos plans = Inr plans' \<Longrightarrow> \<forall>p \<in> set plans. fst p \<noteq> [] \<Longrightarrow> \<forall>p \<in> set plans'. fst p \<noteq> []"
proof (induction sel infos plans rule: readPlans.induct)
  case (2 sel ident info rest plans)
  show ?case
  proof (cases "oi_PackKey info = []")
    case True
    then show ?thesis using 2 by simp
  next
    case False
    then have valid: "validObjectInfo ident info" using 2 by (auto split: if_splits)
    obtain a b where ab: "(case map_of plans (oi_PackKey info) of None \<Rightarrow> (0, 0) | Some plan \<Rightarrow> plan) = (a, b)" by force
    let ?plans = "al_put (oi_PackKey info) (if sel ident info then a + oi_Length info else a, max b (oi_Offset info + oi_Length info + 20)) plans"
    have run: "readPlans sel rest ?plans = Inr plans'" using 2(3) False valid ab by (simp add: Let_def)
    have "\<forall>p \<in> set ?plans. fst p \<noteq> []" using False 2(4) dom_al_put by (metis (no_types, lifting) image_iff insertE)
    then show ?thesis using 2(2) [OF False _ ab [symmetric] refl refl] valid run by simp
  qed
qed simp

context sized_store
begin

lemma prefetch_ready:
  assumes "st_objects st = ops" "inv s" "reader_ready z st contents snap s r" "prefetch st ctx sel r s = (e, r')"
  shows "reader_ready z st contents snap s r'"
  using assms(3,4) readPlans_keys [of sel "pinnedInfos r" "[]"] cachePlans_ready [OF assms(1,2,3)]
  by (auto simp: prefetch_def split: option.splits if_splits sum.splits)

end

section \<open>The caches of a reader are bounded\<close>

definition metadataSize :: "(string \<times> Object) list \<Rightarrow> int" where
  "metadataSize m = sum_list (map (\<lambda>(_, object). int (length (ObjectData object))) m)"

definition filesSize :: "(string \<times> bytes option) list \<Rightarrow> int" where
  "filesSize m = sum_list (map (\<lambda>(_, f). case f of None \<Rightarrow> 0 | Some b \<Rightarrow> int (length b)) m)"

definition reader_bounded :: "GitReader \<Rightarrow> bool" where
  "reader_bounded r \<longleftrightarrow>
     al_wf (gr_metadata r) \<and> length (gr_metadata r) \<le> maxGitMetadataCacheObjects \<and>
     gr_metadataBytes r = metadataSize (gr_metadata r) \<and> gr_metadataBytes r \<le> maxGitMetadataCacheBytes \<and>
     (\<forall>(ident, object) \<in> set (gr_metadata r). ObjectType object \<noteq> ''blob'') \<and>
     al_wf (gr_cached r) \<and> gr_cacheBytes r = filesSize (gr_cached r) \<and> gr_cacheBytes r \<le> RepositoryRules.MaxPackBytes \<and>
     (\<forall>relative f. (relative, Some f) \<in> set (gr_cached r) \<longrightarrow> relative = packKey f) \<and>
     (\<forall>(relative, sz) \<in> set (gr_packSizes r). 32 \<le> sz \<and> sz \<le> RepositoryRules.MaxPackBytes) \<and>
     (gr_closed r \<longrightarrow> gr_metadata r = [] \<and> gr_cached r = [])"

lemma readerClose_bounded: "reader_bounded r \<Longrightarrow> reader_bounded (readerClose r)"
  by (simp add: reader_bounded_def readerClose_def metadataSize_def filesSize_def al_wf_def maxGitMetadataCacheObjects_def
      maxGitMetadataCacheBytes_def repository_limits)

lemma OpenGit_bounded: "OpenGit base = Inr r \<Longrightarrow> reader_bounded r"
  by (auto simp: OpenGit_def openGitSnapshot_def rbind_Inr reader_bounded_def metadataSize_def filesSize_def al_wf_def maxGitMetadataCacheObjects_def
      maxGitMetadataCacheBytes_def repository_limits split: option.splits if_splits)

lemma rememberMetadata_bounded:
  assumes "reader_bounded r" "\<not> gr_closed r" "map_of (gr_metadata r) ident = None" "rememberMetadata ident object r = (object', r')"
  shows "reader_bounded r'"
proof (cases "r' = r")
  case False
  then have guard: "ObjectType object \<noteq> ''blob''" "length (gr_metadata r) < maxGitMetadataCacheObjects"
      "int (length (ObjectData object)) \<le> maxGitMetadataCacheBytes - gr_metadataBytes r"
    and r': "r' = r\<lparr>gr_metadata := al_put ident object (gr_metadata r), gr_metadataBytes := gr_metadataBytes r + int (length (ObjectData object))\<rparr>"
    using assms(4) by (auto simp: rememberMetadata_def split: if_splits)
  have new: "al_put ident object (gr_metadata r) = gr_metadata r @ [(ident, object)]" using assms(3) by (simp add: al_put_new)
  have "al_wf (gr_metadata r @ [(ident, object)])" using assms(1,3) by (auto simp: reader_bounded_def al_wf_def map_of_eq_None_iff)
  then show ?thesis using assms(1,2) guard unfolding r' new by (auto simp: reader_bounded_def metadataSize_def)
qed (use assms(1) in simp)

lemma readerGet_bounded:
  assumes "reader_bounded r" "readerGet z st s ctx ident r = (res, r')"
  shows "reader_bounded r'"
proof (cases "r' = r")
  case False
  then have "\<not> gr_closed r" "map_of (gr_metadata r) ident = None"
    using assms(2) by (auto simp: readerGet_def split: option.splits if_splits)
  moreover obtain object object' where "rememberMetadata ident object r = (object', r')"
    using False assms(2) by (auto simp: readerGet_def split: option.splits if_splits sum.splits prod.splits)
  ultimately show ?thesis using rememberMetadata_bounded [OF assms(1)] by blast
qed (use assms(1) in simp)

lemma packSize_bounded:
  assumes "reader_bounded r" "packSize st ctx relative r s = (res, r')"
  shows "reader_bounded r' \<and> (\<forall>sz. res = Inr sz \<longrightarrow> 32 \<le> sz \<and> sz \<le> RepositoryRules.MaxPackBytes)"
proof (cases "map_of (gr_packSizes r) relative")
  case (Some sz)
  then have "(relative, sz) \<in> set (gr_packSizes r)" by (rule map_of_SomeD)
  then show ?thesis using assms Some by (auto simp: packSize_def reader_bounded_def)
next
  case None
  then have "res = Inr sz \<Longrightarrow> 32 \<le> sz \<and> sz \<le> RepositoryRules.MaxPackBytes" for sz
    using assms(2) by (auto simp: packSize_def split: sum.splits if_splits)
  moreover have "reader_bounded r'"
    using assms None by (auto simp: packSize_def reader_bounded_def al_put_new split: sum.splits if_splits)
  ultimately show ?thesis by blast
qed

lemma cachePack_bounded:
  assumes "reader_bounded r" "\<not> gr_closed r" "cachePack st ctx relative selected r s = (res, r')"
  shows "reader_bounded r' \<and> gr_closed r' = gr_closed r"
proof (cases "map_of (gr_cached r) relative")
  case (Some name)
  then show ?thesis using assms by (simp add: cachePack_def)
next
  case None
  obtain szr r1 where p: "packSize st ctx relative r s = (szr, r1)" by force
  note pb = packSize_bounded [OF assms(1) p] and same = packSize_ready [OF p]
  have none: "map_of (gr_cached r1) relative = None" using None same by simp
  have wf: "al_wf (gr_cached r1 @ [(relative, x)])" for x using pb none by (auto simp: reader_bounded_def al_wf_def map_of_eq_None_iff)
  show ?thesis
  proof (cases szr)
    case (Inl e)
    then show ?thesis using assms(3) None p pb same by (simp add: cachePack_def)
  next
    case (Inr sz)
    then consider "r' = r1" | "r' = r1\<lparr>gr_cached := al_put relative None (gr_cached r1)\<rparr>"
      | "sz \<le> RepositoryRules.MaxPackBytes - gr_cacheBytes r1" "downloadPack st ctx relative sz r1 s = (res, r')"
      using assms(3) None p by (auto simp: cachePack_def split: if_splits)
    then show ?thesis
    proof cases
      case 1
      then show ?thesis using pb same by simp
    next
      case 2
      then show ?thesis using pb same none wf assms(2) by (auto simp: reader_bounded_def al_put_new filesSize_def)
    next
      case 3
      then consider "r' = r1" | pack where "r' = r1\<lparr>gr_cacheBytes := gr_cacheBytes r1 + int (length pack), gr_cached := al_put relative (Some pack) (gr_cached r1)\<rparr>"
          "int (length pack) = sz" "relative = packKey pack"
        by (auto simp: downloadPack_def Let_def split: sum.splits option.splits if_splits)
      then show ?thesis
      proof cases
        case 1
        then show ?thesis using pb same by simp
      next
        case 2
        then show ?thesis using 3(1) pb same none wf assms(2) by (auto simp: reader_bounded_def al_put_new filesSize_def)
      qed
    qed
  qed
qed

lemma cachePlans_bounded:
  "reader_bounded r \<Longrightarrow> \<not> gr_closed r \<Longrightarrow> cachePlans st ctx plans r s = (e, r') \<Longrightarrow> reader_bounded r'"
proof (induction plans arbitrary: r)
  case (Cons p plans)
  obtain relative selected minimumSize where p: "p = (relative, selected, minimumSize)" by (cases p) auto
  obtain res r1 where c: "cachePack st ctx relative selected r s = (res, r1)" by force
  have "reader_bounded r1" "\<not> gr_closed r1" using cachePack_bounded [OF Cons.prems(1,2) c] Cons.prems(2) by simp_all
  then show ?case using Cons p c by (cases res) (auto split: if_splits)
qed simp

lemma prefetch_bounded: "reader_bounded r \<Longrightarrow> prefetch st ctx sel r s = (e, r') \<Longrightarrow> reader_bounded r'"
  by (auto simp: prefetch_def dest: cachePlans_bounded split: option.splits if_splits sum.splits)

text \<open>A walk keeps whatever its getter keeps.\<close>

lemma walkLoop_keeps:
  assumes "\<And>ctx ident r res r'. P r \<Longrightarrow> get ctx ident r = (res, r') \<Longrightarrow> P r'"
  shows "walkLoop ctx infos get note st result tot r g = (res, r', g') \<Longrightarrow> P r \<Longrightarrow> P r'"
proof (induction "pending infos st" arbitrary: st result tot r g rule: less_induct)
  case less
  obtain q0 s where st: "st = (q0, s)" by (cases st)
  show ?case
  proof (cases q0)
    case Nil
    then show ?thesis using less.prems by (simp add: st walkLoop.simps)
  next
    case (Cons link q)
    have small: "pending infos (q, s) < pending infos st" by (simp add: st Cons pending_def)
    then have enq: "pending infos st1 < pending infos st" if "enqueueAll infos links (q, s) = Inr st1" for links st1
      using enqueueAll_pending [OF that] by simp
    obtain gres r1 where g1: "get ctx (link_id link) r = (gres, r1)" by force
    have r1: "P r1" by (rule assms [OF less.prems(2) g1])
    show ?thesis using less.prems less.hyps [OF small] less.hyps [OF enq] r1 g1
      by (auto simp: st Cons walkLoop.simps [of ctx infos get _ "link # q"] Let_def split: option.splits if_splits sum.splits)
  qed
qed

inductive reader_step :: "zlib \<Rightarrow> 's Store \<Rightarrow> GitReader \<Rightarrow> GitReader \<Rightarrow> bool" for z st where
  get: "readerGet z st s ctx ident r = (res, r') \<Longrightarrow> reader_step z st r r'"
| prefetch: "Prefetch st ctx ids r s = (e, r') \<Longrightarrow> reader_step z st r r'"
| validate: "readerValidate z st ctx r s = (e, r') \<Longrightarrow> reader_step z st r r'"
| reachable: "readerReachable z st ctx refs r s = (res', r') \<Longrightarrow> reader_step z st r r'"
| close: "reader_step z st r (readerClose r)"

lemma walkObjects_keeps:
  assumes "\<And>ctx ident r res r'. P r \<Longrightarrow> get ctx ident r = (res, r') \<Longrightarrow> P r'" "walkObjects ctx refs infos get r = (res, r')" "P r"
  shows "P r'"
proof -
  obtain g where "walkObjectsIndexed ctx refs infos get (\<lambda>_ _ u. u) r () = (res, r', g)"
    using assms(2) by (auto simp: walkObjects_def split: prod.splits)
  then show ?thesis using assms(3) walkLoop_keeps [of P get, OF assms(1)]
    by (auto simp: walkObjectsIndexed_def split: sum.splits)
qed

lemma readerValidate_bounded:
  assumes "reader_bounded r" "readerValidate z st ctx r s = (e, r')"
  shows "reader_bounded r'"
proof -
  obtain e1 r1 where p: "prefetch st ctx (\<lambda>_ info. oi_Type info \<noteq> ''blob'') r s = (e1, r1)" by force
  have b1: "reader_bounded r1" by (rule prefetch_bounded [OF assms(1) p])
  obtain w r2 where w: "walkObjects ctx (gs_References (gr_base r1)) (pinnedInfos r1) (readerGet z st s) r1 = (w, r2)" by force
  have "reader_bounded r2" by (rule walkObjects_keeps [where P = reader_bounded, OF _ w b1]) (rule readerGet_bounded)
  then have "reader_bounded r2" "reader_bounded (r2\<lparr>gr_base := x\<rparr>)" for x by (simp_all add: reader_bounded_def)
  then show ?thesis using assms(2) p w b1 by (auto simp: readerValidate_def split: option.splits sum.splits)
qed

lemma readerReachable_bounded:
  assumes "reader_bounded r" "readerReachable z st ctx refs r s = (res, r')"
  shows "reader_bounded r'"
proof -
  obtain w r2 where w: "walkObjects ctx refs (case gs_available (gr_base r) of None \<Rightarrow> [] | Some objs \<Rightarrow> objs) (readerGet z st s) r = (w, r2)" by force
  have "reader_bounded r2" by (rule walkObjects_keeps [where P = reader_bounded, OF _ w assms(1)]) (rule readerGet_bounded)
  then show ?thesis using assms(2) w by (auto simp: readerReachable_def split: sum.splits)
qed

lemma reader_step_bounded: "reader_step z st r r' \<Longrightarrow> reader_bounded r \<Longrightarrow> reader_bounded r'"
proof (induction rule: reader_step.induct)
  case (prefetch ctx ids r s e r')
  then show ?case using prefetch_bounded by (auto simp: Prefetch_def split: if_splits)
qed (auto intro: readerGet_bounded readerValidate_bounded readerReachable_bounded readerClose_bounded)

text \<open>
  C39. Whatever the object store answers, and in whatever order a reader is used (single reads, prefetches of any selections, validation,
  reachability queries, closing): its memory and disk stay bounded. It keeps at most 4096 objects and 4 MiB of metadata and never a blob, its
  temporary files together have at most the size of one maximal pack, each file has the SHA-256 it is named by, the two counters
  are exact, and a closed reader holds nothing.
\<close>

theorem reader_cache_bounded:
  assumes "OpenGit base = Inr r" and "(reader_step z st)\<^sup>*\<^sup>* r r'"
  shows "length (gr_metadata r') \<le> 4096 \<and> metadataSize (gr_metadata r') \<le> 4 * 2 ^ 20 \<and>
    (\<forall>(ident, object) \<in> set (gr_metadata r'). ObjectType object \<noteq> ''blob'') \<and>
    filesSize (gr_cached r') \<le> RepositoryRules.MaxPackBytes \<and>
    (\<forall>relative file. (relative, Some file) \<in> set (gr_cached r') \<longrightarrow> relative = ''packs/'' @ EncodeToString (Sum256 file) @ ''.pack'') \<and>
    gr_metadataBytes r' = metadataSize (gr_metadata r') \<and> gr_cacheBytes r' = filesSize (gr_cached r') \<and>
    (gr_closed r' \<longrightarrow> gr_metadata r' = [] \<and> gr_cached r' = [])"
proof -
  have "reader_bounded r'" using assms(2) OpenGit_bounded [OF assms(1)] by (induction rule: rtranclp_induct) (auto intro: reader_step_bounded)
  then show ?thesis by (auto simp: reader_bounded_def maxGitMetadataCacheObjects_def maxGitMetadataCacheBytes_def packKey_def)
qed

section \<open>Intact packs can be prefetched\<close>

definition packs_intact :: "('s \<Rightarrow> string \<Rightarrow> (bytes \<times> Version) option) \<Rightarrow> snapshot \<Rightarrow> 's \<Rightarrow> bool" where
  "packs_intact view snap s \<longleftrightarrow>
     (\<forall>(ident, info) \<in> set (manifestObjects (sn_manifest snap)). oi_PackKey info \<noteq> [] \<longrightarrow> validObjectInfo ident info \<and>
        (\<exists>c v. view s (packPath snap (oi_PackKey info)) = Some (c, v) \<and> oi_PackKey info = packKey c \<and> 32 \<le> length c \<and>
           int (length c) \<le> RepositoryRules.MaxPackBytes))"

definition sizes_ok :: "('s \<Rightarrow> string \<Rightarrow> (bytes \<times> Version) option) \<Rightarrow> snapshot \<Rightarrow> 's \<Rightarrow> GitReader \<Rightarrow> bool" where
  "sizes_ok view snap s r \<longleftrightarrow> pinned r = snap \<and>
     (\<forall>relative sz c v. map_of (gr_packSizes r) relative = Some sz \<longrightarrow> view s (packPath snap relative) = Some (c, v) \<longrightarrow> sz = int (length c))"

lemma readPlans_live:
  assumes "\<forall>(ident, info) \<in> set infos. oi_PackKey info \<noteq> [] \<longrightarrow> validObjectInfo ident info"
  shows "\<exists>plans'. readPlans sel infos plans = Inr plans' \<and>
    fst ` set plans' \<subseteq> fst ` set plans \<union> {k. k \<noteq> [] \<and> (\<exists>(ident, info) \<in> set infos. oi_PackKey info = k)}"
  using assms
proof (induction sel infos plans rule: readPlans.induct)
  case (2 sel ident info rest plans)
  show ?case
  proof (cases "oi_PackKey info = []")
    case True
    then obtain plans' where "readPlans sel rest plans = Inr plans'"
      "fst ` set plans' \<subseteq> fst ` set plans \<union> {k. k \<noteq> [] \<and> (\<exists>(ident, info) \<in> set rest. oi_PackKey info = k)}"
      using 2(1,3) by auto
    then show ?thesis using True by auto
  next
    case False
    then have valid: "validObjectInfo ident info" using 2 by simp
    obtain a b where ab: "(case map_of plans (oi_PackKey info) of None \<Rightarrow> (0, 0) | Some plan \<Rightarrow> plan) = (a, b)" by force
    let ?plans = "al_put (oi_PackKey info) (if sel ident info then a + oi_Length info else a, max b (oi_Offset info + oi_Length info + 20)) plans"
    obtain plans' where p: "readPlans sel rest ?plans = Inr plans'"
      "fst ` set plans' \<subseteq> fst ` set ?plans \<union> {k. k \<noteq> [] \<and> (\<exists>(ident, info) \<in> set rest. oi_PackKey info = k)}"
      using 2(2) [OF False _ ab [symmetric] refl refl] valid 2(3) by auto
    then show ?thesis using False valid ab by (auto simp: dom_al_put)
  qed
qed simp

lemma cachePack_base: "cachePack st ctx relative selected r s = (res, r') \<Longrightarrow> gr_base r' = gr_base r"
  by (auto simp: cachePack_def downloadPack_def Let_def dest!: packSize_ready split: option.splits prod.splits sum.splits if_splits)

lemma cachePlans_base: "cachePlans st ctx plans r s = (e, r') \<Longrightarrow> gr_base r' = gr_base r"
  by (induction plans arbitrary: r) (auto dest: cachePack_base split: if_splits prod.splits sum.splits)

lemma prefetch_base: "prefetch st ctx sel r s = (e, r') \<Longrightarrow> gr_base r' = gr_base r"
  by (auto simp: prefetch_def dest: cachePlans_base split: option.splits if_splits sum.splits)

context sized_store
begin

lemma cachePack_live:
  assumes "st_objects st = ops" "inv s" "sizes_ok contents snap s r" "contents s (packPath snap relative) = Some (c, v)"
    "relative = packKey c" "32 \<le> length c" "int (length c) \<le> RepositoryRules.MaxPackBytes"
  shows "\<exists>x r'. cachePack st Background relative selected r s = (Inr x, r') \<and> sizes_ok contents snap s r'"
proof (cases "map_of (gr_cached r) relative")
  case (Some name)
  then show ?thesis using assms(3) by (simp add: cachePack_def)
next
  case None
  have pin: "pinned r = snap" using assms(3) by (simp add: sizes_ok_def)
  have "\<exists>r1. packSize st Background relative r s = (Inr (int (length c)), r1) \<and> sizes_ok contents snap s r1 \<and> gr_cached r1 = gr_cached r"
  proof (cases "map_of (gr_packSizes r) relative")
    case (Some sz)
    then show ?thesis using assms(3,4) by (auto simp: packSize_def sizes_ok_def)
  next
    case n: None
    obtain info where h: "os_Head ops Background (packPath snap relative) s = Inr info" using head_live [OF assms(2,4)] by blast
    have "Size info = int (length c)" by (rule head_size [OF assms(2) h assms(4)])
    then have "packSize st Background relative r s = (Inr (int (length c)), r\<lparr>gr_packSizes := al_put relative (int (length c)) (gr_packSizes r)\<rparr>)"
      using assms(1,6,7) n h pin by (simp add: packSize_def)
    moreover have "sizes_ok contents snap s (r\<lparr>gr_packSizes := al_put relative (int (length c)) (gr_packSizes r)\<rparr>)"
      using assms(3,4) by (auto simp: sizes_ok_def map_of_al_put)
    ultimately show ?thesis by auto
  qed
  then obtain r1 where r1: "packSize st Background relative r s = (Inr (int (length c)), r1)" "sizes_ok contents snap s r1" "gr_cached r1 = gr_cached r" by blast
  obtain info where g: "os_Get ops Background (packPath snap relative) s = Inr (c, info)" using get_live [OF assms(2,4)] by blast
  have "Size info = int (length c)" by (rule get_size [OF assms(2) g])
  then have "downloadPack st Background relative (int (length c)) r1 s = (Inr (Some c), r1\<lparr>gr_cacheBytes := gr_cacheBytes r1 + int (length c),
      gr_cached := al_put relative (Some c) (gr_cached r1)\<rparr>)"
    using assms(1,5) g r1(2) by (simp add: downloadPack_def sizes_ok_def)
  moreover have "sizes_ok contents snap s (r1\<lparr>gr_cacheBytes := x, gr_cached := y\<rparr>)" "sizes_ok contents snap s (r1\<lparr>gr_cached := y\<rparr>)" for x y
    using r1(2) by (simp_all add: sizes_ok_def)
  ultimately show ?thesis using None r1 by (auto simp: cachePack_def)
qed

lemma cachePlans_live:
  assumes "st_objects st = ops" "inv s" "sizes_ok contents snap s r" "packs_intact contents snap s"
    "fst ` set plans \<subseteq> {k. k \<noteq> [] \<and> (\<exists>(ident, info) \<in> set (manifestObjects (sn_manifest snap)). oi_PackKey info = k)}"
  shows "\<exists>r'. cachePlans st Background plans r s = (None, r')"
  using assms(3,5)
proof (induction plans arbitrary: r)
  case (Cons p plans)
  obtain relative selected minimumSize where p: "p = (relative, selected, minimumSize)" by (cases p) auto
  obtain ident info where i: "(ident, info) \<in> set (manifestObjects (sn_manifest snap))" "oi_PackKey info = relative" "relative \<noteq> []"
    using Cons.prems(2) p by auto
  obtain c v where c: "contents s (packPath snap relative) = Some (c, v)" "relative = packKey c" "32 \<le> length c"
      "int (length c) \<le> RepositoryRules.MaxPackBytes"
    using assms(4) i by (fastforce simp: packs_intact_def)
  obtain x r1 where r1: "cachePack st Background relative selected r s = (Inr x, r1)" "sizes_ok contents snap s r1"
    using cachePack_live [OF assms(1,2) Cons.prems(1) c] by blast
  have "\<exists>r'. cachePlans st Background plans r s = (None, r')" "\<exists>r'. cachePlans st Background plans r1 s = (None, r')"
    using Cons.IH [OF Cons.prems(1)] Cons.IH [OF r1(2)] Cons.prems(2) by simp_all
  then show ?case using p r1(1) by simp
qed simp

lemma prefetch_live:
  assumes "st_objects st = ops" "inv s" "sizes_ok contents snap s r" "\<not> gr_closed r" "packs_intact contents snap s"
  shows "\<exists>r'. prefetch st Background sel r s = (None, r')"
proof -
  have pin: "pinned r = snap" using assms(3) by (simp add: sizes_ok_def)
  have "\<forall>(ident, info) \<in> set (manifestObjects (sn_manifest snap)). oi_PackKey info \<noteq> [] \<longrightarrow> validObjectInfo ident info"
    using assms(5) by (auto simp: packs_intact_def)
  from readPlans_live [OF this, of sel "[]"] obtain plans where p: "readPlans sel (manifestObjects (sn_manifest snap)) [] = Inr plans"
    "fst ` set plans \<subseteq> {k. k \<noteq> [] \<and> (\<exists>(ident, info) \<in> set (manifestObjects (sn_manifest snap)). oi_PackKey info = k)}" by auto
  show ?thesis using cachePlans_live [OF assms(1,2,3,5) p(2)] p(1) assms(4) pin by (simp add: prefetch_def)
qed

lemma readerValidate_spec:
  assumes "st_objects st = ops" "inv s" "OpenGit (Some base) = Inr r" "al_wf (manifestObjects (sn_manifest (gs_original base)))"
  shows "readerValidate z st ctx r s = (None, r') \<Longrightarrow>
      connected (manifestObjects (sn_manifest (gs_original base))) (readerContent z st (gs_original base) s) (gs_References base) \<and>
      (\<forall>ident. HasObject (gr_base r') ident \<longleftrightarrow>
         reachable (manifestObjects (sn_manifest (gs_original base))) (readerContent z st (gs_original base) s) (gs_References base) ident)"
    and "packs_intact contents (gs_original base) s \<Longrightarrow>
      connected (manifestObjects (sn_manifest (gs_original base))) (readerContent z st (gs_original base) s) (gs_References base) \<Longrightarrow>
      \<exists>r'. readerValidate z st Background r s = (None, r')"
proof -
  let ?snap = "gs_original base" and ?infos = "manifestObjects (sn_manifest (gs_original base))" and ?c = "readerContent z st (gs_original base) s"
  note src = reader_source [OF assms(1,2), of z ?snap]
  have b: "gr_base r = base" and rdy: "reader_ready z st contents ?snap s r" and sz: "sizes_ok contents ?snap s r" and op: "\<not> gr_closed r"
    using assms(3) by (auto simp: OpenGit_def openGitSnapshot_def rbind_Inr reader_ready_def sizes_ok_def split: if_splits)
  have pre: "gr_base r1 = base \<and> reader_ready z st contents ?snap s r1" if "prefetch st ctx sel r s = (e, r1)" for ctx sel e r1
    using b prefetch_base [OF that] prefetch_ready [OF assms(1,2) rdy that] by simp
  {
    assume v: "readerValidate z st ctx r s = (None, r')"
    obtain r1 where p: "prefetch st ctx (\<lambda>_ info. oi_Type info \<noteq> ''blob'') r s = (None, r1)" using v by (auto simp: readerValidate_def split: prod.splits option.splits)
    have r1: "gr_base r1 = base" "reader_ready z st contents ?snap s r1" using pre [OF p] by blast+
    obtain objs r2 where w: "walkObjects ctx (gs_References base) ?infos (readerGet z st s) r1 = (Inr objs, r2)"
      and r': "r' = r2\<lparr>gr_base := (gr_base r2)\<lparr>gs_available := Some objs\<rparr>\<rparr>"
      using v p r1(1) by (auto simp: readerValidate_def split: prod.splits sum.splits)
    note ex = object_source.walkObjects_spec(2) [OF src assms(4) r1(2) w]
    then have "map_of objs ident \<noteq> None \<longleftrightarrow> reachable ?infos ?c (gs_References base) ident" for ident by (simp add: map_of_eq_None_iff)
    with ex have "connected ?infos ?c (gs_References base) \<and> (\<forall>ident. map_of objs ident \<noteq> None \<longleftrightarrow> reachable ?infos ?c (gs_References base) ident)" by blast
    then show "connected ?infos ?c (gs_References base) \<and> (\<forall>ident. HasObject (gr_base r') ident \<longleftrightarrow> reachable ?infos ?c (gs_References base) ident)"
      by (simp add: r' HasObject_def)
  next
    assume intact: "packs_intact contents ?snap s" and con: "connected ?infos ?c (gs_References base)"
    obtain r1 where p: "prefetch st Background (\<lambda>_ info. oi_Type info \<noteq> ''blob'') r s = (None, r1)" using prefetch_live [OF assms(1,2) sz op intact] by blast
    have r1: "gr_base r1 = base" "reader_ready z st contents ?snap s r1" using pre [OF p] by blast+
    obtain objs r2 where "walkObjects Background (gs_References base) ?infos (readerGet z st s) r1 = (Inr objs, r2)"
      using object_source.walkObjects_spec(1) [OF src assms(4) r1(2)] con by blast
    then show "\<exists>r'. readerValidate z st Background r s = (None, r')" using p r1(1) by (simp add: readerValidate_def)
  }
qed

end

lemma sample_open: "\<exists>r. OpenGit (Some sampleBase) = Inr r \<and> gr_base r = sampleBase"
proof -
  have "idPattern (replicate 32 CHR ''a'')" by (simp add: idPattern_def lowerHex_def lower_hex_char_def list_all_iff)
  then show ?thesis by (simp add: OpenGit_def openGitSnapshot_def sampleBase_def rbind_def)
qed

theorem reader_cache_bounded_witness:
  "\<exists>r r'. OpenGit (Some sampleBase) = Inr r \<and> (reader_step unaryZlib demoLockStore)\<^sup>*\<^sup>* r r' \<and> gr_closed r' \<and> gr_cached r' = []"
proof -
  obtain r where r: "OpenGit (Some sampleBase) = Inr r" using sample_open by blast
  have step: "(reader_step unaryZlib demoLockStore)\<^sup>*\<^sup>* r (readerClose r)" using reader_step.close by (rule r_into_rtranclp)
  have "gr_closed (readerClose r)" by (simp add: readerClose_def)
  then show ?thesis using reader_cache_bounded [OF r step] r step by blast
qed

section \<open>What is stored reads back\<close>

context sized_store
begin

lemma putObject_stored:
  assumes "st_objects st = ops" "inv s" "room (Suc n) s" "putObject z st ctx i kind content objs s = (Inr (ident, objs'), s')"
    and "zlib_law z" "int (length (concat (zl_write z (objectHeader kind (int (length content)) @ content)))) \<le> maxObjectBytes + 4096"
  shows "ident = objectID kind content \<and> objs' = al_put ident (looseInfo kind content) objs \<and> stored_at z contents s' i ident (looseInfo kind content) content"
proof -
  let ?c = "concat (zl_write z (objectHeader kind (int (length content)) @ content))"
  obtain v where v: "ident = objectID kind content" "objs' = al_put ident (looseInfo kind content) objs" "contents s' (objectKey i ident) = Some (?c, v)"
    using putObject_ok [OF assms(1-4)] by blast
  have "zl_new z (?c @ []) ErrEOF = None" "zl_read z (?c @ []) ErrEOF = (objectHeader kind (int (length content)) @ content, Inr (length ?c))"
    using assms(5) unfolding zlib_law_def by blast+
  then show ?thesis using v assms(6) by (simp add: stored_at_def looseInfo_def zeroInfo_def)
qed

end

text \<open>Keys whose components are plain names.\<close>

lemma plain_parts_key:
  assumes "repositoryIDPattern i" "ps \<noteq> []" "\<forall>p \<in> set ps. p \<noteq> [] \<and> list_all plain_char p \<and> hd p \<noteq> CHR ''.''"
    "length (Join CHR ''/'' ps) \<le> 500"
  shows "validateKey (''repos/'' @ i @ ''/'' @ Join CHR ''/'' ps) = None"
proof -
  let ?rel = "Join CHR ''/'' ps"
  have pl: "\<forall>p \<in> set ps. \<forall>c \<in> set p. plain_char c" using assms(3) by (auto simp: list_all_iff)
  have noslash: "\<forall>p \<in> set ps. CHR ''/'' \<notin> set p" using pl plain_char_facts(1) by blast
  have split: "Split CHR ''/'' ?rel = ps" using noslash assms(2) by (simp add: Split_Join)
  have chars: "c \<in> set ?rel \<Longrightarrow> plain_char c \<or> c = CHR ''/''" for c
    using pl by (induction "CHR ''/''" ps rule: Join.induct) auto
  then have asc: "\<forall>c \<in> set ?rel. code c < 128 \<and> \<not> ascii_control c \<and> c \<noteq> CHR 0x5C"
    using plain_char_facts by (fastforce simp: ascii_control_def)
  then have "ascii ?rel" by (simp add: ascii_def list_all_iff)
  then have "ValidString ?rel" by (rule ValidString_ascii)
  moreover have "\<forall>p \<in> set ps. canonical_part p" using assms(3) by (auto simp: canonical_part_def)
  ultimately have "repositoryKey i ?rel = Inr (''repos/'' @ i @ ''/'' @ ?rel)"
    unfolding repositoryKey_iff split using assms(1,4) repositoryID_plain [OF assms(1)] asc by auto
  then show ?thesis by (rule repositoryKey_valid)
qed

lemma lowerHex_plain: "lowerHex n s \<Longrightarrow> 0 < n \<Longrightarrow> s \<noteq> [] \<and> list_all plain_char s \<and> hd s \<noteq> CHR ''.''"
proof -
  assume "lowerHex n s" "0 < n"
  then have "s \<noteq> []" "\<forall>c \<in> set s. lower_hex_char c" by (auto simp: lowerHex_def list_all_iff)
  moreover have "lower_hex_char c \<Longrightarrow> plain_char c \<and> c \<noteq> CHR ''.''" for c
    by (simp only: plain_char_def is_alnum_def is_digit_def lower_hex_char_def set_simps insert_iff empty_iff) (elim disjE FalseE; simp)
  ultimately show ?thesis by (auto simp: list_all_iff)
qed

lemma objectKey_valid:
  assumes "repositoryIDPattern i" "objectIDPattern ident"
  shows "validateKey (objectKey i ident) = None"
proof -
  have "length ident = 40" "\<forall>c \<in> set ident. lower_hex_char c" using assms(2) by (auto simp: objectIDPattern_def lowerHex_def list_all_iff)
  then have "lowerHex 2 (take 2 ident)" "lowerHex 38 (drop 2 ident)" by (auto simp: lowerHex_def list_all_iff dest: in_set_takeD in_set_dropD)
  note parts = lowerHex_plain [OF this(1)] lowerHex_plain [OF this(2)]
  have "list_all plain_char ''objects''" by (simp add: plain_char_def is_alnum_def)
  then have "validateKey (''repos/'' @ i @ ''/'' @ Join CHR ''/'' [''objects'', take 2 ident, drop 2 ident]) = None"
    using assms(1) parts \<open>length ident = 40\<close> by (intro plain_parts_key) auto
  then show ?thesis by (simp add: objectKey_def)
qed

text \<open>
  C38. An object that was stored reads back: after \<^verbatim>\<open>putObject\<close>, a snapshot with the returned manifest entry serves the very content under the returned
  identifier, also after other objects were added to the store. And whatever a store answers later, intact or not, a read under this entry
  that succeeds returns bytes with the same identifier, type, size and SHA-256: nothing is served unverified.
\<close>

theorem object_roundtrip:
  assumes "st_objects st = memoryOps" and "store_wf s" and "has_room (Suc n) s" and "zlib_law z"
    and "putObject z st ctx i kind content objs s = (Inr (ident, objs'), s')"
    and "kind \<in> {''blob'', ''tree'', ''commit'', ''tag''}" and "int (length content) \<le> maxObjectBytes"
    and "int (length (concat (zl_write z (objectHeader kind (int (length content)) @ content)))) \<le> maxObjectBytes + 4096"
    and "md_ID (sn_metadata snap) = i" and "mf_Objects (sn_manifest snap) = Some objs'"
    and "store_wf s''" and "contents s' \<subseteq>\<^sub>m contents s''"
  shows "cachedObject z st Background snap ident kind s'' = Inr content \<and>
    (\<forall>z' (st' :: 't Store) ctx' kind' b t. cachedObject z' st' ctx' snap ident kind' t = Inr b \<longrightarrow>
       kind' = kind \<and> objectID kind b = ident \<and> objectSHA256 kind b = objectSHA256 kind content \<and> length b = length content)"
proof -
  note stored = memory.putObject_stored [OF assms(1-3,5,4,8)]
  then have m: "map_of (manifestObjects (sn_manifest snap)) ident = Some (looseInfo kind content)"
    using assms(10) by (simp add: manifestObjects_def map_of_al_put)
  have valid: "validObjectInfo ident (looseInfo kind content)" using validObjectInfo_loose [OF assms(6,7)] stored by simp
  have match: "matches_info ident (looseInfo kind content) content" using stored by (simp add: matches_info_def looseInfo_def)
  have at: "stored_at z contents s'' (md_ID (sn_metadata snap)) ident (looseInfo kind content) content"
    using memory.stored_at_grown [OF assms(12)] stored assms(9) by blast
  have "cachedObject z st Background snap ident kind s'' = Inr content"
    using memory.cachedObject_stored [OF assms(1,11) m valid match at] by (simp add: looseInfo_def)
  moreover have "kind' = kind \<and> objectID kind b = ident \<and> objectSHA256 kind b = objectSHA256 kind content \<and> length b = length content"
    if "cachedObject z' st' ctx' snap ident kind' t = Inr b" for z' ctx' kind' b t and st' :: "'t Store"
    using cachedObject_verified [OF that] m by (auto simp: looseInfo_def)
  ultimately show ?thesis by blast
qed

theorem object_roundtrip_witness:
  "\<exists>ident s'. cachedObject unaryZlib demoLockStore Background ((gs_original sampleBase)\<lparr>sn_manifest := \<lparr>mf_Schema = 1, mf_ObjectFormat = ''sha1'',
     mf_Objects = Some [(ident, looseInfo ''blob'' [104, 105])], mf_LFS = None\<rparr>\<rparr>) ident ''blob'' s' = Inr [104, 105]"
proof -
  let ?i = "replicate 32 CHR ''a''" and ?b = "[104, 105] :: bytes"
  define ident where "ident = objectID ''blob'' ?b"
  have st: "st_objects demoLockStore = memoryOps" by (simp add: demoLockStore_def)
  have room: "has_room (Suc 0) (NewMemoryStore 0)" by (simp add: has_room_def NewMemoryStore_def)
  have "idPattern ?i" by (simp add: idPattern_def lowerHex_def lower_hex_char_def list_all_iff)
  moreover have "objectIDPattern ident" using lowerHex_EncodeToString [of "Sum1 b" 20 for b] by (simp add: objectIDPattern_def ident_def objectID_def)
  ultimately have "validateKey (objectKey ?i ident) = None" by (rule objectKey_valid [OF idPattern_repositoryID])
  then obtain info s' where put: "put_bytes memoryOps Background (objectKey ?i ident)
      (concat (zl_write unaryZlib (objectHeader ''blob'' (int (length ?b)) @ ?b))) if_absent (NewMemoryStore 0) = (Inr info, s')"
    using memory_put_live [of "objectKey ?i ident" if_absent "NewMemoryStore 0"] by (auto simp: put_allowed_def contents_def NewMemoryStore_def) blast
  then have p: "putObject unaryZlib demoLockStore Background ?i ''blob'' ?b [] (NewMemoryStore 0) = (Inr (ident, [(ident, looseInfo ''blob'' ?b)]), s')"
    by (simp add: putObject_def PutImmutable_bytes st ident_def objectID_def looseInfo_def objectSHA256_def Let_def)
  have wf: "store_wf s'" using memory_put_ok [OF store_wf_New room put] by blast
  have len: "int (length (concat (zl_write unaryZlib (objectHeader ''blob'' (int (length ?b)) @ ?b)))) \<le> maxObjectBytes + 4096"
    by (simp add: unaryZlib_def objectHeader_def FormatInt_def FormatUint.simps repository_limits)
  have "cachedObject unaryZlib demoLockStore Background ((gs_original sampleBase)\<lparr>sn_manifest := \<lparr>mf_Schema = 1, mf_ObjectFormat = ''sha1'',
     mf_Objects = Some [(ident, looseInfo ''blob'' ?b)], mf_LFS = None\<rparr>\<rparr>) ident ''blob'' s' = Inr ?b"
    by (rule conjunct1 [OF object_roundtrip [OF st store_wf_New room unaryZlib_law p _ _ len _ _ wf]])
      (simp_all add: repository_limits sampleBase_def)
  then show ?thesis by blast
qed

text \<open>
  C37. Validation accepts a generation precisely when its graph is connected: when it succeeds, every reference and link that can be reached
  leads to a verified object of the expected type within the limits, and the identifiers that the server then admits as common with a client are
  exactly the reachable ones, no orphan of the manifest among them. And with intact packs it does succeed for every connected generation.
\<close>

theorem Validate_exact:
  fixes z :: zlib
  assumes "st_objects st = memoryOps" and "store_wf s" and "OpenGit (Some base) = Inr r"
    and "al_wf (manifestObjects (sn_manifest (gs_original base)))"
  defines "infos \<equiv> manifestObjects (sn_manifest (gs_original base))" and "content \<equiv> readerContent z st (gs_original base) s"
  shows "(\<forall>ctx r'. readerValidate z st ctx r s = (None, r') \<longrightarrow> connected infos content (gs_References base) \<and>
      (\<forall>ident. HasObject (gr_base r') ident \<longleftrightarrow> reachable infos content (gs_References base) ident)) \<and>
    (packs_intact contents (gs_original base) s \<and> connected infos content (gs_References base) \<longrightarrow>
       (\<exists>r'. readerValidate z st Background r s = (None, r')))"
  unfolding infos_def content_def
  using memory.readerValidate_spec [OF assms(1-4)] by blast

definition tagBase :: GitSnapshot where
  "tagBase = sampleBase\<lparr>gs_References := [(''refs/tags/v1'', replicate 40 CHR ''0'')],
     gs_original := (gs_original sampleBase)\<lparr>sn_manifest := \<lparr>mf_Schema = 1, mf_ObjectFormat = ''sha1'',
       mf_Objects = Some [(replicate 40 CHR ''0'', zeroInfo\<lparr>oi_Type := ''blob''\<rparr>), (replicate 40 CHR ''1'', zeroInfo\<lparr>oi_Type := ''blob''\<rparr>)], mf_LFS = None\<rparr>\<rparr>\<rparr>"

theorem Validate_exact_witness:
  "\<exists>r r'. OpenGit (Some tagBase) = Inr r \<and> readerValidate unaryZlib demoLockStore Background r (NewMemoryStore 0) = (None, r') \<and>
     HasObject (gr_base r') (replicate 40 CHR ''0'') \<and> \<not> HasObject (gr_base r') (replicate 40 CHR ''1'')"
proof -
  define one two :: string where "one = replicate 40 CHR ''0''" and "two = replicate 40 CHR ''1''"
  have ne: "one \<noteq> two" unfolding one_def two_def by simp
  have "idPattern (replicate 32 CHR ''a'')" by (simp add: idPattern_def lowerHex_def lower_hex_char_def list_all_iff)
  then obtain r where r: "OpenGit (Some tagBase) = Inr r" by (simp add: OpenGit_def openGitSnapshot_def tagBase_def sampleBase_def rbind_def)
  define infos where "infos = manifestObjects (sn_manifest (gs_original tagBase))"
  define content where "content = readerContent unaryZlib demoLockStore (gs_original tagBase) (NewMemoryStore 0)"
  have i: "infos = [(one, zeroInfo\<lparr>oi_Type := ''blob''\<rparr>), (two, zeroInfo\<lparr>oi_Type := ''blob''\<rparr>)]" "gs_References tagBase = [(''refs/tags/v1'', one)]"
    by (simp_all add: infos_def tagBase_def manifestObjects_def one_def two_def)
  have links: "nodeLinks infos content ident = []" for ident by (simp add: i nodeLinks_def zeroInfo_def)
  have reach: "reachable infos content (gs_References tagBase) ident \<longleftrightarrow> ident = one" for ident
  proof
    assume "reachable infos content (gs_References tagBase) ident"
    then show "ident = one" by (induction rule: reachable.induct) (simp_all add: links i(2))
  next
    assume "ident = one"
    then show "reachable infos content (gs_References tagBase) ident"
      using reachable.ref [of "(''refs/tags/v1'', one)" "gs_References tagBase"] i(2) by auto
  qed
  have pat: "objectIDPattern one" by (simp add: one_def objectIDPattern_def lowerHex_def lower_hex_char_def list_all_iff)
  have con: "connected infos content (gs_References tagBase)"
    unfolding connected_def reach links using pat
    by (simp add: i linkOk_def refLink_def nodeOk_def sizeIn_def zeroInfo_def repository_limits)
  have intact: "packs_intact contents (gs_original tagBase) (NewMemoryStore 0)"
    unfolding packs_intact_def infos_def [symmetric] i(1) by (simp add: zeroInfo_def)
  have wf: "al_wf (manifestObjects (sn_manifest (gs_original tagBase)))" unfolding infos_def [symmetric] i using ne by (simp add: al_wf_def)
  have st: "st_objects demoLockStore = memoryOps" by (simp add: demoLockStore_def)
  note ex = Validate_exact [OF st store_wf_New [of 0] r wf, where z = unaryZlib, folded infos_def content_def]
  obtain r' where v: "readerValidate unaryZlib demoLockStore Background r (NewMemoryStore 0) = (None, r')"
    using conjunct2 [OF ex] con intact by blast
  have has: "HasObject (gr_base r') ident \<longleftrightarrow> ident = one" for ident using conjunct1 [OF ex] v reach by blast
  have "HasObject (gr_base r') one" "\<not> HasObject (gr_base r') two" using has ne by simp_all
  then show ?thesis using r v unfolding one_def two_def by (intro exI conjI) simp_all
qed

end
