(* ===== verification/GenerationPublish.thy ===== *)
theory GenerationPublish
  imports GenerationReader CreateProperties
begin

text \<open>
  \<^verbatim>\<open>internal/repository/packed.go\<close>, \<^verbatim>\<open>transport.go\<close> and the records of \<^verbatim>\<open>lfs.go\<close>: the publication of a generation with its pack, its LFS check and the repository lock, and
  the reads that transports and repacking start from.
\<close>

section \<open>Verified LFS records\<close>

record lfsRecord =
  lr_Schema :: int
  lr_Object :: LFSObject
  lr_Key :: string
  lr_Version :: Version

definition lfsRecordKey :: "string \<Rightarrow> string \<Rightarrow> string" where
  "lfsRecordKey repositoryID oid = ''repos/'' @ repositoryID @ ''/lfs/verified/'' @ oid @ ''.json''"

definition validLFSDataKey :: "string \<Rightarrow> bool" where
  "validLFSDataKey key =
     (let token = TrimPrefix key ''lfs/objects/'' in key = ''lfs/objects/'' @ token \<and> idPattern token)"

definition validLFSRecord :: "lfsRecord \<Rightarrow> string \<Rightarrow> bool" where
  "validLFSRecord rec oid \<longleftrightarrow> lr_Schema rec = 1 \<and> lfs_OID (lr_Object rec) = oid \<and> ValidLFSOID oid \<and>
     lfs_Size (lr_Object rec) \<ge> 0 \<and> validLFSDataKey (lr_Key rec) \<and> lr_Version rec \<noteq> []"

definition lfsObjectFields :: "LFSObject field list" where
  "lfsObjectFields = [(''oid'', string_field (\<lambda>x r. r\<lparr>lfs_OID := x\<rparr>)), (''size'', int_field (\<lambda>x r. r\<lparr>lfs_Size := x\<rparr>))]"

definition lfsRecordFields :: "lfsRecord field list" where
  "lfsRecordFields =
     [(''schemaVersion'', int_field (\<lambda>x r. r\<lparr>lr_Schema := x\<rparr>)),
      (''object'', struct_field lfsObjectFields lr_Object (\<lambda>x r. r\<lparr>lr_Object := x\<rparr>)),
      (''key'', string_field (\<lambda>x r. r\<lparr>lr_Key := x\<rparr>)),
      (''version'', string_field (\<lambda>x r. r\<lparr>lr_Version := x\<rparr>))]"

definition zeroLFSRecord :: lfsRecord where
  "zeroLFSRecord = \<lparr>lr_Schema = 0, lr_Object = emptyLFS, lr_Key = [], lr_Version = []\<rparr>"

definition readLFSRecord :: "'s Store \<Rightarrow> ctx \<Rightarrow> string \<Rightarrow> string \<Rightarrow> 's \<Rightarrow> lfsRecord result" where
  "readLFSRecord st ctx repositoryID oid s =
     (case read (st_objects st) ctx (lfsRecordKey repositoryID oid) 4096 s of
        Inl e \<Rightarrow> Inl (if errors_Is e ErrNotFound then ErrJoin RepoErrNotFound ErrLFSMissing else e)
      | Inr b \<Rightarrow> rbind (decodeJSON lfsRecordFields zeroLFSRecord b) (\<lambda>rec.
          if \<not> validLFSRecord rec oid then Inl RepoErrCorrupt else Inr rec))"

definition checkLFSRecord :: "'s Store \<Rightarrow> ctx \<Rightarrow> string \<Rightarrow> string \<Rightarrow> 's \<Rightarrow> lfsRecord result" where
  "checkLFSRecord st ctx repositoryID oid s =
     rbind (readLFSRecord st ctx repositoryID oid s) (\<lambda>rec.
     case os_Head (st_objects st) ctx (''repos/'' @ repositoryID @ ''/'' @ lr_Key rec) s of
       Inl e \<Rightarrow> Inl (ErrJoin RepoErrCorrupt e)
     | Inr info \<Rightarrow> if Size info \<noteq> lfs_Size (lr_Object rec) \<or> InfoVersion info \<noteq> lr_Version rec then Inl RepoErrCorrupt else Inr rec)"

fun validateLFSPointers :: "'s Store \<Rightarrow> ctx \<Rightarrow> string \<Rightarrow> (string \<times> int) list \<Rightarrow> 's \<Rightarrow> err option" where
  "validateLFSPointers st ctx repositoryID [] s = None"
| "validateLFSPointers st ctx repositoryID ((oid, sz) # rest) s =
     (case checkLFSRecord st ctx repositoryID oid s of
        Inl e \<Rightarrow> Some e
      | Inr rec \<Rightarrow>
          if lfs_Size (lr_Object rec) \<noteq> sz then Some (ErrJoin RepoErrInvalid ErrLFSHashMismatch)
          else validateLFSPointers st ctx repositoryID rest s)"

section \<open>Storing the pack of a generation\<close>

definition PackLimits :: Limits where
  "PackLimits = \<lparr>PackWorkspace.Limits.MaxPackBytes = RepositoryRules.MaxPackBytes, MaxObjectBytes = MaxGitObjectBytes, MaxDecodedBytes = MaxGitBytes,
     MaxDiskBytes = 2 * MaxGitBytes, MaxObjects = int MaxGitObjects, MaxDeltaDepth = 64\<rparr>"

definition packInfo :: "string \<Rightarrow> Entry \<Rightarrow> RepositoryRules.objectInfo" where
  "packInfo relative entry = \<lparr>oi_Type = EntryType entry, oi_Size = EntrySize entry, oi_SHA256 = EntrySHA256 entry, oi_PackKey = relative,
     oi_Offset = EntryOffset entry, oi_Length = EntryLength entry, oi_CRC32 = EntryCRC32 entry\<rparr>"

text \<open>
  The temporary file does not fail. The getter may change its caches between reads, but not its answers (\<open>reader_source\<close>), so that
  the reads of \<^verbatim>\<open>gitpack.Write\<close> all go to the reader as it is before the write.
\<close>

definition storePack :: "zlib \<Rightarrow> 's Store \<Rightarrow> ctx \<Rightarrow> string \<Rightarrow> string list \<Rightarrow> Resolver \<Rightarrow> infos \<Rightarrow> 's \<Rightarrow> infos result \<times> 's" where
  "storePack z st ctx repositoryID ids get objs s =
     (case Write z ctx fullSink ids (Some get) PackLimits of
        (Inl e, _) \<Rightarrow> (Inl e, s)
      | (Inr es, file) \<Rightarrow>
          (let key = ''repos/'' @ repositoryID @ ''/'' @ packKey file;
               filled = fold (\<lambda>entry objs. al_put (EntryID entry) (packInfo (packKey file) entry) objs) es objs
           in case PutImmutable (st_objects st) ctx key (Some (bytes_NewReader file)) (int (length file)) s of
                (None, s) \<Rightarrow> (Inr filled, s)
              | (Some e, s) \<Rightarrow>
                  if \<not> errors_Is e ErrAlreadyExists then (Inl e, s)
                  else (case os_Get (st_objects st) ctx key s of
                      Inl e \<Rightarrow> (Inl e, s)
                    | Inr (body, info) \<Rightarrow>
                        (case ctx_Err ctx of Some e \<Rightarrow> (Inl e, s) | None \<Rightarrow>
                         (let actual = take (length file + 1) body
                          in if length actual \<noteq> length file \<or> Size info \<noteq> int (length file) \<or> Sum256 actual \<noteq> Sum256 file
                             then (Inl RepoErrCorrupt, s) else (Inr filled, s))))))"

section \<open>Publishing a generation\<close>

text \<open>\<^verbatim>\<open>errors.Join\<close> of the outcome of an operation and that of its clean-up.\<close>

fun joinErr :: "err option \<Rightarrow> err option \<Rightarrow> err option" where
  "joinErr None e = e"
| "joinErr e None = e"
| "joinErr (Some a) (Some b) = Some (ErrJoin a b)"

fun mergeIncoming :: "infos \<Rightarrow> infos \<Rightarrow> infos result" where
  "mergeIncoming [] infos = Inr infos"
| "mergeIncoming ((ident, info) # rest) infos =
     (if \<not> objectIDPattern ident \<or> oi_Size info < 0 \<or> oi_Size info > MaxGitObjectBytes then Inl RepoErrInvalid
      else (case map_of infos ident of
          Some prior \<Rightarrow>
            if oi_Type prior \<noteq> oi_Type info \<or> oi_Size prior \<noteq> oi_Size info \<or> oi_SHA256 prior \<noteq> oi_SHA256 info then Inl RepoErrCorrupt
            else mergeIncoming rest infos
        | None \<Rightarrow> mergeIncoming rest (al_put ident info infos)))"

definition publishGet :: "zlib \<Rightarrow> 's Store \<Rightarrow> 's \<Rightarrow> infos \<Rightarrow> unit gitGetter \<Rightarrow> GitReader gitGetter" where
  "publishGet z st s incoming getIncoming ctx ident r =
     (if map_of incoming ident \<noteq> None then (fst (getIncoming ctx ident ()), r) else readerGet z st s ctx ident r)"

definition newIDs :: "bool \<Rightarrow> infos \<Rightarrow> infos \<Rightarrow> string list" where
  "newIDs repack known reached = sort (filter (\<lambda>ident. repack \<or> map_of known ident = None) (map fst reached))"

definition nextState :: "RepositoryState \<Rightarrow> string \<Rightarrow> string \<Rightarrow> RepositoryState" where
  "nextState state refsKey manifestKey = state\<lparr>Generation := Generation state + 1, RefsSnapshot := refsKey, PackManifest := manifestKey\<rparr>"

text \<open>The part of \<^verbatim>\<open>publishObjects\<close> that runs under the repository lock.\<close>

definition publishLocked :: "zlib \<Rightarrow> 's Store \<Rightarrow> ctx \<Rightarrow> snapshot \<Rightarrow> refs \<Rightarrow> infos \<Rightarrow> (string \<times> int) list \<Rightarrow> bool
    \<Rightarrow> ('s \<Rightarrow> Resolver) \<Rightarrow> (ctx \<Rightarrow> err option) \<Rightarrow> 's \<Rightarrow> err option \<times> 's" where
  "publishLocked z st ctx orig refs reached lfsPointers repack get authorize s =
     (let ops = st_objects st; repositoryID = md_ID (sn_metadata orig) in
      case LoadState ops ctx repositoryID s of Inl e \<Rightarrow> (Some e, s) | Inr (_, currentVersion) \<Rightarrow>
      if currentVersion \<noteq> sn_version orig then (Some RepoErrConflict, s)
      else (case validateLFSPointers st ctx repositoryID lfsPointers s of Some e \<Rightarrow> (Some e, s) | None \<Rightarrow>
     (let ids = newIDs repack (manifestObjects (sn_manifest orig)) reached in
      case (if ids = [] then (Inr reached, s) else storePack z st ctx repositoryID ids (get s) reached s) of
        (Inl e, s) \<Rightarrow> (Some e, s)
      | (Inr objs, s) \<Rightarrow>
     (case snapshotKeyOf ops ctx repositoryID ''refs'' (refsJson \<lparr>rs_Schema = 1, rs_Refs = Some refs\<rparr>) s of
        (Inl e, s) \<Rightarrow> (Some e, s)
      | (Inr refsKey, s) \<Rightarrow>
     (case snapshotKeyOf ops ctx repositoryID ''manifest'' (manifestJson \<lparr>mf_Schema = 2, mf_ObjectFormat = ''sha1'', mf_Objects = Some objs,
          mf_LFS = Some \<lparr>lfs_Version = 1, lfs_Objects = Some lfsPointers\<rparr>\<rparr>) s of
        (Inl e, s) \<Rightarrow> (Some e, s)
      | (Inr manifestKey, s) \<Rightarrow>
     (case ctx_Err ctx of Some e \<Rightarrow> (Some e, s) | None \<Rightarrow>
     (case authorize ctx of Some _ \<Rightarrow> (Some RepoErrForbidden, s) | None \<Rightarrow>
     (case CompareAndSwapState ops ctx repositoryID (sn_version orig) (nextState (sn_state orig) refsKey manifestKey) s of
        (Some e, s) \<Rightarrow>
          (Some (if errors_Is e ErrPreconditionFailed \<or> errors_Is e ErrConditionalConflict then RepoErrConflict else e), s)
      | (None, s) \<Rightarrow> (None, s)))))))))"

text \<open>What a publication takes from its environment: the random bytes and the time of the lock, and the context of the release.\<close>

record lockInputs =
  li_random :: bytes
  li_now :: Time
  li_release :: ctx

definition publishObjects :: "zlib \<Rightarrow> 's Store \<Rightarrow> lockInputs \<Rightarrow> ctx \<Rightarrow> GitSnapshot option \<Rightarrow> RefUpdate list \<Rightarrow> infos \<Rightarrow> unit gitGetter
    \<Rightarrow> bool \<Rightarrow> (ctx \<Rightarrow> err option) option \<Rightarrow> 's \<Rightarrow> err option \<times> 's" where
  "publishObjects z st li ctx base updates incoming getIncoming repack authorize s =
     (case authorize of None \<Rightarrow> (Some RepoErrForbidden, s) | Some auth \<Rightarrow>
     (case applyRefUpdates base updates repack of Inl e \<Rightarrow> (Some e, s) | Inr refs \<Rightarrow>
     (case base of None \<Rightarrow> (Some RepoErrInvalid, s) | Some snap \<Rightarrow>
     (let orig = gs_original snap; repositoryID = md_ID (sn_metadata orig) in
      if Generation (sn_state orig) = - 1 then (Some RepoErrLimit, s)
      else if length incoming > MaxGitObjects then (Some RepoErrLimit, s)
      else (case OpenGit base of Inl e \<Rightarrow> (Some e, s) | Inr r \<Rightarrow>
     (case prefetch st ctx (\<lambda>_ info. oi_Type info \<noteq> ''blob'' \<or> oi_Size info \<le> int maxLFSPointerBytes) r s of (Some e, _) \<Rightarrow> (Some e, s) | (None, r) \<Rightarrow>
     (case mergeIncoming incoming (manifestObjects (sn_manifest orig)) of Inl e \<Rightarrow> (Some e, s) | Inr infos \<Rightarrow>
     (let get = publishGet z st s incoming getIncoming in
     (case walkObjects ctx refs infos get r of (Inl e, _) \<Rightarrow> (Some e, s) | (Inr reached, r) \<Rightarrow>
     (case collectLFSPointers ctx reached get r of (Inl e, _) \<Rightarrow> (Some e, s) | (Inr lfsPointers, r) \<Rightarrow>
     (case lockRepository st ctx (li_random li) (li_now li) repositoryID s of (Inl e, s) \<Rightarrow> (Some e, s) | (Inr held, s) \<Rightarrow>
     (let (e, s) = publishLocked z st ctx orig refs reached lfsPointers repack
            (\<lambda>s ctx ident. fst (publishGet z st s incoming getIncoming ctx ident r)) auth s;
          (u, s) = unlockRepository st (li_release li) repositoryID held s
      in (joinErr e u, s)))))))))))))"

definition workspaceInfos :: "Workspace option \<Rightarrow> infos result" where
  "workspaceInfos incoming =
     (case incoming of
        None \<Rightarrow> Inr []
      | Some w \<Rightarrow>
          fold (\<lambda>ident res. rbind res (\<lambda>infos.
            case Info w ident of
              None \<Rightarrow> Inl RepoErrInvalid
            | Some entry \<Rightarrow> Inr (al_put ident (zeroInfo\<lparr>oi_Type := EntryType entry, oi_Size := EntrySize entry, oi_SHA256 := EntrySHA256 entry\<rparr>) infos)))
            (IDs w) (Inr []))"

definition PublishPack :: "zlib \<Rightarrow> 's Store \<Rightarrow> lockInputs \<Rightarrow> ctx \<Rightarrow> GitSnapshot option \<Rightarrow> RefUpdate list \<Rightarrow> Workspace option
    \<Rightarrow> (ctx \<Rightarrow> err option) option \<Rightarrow> 's \<Rightarrow> err option \<times> 's" where
  "PublishPack z st li ctx base updates incoming authorize s =
     (case workspaceInfos incoming of
        Inl e \<Rightarrow> (Some e, s)
      | Inr infos \<Rightarrow> publishObjects z st li ctx base updates infos (workspaceGetter incoming) False authorize s)"

definition PublishGit :: "zlib \<Rightarrow> 's Store \<Rightarrow> lockInputs \<Rightarrow> ctx \<Rightarrow> GitSnapshot option \<Rightarrow> RefUpdate list \<Rightarrow> (string \<times> GitObject) list
    \<Rightarrow> (ctx \<Rightarrow> err option) option \<Rightarrow> 's \<Rightarrow> err option \<times> 's" where
  "PublishGit z st li ctx base updates incoming authorize s =
     (if \<not> list_all (\<lambda>(ident, object). \<not> (int (length (ObjectData object)) > MaxGitObjectBytes \<or> GitObjectID object \<noteq> ident)) incoming
      then (Some RepoErrInvalid, s)
      else publishObjects z st li ctx base updates (objectInfos incoming) (incomingGetter incoming) False authorize s)"

section \<open>Reading a generation for transport\<close>

fun boundedSum :: "int \<Rightarrow> infos \<Rightarrow> int \<Rightarrow> bool" where
  "boundedSum limit [] tot = True"
| "boundedSum limit ((_, info) # rest) tot = (let tot = int64 (tot + oi_Size info) in if tot > limit then False else boundedSum limit rest tot)"

definition ReadGitReferences :: "'s Store \<Rightarrow> ctx \<Rightarrow> string \<Rightarrow> string \<Rightarrow> 's \<Rightarrow> GitSnapshot result" where
  "ReadGitReferences st ctx namespace name s =
     rbind (load st ctx namespace name s) (\<lambda>snap.
     let infos = manifestObjects (sn_manifest snap) in
     if infos \<noteq> [] \<and> ctx_Err ctx \<noteq> None then Inl (the (ctx_Err ctx))
     else if \<not> boundedSum MaxGitBytes infos 0 then Inl RepoErrLimit
     else Inr \<lparr>gs_DefaultBranch = md_DefaultBranch (sn_metadata snap),
       gs_References = (case rs_Refs (sn_refs snap) of None \<Rightarrow> [] | Some refs \<Rightarrow> refs), gs_Objects = [], gs_original = snap, gs_available = None\<rparr>)"

fun loadObjects :: "zlib \<Rightarrow> 's Store \<Rightarrow> ctx \<Rightarrow> snapshot \<Rightarrow> infos \<Rightarrow> 's \<Rightarrow> (string \<times> GitObject) list \<Rightarrow> (string \<times> GitObject) list result" where
  "loadObjects z st ctx snap [] s objs = Inr objs"
| "loadObjects z st ctx snap ((ident, info) # rest) s objs =
     (case cachedObject z st ctx snap ident (oi_Type info) s of
        Inl e \<Rightarrow> Inl e
      | Inr b \<Rightarrow> loadObjects z st ctx snap rest s (al_put ident \<lparr>ObjectType = oi_Type info, ObjectData = b\<rparr> objs))"

definition LoadGitObjects :: "zlib \<Rightarrow> 's Store \<Rightarrow> ctx \<Rightarrow> GitSnapshot option \<Rightarrow> 's \<Rightarrow> GitSnapshot result" where
  "LoadGitObjects z st ctx base s =
     (case base of None \<Rightarrow> Inl RepoErrInvalid | Some base \<Rightarrow>
      (let snap = gs_original base; infos = manifestObjects (sn_manifest snap);
           refs = (case rs_Refs (sn_refs snap) of None \<Rightarrow> [] | Some refs \<Rightarrow> refs) in
      if \<not> idPattern (md_ID (sn_metadata snap)) \<or> sn_version snap = [] then Inl RepoErrInvalid
      else if \<not> boundedSum 67108864 infos 0 then Inl RepoErrLimit
      else rbind (loadObjects z st ctx snap infos s []) (\<lambda>objs.
        case ReachableGit ctx refs objs of
          Inl _ \<Rightarrow> Inl RepoErrCorrupt
        | Inr reached \<Rightarrow> Inr \<lparr>gs_DefaultBranch = md_DefaultBranch (sn_metadata snap), gs_References = refs, gs_Objects = reached,
            gs_original = snap, gs_available = None\<rparr>)))"

definition ReadGit :: "zlib \<Rightarrow> 's Store \<Rightarrow> ctx \<Rightarrow> string \<Rightarrow> string \<Rightarrow> 's \<Rightarrow> GitSnapshot result" where
  "ReadGit z st ctx namespace name s =
     rbind (ReadGitReferences st ctx namespace name s) (\<lambda>base. LoadGitObjects z st ctx (Some base) s)"

definition Repack :: "zlib \<Rightarrow> 's Store \<Rightarrow> lockInputs \<Rightarrow> ctx \<Rightarrow> string \<Rightarrow> string \<Rightarrow> 's \<Rightarrow> err option \<times> 's" where
  "Repack z st li ctx namespace name s =
     (case ReadGitReferences st ctx namespace name s of
        Inl e \<Rightarrow> (Some e, s)
      | Inr base \<Rightarrow> publishObjects z st li ctx (Some base) [] [] (\<lambda>_ _ u. (Inl RepoErrNotFound, u)) True (Some (\<lambda>_. None)) s)"

end
