(* ===== verification/PublishArtifacts.thy ===== *)
theory PublishArtifacts
  imports GenerationPublish
begin

text \<open>
  What a publication stores: the objects it takes from the push and from the old generation, the new pack, and the immutable snapshots. A refused
  publication adds artifacts only; a successful one has stored everything its state refers to.
\<close>

section \<open>The content of a publication\<close>

definition publishContent :: "zlib \<Rightarrow> 's Store \<Rightarrow> snapshot \<Rightarrow> infos \<Rightarrow> (string \<Rightarrow> GitObject option) \<Rightarrow> 's \<Rightarrow> string \<Rightarrow> GitObject option" where
  "publishContent z st snap incoming contentIn s ident =
     (if map_of incoming ident \<noteq> None then contentIn ident else readerContent z st snap s ident)"

context sized_store
begin

lemma publish_source:
  assumes "st_objects st = ops" "inv s" "object_source getIn (\<lambda>_. True) contentIn"
  shows "object_source (publishGet z st s incoming getIn) (reader_ready z st contents snap s) (publishContent z st snap incoming contentIn s)"
proof
  note src = reader_source [OF assms(1,2), of z snap]
  fix r ctx ident res r'
  assume r: "reader_ready z st contents snap s r" and g: "publishGet z st s incoming getIn ctx ident r = (res, r')"
  then show "reader_ready z st contents snap s r'"
    using object_source.get_ready [OF src] by (auto simp: publishGet_def split: if_splits)
next
  note src = reader_source [OF assms(1,2), of z snap]
  fix r ctx ident object r'
  assume r: "reader_ready z st contents snap s r" and g: "publishGet z st s incoming getIn ctx ident r = (Inr object, r')"
  show "publishContent z st snap incoming contentIn s ident = Some object"
  proof (cases "map_of incoming ident = None")
    case True
    then show ?thesis using g object_source.get_content [OF src r] by (auto simp: publishGet_def publishContent_def)
  next
    case False
    then have "getIn ctx ident () = (Inr object, ())" using g by (cases "getIn ctx ident ()") (auto simp: publishGet_def)
    then show ?thesis using object_source.get_content [OF assms(3) TrueI] False by (auto simp: publishContent_def)
  qed
next
  note src = reader_source [OF assms(1,2), of z snap]
  fix r ident object
  assume r: "reader_ready z st contents snap s r" and c: "publishContent z st snap incoming contentIn s ident = Some object"
  show "\<exists>r'. publishGet z st s incoming getIn Background ident r = (Inr object, r')"
  proof (cases "map_of incoming ident = None")
    case True
    then show ?thesis using c object_source.get_succeeds [OF src r] by (auto simp: publishGet_def publishContent_def)
  next
    case False
    then obtain u where "getIn Background ident () = (Inr object, u)"
      using c object_source.get_succeeds [OF assms(3) TrueI] by (auto simp: publishContent_def)
    then show ?thesis using False by (auto simp: publishGet_def)
  qed
qed

end

lemma mergeIncoming_Inr:
  assumes "mergeIncoming incoming known = Inr infos" "al_wf known" "al_wf incoming"
  shows "al_wf infos \<and> (\<forall>ident. map_of known ident \<noteq> None \<longrightarrow> map_of infos ident = map_of known ident) \<and>
    (\<forall>ident. map_of known ident = None \<longrightarrow> map_of infos ident = map_of incoming ident) \<and>
    (\<forall>ident a b. map_of known ident = Some a \<longrightarrow> map_of incoming ident = Some b \<longrightarrow> oi_Type a = oi_Type b \<and> oi_Size a = oi_Size b \<and> oi_SHA256 a = oi_SHA256 b) \<and>
    (\<forall>(ident, info) \<in> set incoming. objectIDPattern ident \<and> 0 \<le> oi_Size info \<and> oi_Size info \<le> MaxGitObjectBytes)"
  using assms
proof (induction incoming known rule: mergeIncoming.induct)
  case (2 ident info rest known)
  have guard: "objectIDPattern ident" "0 \<le> oi_Size info" "oi_Size info \<le> MaxGitObjectBytes" using "2.prems"(1) by (auto split: if_splits)
  have rest: "al_wf rest" "map_of rest ident = None" using "2.prems"(3) by (auto simp: al_wf_def map_of_eq_None_iff)
  show ?case
  proof (cases "map_of known ident")
    case None
    then have run: "mergeIncoming rest (al_put ident info known) = Inr infos" using "2.prems"(1) guard by simp
    note ih = "2.IH"(1) [OF _ None run al_wf_put [OF "2.prems"(2)] rest(1)]
    have i: "al_wf infos" "\<forall>k. map_of (al_put ident info known) k \<noteq> None \<longrightarrow> map_of infos k = map_of (al_put ident info known) k"
      "\<forall>k. map_of (al_put ident info known) k = None \<longrightarrow> map_of infos k = map_of rest k"
      "\<forall>k a b. map_of (al_put ident info known) k = Some a \<longrightarrow> map_of rest k = Some b \<longrightarrow> oi_Type a = oi_Type b \<and> oi_Size a = oi_Size b \<and> oi_SHA256 a = oi_SHA256 b"
      "\<forall>(ident, info) \<in> set rest. objectIDPattern ident \<and> 0 \<le> oi_Size info \<and> oi_Size info \<le> MaxGitObjectBytes"
      using ih guard by simp_all
    have "map_of infos k = map_of ((ident, info) # rest) k" if "map_of known k = None" for k using i(2,3) that by (cases "k = ident") auto
    moreover have "map_of infos k = map_of known k" if "map_of known k \<noteq> None" for k using i(2) that None by (cases "k = ident") auto
    moreover have "oi_Type a = oi_Type b \<and> oi_Size a = oi_Size b \<and> oi_SHA256 a = oi_SHA256 b"
      if "map_of known k = Some a" "map_of ((ident, info) # rest) k = Some b" for k a b
    proof -
      have "k \<noteq> ident" using that(1) None by auto
      then show ?thesis using i(4) [rule_format, of k a b] that by simp
    qed
    ultimately show ?thesis using i(1,5) guard by auto
  next
    case (Some prior)
    then have same: "oi_Type prior = oi_Type info" "oi_Size prior = oi_Size info" "oi_SHA256 prior = oi_SHA256 info"
      and run: "mergeIncoming rest known = Inr infos" using "2.prems"(1) guard by (auto split: if_splits)
    note ih = "2.IH"(2) [OF _ Some _ run "2.prems"(2) rest(1)]
    have i1: "al_wf infos" and i2: "map_of known k \<noteq> None \<Longrightarrow> map_of infos k = map_of known k"
      and i3: "map_of known k = None \<Longrightarrow> map_of infos k = map_of rest k"
      and i4: "map_of known k = Some a \<Longrightarrow> map_of rest k = Some b \<Longrightarrow> oi_Type a = oi_Type b \<and> oi_Size a = oi_Size b \<and> oi_SHA256 a = oi_SHA256 b"
      and i5: "\<forall>(ident, info) \<in> set rest. objectIDPattern ident \<and> 0 \<le> oi_Size info \<and> oi_Size info \<le> MaxGitObjectBytes" for k a b
      using ih guard same by auto
    have "map_of infos k = map_of ((ident, info) # rest) k" if "map_of known k = None" for k using i3 [OF that] that Some by auto
    moreover have "oi_Type a = oi_Type b \<and> oi_Size a = oi_Size b \<and> oi_SHA256 a = oi_SHA256 b"
      if "map_of known k = Some a" "map_of ((ident, info) # rest) k = Some b" for k a b using that i4 [OF that(1)] Some same by (auto split: if_splits)
    ultimately show ?thesis using i1 i2 i5 guard by auto
  qed
qed simp

lemma writeObject_cong: "f ctx ident = g ctx ident \<Longrightarrow> writeObject z ctx sink f lim ident tot w = writeObject z ctx sink g lim ident tot w"
  by (cases "ctx_Err ctx") (simp_all add: writeObject_def)

lemma writeObjects_cong:
  "\<forall>ident \<in> set ids. f ctx ident = g ctx ident \<Longrightarrow> writeObjects z ctx sink f lim ids tot w = writeObjects z ctx sink g lim ids tot w"
proof (induction ids arbitrary: tot w)
  case (Cons ident ids)
  then have "writeObject z ctx sink f lim ident tot w = writeObject z ctx sink g lim ident tot w" by (intro writeObject_cong) simp
  then show ?case using Cons by (auto split: prod.splits sum.splits)
qed simp

lemma Write_cong:
  assumes "\<forall>ident \<in> set ids. f ctx ident = g ctx ident"
  shows "Write z ctx sink ids (Some f) lim = Write z ctx sink ids (Some g) lim"
proof -
  have eq: "writeObjects z ctx sink f lim (sort ids) = writeObjects z ctx sink g lim (sort ids)"
    using assms by (intro ext writeObjects_cong) simp
  show ?thesis by (simp only: Write_def option.case eq option.distinct simp_thms)
qed

section \<open>A store that differs in the lock only\<close>

lemma packPath_lock: "validObjectInfo ident info \<Longrightarrow> oi_PackKey info \<noteq> [] \<Longrightarrow> ''repos/'' @ i @ ''/'' @ oi_PackKey info \<noteq> maintenanceLockKey i"
  by (auto simp: validObjectInfo_def Let_def maintenanceLockKey_def)

lemma objectKey_lock: "objectKey i ident \<noteq> maintenanceLockKey i"
  by (simp add: objectKey_def maintenanceLockKey_def)

lemma stored_at_same:
  assumes "validObjectInfo ident info" "\<And>k. k \<noteq> maintenanceLockKey i \<Longrightarrow> view s' k = view s k"
  shows "stored_at z view s' i ident info b = stored_at z view s i ident info b"
  using assms(2) packPath_lock [OF assms(1)] objectKey_lock by (simp add: stored_at_def)

context sized_store
begin

lemma cachedObject_same:
  assumes "st_objects st = ops" "inv s" "inv s'" "\<And>k. k \<noteq> maintenanceLockKey (md_ID (sn_metadata snap)) \<Longrightarrow> contents s' k = contents s k"
    "cachedObject z st ctx snap ident kind s = Inr b"
  shows "cachedObject z st Background snap ident kind s' = Inr b"
proof -
  obtain info where info: "map_of (manifestObjects (sn_manifest snap)) ident = Some info" "validObjectInfo ident info" "oi_Type info = kind"
    "matches_info ident info b" "stored_at z contents s (md_ID (sn_metadata snap)) ident info b" using cachedObject_Inr [OF assms(1,2,5)] by blast
  have "stored_at z contents s' (md_ID (sn_metadata snap)) ident info b" using stored_at_same [OF info(2), of "md_ID (sn_metadata snap)" contents s' s] assms(4) info(5) by blast
  then show ?thesis using cachedObject_stored [OF assms(1,3) info(1,2,4)] info(3) by simp
qed

lemma readerContent_same:
  assumes "st_objects st = ops" "inv s" "inv s'" "\<And>k. k \<noteq> maintenanceLockKey (md_ID (sn_metadata snap)) \<Longrightarrow> contents s' k = contents s k"
  shows "readerContent z st snap s' = readerContent z st snap s"
proof
  fix ident
  have "cachedObject z st Background snap ident kind s' = Inr b \<longleftrightarrow> cachedObject z st Background snap ident kind s = Inr b" for kind b
    using cachedObject_same [where snap = snap, OF assms] cachedObject_same [where snap = snap, OF assms(1,3,2) assms(4) [symmetric]] by blast
  then have "readerContent z st snap s' ident = Some object \<longleftrightarrow> readerContent z st snap s ident = Some object" for object
    by (simp add: readerContent_Some)
  then show "readerContent z st snap s' ident = readerContent z st snap s ident" by (metis not_Some_eq)
qed

lemma readerContent_grown:
  assumes "st_objects st = ops" "inv s" "inv s'" "contents s \<subseteq>\<^sub>m contents s'" "readerContent z st snap s ident = Some object"
  shows "readerContent z st snap s' ident = Some object"
  using assms(5) cachedObject_grown [OF assms(1-4)] by (auto simp: readerContent_Some)

lemma reader_ready_grown:
  assumes "st_objects st = ops" "inv s" "inv s'" "contents s \<subseteq>\<^sub>m contents s'" "reader_ready z st contents snap s r"
  shows "reader_ready z st contents snap s' r"
proof -
  have keep: "contents s' k = Some x" if "contents s k = Some x" for k x using assms(4) that by (force simp: map_le_def dom_def)
  show ?thesis unfolding reader_ready_def
  proof (intro conjI allI impI)
    fix ident object assume "map_of (gr_metadata r) ident = Some object"
    then show "readerContent z st snap s' ident = Some object"
      using assms(5) readerContent_grown [OF assms(1-4)] by (simp add: reader_ready_def)
  next
    fix relative pack assume "map_of (gr_cached r) relative = Some (Some pack)"
    then obtain v where "contents s (packPath snap relative) = Some (pack, v)" using assms(5) unfolding reader_ready_def by blast
    then show "\<exists>v. contents s' (packPath snap relative) = Some (pack, v)" using keep by blast
  qed (use assms(5) in \<open>simp_all add: reader_ready_def\<close>)
qed

end

section \<open>The new pack\<close>

text \<open>
  What is used of \<^verbatim>\<open>compress/zlib\<close> besides \<open>zlib_law\<close>: incompressible input grows by a small amount only (stored blocks cost five bytes per
  64 KiB), so that the compressed form of the largest object stays within the allowance of a manifest entry.
\<close>

definition zlib_bound :: "zlib \<Rightarrow> bool" where
  "zlib_bound z \<longleftrightarrow> (\<forall>d. int (length d) \<le> MaxGitObjectBytes \<longrightarrow> int (length (concat (zl_write z d))) \<le> int (length d) + 524288)"

lemma length_encodeHeaderLoop: "sz < 128 ^ k \<Longrightarrow> length (encodeHeaderLoop b sz) \<le> Suc k"
proof (induction k arbitrary: b sz)
  case (Suc k)
  have "sz div 128 < 128 ^ k" if "0 < sz" using Suc.prems that by (simp add: div_less_iff_less_mult mult.commute)
  then show ?case using Suc.IH [of "sz div 128"] by (subst encodeHeaderLoop.simps) simp
qed (subst encodeHeaderLoop.simps, simp)

lemma length_packedObject:
  assumes "zlib_bound z" "sizeOf o1 \<le> MaxGitObjectBytes"
  shows "int (length (packedObject z o1)) \<le> MaxGitObjectBytes + 1048576" "0 < length (packedObject z o1)"
proof -
  have "sizeOf o1 div 16 < 128 ^ 3" using assms(2) by (simp add: repository_limits)
  then have "length (encodeHeader (typeCode (ObjectType o1)) (sizeOf o1)) \<le> 4"
    using length_encodeHeaderLoop [of "sizeOf o1 div 16" 3] by (simp add: encodeHeader_def)
  moreover have "int (length (concat (zl_write z (ObjectData o1)))) \<le> sizeOf o1 + 524288" using assms by (simp add: zlib_bound_def sizeOf_def)
  ultimately show "int (length (packedObject z o1)) \<le> MaxGitObjectBytes + 1048576" using assms(2) by (simp add: packedObject_def sizeOf_def)
  have "encodeHeader k n \<noteq> []" for k n unfolding encodeHeader_def by (subst encodeHeaderLoop.simps) simp
  then show "0 < length (packedObject z o1)" by (simp add: packedObject_def)
qed

lemma fold_put:
  "EntryID ` set es \<inter> {ident} = {} \<Longrightarrow> map_of (fold (\<lambda>e objs. al_put (EntryID e) (f e) objs) es objs) ident = map_of objs ident"
  "distinct (map EntryID es) \<Longrightarrow> e \<in> set es \<Longrightarrow> map_of (fold (\<lambda>e objs. al_put (EntryID e) (f e) objs) es objs) (EntryID e) = Some (f e)"
  "al_wf objs \<Longrightarrow> al_wf (fold (\<lambda>e objs. al_put (EntryID e) (f e) objs) es objs)"
proof -
  show out: "EntryID ` set es \<inter> {ident} = {} \<Longrightarrow> map_of (fold (\<lambda>e objs. al_put (EntryID e) (f e) objs) es objs) ident = map_of objs ident" for es objs ident
    by (induction es arbitrary: objs) auto
  show "distinct (map EntryID es) \<Longrightarrow> e \<in> set es \<Longrightarrow> map_of (fold (\<lambda>e objs. al_put (EntryID e) (f e) objs) es objs) (EntryID e) = Some (f e)"
  proof (induction es arbitrary: objs)
    case (Cons e1 es)
    show ?case
    proof (cases "e = e1")
      case True
      then show ?thesis using Cons.prems out [of es "EntryID e"] by auto
    next
      case False
      then show ?thesis using Cons by simp
    qed
  qed simp
  show "al_wf objs \<Longrightarrow> al_wf (fold (\<lambda>e objs. al_put (EntryID e) (f e) objs) es objs)"
    by (induction es arbitrary: objs) auto
qed

lemma packKey_digest: "TrimSuffix (TrimPrefix (packKey pack) ''packs/'') ''.pack'' = EncodeToString (Sum256 pack)" "digestPattern (EncodeToString (Sum256 pack))"
proof -
  have "HasSuffix (EncodeToString (Sum256 pack) @ ''.pack'') ''.pack''" by (simp only: suffix_def) blast
  then show "TrimSuffix (TrimPrefix (packKey pack) ''packs/'') ''.pack'' = EncodeToString (Sum256 pack)"
    by (simp add: packKey_def TrimPrefix_def TrimSuffix_def)
  show "digestPattern (EncodeToString (Sum256 pack))" using lowerHex_EncodeToString [of "Sum256 pack" 32] by (simp add: digestPattern_def)
qed

text \<open>Every entry of a written pack is valid, and its range holds the object.\<close>

lemma written_entry:
  assumes "zlib_law z" "zlib_bound z" "\<forall>o1 \<in> set os. writable PackLimits o1" "e \<in> set (entriesFrom z 12 os)"
    "pack = packStreamOf z os @ Sum1 (packStreamOf z os)" "int (length pack) \<le> RepositoryRules.MaxPackBytes"
  shows "\<exists>o1 \<in> set os. EntryID e = idOf o1 \<and> validObjectInfo (idOf o1) (packInfo (packKey pack) e) \<and> oi_Type (packInfo (packKey pack) e) = ObjectType o1 \<and>
    matches_info (idOf o1) (packInfo (packKey pack) e) (ObjectData o1) \<and> oi_Offset (packInfo (packKey pack) e) < int (length pack) \<and>
    DecodeEntry z Background (take (nat (oi_Length (packInfo (packKey pack) e))) (drop (nat (oi_Offset (packInfo (packKey pack) e))) pack))
      (packEntry (idOf o1) (packInfo (packKey pack) e)) MaxGitObjectBytes = Inr o1"
proof -
  obtain o1 pre post where o1: "o1 \<in> set os" "concat (map (packedObject z) os) = pre @ packedObject z o1 @ post" "e = entryAt z (12 + length pre) o1"
    using entriesFrom_member [OF assms(4)] by metis
  have w: "typeCode (ObjectType o1) \<noteq> 0" "sizeOf o1 \<le> MaxGitObjectBytes" using assms(3) o1(1) by (auto simp: writable_def PackLimits_def)
  have hl: "length (packHeader n) = 12" for n by (simp add: packHeader_def bytes_of_def bytes32_def)
  have f: "pack = (packHeader (length os) @ pre) @ packedObject z o1 @ post @ Sum1 (packStreamOf z os)"
    using assms(5) o1(2) by (simp add: packStreamOf_def)
  note len = length_packedObject [OF assms(2) w(2)]
  have flen: "length pack = 12 + length pre + length (packedObject z o1) + length post + 20" unfolding f by (simp add: hl)
  have range: "take (length (packedObject z o1)) (drop (12 + length pre) pack) = packedObject z o1"
  proof -
    have "12 + length pre = length (packHeader (length os) @ pre)" by (simp add: hl)
    then show ?thesis unfolding f by (simp only: append_eq_conv_conj drop_append) simp
  qed
  have e: "EntryID e = idOf o1" "EntryType e = ObjectType o1" "EntrySize e = sizeOf o1" "EntrySHA256 e = objectSHA256 (ObjectType o1) (ObjectData o1)"
    "EntryOffset e = int (12 + length pre)" "EntryLength e = int (length (packedObject z o1))"
    using o1(3) by (simp_all add: entryAt_def objectEntry_def idOf_def sizeOf_def)
  have pe: "packEntry (idOf o1) (packInfo (packKey pack) e) = e" unfolding packEntry_def packInfo_def using e(1) by simp
  have dec: "DecodeEntry z Background (packedObject z o1) e MaxGitObjectBytes = Inr o1"
    unfolding o1(3) using assms(1) w len by (intro DecodeEntry_packed) (auto simp: MaxInt64_def repository_limits)
  have ty: "ObjectType o1 = ''blob'' \<or> ObjectType o1 = ''tree'' \<or> ObjectType o1 = ''commit'' \<or> ObjectType o1 = ''tag''"
    using w(1) by (auto simp: typeCode_def split: if_splits)
  have "objectIDPattern (idOf o1)" "digestPattern (EntrySHA256 e)"
    using lowerHex_EncodeToString [of "Sum1 b" 20 for b] lowerHex_EncodeToString [of "Sum256 b" 32 for b]
    by (simp_all add: objectIDPattern_def digestPattern_def idOf_def objectID_def e objectSHA256_def)
  then have "validObjectInfo (idOf o1) (packInfo (packKey pack) e)"
    using ty w(2) e len flen assms(6) packKey_digest [of pack]
    by (auto simp: validObjectInfo_def packInfo_def Let_def packKey_def [of pack] sizeOf_def)
  moreover have "matches_info (idOf o1) (packInfo (packKey pack) e) (ObjectData o1)" by (simp add: matches_info_def packInfo_def e idOf_def sizeOf_def)
  moreover have "int (12 + length pre) < int (length pack)" using flen by simp
  moreover have off: "oi_Offset (packInfo (packKey pack) e) = int (12 + length pre)" "oi_Length (packInfo (packKey pack) e) = int (length (packedObject z o1))"
    "oi_Type (packInfo (packKey pack) e) = ObjectType o1" by (simp_all add: packInfo_def e)
  moreover have "DecodeEntry z Background (take (nat (oi_Length (packInfo (packKey pack) e))) (drop (nat (oi_Offset (packInfo (packKey pack) e))) pack))
      (packEntry (idOf o1) (packInfo (packKey pack) e)) MaxGitObjectBytes = Inr o1"
    unfolding pe off nat_int range by (rule dec)
  ultimately show ?thesis using o1(1) e(1) by (intro bexI [of _ o1]) simp_all
qed

context sized_store
begin

lemma storePack_ok:
  assumes "st_objects st = ops" "inv s" "room (Suc n) s" "zlib_law z" "zlib_bound z"
    and run: "storePack z st ctx i ids get objs s = (Inr objs', s')"
    and collide: "\<forall>es pack c v. Write z ctx fullSink ids (Some get) PackLimits = (Inr es, pack) \<longrightarrow>
      contents s (''repos/'' @ i @ ''/'' @ packKey pack) = Some (c, v) \<longrightarrow> c = pack"
  shows "inv s' \<and> room n s' \<and> contents s \<subseteq>\<^sub>m contents s' \<and> (\<forall>k. \<not> (\<exists>pack. k = ''repos/'' @ i @ ''/'' @ packKey pack) \<longrightarrow> contents s' k = contents s k) \<and>
    ctx = Background \<and> (al_wf objs \<longrightarrow> al_wf objs') \<and> (\<forall>ident. ident \<notin> set ids \<longrightarrow> map_of objs' ident = map_of objs ident) \<and>
    (\<forall>ident \<in> set ids. \<exists>object info. get Background ident = Inr object \<and> map_of objs' ident = Some info \<and> validObjectInfo ident info \<and> oi_PackKey info \<noteq> [] \<and>
       oi_Type info = ObjectType object \<and> matches_info ident info (ObjectData object) \<and> stored_at z contents s' i ident info (ObjectData object))"
proof -
  obtain es pack where w: "Write z ctx fullSink ids (Some get) PackLimits = (Inr es, pack)"
    using run by (auto simp: storePack_def split: prod.splits sum.splits)
  obtain os where os: "ctx_Err ctx = None" "map (get ctx) (sort ids) = map Inr os" "map idOf os = sort ids" "distinct ids" "\<forall>o1 \<in> set os. writable PackLimits o1"
    "pack = packStreamOf z os @ Sum1 (packStreamOf z os)" "int (length pack) \<le> RepositoryRules.MaxPackBytes" "es = entriesFrom z 12 os"
    using w by (rule Write_done) (auto simp: PackLimits_def)
  have bg: "ctx = Background" using os(1) by (cases ctx) simp_all
  let ?key = "''repos/'' @ i @ ''/'' @ packKey pack"
  define filled where "filled = fold (\<lambda>entry objs. al_put (EntryID entry) (packInfo (packKey pack) entry) objs) es objs"
  obtain e s1 where put: "PutImmutable ops ctx ?key (Some (bytes_NewReader pack)) (int (length pack)) s = (e, s1)" by force
  note ok = PutImmutable_ok [OF assms(2,3) put]
  have stored: "s' = s1 \<and> objs' = filled \<and> (\<exists>v. contents s' ?key = Some (pack, v))"
  proof (cases e)
    case None
    then show ?thesis using run assms(1) w put ok by (auto simp: storePack_def filled_def Let_def)
  next
    case (Some x)
    then have s1: "s1 = s" using ok by simp
    obtain body info where g: "os_Get ops ctx ?key s = Inr (body, info)" "s' = s1" "objs' = filled"
      using run assms(1) w put Some s1 os(1) by (auto simp: storePack_def filled_def Let_def split: if_splits sum.splits)
    have "contents s ?key = Some (body, InfoVersion info)" by (rule get_ok [OF assms(2) g(1)])
    then have "body = pack" using collide w by blast
    then show ?thesis using \<open>contents s ?key = Some (body, InfoVersion info)\<close> g s1 by auto
  qed
  have ids: "map EntryID es = sort ids" using os(3,8) by (simp add: entriesFrom_ids)
  then have idset: "EntryID ` set es = set ids" by (metis set_map set_sort)
  have dist: "distinct (map EntryID es)" using ids os(4) by simp
  have "\<exists>object info. get Background ident = Inr object \<and> map_of objs' ident = Some info \<and> validObjectInfo ident info \<and> oi_PackKey info \<noteq> [] \<and>
       oi_Type info = ObjectType object \<and> matches_info ident info (ObjectData object) \<and> stored_at z contents s' i ident info (ObjectData object)"
    if "ident \<in> set ids" for ident
  proof -
    have "ident \<in> EntryID ` set es" using \<open>ident \<in> set ids\<close> unfolding idset .
    then obtain entry where entry: "entry \<in> set es" "EntryID entry = ident" by (elim imageE) simp
    obtain o1 where o1: "o1 \<in> set os" "EntryID entry = idOf o1" "validObjectInfo (idOf o1) (packInfo (packKey pack) entry)"
      "oi_Type (packInfo (packKey pack) entry) = ObjectType o1" "matches_info (idOf o1) (packInfo (packKey pack) entry) (ObjectData o1)"
      "oi_Offset (packInfo (packKey pack) entry) < int (length pack)"
      "DecodeEntry z Background (take (nat (oi_Length (packInfo (packKey pack) entry))) (drop (nat (oi_Offset (packInfo (packKey pack) entry))) pack))
        (packEntry (idOf o1) (packInfo (packKey pack) entry)) MaxGitObjectBytes = Inr o1"
      using written_entry [OF assms(4,5) os(5) entry(1) [unfolded os(8)] os(6,7)] by blast
    obtain j where j: "j < length os" "o1 = os ! j" using o1(1) by (metis in_set_conv_nth)
    have get: "get Background ident = Inr o1" using os(2,3) j entry(2) o1(2) bg by (metis length_map nth_map)
    have key: "oi_PackKey (packInfo (packKey pack) entry) = packKey pack" by (simp add: packInfo_def)
    have o1eq: "\<lparr>ObjectType = oi_Type (packInfo (packKey pack) entry), ObjectData = ObjectData o1\<rparr> = o1" using o1(4) by simp
    have "stored_at z contents s' i ident (packInfo (packKey pack) entry) (ObjectData o1)"
      unfolding stored_at_def key o1eq using stored o1(2,6,7) entry(2) by auto
    moreover have "map_of objs' ident = Some (packInfo (packKey pack) entry)"
      using fold_put(2) [OF dist entry(1), of "packInfo (packKey pack)" objs] stored entry(2) by (simp add: filled_def)
    ultimately show ?thesis using get o1(3,4,5) key packKey_nonempty [of pack] unfolding o1(2) [symmetric] entry(2) by (intro exI conjI) simp_all
  qed
  moreover have "map_of objs' ident = map_of objs ident" if "ident \<notin> set ids" for ident
    using fold_put(1) [of es ident "packInfo (packKey pack)" objs] stored that idset by (simp add: filled_def)
  moreover have "al_wf objs \<longrightarrow> al_wf objs'" using fold_put(3) [of objs "packInfo (packKey pack)" es] stored by (simp add: filled_def)
  moreover have "contents s' k = contents s k" if "\<not> (\<exists>pack. k = ''repos/'' @ i @ ''/'' @ packKey pack)" for k
    using ok stored that by blast
  ultimately show ?thesis using ok stored bg by blast
qed

end

section \<open>What a publication does to the store\<close>

text \<open>Objects of one repository are added; its state, and whatever else existed, stays.\<close>

definition added :: "('s \<Rightarrow> string \<Rightarrow> (bytes \<times> Version) option) \<Rightarrow> string \<Rightarrow> 's \<Rightarrow> 's \<Rightarrow> bool" where
  "added view i s s' \<longleftrightarrow> grown view (repositoryPrefix i) s s' \<and> view s' (stateKey i) = view s (stateKey i)"

lemma added_refl [simp]: "added view i s s"
  by (simp add: added_def)

lemma added_trans: "added view i s t \<Longrightarrow> added view i t u \<Longrightarrow> added view i s u"
  unfolding added_def using grown_trans [of view "repositoryPrefix i" s t u] by simp

lemma added_one:
  assumes "view s \<subseteq>\<^sub>m view s'" "\<forall>k. k \<noteq> key \<longrightarrow> view s' k = view s k" "prefix (repositoryPrefix i) key" "key \<noteq> stateKey i"
  shows "added view i s s'"
  using assms by (auto simp: added_def grown_def)

lemma added_keys [simp]:
  "snapshotPath i kind v \<noteq> stateKey i" "''repos/'' @ i @ ''/'' @ packKey p \<noteq> stateKey i" "snapshotKey i state \<noteq> stateKey i"
  by (auto simp: snapshotPath_def snapshotName_def stateKey_def packKey_def snapshotKey_def marshalStateSnapshot_def Let_def)

context sized_store
begin

lemma storePack_added:
  assumes "st_objects st = ops" "inv s" "room (Suc n) s" "storePack z st ctx i ids get objs s = (r, s')"
  shows "inv s' \<and> room n s' \<and> added contents i s s'"
proof (cases "\<exists>es pack. Write z ctx fullSink ids (Some get) PackLimits = (Inr es, pack)")
  case False
  then have "s' = s" using assms(4) by (auto simp: storePack_def split: prod.splits sum.splits)
  then show ?thesis using assms(2) room_less [OF assms(3)] by simp
next
  case True
  then obtain es pack where w: "Write z ctx fullSink ids (Some get) PackLimits = (Inr es, pack)" by blast
  let ?key = "''repos/'' @ i @ ''/'' @ packKey pack"
  obtain e s1 where put: "PutImmutable ops ctx ?key (Some (bytes_NewReader pack)) (int (length pack)) s = (e, s1)" by force
  note ok = PutImmutable_ok [OF assms(2,3) put]
  have "s' = s1" using assms(1,4) w put by (cases e) (auto simp: storePack_def Let_def split: if_splits sum.splits option.splits)
  moreover have "added contents i s s1" by (rule added_one [OF _ _ under_repository(1) added_keys(2)]) (use ok in blast)+
  ultimately show ?thesis using ok by simp
qed

lemma snapshotKeyOf_added:
  assumes "inv s" "room (Suc n) s" "snapshotKeyOf ops ctx i kind v s = (r, s')"
  shows "inv s' \<and> room n s' \<and> added contents i s s'"
  using snapshotKeyOf_ok [OF assms] added_one [of contents s s' "snapshotPath i kind v" i] by simp

lemma refused_added:
  assumes "inv s" "room (Suc n) s" "CompareAndSwapState ops ctx i expected st s = (Some e, s')"
  shows "inv s' \<and> room n s' \<and> added contents i s s'"
proof -
  note ok = CompareAndSwapState_refused [OF assms]
  have "contents s \<subseteq>\<^sub>m contents s'" using ok by (auto simp: map_le_def)
  then show ?thesis using ok added_one [of contents s s' "snapshotKey i (withSchema st)" i] by simp
qed

text \<open>A refused publication adds artifacts at most.\<close>

lemma publishLocked_refused:
  assumes "st_objects st = ops" "inv s" "room (Suc (Suc (Suc (Suc (Suc n))))) s"
    and run: "publishLocked z st ctx orig refs reached lfs repack get auth s = (Some e, s')"
  shows "inv s' \<and> room n s' \<and> added contents (md_ID (sn_metadata orig)) s s'"
proof -
  let ?i = "md_ID (sn_metadata orig)"
  define ids where "ids = newIDs repack (manifestObjects (sn_manifest orig)) reached"
  have less: "room n t" if "room (Suc (Suc (Suc (Suc (Suc n))))) t" for t by (rule room_less [OF room_less [OF room_less [OF room_less [OF room_less [OF that]]]]])
  have less4: "room n t" if "room (Suc (Suc (Suc (Suc n)))) t" for t by (rule room_less [OF room_less [OF room_less [OF room_less [OF that]]]])
  have less3: "room n t" if "room (Suc (Suc (Suc n))) t" for t by (rule room_less [OF room_less [OF room_less [OF that]]])
  have less2: "room n t" if "room (Suc (Suc n)) t" for t by (rule room_less [OF room_less [OF that]])
  obtain r1 s1 where p1: "(if ids = [] then (Inr reached, s) else storePack z st ctx ?i ids (get s) reached s) = (r1, s1)" by force
  have a1: "inv s1 \<and> room (Suc (Suc (Suc (Suc n)))) s1 \<and> added contents ?i s s1"
    using p1 storePack_added [OF assms(1-3)] assms(2) room_less [OF assms(3)] by (auto split: if_splits)
  obtain r2 s2 where p2: "snapshotKeyOf ops ctx ?i ''refs'' (refsJson \<lparr>rs_Schema = 1, rs_Refs = Some refs\<rparr>) s1 = (r2, s2)" by force
  have a2: "inv s2 \<and> room (Suc (Suc (Suc n))) s2 \<and> added contents ?i s s2"
    using snapshotKeyOf_added [OF a1 [THEN conjunct1] a1 [THEN conjunct2, THEN conjunct1] p2] a1 added_trans [of contents ?i s s1 s2] by simp
  show ?thesis
  proof (cases r1)
    case (Inl x)
    then have "s' = s1 \<or> s' = s" using run assms(1) p1 unfolding ids_def
      by (auto simp: publishLocked_def Let_def split: sum.splits if_splits option.splits)
    then show ?thesis using a1 less4 assms(2) less [OF assms(3)] by auto
  next
    case 1: (Inr objs)
    obtain r3 s3 where p3: "snapshotKeyOf ops ctx ?i ''manifest'' (manifestJson \<lparr>mf_Schema = 2, mf_ObjectFormat = ''sha1'', mf_Objects = Some objs,
          mf_LFS = Some \<lparr>lfs_Version = 1, lfs_Objects = Some lfs\<rparr>\<rparr>) s2 = (r3, s3)" by force
    have a3: "inv s3 \<and> room (Suc (Suc n)) s3 \<and> added contents ?i s s3"
      using snapshotKeyOf_added [OF a2 [THEN conjunct1] a2 [THEN conjunct2, THEN conjunct1] p3] a2 added_trans [of contents ?i s s2 s3] by simp
    have "s' \<in> {s, s2, s3} \<or> (\<exists>state e. CompareAndSwapState ops ctx ?i (sn_version orig) state s3 = (Some e, s'))"
      using run assms(1) p1 p2 p3 1 unfolding ids_def
      by (auto simp: publishLocked_def Let_def split: sum.splits if_splits option.splits prod.splits)
    then show ?thesis
    proof
      assume "s' \<in> {s, s2, s3}"
      then show ?thesis using assms(2) less [OF assms(3)] a2 less3 a3 less2 by auto
    next
      assume "\<exists>state e. CompareAndSwapState ops ctx ?i (sn_version orig) state s3 = (Some e, s')"
      then obtain state e where c: "CompareAndSwapState ops ctx ?i (sn_version orig) state s3 = (Some e, s')" by blast
      have "inv s' \<and> room (Suc n) s' \<and> added contents ?i s3 s'" using refused_added [OF a3 [THEN conjunct1] a3 [THEN conjunct2, THEN conjunct1] c] .
      then show ?thesis using a3 added_trans [of contents ?i s s3 s'] room_less by simp
    qed
  qed
qed

end

definition newManifest :: "infos \<Rightarrow> (string \<times> int) list \<Rightarrow> objectManifest" where
  "newManifest objs lfs = \<lparr>mf_Schema = 2, mf_ObjectFormat = ''sha1'', mf_Objects = Some objs, mf_LFS = Some \<lparr>lfs_Version = 1, lfs_Objects = Some lfs\<rparr>\<rparr>"

definition newRefs :: "refs \<Rightarrow> refsSnapshot" where
  "newRefs refs = \<lparr>rs_Schema = 1, rs_Refs = Some refs\<rparr>"

text \<open>The objects that a publication writes to its pack are in the pack, all others keep their entries.\<close>

definition packed_objects :: "zlib \<Rightarrow> ('s \<Rightarrow> string \<Rightarrow> (bytes \<times> Version) option) \<Rightarrow> string \<Rightarrow> 's \<Rightarrow> string list \<Rightarrow> Resolver \<Rightarrow> infos \<Rightarrow> infos \<Rightarrow> bool" where
  "packed_objects z view i s ids get reached objs \<longleftrightarrow> (al_wf reached \<longrightarrow> al_wf objs) \<and>
     (\<forall>ident. ident \<notin> set ids \<longrightarrow> map_of objs ident = map_of reached ident) \<and>
     (\<forall>ident \<in> set ids. \<exists>object info. get Background ident = Inr object \<and> map_of objs ident = Some info \<and> validObjectInfo ident info \<and> oi_PackKey info \<noteq> [] \<and>
        oi_Type info = ObjectType object \<and> matches_info ident info (ObjectData object) \<and> stored_at z view s i ident info (ObjectData object))"

lemma packed_objects_grown:
  assumes "packed_objects z view i s ids get reached objs" "\<And>k x. k \<noteq> stateKey i \<Longrightarrow> view s k = Some x \<Longrightarrow> view s' k = Some x"
  shows "packed_objects z view i s' ids get reached objs"
proof -
  have "stored_at z view s' i ident info b" if "stored_at z view s i ident info b" "validObjectInfo ident info" "oi_PackKey info \<noteq> []" for ident info b
  proof -
    have "''repos/'' @ i @ ''/'' @ oi_PackKey info \<noteq> stateKey i" using that(2,3) by (auto simp: validObjectInfo_def Let_def stateKey_def)
    then show ?thesis using that(1,3) assms(2) unfolding stored_at_def by auto
  qed
  then show ?thesis using assms(1) unfolding packed_objects_def by blast
qed

context sized_store
begin

lemma added_Some: "added contents i s s' \<Longrightarrow> contents s k = Some x \<Longrightarrow> contents s' k = Some x"
  unfolding added_def using grown_Some [of contents "repositoryPrefix i" s s' k x] by blast

text \<open>The writes of a publication that succeeds.\<close>

lemma publishLocked_steps:
  assumes "st_objects st = ops" and run: "publishLocked z st ctx orig refs reached lfs repack get auth s = (None, s')"
    and i_def: "i = md_ID (sn_metadata orig)" and ids_def: "ids = newIDs repack (manifestObjects (sn_manifest orig)) reached"
  obtains cur objs s1 refsKey s2 manifestKey s3 where "ctx = Background" "auth Background = None"
    "LoadState ops ctx i s = Inr (cur, sn_version orig)" "validateLFSPointers st ctx i lfs s = None"
    "(if ids = [] then (Inr reached, s) else storePack z st ctx i ids (get s) reached s) = (Inr objs, s1)"
    "snapshotKeyOf ops ctx i ''refs'' (refsJson (newRefs refs)) s1 = (Inr refsKey, s2)"
    "snapshotKeyOf ops ctx i ''manifest'' (manifestJson (newManifest objs lfs)) s2 = (Inr manifestKey, s3)"
    "CompareAndSwapState ops ctx i (sn_version orig) (nextState (sn_state orig) refsKey manifestKey) s3 = (None, s')"
proof -
  note run' = run [unfolded publishLocked_def Let_def assms(1) i_def [symmetric] ids_def [symmetric] newManifest_def [symmetric] newRefs_def [symmetric]]
  obtain cur where ld: "LoadState ops ctx i s = Inr (cur, sn_version orig)" and lfs: "validateLFSPointers st ctx i lfs s = None"
    using run' by (auto split: sum.splits if_splits option.splits)
  note run1 = run' [unfolded ld lfs, simplified]
  obtain objs s1 where p1: "(if ids = [] then (Inr reached, s) else storePack z st ctx i ids (get s) reached s) = (Inr objs, s1)"
    using run1 by (cases "if ids = [] then (Inr reached, s) else storePack z st ctx i ids (get s) reached s"; cases "fst (if ids = [] then (Inr reached, s) else storePack z st ctx i ids (get s) reached s)") auto
  note run2 = run1 [unfolded p1, simplified]
  obtain refsKey s2 where p2: "snapshotKeyOf ops ctx i ''refs'' (refsJson (newRefs refs)) s1 = (Inr refsKey, s2)"
    using run2 by (auto split: prod.splits sum.splits)
  obtain manifestKey s3 where p3: "snapshotKeyOf ops ctx i ''manifest'' (manifestJson (newManifest objs lfs)) s2 = (Inr manifestKey, s3)"
    using run2 p2 by (auto split: prod.splits sum.splits)
  have bg: "ctx = Background" and au: "auth ctx = None" using run2 p2 p3 by (cases ctx, auto simp: newManifest_def split: option.splits)
  have cas: "CompareAndSwapState ops ctx i (sn_version orig) (nextState (sn_state orig) refsKey manifestKey) s3 = (None, s')"
    using run2 p2 p3 bg au by (auto split: prod.splits option.splits)
  show ?thesis using that bg au ld lfs p1 p2 p3 cas by simp
qed

lemma publishLocked_kept:
  assumes "st_objects st = ops" "inv s" "room (Suc (Suc (Suc (Suc (Suc n))))) s"
    and run: "publishLocked z st ctx orig refs reached lfs repack get auth s = (e, s')"
  shows "inv s' \<and> (\<forall>k x. k \<noteq> stateKey (md_ID (sn_metadata orig)) \<longrightarrow> contents s k = Some x \<longrightarrow> contents s' k = Some x)"
proof (cases e)
  case (Some x)
  then show ?thesis using publishLocked_refused [OF assms(1-3) run [unfolded Some]] added_Some by blast
next
  case None
  define i where "i = md_ID (sn_metadata orig)"
  define ids where "ids = newIDs repack (manifestObjects (sn_manifest orig)) reached"
  obtain objs s1 refsKey s2 manifestKey s3 where w:
    "(if ids = [] then (Inr reached, s) else storePack z st ctx i ids (get s) reached s) = (Inr objs, s1)"
    "snapshotKeyOf ops ctx i ''refs'' (refsJson (newRefs refs)) s1 = (Inr refsKey, s2)"
    "snapshotKeyOf ops ctx i ''manifest'' (manifestJson (newManifest objs lfs)) s2 = (Inr manifestKey, s3)"
    "CompareAndSwapState ops ctx i (sn_version orig) (nextState (sn_state orig) refsKey manifestKey) s3 = (None, s')"
    by (rule publishLocked_steps [OF assms(1) run [unfolded None] i_def ids_def])
  have a1: "inv s1 \<and> room (Suc (Suc (Suc (Suc n)))) s1 \<and> added contents i s s1"
    using w(1) storePack_added [OF assms(1-3)] assms(2) room_less [OF assms(3)] by (auto split: if_splits)
  have i1: "inv s1" "room (Suc (Suc (Suc (Suc n)))) s1" using a1 by simp_all
  note a2 = snapshotKeyOf_added [OF i1 w(2)]
  have i2: "inv s2" "room (Suc (Suc (Suc n))) s2" using a2 by simp_all
  note a3 = snapshotKeyOf_added [OF i2 w(3)]
  have i3: "inv s3" "room (Suc (Suc n)) s3" using a3 by simp_all
  note pub = CompareAndSwapState_publishes [OF i3 w(4), unfolded Let_def]
  have "added contents i s s3" using a1 a2 a3 added_trans [of contents i s s1 s2] added_trans [of contents i s s2 s3] by simp
  then show ?thesis using pub added_Some unfolding i_def by blast
qed

lemma publishLocked_published:
  assumes "st_objects st = ops" "inv s" "room (Suc (Suc (Suc (Suc (Suc n))))) s" "zlib_law z" "zlib_bound z"
    and run: "publishLocked z st ctx orig refs reached lfs repack get auth s = (None, s')"
    and i_def: "i = md_ID (sn_metadata orig)" and ids_def: "ids = newIDs repack (manifestObjects (sn_manifest orig)) reached"
    and collide: "ids \<noteq> [] \<longrightarrow> (\<forall>es pack c v. Write z ctx fullSink ids (Some (get s)) PackLimits = (Inr es, pack) \<longrightarrow>
      contents s (''repos/'' @ i @ ''/'' @ packKey pack) = Some (c, v) \<longrightarrow> c = pack)"
  shows "\<exists>objs refsKey manifestKey v. inv s' \<and> room n s' \<and> ctx = Background \<and> auth Background = None \<and>
    packed_objects z contents i s' ids (get s) reached objs \<and>
    refsKey = snapshotName ''refs'' (marshal (refsJson (newRefs refs))) \<and> manifestKey = snapshotName ''manifest'' (marshal (manifestJson (newManifest objs lfs))) \<and>
    (\<exists>w. contents s' (snapshotPath i ''refs'' (refsJson (newRefs refs))) = Some (marshal (refsJson (newRefs refs)), w)) \<and>
    length (marshal (refsJson (newRefs refs))) \<le> maxJSONBytes \<and>
    (\<exists>w. contents s' (snapshotPath i ''manifest'' (manifestJson (newManifest objs lfs))) = Some (marshal (manifestJson (newManifest objs lfs)), w)) \<and>
    length (marshal (manifestJson (newManifest objs lfs))) \<le> maxManifestBytes \<and>
    (\<exists>cur. LoadState ops Background i s = Inr (cur, sn_version orig)) \<and> validateLFSPointers st Background i lfs s = None \<and>
    LoadState ops Background i s' = Inr (withSchema (nextState (sn_state orig) refsKey manifestKey), v) \<and>
    (\<forall>k x. k \<noteq> stateKey i \<longrightarrow> contents s k = Some x \<longrightarrow> contents s' k = Some x) \<and>
    (\<forall>k. \<not> prefix (repositoryPrefix i) k \<longrightarrow> contents s' k = contents s k)"
proof -
  obtain cur objs s1 refsKey s2 manifestKey s3 where bg: "ctx = Background" and au: "auth Background = None"
    and ld: "LoadState ops ctx i s = Inr (cur, sn_version orig)" and lfs: "validateLFSPointers st ctx i lfs s = None"
    and p1: "(if ids = [] then (Inr reached, s) else storePack z st ctx i ids (get s) reached s) = (Inr objs, s1)"
    and p2: "snapshotKeyOf ops ctx i ''refs'' (refsJson (newRefs refs)) s1 = (Inr refsKey, s2)"
    and p3: "snapshotKeyOf ops ctx i ''manifest'' (manifestJson (newManifest objs lfs)) s2 = (Inr manifestKey, s3)"
    and cas: "CompareAndSwapState ops ctx i (sn_version orig) (nextState (sn_state orig) refsKey manifestKey) s3 = (None, s')"
    by (rule publishLocked_steps [OF assms(1) run i_def ids_def])
  have a1: "inv s1 \<and> room (Suc (Suc (Suc (Suc n)))) s1 \<and> added contents i s s1 \<and> packed_objects z contents i s1 ids (get s) reached objs"
  proof (cases "ids = []")
    case True
    then show ?thesis using p1 assms(2) room_less [OF assms(3)] by (simp add: packed_objects_def)
  next
    case False
    then have sp: "storePack z st ctx i ids (get s) reached s = (Inr objs, s1)" using p1 by simp
    show ?thesis using storePack_added [OF assms(1-3) sp] storePack_ok [OF assms(1-5) sp mp [OF collide False]] unfolding packed_objects_def by blast
  qed
  have i1: "inv s1" "room (Suc (Suc (Suc (Suc n)))) s1" using a1 by simp_all
  note a2 = snapshotKeyOf_added [OF i1 p2] and k2 = snapshotKeyOf_ok [OF i1 p2]
  have i2: "inv s2" "room (Suc (Suc (Suc n))) s2" using a2 by simp_all
  note a3 = snapshotKeyOf_added [OF i2 p3] and k3 = snapshotKeyOf_ok [OF i2 p3]
  have i3: "inv s3" "room (Suc (Suc n)) s3" using a3 by simp_all
  note pub = CompareAndSwapState_publishes [OF i3 cas, unfolded Let_def]
  have ad: "added contents i s s3" using a1 a2 a3 added_trans [of contents i s s1 s2] added_trans [of contents i s s2 s3] by simp
  have keep: "contents s' k = Some x" if "k \<noteq> stateKey i" "contents s3 k = Some x" for k x using pub that by blast
  have ad13: "added contents i s1 s3" using a2 a3 added_trans [of contents i s1 s2 s3] by simp
  have pk: "packed_objects z contents i s' ids (get s) reached objs"
    by (rule packed_objects_grown [of z contents i s1]) (use a1 keep added_Some [OF ad13] in blast)+
  have names: "refsKey = snapshotName ''refs'' (marshal (refsJson (newRefs refs)))" "length (marshal (refsJson (newRefs refs))) \<le> maxJSONBytes"
    "manifestKey = snapshotName ''manifest'' (marshal (manifestJson (newManifest objs lfs)))" "length (marshal (manifestJson (newManifest objs lfs))) \<le> maxManifestBytes"
    using k2 k3 by (simp_all add: snapshotLimit_def)
  obtain w2 where w2: "contents s2 (snapshotPath i ''refs'' (refsJson (newRefs refs))) = Some (marshal (refsJson (newRefs refs)), w2)" using k2 by blast
  obtain w3 where w3: "contents s3 (snapshotPath i ''manifest'' (manifestJson (newManifest objs lfs))) = Some (marshal (manifestJson (newManifest objs lfs)), w3)" using k3 by blast
  have st2: "contents s' (snapshotPath i ''refs'' (refsJson (newRefs refs))) = Some (marshal (refsJson (newRefs refs)), w2)"
    by (rule keep [OF added_keys(1)]) (rule added_Some [OF a3 [THEN conjunct2, THEN conjunct2] w2])
  have st3: "contents s' (snapshotPath i ''manifest'' (manifestJson (newManifest objs lfs))) = Some (marshal (manifestJson (newManifest objs lfs)), w3)"
    by (rule keep [OF added_keys(1) w3])
  obtain v where v: "LoadState ops Background i s' = Inr (withSchema (nextState (sn_state orig) refsKey manifestKey), v)" using pub by blast
  have out: "contents s' k = contents s k" if "\<not> prefix (repositoryPrefix i) k" for k
  proof -
    have "k \<noteq> stateKey i" "k \<noteq> snapshotKey i (withSchema (nextState (sn_state orig) refsKey manifestKey))" using that under_repository(4,5) by blast+
    then have "contents s' k = contents s3 k" using pub by simp
    then show ?thesis using ad that by (simp add: added_def grown_def)
  qed
  have "contents s' k = Some x" if "k \<noteq> stateKey i" "contents s k = Some x" for k x using keep [OF that(1)] added_Some [OF ad that(2)] by blast
  then show ?thesis using pub pk names st2 st3 v out ld lfs bg au by blast
qed

end

end
