(* ===== verification/PublishLoad.thy ===== *)
theory PublishLoad
  imports PublishArtifacts
begin

text \<open>
  What a load reads, on which objects of the store it depends, and that a refused publication leaves it as it is.
\<close>

section \<open>What a load has read\<close>

lemma find_field_member: "find_field fs name = Some f \<Longrightarrow> \<exists>n. (n, f) \<in> set fs"
  by (auto simp: find_field_def find_Some_iff split: option.splits dest: map_of_SomeD) (metis nth_mem)

text \<open>What every field decoder keeps holds of the decoded record.\<close>

definition fields_keep :: "'r field list \<Rightarrow> ('r \<Rightarrow> bool) \<Rightarrow> bool" where
  "fields_keep fs P \<longleftrightarrow> (\<forall>(n, f) \<in> set fs. \<forall>v r r'. P r \<longrightarrow> f v r = Some r' \<longrightarrow> P r')"

lemma set_members_keeps:
  assumes "fields_keep fs P" "set_members fs ms r = Some r'" "P r"
  shows "P r'"
  using assms(2,3)
proof (induction ms arbitrary: r)
  case (Cons m ms)
  obtain name v where m: "m = (name, v)" by (cases m)
  obtain f r1 where f: "find_field fs name = Some f" "f v r = Some r1" "set_members fs ms r1 = Some r'"
    using Cons.prems(1) m by (auto split: option.splits)
  then have "P r1" using find_field_member [OF f(1)] assms(1) Cons.prems(2) unfolding fields_keep_def by blast
  then show ?case using Cons.IH f(3) by blast
qed simp

lemma decode_struct_keeps:
  assumes "fields_keep fs P" "decode_struct fs v r = Some r'" "P r"
  shows "P r'"
  using assms(2,3) set_members_keeps [OF assms(1)] by (auto simp: decode_struct_def split: json.splits)

lemma putMembers_wf: "putMembers dec ms m = Some m' \<Longrightarrow> al_wf m \<Longrightarrow> al_wf m'"
  by (induction ms arbitrary: m) (auto split: option.splits)

definition optional_wf :: "(string \<times> 'v) list option \<Rightarrow> bool" where
  "optional_wf m \<longleftrightarrow> (case m of None \<Rightarrow> True | Some m \<Rightarrow> al_wf m)"

lemma map_field_wf:
  assumes "map_field dec sel upd v r = Some r'" "optional_wf (sel r)"
  shows "\<exists>m. r' = upd m r \<and> optional_wf m"
  using assms putMembers_wf [of dec] by (force simp: map_field_def optional_wf_def al_wf_def split: json.splits option.splits)

lemma readSnapshotLimit_keeps:
  assumes "readSnapshotLimit ops ctx i rel fs target limit s = Inr r" "P target" "fields_keep fs P"
  shows "P r"
proof -
  obtain v where "decode_struct fs v target = Some r" using assms(1) by (auto simp: readSnapshotLimit_def rbind_Inr decodeJSON_def split: option.splits)
  then show ?thesis by (rule decode_struct_keeps [OF assms(3) _ assms(2)])
qed

lemma readSnapshot_wf:
  assumes "readSnapshot ops ctx i rel s = Inr r" "rs_Refs r = Some m"
  shows "al_wf m"
proof -
  have "optional_wf (rs_Refs r)"
  proof (rule readSnapshotLimit_keeps [where P = "\<lambda>r. optional_wf (rs_Refs r)", OF assms(1) [unfolded readSnapshot_def]])
    show "optional_wf (rs_Refs zeroRefs)" by (simp add: zeroRefs_def optional_wf_def)
    show "fields_keep refsFields (\<lambda>r. optional_wf (rs_Refs r))"
      by (auto simp: fields_keep_def refsFields_def int_field_def split: json.splits option.splits dest!: map_field_wf)
  qed
  then show ?thesis using assms(2) by (simp add: optional_wf_def)
qed

lemma readManifest_wf:
  assumes "readManifest ops ctx i rel s = Inr m"
  shows "al_wf (manifestObjects m)" "validateManifest ctx m = None"
proof -
  obtain r where r: "readSnapshotLimit ops ctx i rel manifestFields zeroManifest maxManifestBytes s = Inr r" "validateManifest ctx r = None" "m = r"
    using assms by (auto simp: readManifest_def rbind_Inr split: option.splits)
  have "optional_wf (mf_Objects r)"
  proof (rule readSnapshotLimit_keeps [where P = "\<lambda>r. optional_wf (mf_Objects r)", OF r(1)])
    show "optional_wf (mf_Objects zeroManifest)" by (simp add: zeroManifest_def optional_wf_def)
    show "fields_keep manifestFields (\<lambda>r. optional_wf (mf_Objects r))"
      by (auto simp: fields_keep_def manifestFields_def int_field_def string_field_def pointer_field_def split: json.splits option.splits if_splits dest!: map_field_wf)
  qed
  then show "al_wf (manifestObjects m)" using r(3) by (auto simp: manifestObjects_def optional_wf_def al_wf_def split: option.splits)
  show "validateManifest ctx m = None" using r by simp
qed

text \<open>The facts about a loaded generation.\<close>

definition loaded :: "'s Store \<Rightarrow> ctx \<Rightarrow> string \<Rightarrow> string \<Rightarrow> 's \<Rightarrow> snapshot \<Rightarrow> refs \<Rightarrow> bool" where
  "loaded st ctx namespace name s snap refMap \<longleftrightarrow>
     (\<exists>m. maintenanceMetadata st ctx namespace name s = Inr m \<and> md_ID (sn_metadata snap) = md_ID m \<and>
        sn_metadata snap = m\<lparr>md_DefaultBranch := TrimPrefix (DefaultBranch (sn_state snap)) ''refs/heads/'', md_IsEmpty := (refMap = [])\<rparr>) \<and>
     idPattern (md_ID (sn_metadata snap)) \<and>
     LoadState (st_objects st) ctx (md_ID (sn_metadata snap)) s = Inr (sn_state snap, sn_version snap) \<and>
     rs_Refs (sn_refs snap) = Some refMap \<and> al_wf refMap \<and> list_all (loadedRef (sn_manifest snap)) refMap \<and>
     al_wf (manifestObjects (sn_manifest snap)) \<and> (\<forall>(ident, info) \<in> set (manifestObjects (sn_manifest snap)). validObjectInfo ident info) \<and>
     validBranch (TrimPrefix (DefaultBranch (sn_state snap)) ''refs/heads/'')"

lemma load_loaded:
  assumes "load st ctx namespace name s = Inr snap"
  shows "\<exists>refMap. loaded st ctx namespace name s snap refMap"
proof -
  obtain m where m: "maintenanceMetadata st ctx namespace name s = Inr m" using assms by (auto simp: load_def rbind_Inr)
  obtain state ver where ld: "LoadState (st_objects st) ctx (md_ID m) s = Inr (state, ver)"
    using assms m by (cases "LoadState (st_objects st) ctx (md_ID m) s") (auto simp: load_def rbind_def)
  obtain refs where rs: "readSnapshot (st_objects st) ctx (md_ID m) (RefsSnapshot state) s = Inr refs"
    using assms m ld by (cases "readSnapshot (st_objects st) ctx (md_ID m) (RefsSnapshot state) s") (auto simp: load_def rbind_def)
  obtain manifest where mf: "readManifest (st_objects st) ctx (md_ID m) (PackManifest state) s = Inr manifest"
    using assms m ld rs by (cases "readManifest (st_objects st) ctx (md_ID m) (PackManifest state) s") (auto simp: load_def rbind_def)
  obtain refMap where rm: "rs_Refs refs = Some refMap" using assms m ld rs mf by (cases "rs_Refs refs") (auto simp: load_def rbind_def)
  have rest: "list_all (loadedRef manifest) refMap" "validBranch (TrimPrefix (DefaultBranch state) ''refs/heads/'')"
    "snap = \<lparr>sn_metadata = m\<lparr>md_DefaultBranch := TrimPrefix (DefaultBranch state) ''refs/heads/'', md_IsEmpty := (refMap = [])\<rparr>, sn_refs = refs,
       sn_manifest = manifest, sn_state = state, sn_version = ver\<rparr>"
    using assms m ld rs mf rm by (auto simp: load_def rbind_def Let_def split: if_splits)
  note l = m ld rs mf rm rest
  have id: "idPattern (md_ID m)" using l(1) by (auto simp: maintenanceMetadata_def rbind_Inr Let_def split: if_splits sum.splits)
  note wf = readManifest_wf [OF l(4)]
  have "\<forall>(ident, info) \<in> set (manifestObjects manifest). validObjectInfo ident info"
    using wf(2) by (auto simp: validateManifest_def manifestObjects_def list_all_iff split: option.splits if_splits)
  then show ?thesis using l id wf(1) readSnapshot_wf [OF l(3,5)] by (auto simp: loaded_def)
qed

context sized_store
begin

lemma maintenanceMetadata_kept:
  assumes "st_objects st = ops" "inv s" "inv s'" "contents s' (metadataKey namespace name) = contents s (metadataKey namespace name)"
    "maintenanceMetadata st ctx namespace name s = Inr m"
  shows "maintenanceMetadata st Background namespace name s' = Inr m"
proof -
  obtain b where b: "read ops ctx (metadataKey namespace name) maxJSONBytes s = Inr b"
    using assms(1,5) by (auto simp: maintenanceMetadata_def split: if_splits sum.splits)
  obtain v where "contents s (metadataKey namespace name) = Some (b, v)" "length b \<le> maxJSONBytes" using read_Inr [OF assms(2) b] by blast
  then have "read ops Background (metadataKey namespace name) maxJSONBytes s' = Inr b" using read_stored [OF assms(3)] assms(4) by simp
  then show ?thesis using assms(1,5) b by (simp add: maintenanceMetadata_def split: if_splits)
qed

lemma load_published:
  assumes "st_objects st = ops" "inv s" "maintenanceMetadata st Background namespace name s = Inr m"
    "LoadState ops Background (md_ID m) s = Inr (state, v)"
    "RefsSnapshot state = snapshotName ''refs'' (marshal (refsJson (newRefs refs)))"
    "PackManifest state = snapshotName ''manifest'' (marshal (manifestJson (newManifest objs lfs)))"
    "contents s (snapshotPath (md_ID m) ''refs'' (refsJson (newRefs refs))) = Some (marshal (refsJson (newRefs refs)), w1)"
    "length (marshal (refsJson (newRefs refs))) \<le> maxJSONBytes"
    "contents s (snapshotPath (md_ID m) ''manifest'' (manifestJson (newManifest objs lfs))) = Some (marshal (manifestJson (newManifest objs lfs)), w2)"
    "length (marshal (manifestJson (newManifest objs lfs))) \<le> maxManifestBytes"
    "refs_ok (newRefs refs)" "manifest_ok (newManifest objs lfs)" "validateManifest Background (newManifest objs lfs) = None"
    "list_all (loadedRef (newManifest objs lfs)) refs" "al_wf objs" "length refs \<le> 1000" "validBranch (TrimPrefix (DefaultBranch state) ''refs/heads/'')"
  shows "load st Background namespace name s = Inr
    \<lparr>sn_metadata = m\<lparr>md_DefaultBranch := TrimPrefix (DefaultBranch state) ''refs/heads/'', md_IsEmpty := (refs = [])\<rparr>,
     sn_refs = newRefs (sortedMap refs), sn_manifest = sortedManifest (newManifest objs lfs), sn_state = state, sn_version = v\<rparr>"
proof -
  have rs: "readSnapshot ops Background (md_ID m) (RefsSnapshot state) s = Inr (newRefs (sortedMap refs))"
    using readSnapshot_stored [OF assms(2,7,8,11)] unfolding assms(5) by (simp add: newRefs_def)
  have ms: "readManifest ops Background (md_ID m) (PackManifest state) s = Inr (sortedManifest (newManifest objs lfs))"
    using readManifest_stored [OF assms(2,9,10,12,13)] unfolding assms(6) .
  have "infoAt (sortedManifest (newManifest objs lfs)) c = infoAt (newManifest objs lfs) c" for c
    using assms(15) by (simp add: infoAt_def sortedManifest_def newManifest_def)
  then have ld: "loadedRef (sortedManifest (newManifest objs lfs)) = loadedRef (newManifest objs lfs)" by (simp add: loadedRef_def)
  have sm: "list_all (loadedRef (newManifest objs lfs)) (sortedMap refs)" using assms(14) by (simp add: list_all_iff)
  have len: "length (sortedMap refs) \<le> MaxGitObjects" using assms(16) by (simp add: repository_limits)
  show ?thesis unfolding load_def assms(1,3) rbind_def sum.case assms(4) prod.case rs ms
    using sm len assms(17) ld by (simp add: newRefs_def Let_def)
qed

end

section \<open>The steps of a publication\<close>

text \<open>What has run when a publication comes to the repository lock.\<close>

definition prepared :: "zlib \<Rightarrow> 's Store \<Rightarrow> ctx \<Rightarrow> GitSnapshot \<Rightarrow> RefUpdate list \<Rightarrow> infos \<Rightarrow> unit gitGetter \<Rightarrow> bool \<Rightarrow> 's
    \<Rightarrow> refs \<Rightarrow> infos \<Rightarrow> infos \<Rightarrow> (string \<times> int) list \<Rightarrow> GitReader \<Rightarrow> bool" where
  "prepared z st ctx base updates incoming getIncoming repack s refs infos reached lfs r \<longleftrightarrow>
     applyRefUpdates (Some base) updates repack = Inr refs \<and> Generation (sn_state (gs_original base)) \<noteq> - 1 \<and>
     mergeIncoming incoming (manifestObjects (sn_manifest (gs_original base))) = Inr infos \<and>
     (\<exists>r0 r1 r2. OpenGit (Some base) = Inr r0 \<and>
        prefetch st ctx (\<lambda>_ info. oi_Type info \<noteq> ''blob'' \<or> oi_Size info \<le> int maxLFSPointerBytes) r0 s = (None, r1) \<and>
        walkObjects ctx refs infos (publishGet z st s incoming getIncoming) r1 = (Inr reached, r2) \<and>
        collectLFSPointers ctx reached (publishGet z st s incoming getIncoming) r2 = (Inr lfs, r))"

lemma publishObjects_steps:
  assumes "publishObjects z st li ctx (Some base) updates incoming getIncoming repack authorize s = (e, s')"
  shows "(e \<noteq> None \<and> s' = s) \<or> (\<exists>auth refs infos reached lfs r. authorize = Some auth \<and>
    prepared z st ctx base updates incoming getIncoming repack s refs infos reached lfs r \<and>
    ((\<exists>x. lockRepository st ctx (li_random li) (li_now li) (md_ID (sn_metadata (gs_original base))) s = (Inl x, s') \<and> e \<noteq> None) \<or>
     (\<exists>held s1 e1 s2 u. lockRepository st ctx (li_random li) (li_now li) (md_ID (sn_metadata (gs_original base))) s = (Inr held, s1) \<and>
        publishLocked z st ctx (gs_original base) refs reached lfs repack (\<lambda>s ctx ident. fst (publishGet z st s incoming getIncoming ctx ident r)) auth s1 = (e1, s2) \<and>
        unlockRepository st (li_release li) (md_ID (sn_metadata (gs_original base))) held s2 = (u, s') \<and> e = joinErr e1 u)))"
  using assms unfolding publishObjects_def prepared_def Let_def
  by (simp split: option.splits sum.splits prod.splits if_splits; blast)

context sized_store
begin

lemma read_kept:
  assumes "inv s" "inv s'" "contents s key = contents s' key" "read ops ctx key limit s = Inr b"
  shows "read ops Background key limit s' = Inr b"
  using read_Inr [OF assms(1,4)] read_stored [OF assms(2), of key b _ limit] assms(3) by auto

end

lemma lock_under [simp]: "prefix (repositoryPrefix i) (maintenanceLockKey i)"
  by (simp add: repositoryPrefix_def maintenanceLockKey_def)

lemma lock_key_other [simp]:
  "metadataKey namespace name \<noteq> maintenanceLockKey i" "stateKey i \<noteq> maintenanceLockKey i" "snapshotPath i kind v \<noteq> maintenanceLockKey i"
  "\<not> prefix (repositoryPrefix i) k \<Longrightarrow> k \<noteq> maintenanceLockKey i" "''repos/'' @ i @ ''/'' @ packKey p \<noteq> maintenanceLockKey i"
  "maintenanceLockKey i \<noteq> stateKey i"
  by (auto simp: metadataKey_def maintenanceLockKey_def stateKey_def snapshotPath_def snapshotName_def packKey_def repositoryPrefix_def)

section \<open>What a load depends on\<close>

lemma HasSuffix_json: "HasSuffix rel (''-'' @ d @ ''.json'') \<Longrightarrow> ''repos/'' @ i @ ''/'' @ rel \<noteq> maintenanceLockKey i \<and> ''repos/'' @ i @ ''/'' @ rel \<noteq> stateKey i"
proof -
  assume "HasSuffix rel (''-'' @ d @ ''.json'')"
  then obtain p where "rel = p @ ''-'' @ d @ ''.json''" by (auto simp: Sublist.suffix_def)
  then have "drop (length rel - 5) rel = ''.json''" by simp
  then have "rel \<noteq> ''maintenance-lock''" "rel \<noteq> ''state''" by auto
  then show ?thesis by (simp add: maintenanceLockKey_def stateKey_def)
qed

context sized_store
begin

lemma readSnapshotLimit_kept:
  assumes "inv s" "inv s'" "\<forall>k x. k \<noteq> maintenanceLockKey i \<longrightarrow> k \<noteq> stateKey i \<longrightarrow> contents s k = Some x \<longrightarrow> contents s' k = Some x"
    "readSnapshotLimit ops ctx i rel fs target limit s = Inr r"
  shows "readSnapshotLimit ops Background i rel fs target limit s' = Inr r"
proof -
  obtain b where b: "read ops ctx (''repos/'' @ i @ ''/'' @ rel) limit s = Inr b" "HasSuffix rel (''-'' @ EncodeToString (Sum256 b) @ ''.json'')"
    using assms(4) by (auto simp: readSnapshotLimit_def snapshotData_def rbind_Inr split: sum.splits if_splits)
  obtain v where v: "contents s (''repos/'' @ i @ ''/'' @ rel) = Some (b, v)" "length b \<le> limit" using read_Inr [OF assms(1) b(1)] by blast
  have "contents s' (''repos/'' @ i @ ''/'' @ rel) = Some (b, v)" using assms(3) v(1) HasSuffix_json [OF b(2), of i] by blast
  then have "read ops Background (''repos/'' @ i @ ''/'' @ rel) limit s' = Inr b" by (rule read_stored [OF assms(2) _ v(2)])
  then show ?thesis using assms(4) b by (simp add: readSnapshotLimit_def snapshotData_def)
qed

lemma load_kept:
  assumes "st_objects st = ops" "inv s" "inv s'" "load st Background namespace name s = Inr snap"
    and keep: "\<forall>k x. k \<noteq> maintenanceLockKey (md_ID (sn_metadata snap)) \<longrightarrow> contents s k = Some x \<longrightarrow> contents s' k = Some x"
  shows "load st Background namespace name s' = Inr snap"
proof -
  obtain m where m: "maintenanceMetadata st Background namespace name s = Inr m" using assms(4) by (auto simp: load_def rbind_Inr)
  have id: "md_ID (sn_metadata snap) = md_ID m" using assms(4) m by (auto simp: load_def rbind_def Let_def split: sum.splits option.splits if_splits)
  obtain b where b: "read ops Background (metadataKey namespace name) maxJSONBytes s = Inr b"
    using assms(1) m by (auto simp: maintenanceMetadata_def split: if_splits sum.splits)
  obtain v where "contents s (metadataKey namespace name) = Some (b, v)" using read_Inr [OF assms(2) b] by blast
  then have "contents s' (metadataKey namespace name) = contents s (metadataKey namespace name)" using keep by simp
  then have m': "maintenanceMetadata st Background namespace name s' = Inr m" by (rule maintenanceMetadata_same [OF assms(1-3) _ m])
  obtain state ver where ld: "LoadState ops Background (md_ID m) s = Inr (state, ver)"
    using assms(1,4) m by (cases "LoadState ops Background (md_ID m) s") (auto simp: load_def rbind_def)
  have "contents s (stateKey (md_ID m)) \<noteq> None"
  proof -
    have i: "repositoryIDPattern (md_ID m)" using ld by (auto simp: LoadState_def repositoryKey_def split: if_splits)
    obtain b info where "os_Get ops Background (stateKey (md_ID m)) s = Inr (b, info)"
      using ld repositoryKey_stateKey [OF i] by (auto simp: LoadState_def split: sum.splits)
    then show ?thesis using get_ok [OF assms(2)] by simp
  qed
  then have "contents s' (stateKey (md_ID m)) = contents s (stateKey (md_ID m))" using keep by (metis lock_key_other(2) id not_Some_eq)
  then have ld': "LoadState ops Background (md_ID m) s' = Inr (state, ver)" by (rule LoadState_same [OF assms(2,3) _ ld])
  have "\<forall>k x. k \<noteq> maintenanceLockKey (md_ID m) \<longrightarrow> k \<noteq> stateKey (md_ID m) \<longrightarrow> contents s k = Some x \<longrightarrow> contents s' k = Some x" using keep id by simp
  note kr = readSnapshotLimit_kept [OF assms(2,3) this]
  obtain refs where rs: "readSnapshot ops Background (md_ID m) (RefsSnapshot state) s = Inr refs"
    using assms(1,4) m ld by (cases "readSnapshot ops Background (md_ID m) (RefsSnapshot state) s") (auto simp: load_def rbind_def)
  have rs': "readSnapshot ops Background (md_ID m) (RefsSnapshot state) s' = Inr refs" unfolding readSnapshot_def by (rule kr [OF rs [unfolded readSnapshot_def]])
  obtain manifest where mf: "readManifest ops Background (md_ID m) (PackManifest state) s = Inr manifest"
    using assms(1,4) m ld rs by (cases "readManifest ops Background (md_ID m) (PackManifest state) s") (auto simp: load_def rbind_def)
  then obtain mr where mr: "readSnapshotLimit ops Background (md_ID m) (PackManifest state) manifestFields zeroManifest maxManifestBytes s = Inr mr"
    by (auto simp: readManifest_def rbind_Inr)
  have "readManifest ops Background (md_ID m) (PackManifest state) s' = Inr manifest" using mf mr kr [OF mr] by (simp add: readManifest_def rbind_def)
  then show ?thesis using assms(4) m m' ld ld' rs rs' mf by (simp add: load_def assms(1) rbind_def)
qed

section \<open>A refused publication\<close>

lemma unlocked:
  assumes "st_objects st = ops" "inv s2" "unlockRepository st Background i held s2 = (u, s')" "contents s2 (maintenanceLockKey i) = Some (b, held)"
  shows "u = None \<and> inv s' \<and> contents s' = (contents s2)(maintenanceLockKey i := None)"
proof -
  obtain s3 where "os_Delete ops Background (maintenanceLockKey i) held s2 = (None, s3)" using delete_live [OF assms(2,4)] by blast
  then show ?thesis using assms(1,3) delete_ok [OF assms(2)] by (auto simp: unlockRepository_def)
qed

lemma publishObjects_refused:
  assumes "st_objects st = ops" "inv s" "room (Suc (Suc (Suc (Suc (Suc (Suc n)))))) s" "li_release li = Background"
    and run: "publishObjects z st li ctx (Some base) updates incoming getIncoming repack authorize s = (Some e, s')"
    and i_def: "i = md_ID (sn_metadata (gs_original base))"
  shows "inv s' \<and> added contents i s s' \<and> contents s' (maintenanceLockKey i) = contents s (maintenanceLockKey i)"
  using publishObjects_steps [OF run]
proof (elim disjE exE conjE)
  fix x assume "lockRepository st ctx (li_random li) (li_now li) (md_ID (sn_metadata (gs_original base))) s = (Inl x, s')"
  then have "s' = s" by (rule lockRepository_Inl [OF assms(1-3)])
  then show ?thesis using assms(2) by simp
next
  fix auth refs infos reached lfs r held s1 e1 s2 u
  let ?get = "\<lambda>s ctx ident. fst (publishGet z st s incoming getIncoming ctx ident r)"
  assume lock: "lockRepository st ctx (li_random li) (li_now li) (md_ID (sn_metadata (gs_original base))) s = (Inr held, s1)"
    and pub: "publishLocked z st ctx (gs_original base) refs reached lfs repack ?get auth s1 = (e1, s2)"
    and unl: "unlockRepository st (li_release li) (md_ID (sn_metadata (gs_original base))) held s2 = (u, s')" and e: "Some e = joinErr e1 u"
  note lk = lockRepository_Inr [OF assms(1-3) lock [folded i_def], folded i_def]
  have le: "added contents i s s1" by (rule added_one [of _ _ _ "maintenanceLockKey i"]) (use lk in \<open>auto simp: map_le_def\<close>)
  have held: "contents s2 (maintenanceLockKey i) = Some (marshal (lockJson (newLock (li_random li) (li_now li))), held)" and s2: "inv s2"
    using publishLocked_kept [OF assms(1) _ _ pub] lk lock_key_other(2) [of i] unfolding i_def by (metis (no_types, lifting) fun_upd_same)+
  note un = unlocked [OF assms(1) s2 unl [unfolded assms(4), folded i_def] held]
  then obtain x where x: "e1 = Some x" using e by (cases e1) auto
  have pl: "added contents i s1 s2" using publishLocked_refused [OF assms(1) _ _ pub [unfolded x]] lk i_def by blast
  have "added contents i s s2" by (rule added_trans [OF le pl])
  then have "added contents i s s'" using un lk by (auto simp: added_def grown_def map_le_def)
  then show ?thesis using un lk by simp
qed (use assms(2) in simp_all)

end

end
