(* ===== verification/PublishGeneration.thy ===== *)
theory PublishGeneration
  imports PublishLoad
begin

text \<open>
  The generation that a successful publication makes: the graph that was checked before the lock is the graph that the stored objects describe afterwards.
\<close>

section \<open>The same graph under other pack positions\<close>

definition same_info :: "RepositoryRules.objectInfo \<Rightarrow> RepositoryRules.objectInfo \<Rightarrow> bool" where
  "same_info a b \<longleftrightarrow> oi_Type a = oi_Type b \<and> oi_Size a = oi_Size b \<and> oi_SHA256 a = oi_SHA256 b"

text \<open>Where a manifest keeps the objects does not change the graph: types, sizes, digests and contents do.\<close>

definition same_graph :: "infos \<Rightarrow> (string \<Rightarrow> GitObject option) \<Rightarrow> infos \<Rightarrow> (string \<Rightarrow> GitObject option) \<Rightarrow> (string \<Rightarrow> bool) \<Rightarrow> bool" where
  "same_graph infos content objs content' P \<longleftrightarrow>
     (\<forall>ident. P ident \<longrightarrow> content' ident = content ident \<and>
        (\<exists>a b. map_of infos ident = Some a \<and> map_of objs ident = Some b \<and> same_info a b))"

lemma same_graph_node:
  assumes "same_graph infos content objs content' P" "P ident"
  shows "nodeLinks objs content' ident = nodeLinks infos content ident" "nodeOk objs content' ident = nodeOk infos content ident"
    "sizeIn objs ident = sizeIn infos ident"
  using assms by (auto simp: same_graph_def same_info_def nodeLinks_def nodeOk_def sizeIn_def)

lemma same_graph_link:
  assumes "same_graph infos content objs content' P" "P (link_id l)"
  shows "linkOk objs l = linkOk infos l"
  using assms by (auto simp: same_graph_def same_info_def linkOk_def)

lemma same_graph_reachable:
  assumes "same_graph infos content objs content' (reachable infos content refs)" "set refs' = set refs"
  shows "reachable objs content' refs' = reachable infos content refs"
proof (intro ext iffI)
  fix ident assume "reachable objs content' refs' ident"
  then show "reachable infos content refs ident"
  proof induction
    case (ref p)
    then show ?case using assms(2) by (auto intro: reachable.ref)
  next
    case (link ident l)
    then show ?case using same_graph_node(1) [OF assms(1) link.IH] by (auto intro: reachable.link)
  qed
next
  fix ident assume "reachable infos content refs ident"
  then show "reachable objs content' refs' ident"
  proof induction
    case (ref p)
    then show ?case using assms(2) by (auto intro: reachable.ref)
  next
    case (link ident l)
    then show ?case using same_graph_node(1) [OF assms(1) link.hyps(1)] by (auto intro: reachable.link)
  qed
qed

lemma connected_same:
  assumes "connected infos content refs" "same_graph infos content objs content' (reachable infos content refs)" "set refs' = set refs"
  shows "connected objs content' refs'"
proof -
  note reach = same_graph_reachable [OF assms(2,3)] and node = same_graph_node [OF assms(2)] and lnk = same_graph_link [OF assms(2)]
  have "linkOk objs (refLink p)" if "p \<in> set refs'" for p
  proof -
    have "link_id (refLink p) = snd p" by (cases p) (simp add: refLink_def)
    then have "reachable infos content refs (link_id (refLink p))" using that assms(3) reachable.ref [of p refs] by simp
    then show ?thesis using lnk that assms(1,3) by (simp add: connected_def)
  qed
  moreover have "nodeOk objs content' ident \<and> (\<forall>l \<in> set (nodeLinks objs content' ident). linkOk objs l)" if "reachable infos content refs ident" for ident
    using node [OF that] that assms(1) lnk reachable.link [OF that] by (simp add: connected_def)
  moreover have "(\<Sum>ident | reachable infos content refs ident. sizeIn objs ident) = (\<Sum>ident | reachable infos content refs ident. sizeIn infos ident)"
    by (rule sum.cong) (simp_all add: node(3))
  ultimately show ?thesis using assms(1) unfolding connected_def reach by simp
qed

lemma pointersOf_part:
  assumes "\<forall>ident a. map_of infos ident = Some a \<longrightarrow> content' ident = content ident \<and> (\<exists>b. map_of objs ident = Some b \<and> same_info a b)"
    and "al_wf infos" "al_wf objs"
  shows "pointersOf content infos \<subseteq> pointersOf content' objs"
proof
  fix p assume "p \<in> pointersOf content infos"
  then obtain ident a object where a: "(ident, a) \<in> set infos" "candidate a" "content ident = Some object" "parseLFSPointer (ObjectData object) = (p, True, None)"
    by (auto simp: pointersOf_def)
  then obtain b where b: "map_of objs ident = Some b" "same_info a b" "content' ident = Some object"
    using assms(1) al_wf_map_of [OF assms(2)] by fastforce
  then have "(ident, b) \<in> set objs" "candidate b" using a(2) al_wf_map_of [OF assms(3)] by (simp_all add: candidate_def same_info_def)
  then show "p \<in> pointersOf content' objs" using a(4) b(3) unfolding pointersOf_def by blast
qed

lemma same_info_sym: "same_info a b \<Longrightarrow> same_info b a"
  by (simp add: same_info_def)

lemma pointersOf_same:
  assumes "same_graph infos content objs content' (\<lambda>ident. map_of infos ident \<noteq> None)" "al_wf infos" "al_wf objs" "dom (map_of infos) = dom (map_of objs)"
  shows "pointersOf content' objs = pointersOf content infos"
proof
  show "pointersOf content infos \<subseteq> pointersOf content' objs"
    using assms(1) unfolding same_graph_def by (intro pointersOf_part [OF _ assms(2,3)]) fastforce
  have "content ident = content' ident \<and> (\<exists>a. map_of infos ident = Some a \<and> same_info b a)" if "map_of objs ident = Some b" for ident b
  proof -
    have "map_of infos ident \<noteq> None" using that assms(4) by (metis domIff option.distinct(1))
    then show ?thesis using assms(1) that same_info_sym unfolding same_graph_def by fastforce
  qed
  then show "pointersOf content' objs \<subseteq> pointersOf content infos" by (intro pointersOf_part [OF _ assms(3,2)]) blast
qed

section \<open>The index of pointers\<close>

lemma indexed_facts:
  assumes "indexed lfs (pointersOf content objs)"
  shows "al_wf lfs" "length lfs \<le> length objs" "\<forall>(oid, sz) \<in> set lfs. ValidLFSOID oid \<and> 0 \<le> sz \<and> sz \<le> MaxInt64"
proof -
  show wf: "al_wf lfs" using assms by (simp add: indexed_def)
  have "set lfs \<subseteq> (\<lambda>(ident, info). let p = fst (parseLFSPointer (ObjectData (the (content ident)))) in (lfs_OID p, lfs_Size p)) ` set objs"
    using assms by (force simp: indexed_def pointersOf_def)
  then have "card (set lfs) \<le> length objs" by (meson card_image_le card_length card_mono finite_imageI finite_set le_trans)
  moreover have "card (set lfs) = length lfs" using wf by (simp add: al_wf_def distinct_card distinct_map)
  ultimately show "length lfs \<le> length objs" by simp
  show "\<forall>(oid, sz) \<in> set lfs. ValidLFSOID oid \<and> 0 \<le> sz \<and> sz \<le> MaxInt64"
    using assms parseLFSPointer_valid by (auto simp: indexed_def pointersOf_def)
qed

section \<open>What a publication has checked before it locks\<close>

text \<open>What a push relies on from its objects: every announced object is supplied, and has the announced type, size, ID and digest.\<close>

definition incoming_ok :: "infos \<Rightarrow> (string \<Rightarrow> GitObject option) \<Rightarrow> bool" where
  "incoming_ok incoming contentIn \<longleftrightarrow> al_wf incoming \<and>
     (\<forall>ident info. map_of incoming ident = Some info \<longrightarrow>
        (\<exists>object. contentIn ident = Some object \<and> oi_Type info = ObjectType object \<and> matches_info ident info (ObjectData object)))"

text \<open>Every object that the manifest of a generation lists can be read.\<close>

definition readable :: "zlib \<Rightarrow> 's Store \<Rightarrow> snapshot \<Rightarrow> 's \<Rightarrow> bool" where
  "readable z st snap s \<longleftrightarrow> (\<forall>ident. map_of (manifestObjects (sn_manifest snap)) ident \<noteq> None \<longrightarrow> readerContent z st snap s ident \<noteq> None)"

text \<open>No stored object and incoming object of one type and SHA-256 differ.\<close>

definition collision_free :: "zlib \<Rightarrow> 's Store \<Rightarrow> snapshot \<Rightarrow> 's \<Rightarrow> (string \<Rightarrow> GitObject option) \<Rightarrow> bool" where
  "collision_free z st snap s contentIn \<longleftrightarrow> (\<forall>ident a b. readerContent z st snap s ident = Some a \<longrightarrow> contentIn ident = Some b \<longrightarrow>
     ObjectType a = ObjectType b \<longrightarrow> objectSHA256 (ObjectType a) (ObjectData a) = objectSHA256 (ObjectType b) (ObjectData b) \<longrightarrow> a = b)"

lemma updatedRefs_Some:
  assumes "updatedRefs refMap updates ref = Some ident" "\<forall>u \<in> set updates. updateOk refMap u" "list_all (loadedRef manifest) refMap"
  shows "ValidRef ref \<and> objectIDPattern ident"
proof (cases "List.find (\<lambda>u. ru_Name u = ref) updates")
  case None
  then have "(ref, ident) \<in> set refMap" using assms(1) by (auto simp: updatedRefs_def dest: map_of_SomeD)
  then show ?thesis using assms(3) by (auto simp: list_all_iff loadedRef_def)
next
  case (Some u)
  then have "u \<in> set updates" "ru_Name u = ref" by (auto simp: find_Some_iff)
  then show ?thesis using assms(1,2) Some by (auto simp: updatedRefs_def updateOk_def split: if_splits)
qed

lemma prepared_refs:
  assumes "applyRefUpdates (Some base) updates repack = Inr refs" "rs_Refs (sn_refs (gs_original base)) = Some refMap" "al_wf refMap"
    "list_all (loadedRef manifest) refMap"
  shows "al_wf refs" "map_of refs = updatedRefs refMap updates" "length refs \<le> 1000" "\<forall>(ref, ident) \<in> set refs. ValidRef ref \<and> objectIDPattern ident"
proof -
  have run: "applyUpdates updates [] refMap = Inr refs" and len: "length refs \<le> 1000"
    using assms(1,2) by (auto simp: applyRefUpdates_def split: if_splits sum.splits)
  note it = applyUpdates_iff [OF assms(3), of updates "[]"]
  show wf: "al_wf refs" and eq: "map_of refs = updatedRefs refMap updates" using it(2) [OF run] by blast+
  show "length refs \<le> 1000" by (rule len)
  have "\<forall>u \<in> set updates. updateOk refMap u" using it(1) run by blast
  then show "\<forall>(ref, ident) \<in> set refs. ValidRef ref \<and> objectIDPattern ident"
    using updatedRefs_Some [OF _ _ assms(4)] al_wf_map_of [OF wf] eq by auto
qed

context sized_store
begin

text \<open>The merged manifest describes what the getter of the publication returns.\<close>

lemma merged_matches:
  assumes "st_objects st = ops" "inv s" "mergeIncoming incoming (manifestObjects (sn_manifest snap)) = Inr infos" "al_wf (manifestObjects (sn_manifest snap))"
    "incoming_ok incoming contentIn" "map_of infos ident = Some info" "publishContent z st snap incoming contentIn s ident = Some object"
  shows "oi_Type info = ObjectType object \<and> matches_info ident info (ObjectData object)"
proof -
  have wf: "al_wf incoming" using assms(5) by (simp add: incoming_ok_def)
  note mg = mergeIncoming_Inr [OF assms(3,4) wf]
  have inc: "oi_Type b = ObjectType object \<and> matches_info ident b (ObjectData object)" if "map_of incoming ident = Some b" for b
    using assms(5,7) that unfolding incoming_ok_def publishContent_def by fastforce
  show ?thesis
  proof (cases "map_of (manifestObjects (sn_manifest snap)) ident")
    case None
    then have "map_of incoming ident = Some info" using mg assms(6) by simp
    then show ?thesis by (rule inc)
  next
    case (Some a)
    then have a: "a = info" using mg assms(6) by (metis option.distinct(1) option.inject)
    show ?thesis
    proof (cases "map_of incoming ident")
      case None
      then have "readerContent z st snap s ident = Some object" using assms(7) by (simp add: publishContent_def)
      then obtain b where b: "map_of (manifestObjects (sn_manifest snap)) ident = Some b" "ObjectType object = oi_Type b"
        "cachedObject z st Background snap ident (oi_Type b) s = Inr (ObjectData object)" by (auto simp: readerContent_Some)
      then show ?thesis using cachedObject_Inr [OF assms(1,2) b(3)] Some a by auto
    next
      case other: (Some b)
      then have "oi_Type a = oi_Type b" "oi_Size a = oi_Size b" "oi_SHA256 a = oi_SHA256 b" using mg Some by blast+
      then show ?thesis using inc [OF other] a by (auto simp: matches_info_def)
    qed
  qed
qed

lemma prepared_facts:
  assumes "st_objects st = ops" "inv s" "object_source getIn (\<lambda>_. True) contentIn" "al_wf (manifestObjects (sn_manifest (gs_original base)))" "al_wf incoming"
    and prep: "prepared z st ctx base updates incoming getIn repack s refs infos reached lfs r"
    and content_def: "content = publishContent z st (gs_original base) incoming contentIn s"
  shows "reader_ready z st contents (gs_original base) s r" "connected infos content refs" "al_wf reached" "fst ` set reached = {ident. reachable infos content refs ident}"
    "\<forall>ident info. map_of reached ident = Some info \<longrightarrow> map_of infos ident = Some info" "indexed lfs (pointersOf content reached)"
proof -
  obtain r0 r1 r2 where p: "OpenGit (Some base) = Inr r0" "mergeIncoming incoming (manifestObjects (sn_manifest (gs_original base))) = Inr infos"
    "prefetch st ctx (\<lambda>_ info. oi_Type info \<noteq> ''blob'' \<or> oi_Size info \<le> int maxLFSPointerBytes) r0 s = (None, r1)"
    "walkObjects ctx refs infos (publishGet z st s incoming getIn) r1 = (Inr reached, r2)"
    "collectLFSPointers ctx reached (publishGet z st s incoming getIn) r2 = (Inr lfs, r)"
    using prep unfolding prepared_def by blast
  note src = publish_source [OF assms(1-3), of z incoming "gs_original base", folded content_def]
  have "reader_ready z st contents (gs_original base) s r0"
    using p(1) by (auto simp: OpenGit_def openGitSnapshot_def rbind_Inr reader_ready_def split: if_splits)
  then have r1: "reader_ready z st contents (gs_original base) s r1" by (rule prefetch_ready [OF assms(1,2) _ p(3)])
  have wf: "al_wf infos" using mergeIncoming_Inr [OF p(2) assms(4,5)] by blast
  note wk = object_source.walkObjects_spec(2) [OF src wf r1 p(4)]
  then have r2: "reader_ready z st contents (gs_original base) s r2" by blast
  have "indexed [] {}" by (simp add: indexed_def al_wf_def)
  note col = object_source.collectLoop_sound [OF src p(5) [unfolded collectLFSPointers_def] r2 this]
  show "reader_ready z st contents (gs_original base) s r" "indexed lfs (pointersOf content reached)" using col by simp_all
  show "connected infos content refs" "al_wf reached" "fst ` set reached = {ident. reachable infos content refs ident}"
    "\<forall>ident info. map_of reached ident = Some info \<longrightarrow> map_of infos ident = Some info" using wk by blast+
qed

end

section \<open>The objects of the new generation\<close>

lemma stored_at_kept:
  assumes "stored_at z view s i ident info b" "validObjectInfo ident info"
    "\<forall>k x. k \<noteq> maintenanceLockKey i \<longrightarrow> k \<noteq> stateKey i \<longrightarrow> view s k = Some x \<longrightarrow> view s' k = Some x"
  shows "stored_at z view s' i ident info b"
proof -
  have "objectKey i ident \<noteq> stateKey i" by (simp add: objectKey_def stateKey_def)
  moreover have "''repos/'' @ i @ ''/'' @ oi_PackKey info \<noteq> stateKey i" if "oi_PackKey info \<noteq> []"
    using that assms(2) by (auto simp: validObjectInfo_def Let_def stateKey_def)
  ultimately show ?thesis using assms(1,3) packPath_lock [OF assms(2), of i] objectKey_lock [of i ident]
    unfolding stored_at_def by (cases "oi_PackKey info = []") (simp_all, blast+)
qed

lemma set_newIDs: "ident \<in> set (newIDs repack known reached) \<longleftrightarrow> map_of reached ident \<noteq> None \<and> (repack \<or> map_of known ident = None)"
  by (auto simp: newIDs_def map_of_eq_None_iff)

context sized_store
begin

lemma readerContent_stored:
  assumes "st_objects st = ops" "inv s" "map_of (manifestObjects (sn_manifest snap)) ident = Some info" "validObjectInfo ident info"
    "matches_info ident info (ObjectData object)" "oi_Type info = ObjectType object" "stored_at z contents s (md_ID (sn_metadata snap)) ident info (ObjectData object)"
  shows "readerContent z st snap s ident = Some object"
  using cachedObject_stored [OF assms(1-5,7)] assms(3,6) by (auto simp: readerContent_Some)

lemma published_object:
  assumes st: "st_objects st = ops" "inv s" "inv s'"
    and merge: "mergeIncoming incoming (manifestObjects (sn_manifest snap)) = Inr infos"
    and known: "al_wf (manifestObjects (sn_manifest snap))" "\<forall>(ident, info) \<in> set (manifestObjects (sn_manifest snap)). validObjectInfo ident info"
    and inc: "incoming_ok incoming contentIn" "readable z st snap s" "collision_free z st snap s contentIn"
    and content_def: "content = publishContent z st snap incoming contentIn s"
    and i_def: "i = md_ID (sn_metadata snap)" and ids_def: "ids = newIDs repack (manifestObjects (sn_manifest snap)) reached"
    and packed: "packed_objects z contents i s' ids get reached objs" "\<forall>ident object. get Background ident = Inr object \<longrightarrow> content ident = Some object"
    and keep: "\<forall>k x. k \<noteq> maintenanceLockKey i \<longrightarrow> k \<noteq> stateKey i \<longrightarrow> contents s k = Some x \<longrightarrow> contents s' k = Some x"
    and new: "md_ID (sn_metadata snap') = i" "map_of (manifestObjects (sn_manifest snap')) = map_of objs"
    and a: "map_of reached ident = Some a" "map_of infos ident = Some a"
  shows "\<exists>b object. map_of objs ident = Some b \<and> validObjectInfo ident b \<and> same_info a b \<and> content ident = Some object \<and>
    readerContent z st snap' s' ident = Some object"
proof (cases "ident \<in> set ids")
  case True
  then obtain object b where b: "get Background ident = Inr object" "map_of objs ident = Some b" "validObjectInfo ident b"
    "oi_Type b = ObjectType object" "matches_info ident b (ObjectData object)" "stored_at z contents s' i ident b (ObjectData object)"
    using packed(1) unfolding packed_objects_def by blast
  have c: "content ident = Some object" using packed(2) b(1) by blast
  have "same_info a b" using merged_matches [OF st(1,2) merge known(1) inc(1) a(2) c [unfolded content_def]] b(4,5)
    by (auto simp: same_info_def matches_info_def)
  moreover have "readerContent z st snap' s' ident = Some object"
    by (rule readerContent_stored [OF st(1,3) _ b(3,5,4)]) (use b(2,6) new in simp_all)
  ultimately show ?thesis using b(2,3) c by blast
next
  case False
  then obtain a' where "map_of (manifestObjects (sn_manifest snap)) ident = Some a'" using a(1) unfolding ids_def set_newIDs by auto
  moreover have wf: "al_wf incoming" using inc(1) by (simp add: incoming_ok_def)
  note mg = mergeIncoming_Inr [OF merge known(1) wf]
  ultimately have k: "map_of (manifestObjects (sn_manifest snap)) ident = Some a" using mg a(2) by (metis option.distinct(1))
  then have v: "validObjectInfo ident a" using known(2) map_of_SomeD by fastforce
  obtain object where rd: "readerContent z st snap s ident = Some object" using inc(2) k unfolding readable_def by blast
  then have co: "ObjectType object = oi_Type a" "cachedObject z st Background snap ident (oi_Type a) s = Inr (ObjectData object)"
    using k by (auto simp: readerContent_Some)
  then have m: "matches_info ident a (ObjectData object)" "stored_at z contents s i ident a (ObjectData object)"
    using cachedObject_Inr [OF st(1,2) co(2)] k i_def by auto
  have o: "map_of objs ident = Some a" using packed(1) False a(1) unfolding packed_objects_def by auto
  have "readerContent z st snap' s' ident = Some object"
    by (rule readerContent_stored [OF st(1,3) _ v m(1) co(1) [symmetric]]) (use o new stored_at_kept [OF m(2) v keep] in simp_all)
  moreover have "content ident = Some object"
  proof (cases "map_of incoming ident")
    case None
    then show ?thesis using rd by (simp add: content_def publishContent_def)
  next
    case (Some b)
    obtain o2 where o2: "contentIn ident = Some o2" "oi_Type b = ObjectType o2" "matches_info ident b (ObjectData o2)"
      using inc(1) Some unfolding incoming_ok_def by blast
    have "oi_Type a = oi_Type b" "oi_SHA256 a = oi_SHA256 b" using mg k Some by blast+
    then have "ObjectType object = ObjectType o2" "objectSHA256 (ObjectType object) (ObjectData object) = objectSHA256 (ObjectType o2) (ObjectData o2)"
      using co(1) m(1) o2(2,3) by (auto simp: matches_info_def)
    then have "object = o2" using inc(3) rd o2(1) unfolding collision_free_def by blast
    then show ?thesis using o2(1) Some by (simp add: content_def publishContent_def)
  qed
  ultimately show ?thesis using o v by (auto simp: same_info_def)
qed

end

section \<open>The healthy generation\<close>

definition generationRefs :: "snapshot \<Rightarrow> refs" where
  "generationRefs snap = (case rs_Refs (sn_refs snap) of None \<Rightarrow> [] | Some refs \<Rightarrow> refs)"

text \<open>
  A generation is healthy when its manifest lists precisely the objects that its references reach, all of them can be read and are linked
  consistently, and its LFS index holds precisely the pointers among its blobs, each with a verified record of that size.
\<close>

definition healthy :: "zlib \<Rightarrow> 's Store \<Rightarrow> snapshot \<Rightarrow> 's \<Rightarrow> bool" where
  "healthy z st snap s \<longleftrightarrow>
     (let infos = manifestObjects (sn_manifest snap); content = readerContent z st snap s; refs = generationRefs snap in
      connected infos content refs \<and> (\<forall>ident. map_of infos ident \<noteq> None \<longleftrightarrow> reachable infos content refs ident) \<and> readable z st snap s \<and>
      (\<exists>lfs. mf_LFS (sn_manifest snap) = Some \<lparr>lfs_Version = 1, lfs_Objects = Some lfs\<rparr> \<and> indexed lfs (pointersOf content infos) \<and>
         (\<forall>(oid, sz) \<in> set lfs. \<exists>rec. checkLFSRecord st Background (md_ID (sn_metadata snap)) oid s = Inr rec \<and> lfs_Size (lr_Object rec) = sz)))"

lemma validateLFSPointers_None:
  "validateLFSPointers st ctx i lfs s = None \<longleftrightarrow> (\<forall>(oid, sz) \<in> set lfs. \<exists>rec. checkLFSRecord st ctx i oid s = Inr rec \<and> lfs_Size (lr_Object rec) = sz)"
  by (induction st ctx i lfs s rule: validateLFSPointers.induct) (auto split: sum.splits)

lemma lfs_keys:
  "lfsRecordKey i oid \<noteq> maintenanceLockKey i" "lfsRecordKey i oid \<noteq> stateKey i"
  "validLFSDataKey key \<Longrightarrow> ''repos/'' @ i @ ''/'' @ key \<noteq> maintenanceLockKey i" "validLFSDataKey key \<Longrightarrow> ''repos/'' @ i @ ''/'' @ key \<noteq> stateKey i"
  by (auto simp: lfsRecordKey_def maintenanceLockKey_def stateKey_def validLFSDataKey_def Let_def)

context sized_store
begin

lemma checkLFSRecord_kept:
  assumes "st_objects st = ops" "inv s" "inv s'" "\<forall>k x. k \<noteq> maintenanceLockKey i \<longrightarrow> k \<noteq> stateKey i \<longrightarrow> contents s k = Some x \<longrightarrow> contents s' k = Some x"
    "checkLFSRecord st ctx i oid s = Inr rec"
  shows "checkLFSRecord st Background i oid s' = Inr rec"
proof -
  obtain b where b: "read ops ctx (lfsRecordKey i oid) 4096 s = Inr b" "decodeJSON lfsRecordFields zeroLFSRecord b = Inr rec" "validLFSRecord rec oid"
  proof -
    obtain x where x: "readLFSRecord st ctx i oid s = Inr x" using assms(5) by (auto simp: checkLFSRecord_def rbind_Inr)
    then have "x = rec" using assms(5) by (auto simp: checkLFSRecord_def rbind_def split: sum.splits if_splits)
    then show ?thesis using that x assms(1) by (auto simp: readLFSRecord_def rbind_Inr split: sum.splits if_splits)
  qed
  obtain v where v: "contents s (lfsRecordKey i oid) = Some (b, v)" "length b \<le> 4096" using read_Inr [OF assms(2) b(1)] by blast
  have "contents s' (lfsRecordKey i oid) = Some (b, v)" using assms(4) v(1) lfs_keys by blast
  then have r: "readLFSRecord st Background i oid s' = Inr rec" using read_stored [OF assms(3) _ v(2)] b(2,3) assms(1) by (simp add: readLFSRecord_def rbind_def)
  have key: "validLFSDataKey (lr_Key rec)" using b(3) by (simp add: validLFSRecord_def)
  let ?k = "''repos/'' @ i @ ''/'' @ lr_Key rec"
  have rd: "readLFSRecord st ctx i oid s = Inr rec" using b assms(1) by (simp add: readLFSRecord_def rbind_def)
  obtain info where info: "os_Head ops ctx ?k s = Inr info" "Size info = lfs_Size (lr_Object rec)" "InfoVersion info = lr_Version rec"
    using assms(1,5) rd by (auto simp: checkLFSRecord_def rbind_def split: sum.splits if_splits)
  obtain c where c: "contents s ?k = Some (c, InfoVersion info)" using head_ok [OF assms(2) info(1)] by blast
  have c': "contents s' ?k = Some (c, InfoVersion info)" using assms(4) c lfs_keys(3,4) [OF key] by blast
  obtain info' where info': "os_Head ops Background ?k s' = Inr info'" using head_live [OF assms(3) c'] by blast
  have "Size info' = Size info" using head_size [OF assms(3) info' c'] head_size [OF assms(2) info(1) c] by simp
  moreover have "InfoVersion info' = InfoVersion info" using head_ok [OF assms(3) info'] c' by auto
  ultimately show ?thesis using r info info' assms(1) by (simp add: checkLFSRecord_def rbind_def)
qed

end

lemma newManifest_valid:
  assumes "al_wf objs" "length objs \<le> MaxGitObjects" "\<forall>ident info. map_of objs ident = Some info \<longrightarrow> validObjectInfo ident info"
    "al_wf lfs" "length lfs \<le> MaxGitObjects" "\<forall>(oid, sz) \<in> set lfs. ValidLFSOID oid \<and> 0 \<le> sz \<and> sz \<le> MaxInt64"
  shows "validateManifest Background (newManifest objs lfs) = None" "manifest_ok (newManifest objs lfs)"
proof -
  have "\<forall>(ident, info) \<in> set objs. validObjectInfo ident info" using assms(3) al_wf_map_of [OF assms(1)] by auto
  then show v: "validateManifest Background (newManifest objs lfs) = None"
    using assms(2,5,6) by (auto simp: validateManifest_def newManifest_def validLFSIndex_def list_all_iff)
  have "\<forall>(oid, sz) \<in> set lfs. is_int64 sz" using assms(6) by (fastforce simp: is_int64_def MaxInt64_def)
  then show "manifest_ok (newManifest objs lfs)"
    by (intro manifest_ok_valid [OF v]) (use assms(1,4) in \<open>auto simp: newManifest_def\<close>)
qed

lemma ValidRef_string: "ValidRef ref \<Longrightarrow> ValidString ref"
proof -
  assume r: "ValidRef ref"
  have asc: "ascii ''refs/heads/''" "ascii ''refs/tags/''" by (simp_all add: ascii_def)
  have "validBranch b \<Longrightarrow> ValidString b" for b by (simp add: validBranch_def)
  then show ?thesis using r ValidString_append [OF asc(1)] ValidString_append [OF asc(2)]
    by (auto simp: ValidRef_def TrimPrefix_def prefix_def split: if_splits)
qed

lemma newRefs_valid:
  assumes "al_wf refs" "\<forall>(ref, ident) \<in> set refs. ValidRef ref \<and> objectIDPattern ident"
  shows "refs_ok (newRefs refs)"
  using assms ValidRef_string ValidString_lowerHex [of 40]
  by (auto simp: refs_ok_def newRefs_def map_ok_def is_int64_def MaxInt64_def objectIDPattern_def)

section \<open>A successful publication\<close>

definition resolverOf :: "(string \<Rightarrow> GitObject option) \<Rightarrow> Resolver" where
  "resolverOf content ctx ident = (case content ident of None \<Rightarrow> Inl RepoErrNotFound | Some object \<Rightarrow> Inr object)"

text \<open>Where the name of a pack that is written from these objects is taken, it is taken by the same pack.\<close>

definition pack_names_free :: "zlib \<Rightarrow> ('s \<Rightarrow> string \<Rightarrow> (bytes \<times> Version) option) \<Rightarrow> string \<Rightarrow> (string \<Rightarrow> GitObject option) \<Rightarrow> 's \<Rightarrow> bool" where
  "pack_names_free z view i content s \<longleftrightarrow> (\<forall>ids es pack c v. ids \<noteq> [] \<longrightarrow> Write z Background fullSink ids (Some (resolverOf content)) PackLimits = (Inr es, pack) \<longrightarrow>
     view s (''repos/'' @ i @ ''/'' @ packKey pack) = Some (c, v) \<longrightarrow> c = pack)"

lemma Write_resolved:
  assumes "Write z Background fullSink ids (Some get) PackLimits = (Inr es, pack)" "\<forall>ident object. get Background ident = Inr object \<longrightarrow> content ident = Some object"
  shows "Write z Background fullSink ids (Some (resolverOf content)) PackLimits = (Inr es, pack)"
proof -
  obtain os where os: "map (get Background) (sort ids) = map Inr os"
    using assms(1) by (rule Write_done) (auto simp: PackLimits_def)
  have "get Background ident = resolverOf content Background ident" if "ident \<in> set ids" for ident
  proof -
    have "get Background ident \<in> set (map (get Background) (sort ids))" using that by simp
    then obtain object where "get Background ident = Inr object" unfolding os by auto
    then show ?thesis using assms(2) by (simp add: resolverOf_def)
  qed
  then have "Write z Background fullSink ids (Some get) PackLimits = Write z Background fullSink ids (Some (resolverOf content)) PackLimits"
    by (intro Write_cong) simp
  then show ?thesis using assms(1) by simp
qed

context sized_store
begin

text \<open>The getter of the publication after the lock has been taken.\<close>

lemma locked_get:
  assumes "st_objects st = ops" "inv s" "inv s1" "contents s1 = (contents s)(maintenanceLockKey i \<mapsto> x)" "contents s (maintenanceLockKey i) = None"
    "i = md_ID (sn_metadata snap)" "object_source getIn (\<lambda>_. True) contentIn" "reader_ready z st contents snap s r"
    "fst (publishGet z st s1 incoming getIn ctx ident r) = Inr object"
  shows "publishContent z st snap incoming contentIn s ident = Some object"
proof -
  have "contents s \<subseteq>\<^sub>m contents s1" using assms(4,5) by (auto simp: map_le_def)
  then have r: "reader_ready z st contents snap s1 r" by (rule reader_ready_grown [OF assms(1-3) _ assms(8)])
  have "readerContent z st snap s1 = readerContent z st snap s"
    by (rule readerContent_same [OF assms(1-3)]) (use assms(4,6) in simp)
  then have eq: "publishContent z st snap incoming contentIn s1 ident = publishContent z st snap incoming contentIn s ident" by (simp add: publishContent_def)
  obtain r' where "publishGet z st s1 incoming getIn ctx ident r = (Inr object, r')" using assms(9) by (metis fst_conv surj_pair)
  then show ?thesis using object_source.get_content [OF publish_source [OF assms(1,3,7)] r] eq by simp
qed

end

lemma loadedRef_new:
  assumes "connected infos content refs" "p \<in> set refs" "ValidRef (fst p)" "objectIDPattern (snd p)"
    "map_of infos (snd p) = Some a" "map_of objs (snd p) = Some b" "validObjectInfo (snd p) b" "same_info a b"
  shows "loadedRef (newManifest objs lfs) p"
proof -
  obtain ref ident where p: "p = (ref, ident)" by (cases p)
  have "linkOk infos (refLink p)" using assms(1,2) by (simp add: connected_def)
  then have "HasPrefix ref ''refs/heads/'' \<longrightarrow> oi_Type a = ''commit''" using assms(5) by (auto simp: p linkOk_def refLink_def split: if_splits)
  moreover have "oi_Type b \<noteq> []" using assms(7) by (auto simp: validObjectInfo_def)
  ultimately show ?thesis using assms(3-8) by (auto simp: p loadedRef_def infoAt_def newManifest_def same_info_def)
qed

lemma length_al_wf: "al_wf m \<Longrightarrow> length m = card (dom (map_of m))"
  by (metis al_wf_def distinct_card dom_map_of_conv_image_fst length_map list.set_map)

lemma dom_map_of_fst: "dom (map_of m) = fst ` set m"
  by (rule dom_map_of_conv_image_fst)

lemma packed_dom:
  assumes "packed_objects z view i s ids get reached objs" "set ids \<subseteq> dom (map_of reached)"
  shows "dom (map_of objs) = dom (map_of reached)"
proof (intro set_eqI)
  fix ident
  show "ident \<in> dom (map_of objs) \<longleftrightarrow> ident \<in> dom (map_of reached)"
    using assms unfolding packed_objects_def by (cases "ident \<in> set ids") (auto simp: dom_def)
qed

lemma packed_objects_kept:
  assumes "packed_objects z view i s ids get reached objs" "\<forall>k x. k \<noteq> maintenanceLockKey i \<longrightarrow> k \<noteq> stateKey i \<longrightarrow> view s k = Some x \<longrightarrow> view s' k = Some x"
  shows "packed_objects z view i s' ids get reached objs"
  using assms(1) stored_at_kept [OF _ _ assms(2)] unfolding packed_objects_def by blast

context sized_store
begin

text \<open>The generation that the written artifacts make up.\<close>

lemma generation_loaded:
  assumes st: "st_objects st = ops" "inv s" "inv s'" and m: "maintenanceMetadata st Background namespace name s' = Inr m" "md_ID m = i"
    and state: "LoadState ops Background i s' = Inr (state, v)" "RefsSnapshot state = snapshotName ''refs'' (marshal (refsJson (newRefs refs)))"
      "PackManifest state = snapshotName ''manifest'' (marshal (manifestJson (newManifest objs lfs)))" "validBranch (TrimPrefix (DefaultBranch state) ''refs/heads/'')"
    and stored: "contents s' (snapshotPath i ''refs'' (refsJson (newRefs refs))) = Some (marshal (refsJson (newRefs refs)), w1)"
      "length (marshal (refsJson (newRefs refs))) \<le> maxJSONBytes"
      "contents s' (snapshotPath i ''manifest'' (manifestJson (newManifest objs lfs))) = Some (marshal (manifestJson (newManifest objs lfs)), w2)"
      "length (marshal (manifestJson (newManifest objs lfs))) \<le> maxManifestBytes"
    and refs: "al_wf refs" "length refs \<le> 1000" "\<forall>(ref, ident) \<in> set refs. ValidRef ref \<and> objectIDPattern ident"
    and con: "connected infos content refs" "al_wf reached" "fst ` set reached = {ident. reachable infos content refs ident}"
      "\<forall>ident info. map_of reached ident = Some info \<longrightarrow> map_of infos ident = Some info" "indexed lfs (pointersOf content reached)"
    and objs: "al_wf objs" "dom (map_of objs) = dom (map_of reached)"
      "\<forall>ident a. map_of reached ident = Some a \<longrightarrow> (\<exists>b. map_of objs ident = Some b \<and> validObjectInfo ident b \<and> same_info a b)"
  shows "\<exists>snap. load st Background namespace name s' = Inr snap \<and> md_ID (sn_metadata snap) = i \<and> sn_state snap = state \<and> map_of (generationRefs snap) = map_of refs \<and>
    set (generationRefs snap) = set refs \<and> map_of (manifestObjects (sn_manifest snap)) = map_of objs \<and> al_wf (manifestObjects (sn_manifest snap)) \<and>
    mf_LFS (sn_manifest snap) = Some \<lparr>lfs_Version = 1, lfs_Objects = Some (sortedMap lfs)\<rparr>"
proof -
  note ix = indexed_facts [OF con(5)]
  have reach: "dom (map_of reached) = {ident. reachable infos content refs ident}" unfolding dom_map_of_fst con(3) ..
  have n: "length reached \<le> MaxGitObjects" using con(1) unfolding length_al_wf [OF con(2)] reach connected_def by blast
  have valid: "\<forall>ident info. map_of objs ident = Some info \<longrightarrow> validObjectInfo ident info" using objs(2,3) by (metis domIff not_Some_eq option.inject)
  have len: "length objs \<le> MaxGitObjects" using n unfolding length_al_wf [OF objs(1)] objs(2) length_al_wf [OF con(2), symmetric] .
  have "length lfs \<le> MaxGitObjects" using ix(2) n by simp
  note mv = newManifest_valid [OF objs(1) len valid ix(1) this ix(3)]
  have "loadedRef (newManifest objs lfs) p" if p: "p \<in> set refs" for p
  proof -
    have "reachable infos content refs (snd p)" by (rule reachable.ref [OF p])
    then obtain a where "map_of reached (snd p) = Some a" using reach by blast
    moreover then obtain b where "map_of objs (snd p) = Some b" "validObjectInfo (snd p) b" "same_info a b" using objs(3) by blast
    ultimately show ?thesis using loadedRef_new [OF con(1) p] refs(3) p con(4) by (metis case_prod_beta)
  qed
  then have lr: "list_all (loadedRef (newManifest objs lfs)) refs" by (simp add: list_all_iff)
  have snap: "load st Background namespace name s' = Inr
    \<lparr>sn_metadata = m\<lparr>md_DefaultBranch := TrimPrefix (DefaultBranch state) ''refs/heads/'', md_IsEmpty := (refs = [])\<rparr>,
     sn_refs = newRefs (sortedMap refs), sn_manifest = sortedManifest (newManifest objs lfs), sn_state = state, sn_version = v\<rparr>"
    by (rule load_published [OF st(1,3) m(1) _ state(2,3) _ _ _ _ newRefs_valid [OF refs(1,3)] mv(2,1) lr objs(1) refs(2) state(4)])
      (use m(2) state(1) stored in simp_all)
  show ?thesis using snap m(2) refs(1) objs(1)
    by (auto simp: generationRefs_def newRefs_def sortedManifest_def sortedIndex_def newManifest_def manifestObjects_def)
qed

end

lemma reachable_refs:
  assumes "set refs' = set refs"
  shows "reachable infos content refs' = reachable infos content refs"
proof -
  have "reachable infos content b ident" if "reachable infos content a ident" "set a = set b" for a b ident
    using that by (induction rule: reachable.induct) (auto intro: reachable.intros)
  then show ?thesis using assms by blast
qed

context sized_store
begin

lemma healthy_generation:
  assumes "connected infos content refs" "al_wf reached" "fst ` set reached = {ident. reachable infos content refs ident}"
    and part: "\<forall>ident info. map_of reached ident = Some info \<longrightarrow> map_of infos ident = Some info" and idx: "indexed lfs (pointersOf content reached)"
    and snap: "set (generationRefs snap) = set refs" "map_of (manifestObjects (sn_manifest snap)) = map_of objs" "al_wf (manifestObjects (sn_manifest snap))"
      "mf_LFS (sn_manifest snap) = Some \<lparr>lfs_Version = 1, lfs_Objects = Some (sortedMap lfs)\<rparr>"
    and dm: "dom (map_of objs) = dom (map_of reached)"
    and obj: "\<forall>ident a. map_of reached ident = Some a \<longrightarrow> (\<exists>b object. map_of objs ident = Some b \<and> same_info a b \<and> content ident = Some object \<and>
      readerContent z st snap s' ident = Some object)"
    and lfsv: "validateLFSPointers st Background (md_ID (sn_metadata snap)) lfs s' = None"
  shows "healthy z st snap s'"
proof -
  let ?infos = "manifestObjects (sn_manifest snap)" and ?content = "readerContent z st snap s'"
  have reach: "dom (map_of reached) = {ident. reachable infos content refs ident}" unfolding dom_map_of_fst assms(3) ..
  have g1: "same_graph infos content ?infos ?content (reachable infos content refs)"
    unfolding same_graph_def
  proof (intro allI impI)
    fix ident assume "reachable infos content refs ident"
    then obtain a where a: "map_of reached ident = Some a" using reach by blast
    then show "?content ident = content ident \<and> (\<exists>a b. map_of infos ident = Some a \<and> map_of ?infos ident = Some b \<and> same_info a b)"
      using obj part snap(2) by force
  qed
  have g2: "same_graph reached content ?infos ?content (\<lambda>ident. map_of reached ident \<noteq> None)"
    unfolding same_graph_def using obj snap(2) by force
  have "connected ?infos ?content (generationRefs snap)" by (rule connected_same [OF assms(1) g1 snap(1)])
  moreover have "map_of ?infos ident \<noteq> None \<longleftrightarrow> reachable ?infos ?content (generationRefs snap) ident" for ident
    unfolding same_graph_reachable [OF g1 snap(1)] snap(2) using dm reach by blast
  moreover have "readable z st snap s'" unfolding readable_def snap(2) using obj dm by (metis domIff not_Some_eq)
  moreover have "pointersOf ?content ?infos = pointersOf content reached" by (rule pointersOf_same [OF g2 assms(2) snap(3)]) (simp add: snap(2) dm)
  then have "indexed (sortedMap lfs) (pointersOf ?content ?infos)" using idx by (simp add: indexed_def)
  ultimately show ?thesis using snap(4) lfsv unfolding healthy_def Let_def validateLFSPointers_None by auto
qed

lemma publishObjects_published:
  assumes st: "st_objects st = ops" "inv s" "room (Suc (Suc (Suc (Suc (Suc (Suc n)))))) s" and zl: "zlib_law z" "zlib_bound z"
    and src: "object_source getIn (\<lambda>_. True) contentIn" and base: "load st Background namespace name s = Inr (gs_original base)"
    and inc: "incoming_ok incoming contentIn" "readable z st (gs_original base) s" "collision_free z st (gs_original base) s contentIn"
    and i_def: "i = md_ID (sn_metadata (gs_original base))" and content_def: "content = publishContent z st (gs_original base) incoming contentIn s"
    and free: "pack_names_free z contents i content s"
    and run: "publishObjects z st li ctx (Some base) updates incoming getIn repack authorize s = (None, s')"
  shows "\<exists>snap. load st Background namespace name s' = Inr snap \<and> Generation (sn_state snap) = Generation (sn_state (gs_original base)) + 1 \<and>
    Generation (sn_state (gs_original base)) \<noteq> - 1 \<and>
    map_of (generationRefs snap) = updatedRefs (generationRefs (gs_original base)) updates \<and> healthy z st snap s' \<and>
    (\<forall>ident. map_of (manifestObjects (sn_manifest snap)) ident \<noteq> None \<longrightarrow> readerContent z st snap s' ident = content ident) \<and>
    (\<exists>infos. mergeIncoming incoming (manifestObjects (sn_manifest (gs_original base))) = Inr infos \<and>
      (\<forall>ident. map_of (manifestObjects (sn_manifest snap)) ident \<noteq> None \<longleftrightarrow> reachable infos content (generationRefs snap) ident)) \<and>
    (repack \<longrightarrow> (\<forall>ident info. map_of (manifestObjects (sn_manifest snap)) ident = Some info \<longrightarrow> oi_PackKey info \<noteq> [])) \<and>
    (\<exists>auth. authorize = Some auth \<and> auth Background = None) \<and>
    inv s' \<and> contents s' (maintenanceLockKey i) = None \<and> (\<forall>k x. k \<noteq> stateKey i \<longrightarrow> contents s k = Some x \<longrightarrow> contents s' k = Some x) \<and>
    (\<forall>k. \<not> prefix (repositoryPrefix i) k \<longrightarrow> contents s' k = contents s k)"
proof -
  let ?orig = "gs_original base"
  obtain auth refs infos reached lfs r held s1 s2 where prep: "prepared z st ctx base updates incoming getIn repack s refs infos reached lfs r"
    and au: "authorize = Some auth" and lock: "lockRepository st ctx (li_random li) (li_now li) i s = (Inr held, s1)"
    and pub: "publishLocked z st ctx ?orig refs reached lfs repack (\<lambda>s ctx ident. fst (publishGet z st s incoming getIn ctx ident r)) auth s1 = (None, s2)"
    and unl: "unlockRepository st (li_release li) i held s2 = (None, s')"
  proof -
    have join: "(None = joinErr e1 u) = (e1 = None \<and> u = None)" for e1 u by (cases e1; cases u) simp_all
    show ?thesis using publishObjects_steps [OF run, folded i_def] that by (auto simp: join)
  qed
  obtain refMap where ld: "loaded st Background namespace name s ?orig refMap" using load_loaded [OF base] by blast
  then obtain m where m: "maintenanceMetadata st Background namespace name s = Inr m" "md_ID m = i" unfolding loaded_def i_def by auto
  have known: "al_wf (manifestObjects (sn_manifest ?orig))" "\<forall>(ident, info) \<in> set (manifestObjects (sn_manifest ?orig)). validObjectInfo ident info"
    and rm: "rs_Refs (sn_refs ?orig) = Some refMap" "al_wf refMap" "list_all (loadedRef (sn_manifest ?orig)) refMap"
    and branch: "validBranch (TrimPrefix (DefaultBranch (sn_state ?orig)) ''refs/heads/'')" using ld unfolding loaded_def by blast+
  have merge: "mergeIncoming incoming (manifestObjects (sn_manifest ?orig)) = Inr infos" and gen: "Generation (sn_state ?orig) \<noteq> - 1"
    and app: "applyRefUpdates (Some base) updates repack = Inr refs" using prep unfolding prepared_def by blast+
  note rf = prepared_refs [OF app rm]
  have wfi: "al_wf incoming" using inc(1) by (simp add: incoming_ok_def)
  note pf = prepared_facts [OF st(1,2) src known(1) wfi prep content_def]
  note lk = lockRepository_Inr [OF st lock]
  define ids where "ids = newIDs repack (manifestObjects (sn_manifest ?orig)) reached"
  let ?get = "\<lambda>s ctx ident. fst (publishGet z st s incoming getIn ctx ident r)"
  have get: "\<forall>ident object. ?get s1 c ident = Inr object \<longrightarrow> content ident = Some object" for c
    unfolding content_def using locked_get [OF st(1,2) _ _ _ i_def src pf(1)] lk by blast
  have bg: "ctx = Background" by (rule publishLocked_steps [OF st(1) pub i_def ids_def])
  have coll: "ids \<noteq> [] \<longrightarrow> (\<forall>es pack c v. Write z ctx fullSink ids (Some (?get s1)) PackLimits = (Inr es, pack) \<longrightarrow>
      contents s1 (''repos/'' @ i @ ''/'' @ packKey pack) = Some (c, v) \<longrightarrow> c = pack)"
  proof (intro allI impI)
    fix es pack c v
    assume ne: "ids \<noteq> []" and w: "Write z ctx fullSink ids (Some (?get s1)) PackLimits = (Inr es, pack)" and at: "contents s1 (''repos/'' @ i @ ''/'' @ packKey pack) = Some (c, v)"
    have "contents s (''repos/'' @ i @ ''/'' @ packKey pack) = Some (c, v)" using at lk lock_key_other(5) [of i pack] by simp
    then show "c = pack" using Write_resolved [OF w [unfolded bg] get] free ne unfolding pack_names_free_def by blast
  qed
  have s1: "inv s1" "room (Suc (Suc (Suc (Suc (Suc n))))) s1" using lk by blast+
  from publishLocked_published [OF st(1) s1 zl pub i_def ids_def coll]
  obtain objs refsKey manifestKey v where p: "inv s2" "auth Background = None" "packed_objects z contents i s2 ids (?get s1) reached objs"
    "refsKey = snapshotName ''refs'' (marshal (refsJson (newRefs refs)))" "manifestKey = snapshotName ''manifest'' (marshal (manifestJson (newManifest objs lfs)))"
    "\<exists>w. contents s2 (snapshotPath i ''refs'' (refsJson (newRefs refs))) = Some (marshal (refsJson (newRefs refs)), w)"
    "length (marshal (refsJson (newRefs refs))) \<le> maxJSONBytes"
    "\<exists>w. contents s2 (snapshotPath i ''manifest'' (manifestJson (newManifest objs lfs))) = Some (marshal (manifestJson (newManifest objs lfs)), w)"
    "length (marshal (manifestJson (newManifest objs lfs))) \<le> maxManifestBytes" "validateLFSPointers st Background i lfs s1 = None"
    "LoadState ops Background i s2 = Inr (withSchema (nextState (sn_state ?orig) refsKey manifestKey), v)"
    "\<forall>k x. k \<noteq> stateKey i \<longrightarrow> contents s1 k = Some x \<longrightarrow> contents s2 k = Some x" "\<forall>k. \<not> prefix (repositoryPrefix i) k \<longrightarrow> contents s2 k = contents s1 k"
    by blast
  have s': "inv s'" "contents s' = (contents s2)(maintenanceLockKey i := None)" using delete_ok [OF p(1)] unl st(1) by (auto simp: unlockRepository_def)
  have keep1: "contents s' k = Some x" if "k \<noteq> stateKey i" "k \<noteq> maintenanceLockKey i" "contents s1 k = Some x" for k x
  proof -
    have "contents s2 k = Some x" using p(12) that(1,3) by blast
    then show ?thesis using that(2) by (simp add: s'(2))
  qed
  have keep2: "contents s' k = Some x" if "k \<noteq> stateKey i" "contents s k = Some x" for k x
  proof -
    have "k \<noteq> maintenanceLockKey i" using that(2) lk by auto
    then show ?thesis using keep1 that lk by auto
  qed
  have out: "contents s' k = contents s k" if "\<not> prefix (repositoryPrefix i) k" for k
    using p(13) lk that lock_key_other(4) [OF that] by (simp add: s'(2))
  have pk: "packed_objects z contents i s' ids (?get s1) reached objs" by (rule packed_objects_kept [OF p(3)]) (simp add: s'(2))
  have dm: "dom (map_of objs) = dom (map_of reached)" by (rule packed_dom [OF p(3)]) (auto simp: ids_def set_newIDs)
  have wf: "al_wf objs" using p(3) pf(3) by (simp add: packed_objects_def)
  have po: "\<exists>b object. map_of objs ident = Some b \<and> validObjectInfo ident b \<and> same_info a b \<and> content ident = Some object \<and>
      readerContent z st snap s' ident = Some object"
    if "map_of reached ident = Some a" "md_ID (sn_metadata snap) = i" "map_of (manifestObjects (sn_manifest snap)) = map_of objs" for ident a snap
    by (rule published_object [OF st(1,2) s'(1) merge known inc content_def i_def ids_def pk get _ that(2,3,1)])
      (use keep2 pf(5) that(1) in blast)+
  have lfsv: "validateLFSPointers st Background i lfs s' = None"
    using p(10) checkLFSRecord_kept [OF st(1) s1(1) s'(1)] keep1 unfolding validateLFSPointers_None by fastforce
  have "md_ID (sn_metadata (?orig\<lparr>sn_manifest := newManifest objs lfs\<rparr>)) = i" "map_of (manifestObjects (sn_manifest (?orig\<lparr>sn_manifest := newManifest objs lfs\<rparr>))) = map_of objs"
    by (simp_all add: i_def manifestObjects_def newManifest_def)
  note pe = po [OF _ this]
  have meta: "maintenanceMetadata st Background namespace name s' = Inr m"
    by (rule maintenanceMetadata_same [OF st(1,2) s'(1) out m(1)]) simp
  have "contents s' (stateKey i) = contents s2 (stateKey i)" by (simp add: s'(2))
  note state = LoadState_same [OF p(1) s'(1) this p(11)]
  obtain w1 where w1: "contents s' (snapshotPath i ''refs'' (refsJson (newRefs refs))) = Some (marshal (refsJson (newRefs refs)), w1)" using p(6) by (auto simp: s'(2))
  obtain w2 where w2: "contents s' (snapshotPath i ''manifest'' (manifestJson (newManifest objs lfs))) = Some (marshal (manifestJson (newManifest objs lfs)), w2)"
    using p(8) by (auto simp: s'(2))
  have ob: "\<forall>ident a. map_of reached ident = Some a \<longrightarrow> (\<exists>b. map_of objs ident = Some b \<and> validObjectInfo ident b \<and> same_info a b)" using pe by blast
  have keys: "RefsSnapshot (withSchema (nextState (sn_state ?orig) refsKey manifestKey)) = snapshotName ''refs'' (marshal (refsJson (newRefs refs)))"
    "PackManifest (withSchema (nextState (sn_state ?orig) refsKey manifestKey)) = snapshotName ''manifest'' (marshal (manifestJson (newManifest objs lfs)))"
    "validBranch (TrimPrefix (DefaultBranch (withSchema (nextState (sn_state ?orig) refsKey manifestKey))) ''refs/heads/'')"
    using p(4,5) branch by (simp_all add: withSchema_def nextState_def)
  obtain snap where snap: "load st Background namespace name s' = Inr snap" "md_ID (sn_metadata snap) = i" "sn_state snap = withSchema (nextState (sn_state ?orig) refsKey manifestKey)"
    "map_of (generationRefs snap) = map_of refs" "set (generationRefs snap) = set refs" "map_of (manifestObjects (sn_manifest snap)) = map_of objs"
    "al_wf (manifestObjects (sn_manifest snap))" "mf_LFS (sn_manifest snap) = Some \<lparr>lfs_Version = 1, lfs_Objects = Some (sortedMap lfs)\<rparr>"
    using generation_loaded [OF st(1,2) s'(1) meta m(2) state keys w1 p(7) w2 p(9) rf(1,3,4) pf(2-6) wf dm ob] by blast
  note pn = po [OF _ snap(2,6)]
  have hl: "healthy z st snap s'"
    by (rule healthy_generation [OF pf(2-6) snap(5,6,7,8) dm]) (use pn lfsv snap(2) in blast)+
  have eq: "readerContent z st snap s' ident = content ident" if "map_of (manifestObjects (sn_manifest snap)) ident \<noteq> None" for ident
  proof -
    have "ident \<in> dom (map_of reached)" using that unfolding dm [symmetric] snap(6) by blast
    then show ?thesis using pn by force
  qed
  have "dom (map_of reached) = {ident. reachable infos content refs ident}" unfolding dom_map_of_fst pf(4) ..
  then have rc: "map_of (manifestObjects (sn_manifest snap)) ident \<noteq> None \<longleftrightarrow> reachable infos content (generationRefs snap) ident" for ident
    unfolding snap(6) reachable_refs [OF snap(5)] using dm by blast
  have rp: "oi_PackKey info \<noteq> []" if "repack" "map_of (manifestObjects (sn_manifest snap)) ident = Some info" for ident info
  proof -
    have "ident \<in> set ids" using that dm unfolding ids_def set_newIDs snap(6) by (metis domIff option.distinct(1))
    then show ?thesis using pk that(2) unfolding packed_objects_def snap(6) by auto
  qed
  have "generationRefs ?orig = refMap" using rm(1) by (simp add: generationRefs_def)
  then show ?thesis using snap(1,3,4) gen rf(2) hl eq rc merge rp au p(2) s' keep2 out by (auto simp: withSchema_def nextState_def)
qed

end

end
