(* ===== verification/PublishProperties.thy ===== *)
theory PublishProperties
  imports PublishGeneration
begin

text \<open>
  The properties of a push and of repacking on the in-memory store.
\<close>

section \<open>The objects of a decoded pack\<close>

lemma workspaceInfos_fold:
  assumes "fold (\<lambda>ident res. rbind res (\<lambda>infos. case f ident of None \<Rightarrow> Inl RepoErrInvalid | Some x \<Rightarrow> Inr (al_put ident (g x) infos))) ids (Inr acc) = Inr infos"
    and "al_wf acc"
  shows "al_wf infos \<and> (\<forall>ident. map_of infos ident = (if ident \<in> set ids then map_option g (f ident) else map_of acc ident))"
  using assms
proof (induction ids arbitrary: acc)
  case (Cons ident ids)
  have fail: "fold (\<lambda>ident res. rbind res (\<lambda>infos. case f ident of None \<Rightarrow> Inl RepoErrInvalid | Some x \<Rightarrow> Inr (al_put ident (g x) infos))) ids (Inl e) = Inl e"
    for ids and e :: err by (induction ids) (simp_all add: rbind_def)
  obtain x where x: "f ident = Some x" using Cons.prems(1) by (cases "f ident") (simp_all add: rbind_def fail [unfolded rbind_def])
  then have "al_wf infos \<and> (\<forall>k. map_of infos k = (if k \<in> set ids then map_option g (f k) else map_of (al_put ident (g x) acc) k))"
    using Cons.IH [of "al_put ident (g x) acc"] Cons.prems by (simp add: rbind_def)
  then show ?case using x by auto
qed simp

lemma workspace_incoming:
  assumes "workspaceInfos incoming = Inr infos" "incoming = None \<or> (\<exists>ctx input lim resolver options w. Decode z ctx input lim resolver options = Inr w \<and> incoming = Some w)"
  shows "incoming_ok infos (workspaceContent incoming)"
proof (cases incoming)
  case None
  then show ?thesis using assms(1) by (simp add: workspaceInfos_def incoming_ok_def al_wf_def)
next
  case (Some w)
  then obtain ctx input lim resolver options where dec: "Decode z ctx input lim resolver options = Inr w" using assms(2) by auto
  note ok = Decode_ok [OF dec]
  have idx: "index_ok w" and cont: "\<forall>e \<in> set (entries w). content_ok w e" using ok(2) by (simp_all add: workspace_ok_def)
  let ?g = "\<lambda>entry. zeroInfo\<lparr>oi_Type := EntryType entry, oi_Size := EntrySize entry, oi_SHA256 := EntrySHA256 entry\<rparr>"
  have fold: "al_wf infos \<and> (\<forall>ident. map_of infos ident = (if ident \<in> set (IDs w) then map_option ?g (Info w ident) else map_of [] ident))"
    by (rule workspaceInfos_fold [where f = "Info w"]) (use assms(1) Some in \<open>simp_all add: workspaceInfos_def al_wf_def\<close>)
  have "\<exists>object. workspaceContent incoming ident = Some object \<and> oi_Type info = ObjectType object \<and> matches_info ident info (ObjectData object)"
    if at: "map_of infos ident = Some info" for ident info
  proof -
    have "map_of infos ident = map_option ?g (Info w ident)" using at spec [OF conjunct2 [OF fold], of ident] by (auto split: if_splits)
    then obtain entry where entry: "Info w ident = Some entry" "info = ?g entry" using at by (cases "Info w ident") auto
    then obtain j where j: "map_of (objectIndex w) ident = Some j" "entry = Entry.truncate (entries w ! j)" by (auto simp: Info_def split: option.splits)
    have e: "j < length (entries w)" "EntryID (entries w ! j) = ident" "ident \<noteq> []" using idx j(1) by (simp_all add: index_ok_def)
    have co: "content_ok w (entries w ! j)" using cont e by simp
    obtain c where c: "files w (path (entries w ! j)) = Some c" "EntrySize (entries w ! j) = int (length c)"
      "ident = objectID (EntryType (entries w ! j)) c" "EntrySHA256 (entries w ! j) = objectSHA256 (EntryType (entries w ! j)) c"
      "typeCode (EntryType (entries w ! j)) \<noteq> 0" "EntrySize (entries w ! j) \<le> MaxObjectBytes lim"
      using co e ok(3) by (auto simp: content_ok_def split: option.splits)
    let ?o = "\<lparr>ObjectType = EntryType (entries w ! j), ObjectData = c\<rparr>"
    have "PackWrite.holds w ?o" using j e c content_ok_path [OF co] by (simp add: PackWrite.holds_def idOf_def sizeOf_def)
    then have "GetObject w Background (idOf ?o) = Inr ?o" using ok(4) by (rule GetObject_holds) simp
    then have "workspaceContent incoming ident = Some ?o" using c(3) Some by (simp add: workspaceContent_def idOf_def)
    moreover have "oi_Type info = EntryType (entries w ! j)" "oi_Size info = int (length c)" "oi_SHA256 info = objectSHA256 (EntryType (entries w ! j)) c"
      using entry(2) j(2) c by (simp_all add: Entry.defs)
    ultimately show ?thesis using c(3) by (intro exI [of _ ?o]) (simp add: matches_info_def)
  qed
  then show ?thesis using fold by (simp add: incoming_ok_def)
qed

section \<open>Publication\<close>


section \<open>Repacking\<close>

lemma memory_load_ctx:
  assumes "st_objects st = memoryOps" "load st ctx namespace name s = Inr snap"
  shows "ctx = Background"
proof -
  obtain b where "read memoryOps ctx (metadataKey namespace name) maxJSONBytes s = Inr b"
    using assms by (auto simp: load_def maintenanceMetadata_def rbind_Inr split: if_splits sum.splits)
  then have "\<exists>x. os_Get memoryOps ctx (metadataKey namespace name) s = Inr x" by (auto simp: read_def split: sum.splits)
  then show ?thesis by (cases ctx) (auto simp: memoryOps_def Get_def split: option.splits)
qed

lemma same_map_set:
  assumes "al_wf a" "al_wf b" "map_of a = map_of b"
  shows "set a = set b"
  using al_wf_map_of [OF assms(1)] al_wf_map_of [OF assms(2)] assms(3) by auto

lemma loaded_refs_wf: "load st ctx namespace name s = Inr snap \<Longrightarrow> al_wf (generationRefs snap)"
  using load_loaded [of st ctx namespace name s snap] by (auto simp: loaded_def generationRefs_def)

interpretation nothing: object_source "\<lambda>_ _ u. (Inl RepoErrNotFound, u)" "\<lambda>_. True" "\<lambda>_. None"
  by unfold_locales simp_all


section \<open>Witnesses\<close>

text \<open>A codec with the assumed properties: runs of 255 bytes with their length in front.\<close>

function chunks :: "bytes \<Rightarrow> bytes" where
  "chunks d = (if length d < 255 then of_nat (length d) # d else 255 # take 255 d @ chunks (drop 255 d))"
  by auto
termination by (relation "measure length") auto

declare chunks.simps [simp del]

function unchunk :: "bytes \<Rightarrow> (bytes \<times> nat) option" where
  "unchunk [] = None"
| "unchunk (b # s) =
     (if length s < unat b then None
      else if b \<noteq> 255 then Some (take (unat b) s, Suc (unat b))
      else (case unchunk (drop (unat b) s) of None \<Rightarrow> None | Some (d, k) \<Rightarrow> Some (take (unat b) s @ d, Suc (unat b) + k)))"
  by pat_completeness auto
termination by (relation "measure length") auto

declare unchunk.simps [simp del]

lemma unat_of_nat_byte: "n < 255 \<Longrightarrow> unat (of_nat n :: byte) = n \<and> (of_nat n :: byte) \<noteq> 255"
proof -
  assume n: "n < 255"
  have m: "unat (255 :: byte) = 255" by simp
  have u: "unat (of_nat n :: byte) = n" using n by (simp add: unat_of_nat)
  have "(of_nat n :: byte) \<noteq> 255"
  proof
    assume "(of_nat n :: byte) = 255"
    then show False using u m n by simp
  qed
  then show ?thesis using u by simp
qed

lemma unchunk_chunks: "unchunk (chunks d @ rest) = Some (d, length (chunks d))"
proof (induction d rule: chunks.induct)
  case (1 d)
  show ?case
  proof (cases "length d < 255")
    case True
    then show ?thesis using unat_of_nat_byte [OF True] by (simp add: chunks.simps [of d] unchunk.simps)
  next
    case False
    then have c: "chunks d = 255 # take 255 d @ chunks (drop 255 d)" by (simp add: chunks.simps [of d])
    have m: "unat (255 :: byte) = 255" by simp
    have "length (take 255 d) = 255" using False by simp
    then show ?thesis using 1 [OF False] unfolding c by (simp add: unchunk.simps m)
  qed
qed

lemma length_chunks: "length (chunks d) \<le> length d + length d div 255 + 1"
proof (induction d rule: chunks.induct)
  case (1 d)
  show ?case
  proof (cases "length d < 255")
    case True
    then show ?thesis by (simp add: chunks.simps [of d])
  next
    case False
    then have "length d div 255 = Suc ((length d - 255) div 255)" by (simp add: le_div_geq)
    then show ?thesis using 1 [OF False] False by (simp add: chunks.simps [of d])
  qed
qed

definition chunkZlib :: zlib where
  "chunkZlib = \<lparr>zl_new = (\<lambda>s e. None),
     zl_read = (\<lambda>s e. case unchunk s of None \<Rightarrow> ([], Inl ErrUnexpectedEOF) | Some (d, n) \<Rightarrow> (d, Inr n)),
     zl_write = (\<lambda>d. [chunks d])\<rparr>"

lemma chunkZlib_laws: "zlib_law chunkZlib" "zlib_bound chunkZlib"
proof -
  show "zlib_law chunkZlib" by (simp add: zlib_law_def chunkZlib_def unchunk_chunks)
  have "length (chunks d) \<le> length d + 524288" if "int (length d) \<le> 16777216" for d
  proof -
    have "length d div 255 \<le> 16777216 div 255" by (rule div_le_mono) (use that in simp)
    then show ?thesis using length_chunks [of d] by simp
  qed
  then show "zlib_bound chunkZlib" by (fastforce simp: zlib_bound_def chunkZlib_def MaxGitObjectBytes_def)
qed

text \<open>A new repository without objects.\<close>

definition demoLock :: lockInputs where
  "demoLock = \<lparr>li_random = replicate 16 1, li_now = demoTime, li_release = Background\<rparr>"

lemma demo_repository:
  "\<exists>s snap. store_wf s \<and> has_room (Suc (Suc (Suc (Suc (Suc (Suc 0)))))) s \<and> load demoLockStore Background ''acme'' ''app'' s = Inr snap \<and> manifestObjects (sn_manifest snap) = []"
proof -
  have new: "New memoryOps = Inr demoLockStore" by (simp add: New_def demoParser_new rbind_def demoLockStore_def)
  define n :: nat where "n = Suc (Suc (Suc (Suc (Suc (Suc 0)))))"
  have room: "has_room (Suc (Suc (Suc (Suc (Suc (Suc (Suc (Suc n)))))))) (NewMemoryStore 0)" by (simp add: has_room_def NewMemoryStore_def n_def)
  obtain m s where cr: "Create unaryZlib demoLockStore (replicate 16 0) demoTime Background ''acme'' demoInput (NewMemoryStore 0) = (Inr m, s)"
    using demo_created [OF room] unfolding demoLockStore_def by blast
  have time: "validTime demoTime" "0 \<le> Unix demoTime" using demo_time by simp_all
  from memory.Create_created [OF new store_wf_New room cr _ time] show ?thesis by (auto simp: demoInput_def manifestObjects_def n_def)
qed

lemma empty_generation:
  assumes "manifestObjects (sn_manifest snap) = []"
  shows "readerContent z st snap s = (\<lambda>_. None)" "readable z st snap s" "collision_free z st snap s c" "pack_names_free z view i (\<lambda>_. None) s"
proof -
  show e: "readerContent z st snap s = (\<lambda>_. None)" using assms by (simp add: readerContent_def fun_eq_iff)
  show "readable z st snap s" "collision_free z st snap s c" using assms e by (simp_all add: readable_def collision_free_def)
  have "Write z Background fullSink ids (Some (resolverOf (\<lambda>_. None))) PackLimits \<noteq> (Inr es, pack)" if ne: "ids \<noteq> []" for ids es pack
  proof
    assume "Write z Background fullSink ids (Some (resolverOf (\<lambda>_. None))) PackLimits = (Inr es, pack)"
    then obtain os where "map (resolverOf (\<lambda>_. None) Background) (sort ids) = map Inr os" by (rule Write_done) (auto simp: PackLimits_def)
    moreover have "sort ids \<noteq> []" using ne by (metis set_empty set_sort)
    then obtain ident rest where "sort ids = ident # rest" by (cases "sort ids") auto
    ultimately show False by (auto simp: resolverOf_def)
  qed
  then show "pack_names_free z view i (\<lambda>_. None) s" by (auto simp: pack_names_free_def)
qed

definition demoUpdate :: RefUpdate where
  "demoUpdate = \<lparr>ru_Name = ''refs/heads/main'', ru_Old = [], ru_New = replicate 40 CHR ''1''\<rparr>"



end
