(* ===== verification/Spec2Isabelle.thy ===== *)
theory Spec2Isabelle
  imports ShardRouter ConcurrentPublication Authz Compaction Capability PackWrite MemoryCache ConfigProperties Admission PublishProperties
begin

text \<open>
  A verification of GitOne S3: a Git service whose repositories live in an S3-compatible object store, sharded by top-level
  namespace. Every theory is a translation of Go code below \<^verbatim>\<open>internal/\<close> with the theorems about it.

  \<^bold>\<open>How the program works.\<close> \<^verbatim>\<open>config\<close> reads the environment. \<^verbatim>\<open>shard\<close> parses a request path, and the hash of its first
  component names the owner shard, which has a bucket of its own. \<^verbatim>\<open>authz\<close> decides what a subject may do with a
  repository. \<^verbatim>\<open>gittransport\<close> admits a bounded number of Git operations, \<^verbatim>\<open>gitpack\<close> decodes the pack of a push into a private
  workspace and writes canonical packs, and \<^verbatim>\<open>repository\<close> checks the new references and their object graph against the
  current generation of the repository. \<^verbatim>\<open>storage\<close> keeps immutable artifacts (packs, manifests, reference snapshots) and one
  mutable object per repository, its state, which a publication replaces by a compare-and-swap. \<^verbatim>\<open>cache\<close> keeps loaded values
  within a byte budget, \<^verbatim>\<open>maintenance\<close> decides which packs a push compacts.

  \<^bold>\<open>Theories and sources\<close>, in import order. A definition has the name of the Go function or type it translates, a record field the name
  of the struct field (with a prefix where two structs share it), and the pieces of a long function have names of their own.

  \<^item> \<open>Prelude\<close>, \<open>GoStrings\<close>, \<open>Digest\<close>, \<open>Json\<close>, \<open>JsonStruct\<close>: error values, contexts and wrap-around, and what the sources use of the Go
    packages \<^verbatim>\<open>strings\<close>, \<^verbatim>\<open>unicode/utf8\<close>, \<^verbatim>\<open>path\<close>, \<^verbatim>\<open>crypto/sha256\<close>, \<^verbatim>\<open>encoding/hex\<close> and \<^verbatim>\<open>encoding/json\<close>.
  \<^item> \<open>ShardHash\<close>, \<open>ShardPath\<close>, \<open>ShardRouter\<close>: \<^verbatim>\<open>shard/hash.go\<close>, \<^verbatim>\<open>path.go\<close>, \<^verbatim>\<open>router.go\<close>. The digest loop is the XXH64 of its
    specification; the parser accepts the documented paths only, no encoded separator passes it, and all spellings of a
    repository have one owner.
  \<^item> \<open>ObjectKey\<close>, \<open>MemoryStore\<close>, \<open>ObjectStore\<close>, \<open>Multipart\<close>, \<open>Capability\<close>: \<^verbatim>\<open>storage/key.go\<close>, \<^verbatim>\<open>object.go\<close>, \<^verbatim>\<open>memory.go\<close>, \<^verbatim>\<open>multipart.go\<close>,
    \<^verbatim>\<open>memory_multipart.go\<close>, \<^verbatim>\<open>capability.go\<close>. The documented contract of \<^verbatim>\<open>storage.ObjectStore\<close> is the locale \<open>object_store\<close>
    (\<open>sized_store\<close> with sizes and ranges, \<open>strict_store\<close> with what the probe checks); the in-memory store interprets all of them.
    The start-up probe passes on every strict store and refuses a store that ignores a precondition.
  \<^item> \<open>RepositoryStore\<close>, \<open>Publication\<close>, \<open>ConcurrentPublication\<close>: \<^verbatim>\<open>storage/repository.go\<close>. A publication is shown to be all or nothing, to
    require durable references, to happen at most once per version, and to succeed when nobody interferes; as a state machine
    whose steps are the single calls of the store, concurrent publications produce one linear history of generations.
  \<^item> \<open>Authz\<close>, \<open>Compaction\<close>, \<open>MemoryCache\<close>, \<open>Admission\<close>: \<^verbatim>\<open>authz/authorizer.go\<close>, \<^verbatim>\<open>maintenance/compaction.go\<close>, the memory side of
    \<^verbatim>\<open>cache/cache.go\<close>, and \<^verbatim>\<open>gittransport/admission.go\<close>. The last two are step relations over all interleavings: the
    cache keeps its budget and loads a key once at a time, the admission never exceeds its bounds, leaks no slot and ends.
  \<^item> \<open>Config\<close>, \<open>ConfigProperties\<close>: \<^verbatim>\<open>config/config.go\<close> and its parts for authentication, SSH, LFS, caches and metrics.
  \<^item> \<open>PackFormat\<close>, \<open>PackDelta\<close>, \<open>PackWorkspace\<close>, \<open>PackInvariant\<close>, \<open>PackWrite\<close>: \<^verbatim>\<open>gitpack/pack.go\<close>, \<^verbatim>\<open>delta.go\<close>, \<^verbatim>\<open>write.go\<close>. A decoded
    workspace keeps its budgets and holds only objects with the hash they are named by; what is written decodes to the same objects.
  \<^item> \<open>RepositoryRules\<close>, \<open>GitGraph\<close>, \<open>GitReach\<close>, \<open>RefUpdates\<close>, \<open>LfsPointer\<close>: \<^verbatim>\<open>repository/repository.go\<close>, \<^verbatim>\<open>transport.go\<close>, \<^verbatim>\<open>packed.go\<close>,
    \<^verbatim>\<open>graph_cache.go\<close>, \<^verbatim>\<open>lfs_pointer.go\<close>: names, references and manifests, the links of Git objects, the three walks of the object
    graph, the reference changes of a push, and the LFS pointers of a generation. The walks are verified against the locale
    \<open>object_source\<close>, which the workspace of a decoded pack, a map of incoming objects and the reader of a generation satisfy.
  \<^item> \<open>GoTime\<close>, \<open>RepositorySnapshots\<close>, \<open>RepositoryCreate\<close>, \<open>CreateProperties\<close>: \<^verbatim>\<open>repository/repository.go\<close> and the snapshots of \<^verbatim>\<open>git.go\<close>. The
    JSON forms of references, manifests and metadata are read back as written; a creation is all or nothing and loads as it was returned.
  \<^item> \<open>RepositoryLock\<close>: \<^verbatim>\<open>repository/maintenance_lock.go\<close>. A step relation of lockers, crashes and other writers: at most one holds the lock.
  \<^item> \<open>ObjectRead\<close>, \<open>GenerationReader\<close>: reading objects of a pinned generation (\<^verbatim>\<open>git.go\<close>, \<^verbatim>\<open>cache.go\<close>, \<^verbatim>\<open>packed.go\<close>), loose or from packs, with prefetched
    temporary files. What was stored is served, nothing else is, the caches are bounded, and validation accepts exactly the connected generations.
  \<^item> \<open>GenerationPublish\<close>, \<open>PublishArtifacts\<close>, \<open>PublishLoad\<close>, \<open>PublishGeneration\<close>, \<open>PublishProperties\<close>: \<^verbatim>\<open>PublishPack\<close>, \<^verbatim>\<open>publishObjects\<close>, \<^verbatim>\<open>storePack\<close> and \<^verbatim>\<open>Repack\<close> of
    \<^verbatim>\<open>packed.go\<close>, their callers in \<^verbatim>\<open>transport.go\<close> and the LFS records of \<^verbatim>\<open>lfs.go\<close>. This joins the parts: the graph that a push is checked on is
    the graph that a later load of the published generation finds in the store, and a refused push leaves the loaded generation alone.

  \<^bold>\<open>Conventions.\<close> A call that returns \<^verbatim>\<open>(T, error)\<close> is a sum with the error on the left, a call that returns only an error an
  option. Errors are the values that \<^verbatim>\<open>errors.Is\<close> distinguishes; their texts are not modelled. A locked region is one step. A Go
  map is an association list in an arbitrary order where the code ranges over it. Integers are words or signed values with explicit
  wrap-around where the code can reach the limits. A \<^verbatim>\<open>Context\<close> has one answer during a sequential call; the step relations of
  \<open>Admission\<close>, \<open>MemoryCache\<close> and \<open>ConcurrentPublication\<close> let it change between steps.

  \<^bold>\<open>Termination.\<close> Every loop is a total function with a measure: the walk loops decrease the number of objects not yet
  visited, the decoders the bytes left, the delta resolution runs the number of passes the code allows. Only the JSON parser takes
  fuel, one more than the length of its input, and the round trips of \<open>Json\<close> show that it suffices for everything the program prints. The
  runs of the step relation of \<open>Admission\<close> have a proved bound.

  \<^bold>\<open>Parameters.\<close> Code outside the sources is an argument: \<^verbatim>\<open>compress/zlib\<close> (with \<open>zlib_law\<close>, that its reader inverts its
  writer, and \<open>zlib_bound\<close>, that it expands by little, hypotheses of the round trips and publications), the URL, duration and base64 parsers of the
  configuration, random identifiers and the clock, the writer that receives a pack, and the provider behind \<^verbatim>\<open>storage.ObjectStore\<close>. The private temporary
  files do not fail. SHA-1 and SHA-256 are computed; the theorems on publications assume that the objects and packs at hand do not
  collide (\<open>collision_free\<close>, \<open>pack_names_free\<close>), no other theorem does.

  \<^bold>\<open>Not modelled.\<close> The HTTP, SSH and LFS front ends and the proxy (\<^verbatim>\<open>httpserver\<close>, \<^verbatim>\<open>webui\<close>, \<^verbatim>\<open>sshserver\<close>, \<^verbatim>\<open>lfs\<close>, \<^verbatim>\<open>proxy\<close>, \<^verbatim>\<open>protocol\<close>, the packet
  streams of \<^verbatim>\<open>gittransport\<close>), the wiring in \<^verbatim>\<open>app\<close>, \<^verbatim>\<open>s3check\<close> and \<^verbatim>\<open>cmd\<close>, the metrics, and the S3 client \<^verbatim>\<open>storage/s3store\<close> are glue around network
  libraries. The on-disk cache \<^verbatim>\<open>cache/disk.go\<close> and the identity file \<^verbatim>\<open>config/identity.go\<close> are file system code; the repository
  is modelled as it runs without a shared cache. Of \<^verbatim>\<open>repository\<close>, the browsing, the uploads and quota of LFS and the garbage
  collection, and of \<^verbatim>\<open>auth\<close> the accounts, are left out.
\<close>

text \<open>
  A configuration that passes validation is accepted by the Git transport: the admission limits that \<^verbatim>\<open>app.New\<close> passes on
  are in range after their defaults, and a limit that is set is used as it is.
\<close>

theorem valid_config_admitted:
  assumes "Validate lib c = None"
  shows "\<exists>opts. admissionOptions [\<lparr>opt_Concurrent = MaxConcurrentOperations (cfg_Git c), opt_Queued = MaxQueuedOperations (cfg_Git c),
      opt_Timeout = QueueTimeout (cfg_Git c)\<rparr>] = Inr opts \<and>
    1 \<le> opt_Concurrent opts \<and> opt_Concurrent opts \<le> 32 \<and> opt_Queued opts = MaxQueuedOperations (cfg_Git c) \<and>
    (MaxConcurrentOperations (cfg_Git c) \<noteq> 0 \<longrightarrow> opt_Concurrent opts = MaxConcurrentOperations (cfg_Git c)) \<and>
    (QueueTimeout (cfg_Git c) \<noteq> 0 \<longrightarrow> opt_Timeout opts = QueueTimeout (cfg_Git c))"
proof -
  have "0 \<le> MaxConcurrentOperations (cfg_Git c)" "MaxConcurrentOperations (cfg_Git c) \<le> 32" "0 \<le> MaxQueuedOperations (cfg_Git c)"
    "MaxQueuedOperations (cfg_Git c) \<le> 1024" "0 \<le> QueueTimeout (cfg_Git c)" "QueueTimeout (cfg_Git c) \<le> 90 * 1000000000"
    using assms by (simp_all add: Validate_def firstErr_None second_def)
  then show ?thesis by (auto simp: admissionOptions_def Let_def)
qed

theorem valid_config_admitted_witness:
  "\<exists>opts. admissionOptions [\<lparr>opt_Concurrent = 1, opt_Queued = 4, opt_Timeout = 5000000000\<rparr>] = Inr opts \<and> opt_Concurrent opts = 1"
proof -
  have "(2 :: 32 word) < 12" by (simp add: word_less_nat_alt)
  from valid_config_admitted [OF sample_valid [OF this]] show ?thesis by (auto simp: sampleConfig_def)
qed

end
